(* ===== verification/Prelude.thy ===== *)
theory Prelude
  imports Main "HOL-Library.Word" "HOL-Library.Monad_Syntax" "HOL-Library.AList"
begin

text \<open>
  Shared vocabulary of the development.

  A Rust function that can panic (an out-of-range index, \<open>unwrap\<close> of \<open>None\<close>,
  \<open>panic!\<close>, \<open>unreachable!\<close>, a failed \<open>assert!\<close>) or that may not return is a
  HOL function into \<open>option\<close>: \<open>None\<close> stands for "does not return a value". Such
  functions are composed with the \<open>do\<close> notation of the option monad. A function that
  mutates a namespace or a graph takes the state and returns the updated one next to its
  result.

  \<open>Vec\<close> is a list. \<open>HashMap\<close> is a map. \<open>IndexMap\<close>, whose iteration order is
  observable, is an association list with distinct keys: \<open>map_of\<close> is \<open>get\<close>,
  \<open>AList.update\<close> is \<open>insert\<close> (it keeps the position of an existing key and
  appends a new one) and \<open>swap_remove\<close> moves the last entry into the freed position.
\<close>

named_theorems vec_simps \<open>facts about the vector operations of the Rust standard library\<close>
named_theorems bytes_simps \<open>values of little-endian byte strings\<close>
named_theorems index_map_simps \<open>lookups in ordered maps after an update\<close>

type_synonym u8 = "8 word"
type_synonym ('k, 'v) index_map = "('k \<times> 'v) list"

section \<open>Vectors\<close>

definition vec_get :: "'a list \<Rightarrow> nat \<Rightarrow> 'a option" where
  "vec_get xs i = (if i < length xs then Some (xs ! i) else None)"

definition vec_truncate :: "'a list \<Rightarrow> nat \<Rightarrow> 'a list" where
  "vec_truncate xs n = take n xs"

definition vec_resize :: "'a list \<Rightarrow> nat \<Rightarrow> 'a \<Rightarrow> 'a list" where
  "vec_resize xs n x = (if n \<le> length xs then take n xs else xs @ replicate (n - length xs) x)"

lemma vec_get_Some [vec_simps]: "vec_get xs i = Some x \<longleftrightarrow> i < length xs \<and> xs ! i = x"
  by (auto simp: vec_get_def)

lemma vec_get_in_set: "vec_get xs i = Some x \<Longrightarrow> x \<in> set xs"
  by (auto simp: vec_get_def split: if_splits)

lemma length_vec_resize [vec_simps, simp]: "length (vec_resize xs n x) = n"
  by (auto simp: vec_resize_def)

lemma take_vec_resize: "n \<le> m \<Longrightarrow> n \<le> length xs \<Longrightarrow> take n (vec_resize xs m x) = take n xs"
  by (auto simp: vec_resize_def)

section \<open>Sequencing computations that may panic\<close>

primrec seq_opt :: "'a option list \<Rightarrow> 'a list option" where
  "seq_opt [] = Some []"
| "seq_opt (m # ms) = do { x \<leftarrow> m; xs \<leftarrow> seq_opt ms; Some (x # xs) }"

text \<open>The same with a state that every computation may change, in order.\<close>

primrec seq_st :: "('s \<Rightarrow> ('a \<times> 's) option) list \<Rightarrow> 's \<Rightarrow> ('a list \<times> 's) option" where
  "seq_st [] s = Some ([], s)"
| "seq_st (m # ms) s = do { (x, s) \<leftarrow> m s; (xs, s) \<leftarrow> seq_st ms s; Some (x # xs, s) }"

lemma seq_opt_map_Some: "seq_opt (map (\<lambda>x. Some (f x)) xs) = Some (map f xs)"
  by (induction xs) auto

lemma seq_opt_eq_Some: "seq_opt ms = Some xs \<longleftrightarrow> ms = map Some xs"
  by (induction ms arbitrary: xs) (auto simp: Option.bind_eq_Some_conv)

lemma seq_opt_map_in_set: "seq_opt (map g xs) = Some ys \<Longrightarrow> y \<in> set ys \<Longrightarrow> \<exists>x \<in> set xs. g x = Some y"
  by (induction xs arbitrary: ys) (auto simp: Option.bind_eq_Some_conv)

lemma seq_opt_length: "seq_opt ms = Some xs \<Longrightarrow> length xs = length ms"
  by (simp add: seq_opt_eq_Some)

lemma seq_st_length: "seq_st ms s = Some (xs, t) \<Longrightarrow> length xs = length ms"
  by (induction ms arbitrary: s xs) (auto simp: Option.bind_eq_Some_conv)

text \<open>An invariant of every computation is an invariant of the sequence.\<close>

lemma seq_st_invariant:
  assumes "seq_st ms s = Some (xs, t)" and "P s"
    and "\<And>m s x t. m \<in> set ms \<Longrightarrow> P s \<Longrightarrow> m s = Some (x, t) \<Longrightarrow> P t"
  shows "P t"
  using assms
proof (induction ms arbitrary: s xs)
  case Nil
  then show ?case by simp
next
  case (Cons m ms)
  from Cons.prems(1) obtain x u ys where step: "m s = Some (x, u)" "seq_st ms u = Some (ys, t)"
    by (auto simp: Option.bind_eq_Some_conv)
  have "P u" using Cons.prems(2,3) step(1) by auto
  with step(2) show ?case using Cons.IH Cons.prems(3) by (metis list.set_intros(2))
qed

section \<open>Ordered maps\<close>

definition wf_index_map :: "('k, 'v) index_map \<Rightarrow> bool" where
  "wf_index_map m \<longleftrightarrow> distinct (map fst m)"

fun swap_remove :: "'k \<Rightarrow> ('k, 'v) index_map \<Rightarrow> ('k, 'v) index_map" where
  "swap_remove k [] = []"
| "swap_remove k ((k', v) # xs) =
     (if k = k' then (if xs = [] then [] else last xs # butlast xs)
      else (k', v) # swap_remove k xs)"

text \<open>
  What the passes rely on: a lookup after an update or a removal, and that the keys stay
  distinct. The laws are the interface of the ordered map; clients use them through the
  interpretation below.
\<close>

locale ordered_map =
  fixes lookup :: "'m \<Rightarrow> 'k \<Rightarrow> 'v option"
    and insert :: "'k \<Rightarrow> 'v \<Rightarrow> 'm \<Rightarrow> 'm"
    and remove :: "'k \<Rightarrow> 'm \<Rightarrow> 'm"
    and valid :: "'m \<Rightarrow> bool"
  assumes lookup_insert: "valid m \<Longrightarrow> lookup (insert k v m) = (lookup m)(k \<mapsto> v)"
    and lookup_remove: "valid m \<Longrightarrow> lookup (remove k m) = (lookup m)(k := None)"
    and valid_insert: "valid m \<Longrightarrow> valid (insert k v m)"
    and valid_remove: "valid m \<Longrightarrow> valid (remove k m)"
begin

lemma lookup_remove_insert:
  "valid m \<Longrightarrow> lookup (insert k v (remove k m)) = (lookup m)(k \<mapsto> v)"
  by (simp add: lookup_insert lookup_remove valid_remove)

lemma lookup_fold_insert:
  "valid m \<Longrightarrow>
   lookup (fold (\<lambda>(k, v). insert k v) kvs m) = lookup m ++ map_of (rev kvs) \<and>
   valid (fold (\<lambda>(k, v). insert k v) kvs m)"
  by (induction kvs arbitrary: m)
     (auto simp: lookup_insert valid_insert map_add_def fun_eq_iff split: option.splits)

end

lemma set_swap_remove:
  "distinct (map fst m) \<Longrightarrow> set (swap_remove k m) = {(k', v). (k', v) \<in> set m \<and> k' \<noteq> k}"
proof (induction k m rule: swap_remove.induct)
  case (1 k)
  then show ?case by simp
next
  case (2 k k' v xs)
  then show ?case by (cases xs rule: rev_cases) (auto simp: rev_image_eqI)
qed

lemma distinct_swap_remove:
  "distinct (map fst m) \<Longrightarrow> distinct (map fst (swap_remove k m))"
proof (induction k m rule: swap_remove.induct)
  case (1 k)
  then show ?case by simp
next
  case (2 k k' v xs)
  moreover have "fst ` set (swap_remove k xs) \<subseteq> fst ` set xs"
    using 2 set_swap_remove [of xs k] by auto
  ultimately show ?case by (cases xs rule: rev_cases) auto
qed

lemma map_of_swap_remove:
  assumes "distinct (map fst m)"
  shows "map_of (swap_remove k m) = (map_of m)(k := None)"
proof -
  have "map_of (swap_remove k m) x = Some v \<longleftrightarrow> ((map_of m)(k := None)) x = Some v" for x v
    using assms distinct_swap_remove [OF assms, of k] set_swap_remove [OF assms, of k]
    by (auto simp: map_of_eq_Some_iff)
  then show ?thesis by (intro ext) (metis not_None_eq)
qed

interpretation imap: ordered_map map_of AList.update swap_remove wf_index_map
  by unfold_locales
     (auto simp: wf_index_map_def update_conv' map_of_swap_remove distinct_update
       distinct_swap_remove)

lemmas [index_map_simps] = imap.lookup_insert imap.lookup_remove imap.valid_insert
  imap.valid_remove

section \<open>Decimal notation\<close>

text \<open>What \<open>format!\<close> prints for an integer.\<close>

fun dec_nat :: "nat \<Rightarrow> string" where
  "dec_nat n = (if n < 10 then [char_of (48 + n)]
                else dec_nat (n div 10) @ [char_of (48 + n mod 10)])"

declare dec_nat.simps [simp del]

definition dec_int :: "int \<Rightarrow> string" where
  "dec_int v = (if v < 0 then ''-'' @ dec_nat (nat (- v)) else dec_nat (nat v))"

end
