(* ===== verification/Ast.thy ===== *)
theory Ast
  imports Complex_Main Prelude
begin

text \<open>
  The data of the compiler's middle end: source locations (\<open>solang-parser/src/pt.rs\<close>),
  the target chain (\<open>src/lib.rs\<close>), the types and declarations of the resolved program
  (\<open>src/sema/ast.rs\<close>), the expressions of the control flow graph
  (\<open>src/codegen/mod.rs\<close>), diagnostics and the namespace.

  Constructors carry the names of the Rust variants and are written with their type's name
  (\<open>Type.Uint\<close>, \<open>Expression.Add\<close>), fields in the order of the declaration. Integers of
  the host (\<open>usize\<close>, \<open>u16\<close> widths, indices) are \<open>nat\<close>; \<open>BigInt\<close> is
  \<open>int\<close>; documentation tags and the parts of the namespace that only name resolution
  uses are left out.
\<close>

section \<open>Locations, targets, identifiers\<close>

datatype Loc = Builtin | CommandLine | Implicit | Codegen | File nat nat nat

datatype Target = Solana | Polkadot nat nat | EVM | Soroban

record Identifier =
  id_loc :: Loc
  id_name :: string

datatype Mutability = Payable Loc | Nonpayable Loc | View Loc | Pure Loc

datatype StorageType = Temporary "Loc option" | Persistent "Loc option" | Instance "Loc option"

section \<open>Types\<close>

datatype ArrayLength = Fixed int | Dynamic | AnyFixed

datatype StructType = UserDefined nat | AccountInfo | AccountMeta | ExternalFunction | SolParameters

datatype (plugins only: size code) Type =
    Address bool
  | Bool
  | Int nat
  | Uint nat
  | Rational
  | Bytes nat
  | DynamicBytes
  | String
  | Array Type "ArrayLength list"
  | Enum nat
  | Struct StructType
  | Mapping Type "Identifier option" Type "Identifier option"
  | Contract nat
  | Ref Type
  | StorageRef bool Type
  | InternalFunction Mutability "Type list" "Type list"
  | ExternalFunction Mutability "Type list" "Type list"
  | UserType nat
  | Value
  | Void
  | Unreachable
  | Slice Type
  | Unresolved
  | BufferPointer
  | FunctionSelector

record ParameterAnnotation =
  pa_loc :: Loc
  pa_id :: Identifier

record Parameter =
  p_loc :: Loc
  p_id :: "Identifier option"
  p_ty :: Type
  p_ty_loc :: "Loc option"
  p_indexed :: bool
  p_readonly :: bool
  p_infinite_size :: bool
  p_recursive :: bool
  p_annotation :: "ParameterAnnotation option"

record StructDecl =
  s_id :: Identifier
  s_loc :: Loc
  s_contract :: "string option"
  s_fields :: "Parameter list"
  s_offsets :: "int list"
  s_storage_offsets :: "int list"

record EnumDecl =
  e_id :: Identifier
  e_contract :: "string option"
  e_loc :: Loc
  e_ty :: Type
  e_values :: "(string, Loc) index_map"

record UserTypeDecl =
  u_loc :: Loc
  u_name :: string
  u_ty :: Type
  u_contract :: "string option"

record Layout =
  l_slot :: int
  l_contract_no :: nat
  l_var_no :: nat
  l_ty :: Type

record Variable =
  v_name :: string
  v_loc :: Loc
  v_ty :: Type
  v_constant :: bool
  v_immutable :: bool
  v_assigned :: bool
  v_read :: bool
  v_storage_type :: "StorageType option"

record Contract =
  c_id :: Identifier
  c_bases :: "nat list"
  c_layout :: "Layout list"
  c_fixed_layout_size :: int
  c_variables :: "Variable list"
  c_creates :: "nat list"
  c_instantiable :: bool

section \<open>Expressions of the control flow graph\<close>

datatype 't StringLocation = CompileTime "u8 list" | RunTime 't

datatype FormatArg = StringLiteral | Default | Binary | Hex

datatype (plugins only: size code) Builtin =
    Accounts | AddMod | ArrayLength | Balance | Blake2_128 | Blake2_256 | BlockCoinbase
  | BlockDifficulty | BlockHash | BlockNumber | Calldata | ChainId | ContractCode | Gasleft
  | GasLimit | Gasprice | BaseFee | PrevRandao | GetAddress | ExtCodeSize | MinimumBalance
  | MulMod | Keccak256 | Origin | ReadFromBuffer | Ripemd160 | Sender | Slot | Sha256
  | Signature | SignatureVerify | Timestamp | Value | WriteAddress | WriteInt8 | WriteInt16LE
  | WriteInt32LE | WriteInt64LE | WriteInt128LE | WriteInt256LE | WriteUint16LE | WriteUint32LE
  | WriteUint64LE | WriteUint128LE | WriteUint256LE | WriteBytes | Concat | RequireAuth
  | AuthAsCurrContract | ExtendTtl | ExtendInstanceTtl | AccessMapping

datatype (plugins only: size code) Expression =
    Add Loc Type bool Expression Expression
  | AllocDynamicBytes Loc Type Expression "u8 list option"
  | ArrayLiteral Loc Type "nat list" "Expression list"
  | BitwiseAnd Loc Type Expression Expression
  | BitwiseOr Loc Type Expression Expression
  | BitwiseXor Loc Type Expression Expression
  | BoolLiteral Loc bool
  | Builtin Loc "Type list" Builtin "Expression list"
  | BytesCast Loc Type Type Expression
  | BytesLiteral Loc Type "u8 list"
  | Cast Loc Type Expression
  | BitwiseNot Loc Type Expression
  | ConstArrayLiteral Loc Type "nat list" "Expression list"
  | UnsignedDivide Loc Type Expression Expression
  | SignedDivide Loc Type Expression Expression
  | Equal Loc Expression Expression
  | FormatString Loc "(FormatArg \<times> Expression) list"
  | FunctionArg Loc Type nat
  | GetRef Loc Type Expression
  | InternalFunctionCfg Type nat
  | Keccak256 Loc Type "Expression list"
  | Less Loc bool Expression Expression
  | LessEqual Loc bool Expression Expression
  | Load Loc Type Expression
  | UnsignedModulo Loc Type Expression Expression
  | SignedModulo Loc Type Expression Expression
  | More Loc bool Expression Expression
  | MoreEqual Loc bool Expression Expression
  | Multiply Loc Type bool Expression Expression
  | Not Loc Expression
  | NotEqual Loc Expression Expression
  | NumberLiteral Loc Type int
  | Poison
  | Power Loc Type bool Expression Expression
  | RationalNumberLiteral Loc Type rat
  | ReturnData Loc
  | SignExt Loc Type Expression
  | ShiftLeft Loc Type Expression Expression
  | ShiftRight Loc Type Expression Expression bool
  | StorageArrayLength Loc Type Expression Type
  | StringCompare Loc "Expression StringLocation" "Expression StringLocation"
  | StructLiteral Loc Type "Expression list"
  | StructMember Loc Type Expression nat
  | Subscript Loc Type Type Expression Expression
  | Subtract Loc Type bool Expression Expression
  | Trunc Loc Type Expression
  | Negate Loc Type bool Expression
  | Undefined Type
  | Variable Loc Type nat
  | ZeroExt Loc Type Expression
  | AdvancePointer Expression Expression
  | VectorData Expression

section \<open>Diagnostics and the namespace\<close>

datatype Level = Debug | Info | Warning | Error

datatype ErrorType = NoType | ParserError | SyntaxError | DeclarationError | CastError
  | TypeError | WarningType

record Note =
  n_loc :: Loc
  n_message :: string

record Diagnostic =
  d_loc :: Loc
  d_level :: Level
  d_ty :: ErrorType
  d_message :: string
  d_notes :: "Note list"

record Diagnostics =
  contents :: "Diagnostic list"
  has_error :: bool

record Namespace =
  target :: Target
  enums :: "EnumDecl list"
  structs :: "StructDecl list"
  contracts :: "Contract list"
  user_types :: "UserTypeDecl list"
  address_length :: nat
  value_length :: nat
  diagnostics :: Diagnostics
  next_id :: nat
  var_constants :: "Loc \<rightharpoonup> Expression"
  hover_overrides :: "Loc \<rightharpoonup> string"
  strict_soroban_types :: bool

definition error_diagnostic :: "Loc \<Rightarrow> string \<Rightarrow> Diagnostic" where
  "error_diagnostic loc message =
     \<lparr>d_loc = loc, d_level = Error, d_ty = SyntaxError, d_message = message, d_notes = []\<rparr>"

definition warning_diagnostic :: "Loc \<Rightarrow> string \<Rightarrow> Diagnostic" where
  "warning_diagnostic loc message =
     \<lparr>d_loc = loc, d_level = Warning, d_ty = WarningType, d_message = message, d_notes = []\<rparr>"

definition any_errors :: "Diagnostics \<Rightarrow> bool" where
  "any_errors ds = has_error ds"

definition push :: "Diagnostics \<Rightarrow> Diagnostic \<Rightarrow> Diagnostics" where
  "push ds d =
     (let ds = (if d_level d = Error then ds\<lparr>has_error := True\<rparr> else ds)
      in ds\<lparr>contents := contents ds @ [d]\<rparr>)"

definition extend :: "Diagnostics \<Rightarrow> Diagnostics \<Rightarrow> Diagnostics" where
  "extend ds es = \<lparr>contents = contents ds @ contents es, has_error = (has_error ds \<or> has_error es)\<rparr>"

definition append_diagnostics :: "Diagnostics \<Rightarrow> Diagnostic list \<Rightarrow> Diagnostics" where
  "append_diagnostics ds es =
     (let ds = (if has_error ds then ds else ds\<lparr>has_error := (\<exists>m \<in> set es. d_level m = Error)\<rparr>)
      in ds\<lparr>contents := contents ds @ es\<rparr>)"

definition push_ns :: "Namespace \<Rightarrow> Diagnostic \<Rightarrow> Namespace" where
  "push_ns ns d = ns\<lparr>diagnostics := push (diagnostics ns) d\<rparr>"

text \<open>The cached error flag says exactly whether an error was recorded.\<close>

definition wf_diagnostics :: "Diagnostics \<Rightarrow> bool" where
  "wf_diagnostics ds \<longleftrightarrow> has_error ds = (\<exists>d \<in> set (contents ds). d_level d = Error)"

lemma wf_push: "wf_diagnostics ds \<Longrightarrow> wf_diagnostics (push ds d)"
  by (auto simp: wf_diagnostics_def push_def Let_def)

lemma wf_extend: "wf_diagnostics ds \<Longrightarrow> wf_diagnostics es \<Longrightarrow> wf_diagnostics (extend ds es)"
  by (auto simp: wf_diagnostics_def extend_def)

lemma wf_append_diagnostics: "wf_diagnostics ds \<Longrightarrow> wf_diagnostics (append_diagnostics ds es)"
  by (auto simp: wf_diagnostics_def append_diagnostics_def Let_def)

lemma push_has_error [simp]: "has_error (push ds d) \<longleftrightarrow> has_error ds \<or> d_level d = Error"
  by (auto simp: push_def Let_def)

lemma push_ns_simps [simp]:
  "has_error (diagnostics (push_ns ns d)) \<longleftrightarrow> has_error (diagnostics ns) \<or> d_level d = Error"
  "target (push_ns ns d) = target ns" "enums (push_ns ns d) = enums ns"
  "structs (push_ns ns d) = structs ns" "user_types (push_ns ns d) = user_types ns"
  "contracts (push_ns ns d) = contracts ns"
  "address_length (push_ns ns d) = address_length ns"
  "value_length (push_ns ns d) = value_length ns"
  by (simp_all add: push_ns_def)

lemma error_diagnostic_level [simp]: "d_level (error_diagnostic loc m) = Error"
  by (simp add: error_diagnostic_def)

end
