(* ===== verification/Bigint.thy ===== *)
theory Bigint
  imports Prelude
begin

text \<open>
  The interface to the crates the compiler calls and whose code is not part of the
  repository: the byte conversions of \<open>num_bigint::BigInt\<close> and the hash functions.
  \<open>BigInt\<close> itself is the type \<open>int\<close> (its arithmetic, comparisons and bit
  operations are those of mathematical integers in two's complement); the functions that
  turn an integer into bytes and back are fields of the record \<open>crates\<close>, an argument of
  every definition that uses them. Their documented behaviour is the locale
  \<open>bigint_crate\<close>. The constant \<open>crates_impl\<close> is one implementation that meets
  it; the witnesses evaluate with it.
\<close>

section \<open>Values of byte strings\<close>

text \<open>An integer in the upper half of the unsigned range wraps to a negative one.\<close>

lemma signed_take_bit_upper:
  fixes x :: int
  assumes "2 ^ n \<le> x" and "x < 2 ^ Suc n"
  shows "signed_take_bit n x = x - 2 ^ Suc n"
proof -
  have "(x + 2 ^ n) mod 2 ^ Suc n = (x - 2 ^ n + 2 ^ Suc n) mod 2 ^ Suc n"
    by (simp add: algebra_simps)
  also have "\<dots> = (x - 2 ^ n) mod 2 ^ Suc n" by (rule mod_add_self2)
  also have "\<dots> = x - 2 ^ n" using assms by (intro mod_pos_pos_trivial) auto
  finally show ?thesis by (simp add: signed_take_bit_eq_take_bit_shift take_bit_eq_mod)
qed

primrec le_val :: "u8 list \<Rightarrow> int" where
  "le_val [] = 0"
| "le_val (b # bs) = uint b + 256 * le_val bs"

definition le_sval :: "u8 list \<Rightarrow> int" where
  "le_sval bs = (if bs \<noteq> [] \<and> 128 \<le> uint (last bs) then le_val bs - 256 ^ length bs
                 else le_val bs)"

lemma uint_u8_bounds [simp]: "0 \<le> uint (b :: u8)" "uint (b :: u8) < 256"
  using uint_bounded [of b] by auto

lemma le_val_append [bytes_simps]:
  "le_val (xs @ ys) = le_val xs + 256 ^ length xs * le_val ys"
  by (induction xs) (auto simp: algebra_simps)

lemma le_val_nonneg [simp]: "0 \<le> le_val bs"
  by (induction bs) auto

lemma le_val_less [simp]: "le_val bs < 256 ^ length bs"
proof (induction bs)
  case (Cons b bs)
  have "le_val bs + 1 \<le> 256 ^ length bs" using Cons by simp
  then have "256 * le_val bs + 256 \<le> 256 * 256 ^ length bs" by linarith
  then show ?case using uint_u8_bounds(2) [of b] by (simp del: uint_u8_bounds)
qed simp

lemma le_val_take [bytes_simps]: "le_val (take n bs) = le_val bs mod 256 ^ n"
proof (cases "n \<le> length bs")
  case True
  have "le_val bs = le_val (take n bs) + 256 ^ n * le_val (drop n bs)"
    using le_val_append [of "take n bs" "drop n bs"] True by (simp add: min_absorb2)
  moreover have "le_val (take n bs) < 256 ^ n"
    using le_val_less [of "take n bs"] True by (simp add: min_absorb2 del: le_val_less)
  ultimately show ?thesis by simp
next
  case False
  then have "(256 :: int) ^ length bs \<le> 256 ^ n" by (intro power_increasing) auto
  then have "le_val bs < 256 ^ n" using le_val_less [of bs] by linarith
  then show ?thesis using False by simp
qed

lemma le_val_zeros [bytes_simps]: "le_val (replicate k 0) = 0"
  by (induction k) auto

lemma le_val_ones [bytes_simps]: "le_val (replicate k 255) = 256 ^ k - 1"
  by (induction k) auto

lemma le_sval_mod: "le_sval bs mod 256 ^ length bs = le_val bs"
  by (simp add: le_sval_def)

lemma le_sval_mod_le:
  assumes "n \<le> length bs"
  shows "le_sval bs mod 256 ^ n = le_val (take n bs)"
proof -
  have "(256 :: int) ^ n dvd 256 ^ length bs" using assms by (rule le_imp_power_dvd)
  then have "le_sval bs mod 256 ^ n = le_sval bs mod 256 ^ length bs mod 256 ^ n"
    by (simp add: mod_mod_cancel)
  then show ?thesis by (simp add: le_sval_mod le_val_take)
qed

lemma le_val_split_last:
  "bs \<noteq> [] \<Longrightarrow> le_val bs = le_val (butlast bs) + 256 ^ (length bs - 1) * uint (last bs)"
  by (cases bs rule: rev_cases) (auto simp: le_val_append)

lemma le_sval_neg: "le_sval bs < 0 \<longleftrightarrow> bs \<noteq> [] \<and> 128 \<le> uint (last bs)"
  using le_val_less [of bs] le_val_nonneg [of bs] by (auto simp: le_sval_def not_less)

text \<open>The sign bit of a byte string is the top bit of its last byte.\<close>

lemma half_digit:
  fixes p v u :: int
  assumes "0 \<le> v" and "v < p"
  shows "128 \<le> u \<longleftrightarrow> p * 256 \<le> 2 * (v + p * u)"
proof
  assume "128 \<le> u"
  then have "p * 128 \<le> p * u" using assms by (intro mult_left_mono) auto
  then show "p * 256 \<le> 2 * (v + p * u)" unfolding distrib_left using assms by linarith
next
  assume le: "p * 256 \<le> 2 * (v + p * u)"
  show "128 \<le> u"
  proof (rule ccontr)
    assume "\<not> 128 \<le> u"
    then have "p * u \<le> p * 127" using assms by (intro mult_left_mono) auto
    then show False using le assms unfolding distrib_left by linarith
  qed
qed

lemma last_byte_half:
  assumes "bs \<noteq> []"
  shows "128 \<le> uint (last bs) \<longleftrightarrow> 256 ^ length bs \<le> 2 * le_val bs"
  using assms half_digit [of "le_val ys" "256 ^ length ys" for ys]
  by (cases bs rule: rev_cases) (auto simp: le_val_append mult.commute)

text \<open>A byte string read as two's complement is the signed residue of its value.\<close>

lemma le_sval_signed:
  assumes "bs \<noteq> []"
  shows "le_sval bs = signed_take_bit (8 * length bs - 1) (le_val bs)"
proof -
  let ?n = "8 * length bs - 1"
  have pos: "0 < length bs" using assms by simp
  have pow: "(256 :: int) ^ length bs = 2 ^ Suc ?n"
    using pos by (simp add: power_mult [symmetric] flip: power_Suc)
       (simp add: power_mult)
  have lt: "le_val bs < 2 ^ Suc ?n" using le_val_less [of bs] by (simp only: pow)
  show ?thesis
  proof (cases "128 \<le> uint (last bs)")
    case True
    then have "2 ^ Suc ?n \<le> 2 * le_val bs" using last_byte_half [OF assms] by (simp only: pow)
    then have ge: "2 ^ ?n \<le> le_val bs" by simp
    have "signed_take_bit ?n (le_val bs) = le_val bs - 2 ^ Suc ?n"
      using ge lt by (rule signed_take_bit_upper)
    then show ?thesis using True assms by (simp add: le_sval_def pow)
  next
    case False
    then have "\<not> 2 ^ Suc ?n \<le> 2 * le_val bs" using last_byte_half [OF assms] pow by metis
    then have "le_val bs < 2 ^ ?n" by simp
    then have "signed_take_bit ?n (le_val bs) = le_val bs"
      using le_val_nonneg [of bs] order_trans [of "- (2 ^ ?n)" 0 "le_val bs"]
      by (simp add: signed_take_bit_int_eq_self_iff)
    then show ?thesis using False by (simp add: le_sval_def)
  qed
qed

section \<open>The crate functions\<close>

record crates =
  bigint_bits :: "int \<Rightarrow> nat"
  to_bytes_le :: "int \<Rightarrow> u8 list"
  to_signed_bytes_le :: "int \<Rightarrow> u8 list"
  from_bytes_le :: "u8 list \<Rightarrow> int"
  from_signed_bytes_le :: "u8 list \<Rightarrow> int"
  keccak256 :: "u8 list \<Rightarrow> u8 list"
  ripemd160 :: "u8 list \<Rightarrow> u8 list"
  blake2b :: "nat \<Rightarrow> u8 list \<Rightarrow> u8 list"
  sha256 :: "u8 list \<Rightarrow> u8 list"

text \<open>
  The documented behaviour: \<open>bits\<close> is the bit length of the magnitude;
  \<open>to_bytes_le\<close> gives the magnitude, \<open>to_signed_bytes_le\<close> the shortest two's
  complement representation; the \<open>from\<close> functions read a byte string back as an
  unsigned (the sign passed is always \<open>Plus\<close>) or a two's complement number; a hash has
  the length of its algorithm.
\<close>

locale bigint_crate =
  fixes C :: crates
  assumes bits_le_iff: "bigint_bits C v \<le> n \<longleftrightarrow> \<bar>v\<bar> < 2 ^ n"
    and le_val_to_bytes: "le_val (to_bytes_le C v) = \<bar>v\<bar>"
    and to_signed_bytes_ne: "to_signed_bytes_le C v \<noteq> []"
    and le_sval_to_signed_bytes: "le_sval (to_signed_bytes_le C v) = v"
    and to_signed_bytes_short:
      "0 < n \<Longrightarrow> - (2 ^ (8 * n - 1)) \<le> v \<Longrightarrow> v < 2 ^ (8 * n - 1) \<Longrightarrow>
       length (to_signed_bytes_le C v) \<le> n"
    and from_bytes_val: "from_bytes_le C bs = le_val bs"
    and from_signed_bytes_val: "from_signed_bytes_le C bs = le_sval bs"
    and keccak256_length: "length (keccak256 C bs) = 32"
begin

text \<open>Resizing the two's complement bytes with the sign's fill byte reduces the value.\<close>

lemma resize_signed_bytes:
  "le_val (vec_resize (to_signed_bytes_le C v) n (if v < 0 then 255 else 0)) = v mod 256 ^ n"
proof -
  let ?bs = "to_signed_bytes_le C v"
  have v: "le_sval ?bs = v" by (rule le_sval_to_signed_bytes)
  show ?thesis
  proof (cases "n \<le> length ?bs")
    case True
    then show ?thesis using le_sval_mod_le [OF True] by (simp add: vec_resize_def v)
  next
    case False
    then obtain k where k: "n = length ?bs + k" "0 < k" by (metis not_le less_imp_add_positive)
    show ?thesis
    proof (cases "v < 0")
      case True
      then have "le_val ?bs = v + 256 ^ length ?bs"
        using v le_sval_neg [of ?bs] by (auto simp: le_sval_def)
      then have "le_val (?bs @ replicate k 255) = v + 256 ^ n"
        by (simp add: le_val_append le_val_ones k(1) power_add algebra_simps)
      moreover have "0 \<le> v + 256 ^ n" "v + 256 ^ n < 256 ^ n"
        using True le_val_nonneg [of "?bs @ replicate k 255"] calculation by linarith+
      ultimately have "le_val (?bs @ replicate k 255) = v mod 256 ^ n"
        using mod_pos_pos_trivial [of "v + 256 ^ n" "256 ^ n"] mod_add_self2 [of v "256 ^ n"] by simp
      then show ?thesis using False True k by (simp add: vec_resize_def)
    next
      case ge: False
      then have "le_val ?bs = v" using v le_sval_neg [of ?bs] by (auto simp: le_sval_def)
      then have "le_val (?bs @ replicate k 0) = v" by (simp add: le_val_append le_val_zeros)
      moreover have "v < 256 ^ n"
        using le_val_less [of "?bs @ replicate k 0"] calculation k by simp
      ultimately show ?thesis using False ge k by (simp add: vec_resize_def)
    qed
  qed
qed

text \<open>The shortest two's complement representation fits exactly when the value does.\<close>

lemma signed_bytes_fit:
  assumes "0 < n"
  shows "length (to_signed_bytes_le C v) \<le> n \<longleftrightarrow> - (2 ^ (8 * n - 1)) \<le> v \<and> v < 2 ^ (8 * n - 1)"
proof
  assume le: "length (to_signed_bytes_le C v) \<le> n"
  let ?m = "8 * length (to_signed_bytes_le C v) - 1"
  have "v = signed_take_bit ?m (le_val (to_signed_bytes_le C v))"
    using le_sval_signed [OF to_signed_bytes_ne, of v] by (simp add: le_sval_to_signed_bytes)
  then have "- (2 ^ ?m) \<le> v" "v < 2 ^ ?m"
    using signed_take_bit_int_greater_eq_minus_exp signed_take_bit_int_less_exp by metis+
  moreover have "(2 :: int) ^ ?m \<le> 2 ^ (8 * n - 1)" using le by (intro power_increasing) auto
  ultimately show "- (2 ^ (8 * n - 1)) \<le> v \<and> v < 2 ^ (8 * n - 1)" by linarith
next
  assume "- (2 ^ (8 * n - 1)) \<le> v \<and> v < 2 ^ (8 * n - 1)"
  then show "length (to_signed_bytes_le C v) \<le> n" using to_signed_bytes_short assms by blast
qed

end

section \<open>An implementation\<close>

fun nat_bytes :: "nat \<Rightarrow> u8 list" where
  "nat_bytes n = (if n < 256 then [of_nat n] else of_nat (n mod 256) # nat_bytes (n div 256))"

function signed_bytes :: "int \<Rightarrow> u8 list" where
  "signed_bytes v = (if - 128 \<le> v \<and> v < 128 then [of_int v]
                     else of_int v # signed_bytes (v div 256))"
  by pat_completeness auto
termination
  by (relation "measure (\<lambda>v. nat \<bar>v\<bar>)") auto

declare nat_bytes.simps [simp del] signed_bytes.simps [simp del]

fun bit_length :: "nat \<Rightarrow> nat" where
  "bit_length n = (if n = 0 then 0 else Suc (bit_length (n div 2)))"

declare bit_length.simps [simp del]

definition crates_impl :: crates where
  "crates_impl = \<lparr>bigint_bits = (\<lambda>v. bit_length (nat \<bar>v\<bar>)),
     to_bytes_le = (\<lambda>v. nat_bytes (nat \<bar>v\<bar>)), to_signed_bytes_le = signed_bytes,
     from_bytes_le = le_val, from_signed_bytes_le = le_sval,
     keccak256 = (\<lambda>_. replicate 32 0), ripemd160 = (\<lambda>_. replicate 20 0),
     blake2b = (\<lambda>n _. replicate n 0), sha256 = (\<lambda>_. replicate 32 0)\<rparr>"

lemma bit_length_le_iff: "bit_length n \<le> k \<longleftrightarrow> n < 2 ^ k"
proof (induction n arbitrary: k rule: bit_length.induct)
  case (1 n)
  show ?case
  proof (cases "n = 0")
    case True
    then show ?thesis by (simp add: bit_length.simps [of 0])
  next
    case False
    then show ?thesis
    proof (cases k)
      case 0
      with False show ?thesis by (simp add: bit_length.simps [of n])
    next
      case (Suc j)
      then show ?thesis using False 1 [of j] by (auto simp: bit_length.simps [of n])
    qed
  qed
qed

lemma le_val_nat_bytes: "le_val (nat_bytes n) = int n"
proof (induction n rule: nat_bytes.induct)
  case (1 n)
  show ?case
  proof (cases "n < 256")
    case True
    then show ?thesis by (simp add: nat_bytes.simps [of n] unsigned_of_nat take_bit_eq_mod)
  next
    case False
    then have "le_val (nat_bytes n) = int (n mod 256) + 256 * int (n div 256)"
      using 1 by (simp add: nat_bytes.simps [of n] unsigned_of_nat take_bit_eq_mod)
    then show ?thesis using mod_mult_div_eq [of n 256] by (metis of_nat_add of_nat_mult of_nat_numeral)
  qed
qed

lemma signed_bytes_ne: "signed_bytes v \<noteq> []"
  by (simp add: signed_bytes.simps [of v])

lemma le_sval_Cons: "bs \<noteq> [] \<Longrightarrow> le_sval (b # bs) = uint b + 256 * le_sval bs"
  by (simp add: le_sval_def)

lemma le_sval_signed_bytes: "le_sval (signed_bytes v) = v"
proof (induction v rule: signed_bytes.induct)
  case (1 v)
  show ?case
  proof (cases "- 128 \<le> v \<and> v < 128")
    case True
    then have "v mod 256 = (if v < 0 then v + 256 else v)"
      using mod_pos_pos_trivial [of v 256] mod_pos_pos_trivial [of "v + 256" 256] by simp
    then have "uint (of_int v :: u8) = (if v < 0 then v + 256 else v)"
      using True by (simp add: unsigned_of_int take_bit_eq_mod)
    then show ?thesis using True by (simp add: signed_bytes.simps [of v] le_sval_def)
  next
    case False
    then have "signed_bytes v = of_int v # signed_bytes (v div 256)"
      by (subst signed_bytes.simps) auto
    then have "le_sval (signed_bytes v) = v mod 256 + 256 * (v div 256)"
      using 1 [OF False] by (simp add: le_sval_Cons signed_bytes_ne unsigned_of_int take_bit_eq_mod)
    then show ?thesis by simp
  qed
qed

lemma signed_bytes_short:
  "0 < n \<Longrightarrow> - (2 ^ (8 * n - 1)) \<le> v \<Longrightarrow> v < 2 ^ (8 * n - 1) \<Longrightarrow> length (signed_bytes v) \<le> n"
proof (induction v arbitrary: n rule: signed_bytes.induct)
  case (1 v)
  show ?case
  proof (cases "- 128 \<le> v \<and> v < 128")
    case True
    then show ?thesis using 1 by (simp add: signed_bytes.simps [of v])
  next
    case False
    then obtain m where n: "n = Suc m" "0 < m"
      using 1 by (cases n; cases "n - 1") auto
    then have "8 * n - 1 = 8 + (8 * m - 1)" by simp
    then have pow: "(2 :: int) ^ (8 * n - 1) = 256 * 2 ^ (8 * m - 1)" by (simp only: power_add) simp
    have "- (2 ^ (8 * m - 1)) \<le> v div 256" "v div 256 < 2 ^ (8 * m - 1)"
      using 1 pow by auto
    then show ?thesis using 1(1) [OF False n(2)] False n by (simp add: signed_bytes.simps [of v])
  qed
qed

interpretation impl: bigint_crate crates_impl
  by unfold_locales
     (auto simp: crates_impl_def bit_length_le_iff le_val_nat_bytes signed_bytes_ne
       le_sval_signed_bytes nat_less_iff intro: signed_bytes_short)

end
