(* ===== verification/Types.thy ===== *)
theory Types
  imports Ast Bigint
begin

text \<open>
  The questions the code generator asks of a type (\<open>src/sema/types.rs\<close>,
  \<open>src/sema/ast.rs\<close>, \<open>src/lib.rs\<close>, \<open>src/sema/builtin_structs.rs\<close>): widths,
  sizes, alignment, classification.

  Several of these functions follow a reference from a type into the declarations of the
  namespace (an enum's integer type, the type behind a user type, a struct's fields) and
  call themselves there. Each carries the number of such hops that are left; the entry
  points start with \<open>type_fuel\<close>, more hops than there are declarations, so that running
  out of fuel (\<open>None\<close>) means that the declarations are cyclic and the Rust code would
  recurse without end. \<open>None\<close> is also the result of an index out of range and of an
  arm that panics.
\<close>

section \<open>The target chain\<close>

definition target_eq :: "Target \<Rightarrow> Target \<Rightarrow> bool" where
  "target_eq a b = (case a of
       Solana \<Rightarrow> b = Solana
     | Polkadot _ _ \<Rightarrow> (case b of Polkadot _ _ \<Rightarrow> True | _ \<Rightarrow> False)
     | EVM \<Rightarrow> b = EVM
     | Soroban \<Rightarrow> b = Soroban)"

lemma target_eq_simps [simp]:
  "target_eq t Solana \<longleftrightarrow> t = Solana" "target_eq t EVM \<longleftrightarrow> t = EVM"
  "target_eq t Soroban \<longleftrightarrow> t = Soroban"
  by (cases t; simp add: target_eq_def)+

definition is_polkadot :: "Target \<Rightarrow> bool" where
  "is_polkadot t = (case t of Polkadot _ _ \<Rightarrow> True | _ \<Rightarrow> False)"

definition default_polkadot :: Target where
  "default_polkadot = Polkadot 32 16"

definition target_from :: "string \<Rightarrow> Target option" where
  "target_from name =
     (if name = ''solana'' then Some Solana
      else if name = ''polkadot'' then Some default_polkadot
      else if name = ''evm'' then Some EVM
      else None)"

definition file_extension :: "Target \<Rightarrow> string" where
  "file_extension t = (case t of Solana \<Rightarrow> ''so'' | _ \<Rightarrow> ''wasm'')"

definition ptr_size :: "Target \<Rightarrow> nat" where
  "ptr_size t = (case t of Solana \<Rightarrow> 64 | _ \<Rightarrow> 32)"

definition selector_length :: "Target \<Rightarrow> nat" where
  "selector_length t = (case t of Solana \<Rightarrow> 8 | _ \<Rightarrow> 4)"

definition storage_type :: "Namespace \<Rightarrow> Type" where
  "storage_type ns =
     (if target_eq (target ns) Solana then Type.Uint 32
      else if target_eq (target ns) Soroban then Type.Uint 64
      else Type.Uint 256)"

definition value_type :: "Namespace \<Rightarrow> Type" where
  "value_type ns = Type.Uint (8 * value_length ns)"

section \<open>Equality of types\<close>

text \<open>The names of a mapping's key and value do not take part in comparisons.\<close>

primrec erase_names :: "Type \<Rightarrow> Type" where
  "erase_names (Type.Address p) = Type.Address p"
| "erase_names Type.Bool = Type.Bool"
| "erase_names (Type.Int n) = Type.Int n"
| "erase_names (Type.Uint n) = Type.Uint n"
| "erase_names Type.Rational = Type.Rational"
| "erase_names (Type.Bytes n) = Type.Bytes n"
| "erase_names Type.DynamicBytes = Type.DynamicBytes"
| "erase_names Type.String = Type.String"
| "erase_names (Type.Array t dims) = Type.Array (erase_names t) dims"
| "erase_names (Type.Enum n) = Type.Enum n"
| "erase_names (Type.Struct s) = Type.Struct s"
| "erase_names (Type.Mapping k kn v vn) = Type.Mapping (erase_names k) None (erase_names v) None"
| "erase_names (Type.Contract n) = Type.Contract n"
| "erase_names (Type.Ref t) = Type.Ref (erase_names t)"
| "erase_names (Type.StorageRef i t) = Type.StorageRef i (erase_names t)"
| "erase_names (Type.InternalFunction m ps rs) =
     Type.InternalFunction m (map erase_names ps) (map erase_names rs)"
| "erase_names (Type.ExternalFunction m ps rs) =
     Type.ExternalFunction m (map erase_names ps) (map erase_names rs)"
| "erase_names (Type.UserType n) = Type.UserType n"
| "erase_names Type.Value = Type.Value"
| "erase_names Type.Void = Type.Void"
| "erase_names Type.Unreachable = Type.Unreachable"
| "erase_names (Type.Slice t) = Type.Slice (erase_names t)"
| "erase_names Type.Unresolved = Type.Unresolved"
| "erase_names Type.BufferPointer = Type.BufferPointer"
| "erase_names Type.FunctionSelector = Type.FunctionSelector"

definition type_eq :: "Type \<Rightarrow> Type \<Rightarrow> bool" where
  "type_eq a b = (erase_names a = erase_names b)"

section \<open>Struct definitions\<close>

definition builtin_field :: "string option \<Rightarrow> Type \<Rightarrow> bool \<Rightarrow> Parameter" where
  "builtin_field name ty readonly =
     \<lparr>p_loc = Loc.Builtin, p_id = map_option (\<lambda>n. \<lparr>id_loc = Loc.Builtin, id_name = n\<rparr>) name,
      p_ty = ty, p_ty_loc = None, p_indexed = False, p_readonly = readonly,
      p_infinite_size = False, p_recursive = False, p_annotation = None\<rparr>"

definition builtin_struct :: "string \<Rightarrow> Parameter list \<Rightarrow> StructDecl" where
  "builtin_struct name flds =
     \<lparr>s_id = \<lparr>id_loc = Loc.Builtin, id_name = name\<rparr>, s_loc = Loc.Builtin, s_contract = None,
      s_fields = flds, s_offsets = [], s_storage_offsets = []\<rparr>"

definition account_info_struct :: StructDecl where
  "account_info_struct = builtin_struct ''AccountInfo''
     [builtin_field (Some ''key'') (Type.Ref (Type.Address False)) True,
      builtin_field (Some ''lamports'') (Type.Ref (Type.Uint 64)) False,
      builtin_field (Some ''data'') (Type.Slice (Type.Bytes 1)) False,
      builtin_field (Some ''owner'') (Type.Ref (Type.Address False)) True,
      builtin_field (Some ''rent_epoch'') (Type.Uint 64) True,
      builtin_field (Some ''is_signer'') Type.Bool True,
      builtin_field (Some ''is_writable'') Type.Bool True,
      builtin_field (Some ''executable'') Type.Bool True]"

definition account_meta_struct :: StructDecl where
  "account_meta_struct = builtin_struct ''AccountMeta''
     [builtin_field (Some ''pubkey'') (Type.Ref (Type.Address False)) False,
      builtin_field (Some ''is_writable'') Type.Bool False,
      builtin_field (Some ''is_signer'') Type.Bool False]"

definition external_function_struct :: StructDecl where
  "external_function_struct = builtin_struct ''ExternalFunction''
     [builtin_field None Type.FunctionSelector False,
      builtin_field None (Type.Address False) False]"

definition struct_definition :: "StructType \<Rightarrow> Namespace \<Rightarrow> StructDecl option" where
  "struct_definition st ns = (case st of
       StructType.UserDefined n \<Rightarrow> vec_get (structs ns) n
     | StructType.AccountInfo \<Rightarrow> Some account_info_struct
     | StructType.AccountMeta \<Rightarrow> Some account_meta_struct
     | StructType.ExternalFunction \<Rightarrow> Some external_function_struct
     | StructType.SolParameters \<Rightarrow> None)"

definition type_fuel :: "Namespace \<Rightarrow> nat" where
  "type_fuel ns = length (enums ns) + length (user_types ns) + length (structs ns) + 4"

section \<open>Widths\<close>

fun bits_fuel :: "nat \<Rightarrow> Namespace \<Rightarrow> Type \<Rightarrow> nat option" where
  "bits_fuel k ns ty = (case ty of
       Type.Contract _ \<Rightarrow> Some (address_length ns * 8)
     | Type.Address _ \<Rightarrow> Some (address_length ns * 8)
     | Type.Bool \<Rightarrow> Some 1
     | Type.Int n \<Rightarrow> Some n
     | Type.Uint n \<Rightarrow> Some n
     | Type.Bytes n \<Rightarrow> Some (n * 8)
     | Type.Enum n \<Rightarrow> (case k of 0 \<Rightarrow> None
         | Suc k' \<Rightarrow> do { e \<leftarrow> vec_get (enums ns) n; bits_fuel k' ns (e_ty e) })
     | Type.Value \<Rightarrow> Some (value_length ns * 8)
     | Type.StorageRef _ _ \<Rightarrow> (case k of 0 \<Rightarrow> None | Suc k' \<Rightarrow> bits_fuel k' ns (storage_type ns))
     | Type.Ref t \<Rightarrow> bits_fuel k ns t
     | Type.FunctionSelector \<Rightarrow> Some (selector_length (target ns) * 8)
     | Type.UserType n \<Rightarrow> (case k of 0 \<Rightarrow> None
         | Suc k' \<Rightarrow> do { u \<leftarrow> vec_get (user_types ns) n; bits_fuel k' ns (u_ty u) })
     | _ \<Rightarrow> None)"

fun bytes_fuel :: "nat \<Rightarrow> Namespace \<Rightarrow> Type \<Rightarrow> nat option" where
  "bytes_fuel k ns ty = (case ty of
       Type.Contract _ \<Rightarrow> Some (address_length ns mod 256)
     | Type.Address _ \<Rightarrow> Some (address_length ns mod 256)
     | Type.Bool \<Rightarrow> Some 1
     | Type.Int n \<Rightarrow> Some (((n + 7) div 8) mod 256)
     | Type.Uint n \<Rightarrow> Some (((n + 7) div 8) mod 256)
     | Type.Bytes n \<Rightarrow> Some n
     | Type.Enum n \<Rightarrow> (case k of 0 \<Rightarrow> None
         | Suc k' \<Rightarrow> do { e \<leftarrow> vec_get (enums ns) n; bytes_fuel k' ns (e_ty e) })
     | Type.Value \<Rightarrow> Some (value_length ns mod 256)
     | Type.StorageRef _ _ \<Rightarrow> (case k of 0 \<Rightarrow> None | Suc k' \<Rightarrow> bytes_fuel k' ns (storage_type ns))
     | Type.Ref t \<Rightarrow> bytes_fuel k ns t
     | Type.FunctionSelector \<Rightarrow> Some (selector_length (target ns))
     | Type.UserType n \<Rightarrow> (case k of 0 \<Rightarrow> None
         | Suc k' \<Rightarrow> do { u \<leftarrow> vec_get (user_types ns) n; bytes_fuel k' ns (u_ty u) })
     | _ \<Rightarrow> None)"

declare bits_fuel.simps [simp del] bytes_fuel.simps [simp del]

definition bits :: "Namespace \<Rightarrow> Type \<Rightarrow> nat option" where
  "bits ns ty = bits_fuel (type_fuel ns) ns ty"

definition bytes :: "Namespace \<Rightarrow> Type \<Rightarrow> nat option" where
  "bytes ns ty = bytes_fuel (type_fuel ns) ns ty"

definition get_type_size :: "Type \<Rightarrow> nat option" where
  "get_type_size ty = (case ty of Type.Int n \<Rightarrow> Some n | Type.Uint n \<Rightarrow> Some n
     | Type.Bool \<Rightarrow> Some 1 | _ \<Rightarrow> None)"

definition unwrap_user_type :: "Namespace \<Rightarrow> Type \<Rightarrow> Type option" where
  "unwrap_user_type ns ty = (case ty of
       Type.UserType n \<Rightarrow> map_option u_ty (vec_get (user_types ns) n)
     | _ \<Rightarrow> Some ty)"

lemma bits_simps [simp]:
  "bits ns (Type.Contract c) = Some (address_length ns * 8)"
  "bits ns (Type.Address p) = Some (address_length ns * 8)"
  "bits ns Type.Bool = Some 1"
  "bits ns (Type.Int n) = Some n"
  "bits ns (Type.Uint n) = Some n"
  "bits ns (Type.Bytes n) = Some (n * 8)"
  "bits ns Type.Value = Some (value_length ns * 8)"
  "bits ns Type.FunctionSelector = Some (selector_length (target ns) * 8)"
  by (simp_all add: bits_def bits_fuel.simps)

section \<open>Classification\<close>

primrec is_primitive :: "Type \<Rightarrow> bool" where
  "is_primitive (Type.Address p) = True"
| "is_primitive Type.Bool = True"
| "is_primitive (Type.Int n) = True"
| "is_primitive (Type.Uint n) = True"
| "is_primitive Type.Rational = True"
| "is_primitive (Type.Bytes n) = True"
| "is_primitive Type.DynamicBytes = False"
| "is_primitive Type.String = False"
| "is_primitive (Type.Array t dims) = False"
| "is_primitive (Type.Enum n) = False"
| "is_primitive (Type.Struct st) = False"
| "is_primitive (Type.Mapping kt kn vt vn) = False"
| "is_primitive (Type.Contract n) = False"
| "is_primitive (Type.Ref r) = is_primitive r"
| "is_primitive (Type.StorageRef i r) = is_primitive r"
| "is_primitive (Type.InternalFunction m ps rs) = False"
| "is_primitive (Type.ExternalFunction m ps rs) = False"
| "is_primitive (Type.UserType n) = False"
| "is_primitive Type.Value = True"
| "is_primitive Type.Void = False"
| "is_primitive Type.Unreachable = False"
| "is_primitive (Type.Slice t) = False"
| "is_primitive Type.Unresolved = False"
| "is_primitive Type.BufferPointer = False"
| "is_primitive Type.FunctionSelector = False"

fun is_signed_int_fuel :: "nat \<Rightarrow> Namespace \<Rightarrow> Type \<Rightarrow> bool option" where
  "is_signed_int_fuel k ns ty = (case ty of
       Type.Int _ \<Rightarrow> Some True
     | Type.Ref r \<Rightarrow> is_signed_int_fuel k ns r
     | Type.StorageRef _ r \<Rightarrow> is_signed_int_fuel k ns r
     | Type.UserType n \<Rightarrow> (case k of 0 \<Rightarrow> None
         | Suc k' \<Rightarrow> do { u \<leftarrow> vec_get (user_types ns) n; is_signed_int_fuel k' ns (u_ty u) })
     | _ \<Rightarrow> Some False)"

fun is_integer_fuel :: "nat \<Rightarrow> Namespace \<Rightarrow> Type \<Rightarrow> bool option" where
  "is_integer_fuel k ns ty = (case ty of
       Type.Int _ \<Rightarrow> Some True
     | Type.Uint _ \<Rightarrow> Some True
     | Type.Value \<Rightarrow> Some True
     | Type.Bytes n \<Rightarrow> Some (n = 1)
     | Type.Ref r \<Rightarrow> is_integer_fuel k ns r
     | Type.StorageRef _ r \<Rightarrow> is_integer_fuel k ns r
     | Type.UserType n \<Rightarrow> (case k of 0 \<Rightarrow> None
         | Suc k' \<Rightarrow> do { u \<leftarrow> vec_get (user_types ns) n; is_integer_fuel k' ns (u_ty u) })
     | _ \<Rightarrow> Some False)"

fun is_reference_type_fuel :: "nat \<Rightarrow> Namespace \<Rightarrow> Type \<Rightarrow> bool option" where
  "is_reference_type_fuel k ns ty = (case ty of
       Type.Struct _ \<Rightarrow> Some True
     | Type.Array _ _ \<Rightarrow> Some True
     | Type.DynamicBytes \<Rightarrow> Some True
     | Type.String \<Rightarrow> Some True
     | Type.Mapping _ _ _ _ \<Rightarrow> Some True
     | Type.Ref r \<Rightarrow> is_reference_type_fuel k ns r
     | Type.StorageRef _ r \<Rightarrow> is_reference_type_fuel k ns r
     | Type.ExternalFunction _ _ _ \<Rightarrow> Some (\<not> target_eq (target ns) EVM)
     | Type.UserType n \<Rightarrow> (case k of 0 \<Rightarrow> None
         | Suc k' \<Rightarrow> do { u \<leftarrow> vec_get (user_types ns) n; is_reference_type_fuel k' ns (u_ty u) })
     | _ \<Rightarrow> Some False)"

fun is_fixed_reference_type_fuel :: "nat \<Rightarrow> Namespace \<Rightarrow> Type \<Rightarrow> bool option" where
  "is_fixed_reference_type_fuel k ns ty = (case ty of
       Type.Bool \<Rightarrow> Some False
     | Type.Address _ \<Rightarrow> Some False
     | Type.Int _ \<Rightarrow> Some False
     | Type.Uint _ \<Rightarrow> Some False
     | Type.Rational \<Rightarrow> Some False
     | Type.Bytes _ \<Rightarrow> Some False
     | Type.Enum _ \<Rightarrow> Some False
     | Type.Struct _ \<Rightarrow> Some True
     | Type.Array _ dims \<Rightarrow> Some (Dynamic \<notin> set dims)
     | Type.DynamicBytes \<Rightarrow> Some False
     | Type.String \<Rightarrow> Some False
     | Type.Mapping _ _ _ _ \<Rightarrow> Some False
     | Type.Contract _ \<Rightarrow> Some False
     | Type.Ref _ \<Rightarrow> Some False
     | Type.StorageRef _ _ \<Rightarrow> Some False
     | Type.InternalFunction _ _ _ \<Rightarrow> Some False
     | Type.ExternalFunction _ _ _ \<Rightarrow> Some (\<not> target_eq (target ns) EVM)
     | Type.Slice _ \<Rightarrow> Some False
     | Type.Unresolved \<Rightarrow> Some False
     | Type.FunctionSelector \<Rightarrow> Some False
     | Type.UserType n \<Rightarrow> (case k of 0 \<Rightarrow> None
         | Suc k' \<Rightarrow> do { u \<leftarrow> vec_get (user_types ns) n;
                          is_fixed_reference_type_fuel k' ns (u_ty u) })
     | _ \<Rightarrow> None)"

declare is_signed_int_fuel.simps [simp del] is_integer_fuel.simps [simp del]
  is_reference_type_fuel.simps [simp del] is_fixed_reference_type_fuel.simps [simp del]

definition is_signed_int :: "Namespace \<Rightarrow> Type \<Rightarrow> bool option" where
  "is_signed_int ns ty = is_signed_int_fuel (type_fuel ns) ns ty"

definition is_integer :: "Namespace \<Rightarrow> Type \<Rightarrow> bool option" where
  "is_integer ns ty = is_integer_fuel (type_fuel ns) ns ty"

definition is_reference_type :: "Namespace \<Rightarrow> Type \<Rightarrow> bool option" where
  "is_reference_type ns ty = is_reference_type_fuel (type_fuel ns) ns ty"

definition is_fixed_reference_type :: "Namespace \<Rightarrow> Type \<Rightarrow> bool option" where
  "is_fixed_reference_type ns ty = is_fixed_reference_type_fuel (type_fuel ns) ns ty"

lemma is_signed_int_simps [simp]:
  "is_signed_int ns (Type.Int n) = Some True"
  "is_signed_int ns (Type.Uint n) = Some False"
  "is_signed_int ns Type.Value = Some False"
  "is_signed_int ns Type.Bool = Some False"
  "is_signed_int ns (Type.Bytes n) = Some False"
  "is_signed_int ns (Type.Address p) = Some False"
  by (simp_all add: is_signed_int_def is_signed_int_fuel.simps)

fun is_rational :: "Type \<Rightarrow> bool" where
  "is_rational ty = (case ty of
       Type.Rational \<Rightarrow> True
     | Type.Ref r \<Rightarrow> is_rational r
     | Type.StorageRef _ r \<Rightarrow> is_rational r
     | _ \<Rightarrow> False)"

fun is_dynamic_memory :: "Type \<Rightarrow> bool" where
  "is_dynamic_memory ty = (case ty of
       Type.String \<Rightarrow> True
     | Type.DynamicBytes \<Rightarrow> True
     | Type.Slice _ \<Rightarrow> True
     | Type.Array _ dims \<Rightarrow> dims \<noteq> [] \<and> last dims = Dynamic
     | Type.Ref r \<Rightarrow> is_dynamic_memory r
     | _ \<Rightarrow> False)"

fun is_mapping :: "Type \<Rightarrow> bool" where
  "is_mapping ty = (case ty of
       Type.Mapping _ _ _ _ \<Rightarrow> True
     | Type.StorageRef _ r \<Rightarrow> is_mapping r
     | _ \<Rightarrow> False)"

fun is_builtin_struct :: "Type \<Rightarrow> StructType option" where
  "is_builtin_struct ty = (case ty of
       Type.Struct st \<Rightarrow> (case st of StructType.UserDefined _ \<Rightarrow> None | _ \<Rightarrow> Some st)
     | Type.StorageRef _ r \<Rightarrow> is_builtin_struct r
     | Type.Ref r \<Rightarrow> is_builtin_struct r
     | _ \<Rightarrow> None)"

fun slice_depth :: "Type \<Rightarrow> nat \<times> Type" where
  "slice_depth ty = (case ty of
       Type.Slice t \<Rightarrow> (let (depth, t') = slice_depth t in (depth + 1, t'))
     | _ \<Rightarrow> (0, ty))"

declare is_rational.simps [simp del] is_dynamic_memory.simps [simp del]
  is_mapping.simps [simp del] is_builtin_struct.simps [simp del] slice_depth.simps [simp del]

definition can_have_data_location :: "Type \<Rightarrow> bool" where
  "can_have_data_location ty = (case ty of
       Type.Array _ _ \<Rightarrow> True | Type.Struct _ \<Rightarrow> True | Type.Mapping _ _ _ _ \<Rightarrow> True
     | Type.String \<Rightarrow> True | Type.DynamicBytes \<Rightarrow> True | _ \<Rightarrow> False)"

definition is_contract_storage :: "Type \<Rightarrow> bool" where
  "is_contract_storage ty = (case ty of Type.StorageRef _ _ \<Rightarrow> True | _ \<Rightarrow> False)"

definition is_storage_bytes :: "Type \<Rightarrow> bool" where
  "is_storage_bytes ty = (case ty of
       Type.StorageRef _ r \<Rightarrow> (case r of Type.DynamicBytes \<Rightarrow> True | _ \<Rightarrow> False)
     | _ \<Rightarrow> False)"

definition is_address :: "Type \<Rightarrow> bool" where
  "is_address ty = (case ty of Type.Address _ \<Rightarrow> True | Type.Contract _ \<Rightarrow> True | _ \<Rightarrow> False)"

definition deref_any :: "Type \<Rightarrow> Type" where
  "deref_any ty = (case ty of Type.StorageRef _ r \<Rightarrow> r | Type.Ref r \<Rightarrow> r | _ \<Rightarrow> ty)"

definition deref_into :: "Type \<Rightarrow> Type" where
  "deref_into ty = (case ty of Type.StorageRef _ r \<Rightarrow> r | Type.Ref r \<Rightarrow> r | _ \<Rightarrow> ty)"

definition deref_memory :: "Type \<Rightarrow> Type" where
  "deref_memory ty = (case ty of Type.Ref r \<Rightarrow> r | _ \<Rightarrow> ty)"

section \<open>Arrays\<close>

fun array_deref :: "Type \<Rightarrow> Type option" where
  "array_deref ty = (case ty of
       Type.String \<Rightarrow> Some (Type.Ref (Type.Uint 8))
     | Type.DynamicBytes \<Rightarrow> Some (Type.Ref (Type.Uint 8))
     | Type.Ref t \<Rightarrow> array_deref t
     | Type.Array t dims \<Rightarrow>
         (if 1 < length dims then Some (Type.Ref (Type.Array t (butlast dims)))
          else if length dims = 1 then Some (Type.Ref t) else None)
     | Type.Bytes _ \<Rightarrow> Some (Type.Bytes 1)
     | Type.Slice t \<Rightarrow> Some (Type.Ref t)
     | _ \<Rightarrow> None)"

definition elem_ty :: "Type \<Rightarrow> Type option" where
  "elem_ty ty = (case ty of Type.Array t _ \<Rightarrow> Some t | _ \<Rightarrow> None)"

definition array_elem :: "Type \<Rightarrow> Type option" where
  "array_elem ty = (case ty of
       Type.Array t dims \<Rightarrow>
         (if 1 < length dims then Some (Type.Array t (butlast dims))
          else if length dims = 1 then Some t else None)
     | Type.DynamicBytes \<Rightarrow> Some (Type.Bytes 1)
     | Type.Slice t \<Rightarrow> Some t
     | _ \<Rightarrow> None)"

fun storage_array_elem :: "Type \<Rightarrow> Type option" where
  "storage_array_elem ty = (case ty of
       Type.Mapping _ _ v _ \<Rightarrow> Some (Type.StorageRef False v)
     | Type.DynamicBytes \<Rightarrow> Some (Type.Bytes 1)
     | Type.String \<Rightarrow> Some (Type.Bytes 1)
     | Type.Bytes _ \<Rightarrow> Some (Type.Bytes 1)
     | Type.Array t dims \<Rightarrow>
         (if 1 < length dims then Some (Type.StorageRef False (Type.Array t (butlast dims)))
          else if length dims = 1 then Some (Type.StorageRef False t) else None)
     | Type.StorageRef _ t \<Rightarrow> storage_array_elem t
     | _ \<Rightarrow> None)"

definition length_if_fixed :: "ArrayLength \<Rightarrow> int option" where
  "length_if_fixed d = (case d of Fixed n \<Rightarrow> Some n | _ \<Rightarrow> None)"

text \<open>The outer option is the panic on something that is not an array.\<close>

fun array_length :: "Type \<Rightarrow> int option option" where
  "array_length ty = (case ty of
       Type.StorageRef _ t \<Rightarrow> array_length t
     | Type.Ref t \<Rightarrow> array_length t
     | Type.Array _ dims \<Rightarrow> (if dims = [] then None else Some (length_if_fixed (last dims)))
     | _ \<Rightarrow> None)"

declare array_deref.simps [simp del] storage_array_elem.simps [simp del] array_length.simps [simp del]

text \<open>
  The loop over the dimensions from the last to the first, stopping at the first dynamic one;
  a dimension of unknown length is a panic.
\<close>

fun dynamic_array_size_rev :: "ArrayLength list \<Rightarrow> int \<Rightarrow> int option" where
  "dynamic_array_size_rev [] result = Some result"
| "dynamic_array_size_rev (Fixed n # dims) result = dynamic_array_size_rev dims (result * n)"
| "dynamic_array_size_rev (Dynamic # dims) result = Some result"
| "dynamic_array_size_rev (AnyFixed # dims) result = None"

definition dynamic_array_size :: "ArrayLength list \<Rightarrow> int option" where
  "dynamic_array_size dims = dynamic_array_size_rev (rev dims) 1"

text \<open>The product of the dimensions, with the length a dynamic or an unknown one counts for.\<close>

definition dims_product :: "int option \<Rightarrow> int option \<Rightarrow> ArrayLength list \<Rightarrow> int option" where
  "dims_product dyn any_fixed dims =
     map_option prod_list (seq_opt (map (\<lambda>d. case d of Fixed n \<Rightarrow> Some n | Dynamic \<Rightarrow> dyn
       | AnyFixed \<Rightarrow> any_fixed) dims))"

end
