(* ===== verification/Sizes.thy ===== *)
theory Sizes
  imports Types
begin

text \<open>
  Sizes and alignments of types in memory and in storage (\<open>src/sema/types.rs\<close>).

  The functions that guard their recursion with a set of visited structs
  (\<open>guarded_recursion\<close>) thread that set: a struct that was entered before, on the way
  down or in an earlier field, gives the bail-out value.
\<close>

section \<open>Guarded recursion\<close>

definition guarded_recursion ::
  "Type \<Rightarrow> 'a \<Rightarrow> (nat set \<Rightarrow> ('a \<times> nat set) option) \<Rightarrow> nat set \<Rightarrow> ('a \<times> nat set) option" where
  "guarded_recursion ty bail f visited = (case ty of
       Type.Struct (StructType.UserDefined n) \<Rightarrow>
         (if n \<in> visited then Some (bail, visited) else f (insert n visited))
     | _ \<Rightarrow> f visited)"

lemma guarded_recursion_cong [fundef_cong]:
  "ty = ty' \<Longrightarrow> bail = bail' \<Longrightarrow> visited = visited' \<Longrightarrow> (\<And>s. f s = g s) \<Longrightarrow>
   guarded_recursion ty bail f visited = guarded_recursion ty' bail' g visited'"
  by (auto simp: guarded_recursion_def split: Type.splits StructType.splits)

text \<open>The short-circuiting \<open>any\<close> over fields, with the visited set threaded through.\<close>

primrec any_st :: "(nat set \<Rightarrow> (bool \<times> nat set) option) list \<Rightarrow> nat set \<Rightarrow> (bool \<times> nat set) option"
where
  "any_st [] s = Some (False, s)"
| "any_st (m # ms) s = do { (b, s) \<leftarrow> m s; if b then Some (True, s) else any_st ms s }"

section \<open>Sizes in memory\<close>

fun memory_size_of_internal ::
  "nat \<Rightarrow> Namespace \<Rightarrow> Type \<Rightarrow> nat set \<Rightarrow> (int \<times> nat set) option" where
  "memory_size_of_internal k ns ty visited = guarded_recursion ty 0 (\<lambda>visited. (case ty of
       Type.Enum _ \<Rightarrow> Some (1, visited)
     | Type.Bool \<Rightarrow> Some (1, visited)
     | Type.Contract _ \<Rightarrow> Some (int (address_length ns), visited)
     | Type.Address _ \<Rightarrow> Some (int (address_length ns), visited)
     | Type.Bytes n \<Rightarrow> Some (int n, visited)
     | Type.Value \<Rightarrow> Some (int (value_length ns), visited)
     | Type.Uint n \<Rightarrow> Some (int (n div 8), visited)
     | Type.Int n \<Rightarrow> Some (int (n div 8), visited)
     | Type.Array t dims \<Rightarrow>
         (if dims \<noteq> [] \<and> hd dims = Dynamic
          then Some (int (ptr_size (target ns) div 8), visited)
          else do {
            (size, visited) \<leftarrow> memory_size_of_internal k ns t visited;
            p \<leftarrow> dims_product (Some (int (ptr_size (target ns) div 8))) None dims;
            Some (size * p, visited) })
     | Type.Struct st \<Rightarrow> (case k of 0 \<Rightarrow> None
         | Suc k' \<Rightarrow> do {
             d \<leftarrow> struct_definition st ns;
             (sizes, visited) \<leftarrow>
               seq_st (map (\<lambda>f. memory_size_of_internal k' ns (p_ty f)) (s_fields d)) visited;
             Some (sum_list sizes, visited) })
     | Type.String \<Rightarrow> Some (int (ptr_size (target ns) div 8), visited)
     | Type.DynamicBytes \<Rightarrow> Some (int (ptr_size (target ns) div 8), visited)
     | Type.Slice _ \<Rightarrow> Some (int (ptr_size (target ns) div 8), visited)
     | Type.InternalFunction _ _ _ \<Rightarrow> Some (int (ptr_size (target ns) div 8), visited)
     | Type.Ref _ \<Rightarrow> Some (int (ptr_size (target ns) div 8), visited)
     | Type.StorageRef _ _ \<Rightarrow> Some (int (ptr_size (target ns) div 8), visited)
     | Type.ExternalFunction _ _ _ \<Rightarrow> Some (int (address_length ns) + int (32 div 8), visited)
     | Type.Unresolved \<Rightarrow> Some (0, visited)
     | Type.Mapping _ _ _ _ \<Rightarrow> Some (0, visited)
     | Type.UserType n \<Rightarrow> (case k of 0 \<Rightarrow> None
         | Suc k' \<Rightarrow> do { u \<leftarrow> vec_get (user_types ns) n;
                          memory_size_of_internal k' ns (u_ty u) visited })
     | Type.FunctionSelector \<Rightarrow> Some (int (selector_length (target ns)), visited)
     | _ \<Rightarrow> None)) visited"

declare memory_size_of_internal.simps [simp del]

definition memory_size_of :: "Namespace \<Rightarrow> Type \<Rightarrow> int option" where
  "memory_size_of ns ty = map_option fst (memory_size_of_internal (type_fuel ns) ns ty {})"

definition fits_in_memory :: "Namespace \<Rightarrow> Type \<Rightarrow> bool option" where
  "fits_in_memory ns ty = map_option (\<lambda>size. size < 65535) (memory_size_of ns ty)"

fun solana_storage_size_fuel :: "nat \<Rightarrow> Namespace \<Rightarrow> Type \<Rightarrow> int option" where
  "solana_storage_size_fuel k ns ty = (case ty of
       Type.Array t dims \<Rightarrow>
         (if Dynamic \<in> set dims then map_option (\<lambda>size. size * 4) (dynamic_array_size dims)
          else do { size \<leftarrow> solana_storage_size_fuel k ns t;
                    p \<leftarrow> dims_product None None dims;
                    Some (size * p) })
     | Type.Struct st \<Rightarrow> do { d \<leftarrow> struct_definition st ns;
         Some (if s_offsets d = [] then 0 else last (s_offsets d)) }
     | Type.String \<Rightarrow> Some 4
     | Type.DynamicBytes \<Rightarrow> Some 4
     | Type.Ref t \<Rightarrow> solana_storage_size_fuel k ns t
     | Type.StorageRef _ t \<Rightarrow> solana_storage_size_fuel k ns t
     | Type.UserType n \<Rightarrow> (case k of 0 \<Rightarrow> None
         | Suc k' \<Rightarrow> do { u \<leftarrow> vec_get (user_types ns) n; solana_storage_size_fuel k' ns (u_ty u) })
     | _ \<Rightarrow> memory_size_of ns ty)"

declare solana_storage_size_fuel.simps [simp del]

definition solana_storage_size :: "Namespace \<Rightarrow> Type \<Rightarrow> int option" where
  "solana_storage_size ns ty = solana_storage_size_fuel (type_fuel ns) ns ty"

section \<open>Alignment\<close>

text \<open>\<open>max\<close> of an iterator is \<open>None\<close> when it is empty.\<close>

definition iter_max :: "'a :: linorder list \<Rightarrow> 'a option" where
  "iter_max xs = (if xs = [] then None else Some (Max (set xs)))"

fun align_of_fuel :: "nat \<Rightarrow> Namespace \<Rightarrow> Type \<Rightarrow> nat option" where
  "align_of_fuel k ns ty = (case ty of
       Type.Uint n \<Rightarrow> Some (if n = 8 then 1 else if n \<le> 16 then 2 else if n \<le> 32 then 4 else 8)
     | Type.Int n \<Rightarrow> Some (if n = 8 then 1 else if n \<le> 16 then 2 else if n \<le> 32 then 4 else 8)
     | Type.Struct st \<Rightarrow> (case k of 0 \<Rightarrow> None
         | Suc k' \<Rightarrow> do {
             d \<leftarrow> struct_definition st ns;
             as \<leftarrow> seq_opt (map (\<lambda>f. align_of_fuel k' ns (p_ty f))
                     (filter (\<lambda>f. \<not> p_infinite_size f) (s_fields d)));
             Some (case iter_max as of Some a \<Rightarrow> a | None \<Rightarrow> 1) })
     | Type.InternalFunction _ _ _ \<Rightarrow> Some (ptr_size (target ns))
     | _ \<Rightarrow> Some 1)"

declare align_of_fuel.simps [simp del]

definition align_of :: "Namespace \<Rightarrow> Type \<Rightarrow> nat option" where
  "align_of ns ty = align_of_fuel (type_fuel ns) ns ty"

text \<open>The smallest power of two that is not less than \<open>n\<close> (\<open>next_power_of_two\<close>).\<close>

fun next_power_from :: "nat \<Rightarrow> nat \<Rightarrow> nat \<Rightarrow> nat" where
  "next_power_from 0 p n = p"
| "next_power_from (Suc k) p n = (if n \<le> p then p else next_power_from k (2 * p) n)"

definition next_power_of_two :: "nat \<Rightarrow> nat" where
  "next_power_of_two n = next_power_from n 1 n"

fun struct_elem_alignment_fuel :: "nat \<Rightarrow> Namespace \<Rightarrow> Type \<Rightarrow> int option" where
  "struct_elem_alignment_fuel k ns ty = (case ty of
       Type.Bool \<Rightarrow> Some 1
     | Type.Contract _ \<Rightarrow> Some 1
     | Type.Address _ \<Rightarrow> Some 1
     | Type.Enum _ \<Rightarrow> Some 1
     | Type.Bytes n \<Rightarrow> Some (int (next_power_of_two n))
     | Type.Value \<Rightarrow> Some (int (next_power_of_two (value_length ns)))
     | Type.Int n \<Rightarrow> Some (int (n div 8))
     | Type.Uint n \<Rightarrow> Some (int (n div 8))
     | Type.Array t dims \<Rightarrow>
         (if Dynamic \<in> set dims then Some (int (ptr_size (target ns) div 8))
          else struct_elem_alignment_fuel k ns t)
     | Type.Struct st \<Rightarrow> (case k of 0 \<Rightarrow> None
         | Suc k' \<Rightarrow> do {
             d \<leftarrow> struct_definition st ns;
             as \<leftarrow> seq_opt (map (\<lambda>f. struct_elem_alignment_fuel k' ns (p_ty f)) (s_fields d));
             iter_max as })
     | Type.String \<Rightarrow> Some (int (ptr_size (target ns) div 8))
     | Type.DynamicBytes \<Rightarrow> Some (int (ptr_size (target ns) div 8))
     | Type.InternalFunction _ _ _ \<Rightarrow> Some (int (ptr_size (target ns) div 8))
     | Type.Ref _ \<Rightarrow> Some (int (ptr_size (target ns) div 8))
     | Type.StorageRef _ _ \<Rightarrow> Some (int (ptr_size (target ns) div 8))
     | Type.ExternalFunction _ _ _ \<Rightarrow> Some 1
     | Type.UserType n \<Rightarrow> (case k of 0 \<Rightarrow> None
         | Suc k' \<Rightarrow> do { u \<leftarrow> vec_get (user_types ns) n; struct_elem_alignment_fuel k' ns (u_ty u) })
     | _ \<Rightarrow> None)"

declare struct_elem_alignment_fuel.simps [simp del]

definition struct_elem_alignment :: "Namespace \<Rightarrow> Type \<Rightarrow> int option" where
  "struct_elem_alignment ns ty = struct_elem_alignment_fuel (type_fuel ns) ns ty"

section \<open>Storage slots\<close>

definition SOLANA_BUCKET_SIZE :: int where
  "SOLANA_BUCKET_SIZE = 251"

definition SOLANA_SPARSE_ARRAY_SIZE :: int where
  "SOLANA_SPARSE_ARRAY_SIZE = 1024"

text \<open>\<open>is_sparse_solana\<close> on an array whose element takes \<open>elem_slots\<close> slots.\<close>

definition is_sparse_array :: "int \<Rightarrow> ArrayLength list \<Rightarrow> bool option" where
  "is_sparse_array elem_slots dims =
     (if dims \<noteq> [] \<and> hd dims = Dynamic then Some False
      else map_option (\<lambda>p. SOLANA_SPARSE_ARRAY_SIZE \<le> elem_slots * p)
             (dims_product (Some 4) (Some 4) dims))"

fun storage_slots_fuel :: "nat \<Rightarrow> Namespace \<Rightarrow> Type \<Rightarrow> int option" where
  "storage_slots_fuel k ns ty =
     (if target_eq (target ns) Solana then (case ty of
         Type.Enum _ \<Rightarrow> Some 1
       | Type.Bool \<Rightarrow> Some 1
       | Type.Contract _ \<Rightarrow> Some (int (address_length ns))
       | Type.Address _ \<Rightarrow> Some (int (address_length ns))
       | Type.Bytes n \<Rightarrow> Some (int n)
       | Type.Value \<Rightarrow> Some (int (value_length ns))
       | Type.Uint n \<Rightarrow> Some (int (n div 8))
       | Type.Int n \<Rightarrow> Some (int (n div 8))
       | Type.Array t dims \<Rightarrow>
           (if Dynamic \<in> set dims then map_option (\<lambda>size. size * 4) (dynamic_array_size dims)
            else do {
              elem \<leftarrow> storage_slots_fuel k ns t;
              sparse \<leftarrow> is_sparse_array elem dims;
              if sparse then Some (SOLANA_BUCKET_SIZE * 4)
              else map_option (\<lambda>p. elem * p) (dims_product (Some 4) None dims) })
       | Type.Struct st \<Rightarrow> do { d \<leftarrow> struct_definition st ns;
           Some (if s_storage_offsets d = [] then 0 else last (s_storage_offsets d)) }
       | Type.String \<Rightarrow> Some 4
       | Type.DynamicBytes \<Rightarrow> Some 4
       | Type.InternalFunction _ _ _ \<Rightarrow> Some (int (ptr_size (target ns)))
       | Type.ExternalFunction _ _ _ \<Rightarrow> Some (int (address_length ns + 4))
       | Type.Mapping _ _ _ _ \<Rightarrow> Some (SOLANA_BUCKET_SIZE * 4)
       | Type.Ref t \<Rightarrow> storage_slots_fuel k ns t
       | Type.StorageRef _ t \<Rightarrow> storage_slots_fuel k ns t
       | Type.Unresolved \<Rightarrow> Some 1
       | Type.UserType n \<Rightarrow> (case k of 0 \<Rightarrow> None
           | Suc k' \<Rightarrow> do { u \<leftarrow> vec_get (user_types ns) n; storage_slots_fuel k' ns (u_ty u) })
       | _ \<Rightarrow> None)
     else (case ty of
         Type.StorageRef _ t \<Rightarrow> storage_slots_fuel k ns t
       | Type.Ref t \<Rightarrow> storage_slots_fuel k ns t
       | Type.Struct st \<Rightarrow> (case k of 0 \<Rightarrow> None
           | Suc k' \<Rightarrow> do {
               d \<leftarrow> struct_definition st ns;
               slots \<leftarrow> seq_opt (map (\<lambda>f. storage_slots_fuel k' ns (p_ty f))
                          (filter (\<lambda>f. \<not> p_infinite_size f) (s_fields d)));
               Some (sum_list slots) })
       | Type.Array t dims \<Rightarrow>
           (if Dynamic \<in> set dims then dynamic_array_size dims
            else do { elem \<leftarrow> storage_slots_fuel k ns t;
                      p \<leftarrow> dims_product (Some 1) None dims;
                      Some (elem * p) })
       | _ \<Rightarrow> Some 1))"

declare storage_slots_fuel.simps [simp del]

definition storage_slots :: "Namespace \<Rightarrow> Type \<Rightarrow> int option" where
  "storage_slots ns ty = storage_slots_fuel (type_fuel ns) ns ty"

definition is_sparse_solana :: "Namespace \<Rightarrow> Type \<Rightarrow> bool option" where
  "is_sparse_solana ns ty = (case deref_any ty of
       Type.Mapping _ _ _ _ \<Rightarrow> Some True
     | Type.Array t dims \<Rightarrow>
         (if dims \<noteq> [] \<and> hd dims = Dynamic then Some False
          else do { elem \<leftarrow> storage_slots ns t; is_sparse_array elem dims })
     | _ \<Rightarrow> Some False)"

fun storage_align_fuel :: "nat \<Rightarrow> Namespace \<Rightarrow> Type \<Rightarrow> int option" where
  "storage_align_fuel k ns ty =
     (if target_eq (target ns) Solana then
       map_option (\<lambda>len. if len > 8 then 8 else len) (case ty of
         Type.Enum _ \<Rightarrow> Some 1
       | Type.Bool \<Rightarrow> Some 1
       | Type.Contract _ \<Rightarrow> Some (int (address_length ns))
       | Type.Address _ \<Rightarrow> Some (int (address_length ns))
       | Type.Bytes n \<Rightarrow> Some (int n)
       | Type.Value \<Rightarrow> Some (int (value_length ns))
       | Type.Uint n \<Rightarrow> Some (int (n div 8))
       | Type.Int n \<Rightarrow> Some (int (n div 8))
       | Type.Array t dims \<Rightarrow>
           (if Dynamic \<in> set dims then Some 4
            else do { sparse \<leftarrow> is_sparse_solana ns ty;
                      if sparse then Some 4 else storage_align_fuel k ns t })
       | Type.Struct st \<Rightarrow> (case k of 0 \<Rightarrow> None
           | Suc k' \<Rightarrow> do {
               d \<leftarrow> struct_definition st ns;
               as \<leftarrow> seq_opt (map (\<lambda>f. storage_align_fuel k' ns (p_ty f))
                       (filter (\<lambda>f. \<not> p_infinite_size f) (s_fields d)));
               Some (case iter_max as of Some a \<Rightarrow> a | None \<Rightarrow> 1) })
       | Type.String \<Rightarrow> Some 4
       | Type.DynamicBytes \<Rightarrow> Some 4
       | Type.InternalFunction _ _ _ \<Rightarrow> Some (int (ptr_size (target ns)))
       | Type.ExternalFunction _ _ _ \<Rightarrow> Some (int (address_length ns))
       | Type.Mapping _ _ _ _ \<Rightarrow> Some 4
       | Type.Ref t \<Rightarrow> storage_align_fuel k ns t
       | Type.StorageRef _ t \<Rightarrow> storage_align_fuel k ns t
       | Type.Unresolved \<Rightarrow> Some 1
       | _ \<Rightarrow> None)
     else Some 1)"

declare storage_align_fuel.simps [simp del]

definition storage_align :: "Namespace \<Rightarrow> Type \<Rightarrow> int option" where
  "storage_align ns ty = storage_align_fuel (type_fuel ns) ns ty"

section \<open>Questions about the parts of a type\<close>

fun is_dynamic_internal :: "nat \<Rightarrow> Namespace \<Rightarrow> Type \<Rightarrow> nat set \<Rightarrow> (bool \<times> nat set) option" where
  "is_dynamic_internal k ns ty visited = guarded_recursion ty False (\<lambda>visited. (case ty of
       Type.String \<Rightarrow> Some (True, visited)
     | Type.DynamicBytes \<Rightarrow> Some (True, visited)
     | Type.Ref r \<Rightarrow> is_dynamic_internal k ns r visited
     | Type.Array t dims \<Rightarrow>
         (if Dynamic \<in> set dims then Some (True, visited) else is_dynamic_internal k ns t visited)
     | Type.Struct st \<Rightarrow> (case k of 0 \<Rightarrow> None
         | Suc k' \<Rightarrow> do { d \<leftarrow> struct_definition st ns;
             any_st (map (\<lambda>f. is_dynamic_internal k' ns (p_ty f)) (s_fields d)) visited })
     | Type.StorageRef _ r \<Rightarrow> is_dynamic_internal k ns r visited
     | Type.Slice _ \<Rightarrow> Some (True, visited)
     | _ \<Rightarrow> Some (False, visited))) visited"

fun contains_mapping_internal ::
  "nat \<Rightarrow> Namespace \<Rightarrow> Type \<Rightarrow> nat set \<Rightarrow> (bool \<times> nat set) option" where
  "contains_mapping_internal k ns ty visited = guarded_recursion ty False (\<lambda>visited. (case ty of
       Type.Mapping _ _ _ _ \<Rightarrow> Some (True, visited)
     | Type.Array t _ \<Rightarrow> contains_mapping_internal k ns t visited
     | Type.Struct st \<Rightarrow> (case k of 0 \<Rightarrow> None
         | Suc k' \<Rightarrow> do { d \<leftarrow> struct_definition st ns;
             any_st (map (\<lambda>f. contains_mapping_internal k' ns (p_ty f)) (s_fields d)) visited })
     | Type.StorageRef _ r \<Rightarrow> contains_mapping_internal k ns r visited
     | Type.Ref r \<Rightarrow> contains_mapping_internal k ns r visited
     | _ \<Rightarrow> Some (False, visited))) visited"

fun contains_internal_function_internal ::
  "nat \<Rightarrow> Namespace \<Rightarrow> Type \<Rightarrow> nat set \<Rightarrow> (bool \<times> nat set) option" where
  "contains_internal_function_internal k ns ty visited =
     guarded_recursion ty False (\<lambda>visited. (case ty of
       Type.InternalFunction _ _ _ \<Rightarrow> Some (True, visited)
     | Type.Array t _ \<Rightarrow> contains_internal_function_internal k ns t visited
     | Type.Struct st \<Rightarrow> (case k of 0 \<Rightarrow> None
         | Suc k' \<Rightarrow> do { d \<leftarrow> struct_definition st ns;
             any_st (map (\<lambda>f. contains_internal_function_internal k' ns (p_ty f)) (s_fields d))
               visited })
     | Type.StorageRef _ r \<Rightarrow> contains_internal_function_internal k ns r visited
     | Type.Ref r \<Rightarrow> contains_internal_function_internal k ns r visited
     | _ \<Rightarrow> Some (False, visited))) visited"

fun is_recursive_fuel :: "nat \<Rightarrow> Namespace \<Rightarrow> Type \<Rightarrow> bool option" where
  "is_recursive_fuel k ns ty = (case ty of
       Type.Struct (StructType.UserDefined n) \<Rightarrow>
         map_option (\<lambda>d. \<exists>f \<in> set (s_fields d). p_recursive f) (vec_get (structs ns) n)
     | Type.Mapping key _ val _ \<Rightarrow>
         do { b \<leftarrow> is_recursive_fuel k ns key;
              if b then Some True else is_recursive_fuel k ns val }
     | Type.Array t _ \<Rightarrow> is_recursive_fuel k ns t
     | Type.Ref t \<Rightarrow> is_recursive_fuel k ns t
     | Type.Slice t \<Rightarrow> is_recursive_fuel k ns t
     | Type.StorageRef _ t \<Rightarrow> is_recursive_fuel k ns t
     | Type.UserType n \<Rightarrow> (case k of 0 \<Rightarrow> None
         | Suc k' \<Rightarrow> do { u \<leftarrow> vec_get (user_types ns) n; is_recursive_fuel k' ns (u_ty u) })
     | _ \<Rightarrow> Some False)"

declare is_dynamic_internal.simps [simp del] contains_mapping_internal.simps [simp del]
  contains_internal_function_internal.simps [simp del] is_recursive_fuel.simps [simp del]

definition is_dynamic :: "Namespace \<Rightarrow> Type \<Rightarrow> bool option" where
  "is_dynamic ns ty = map_option fst (is_dynamic_internal (type_fuel ns) ns ty {})"

definition contains_mapping :: "Namespace \<Rightarrow> Type \<Rightarrow> bool option" where
  "contains_mapping ns ty = map_option fst (contains_mapping_internal (type_fuel ns) ns ty {})"

definition contains_internal_function :: "Namespace \<Rightarrow> Type \<Rightarrow> bool option" where
  "contains_internal_function ns ty =
     map_option fst (contains_internal_function_internal (type_fuel ns) ns ty {})"

definition is_recursive :: "Namespace \<Rightarrow> Type \<Rightarrow> bool option" where
  "is_recursive ns ty = is_recursive_fuel (type_fuel ns) ns ty"

text \<open>
  \<open>calculate_struct_non_padded_size\<close>: the outer option is the panic, the inner one the
  result of the Rust function.
\<close>

fun non_padded_size_fuel ::
  "nat \<Rightarrow> Namespace \<Rightarrow> Parameter list \<Rightarrow> int \<Rightarrow> int option option" where
  "non_padded_size_fuel k ns [] acc = Some (Some acc)"
| "non_padded_size_fuel k ns (field # rest) acc = do {
     ty \<leftarrow> unwrap_user_type ns (p_ty field);
     if \<not> is_primitive ty then
       (case p_ty field of
          Type.Struct st \<Rightarrow> (case k of 0 \<Rightarrow> None
            | Suc k' \<Rightarrow> do {
                d \<leftarrow> struct_definition st ns;
                inner \<leftarrow> non_padded_size_fuel k' ns (s_fields d) 0;
                (case inner of
                   Some struct_size \<Rightarrow>
                     non_padded_size_fuel k ns rest (acc + struct_size)
                 | None \<Rightarrow> Some None) })
        | _ \<Rightarrow> Some None)
     else do {
       field_size \<leftarrow> memory_size_of ns ty;
       non_padded_size_fuel k ns rest (acc + field_size) } }"

definition calculate_struct_non_padded_size :: "Namespace \<Rightarrow> StructType \<Rightarrow> int option option" where
  "calculate_struct_non_padded_size ns st =
     do { d \<leftarrow> struct_definition st ns; non_padded_size_fuel (type_fuel ns) ns (s_fields d) 0 }"

section \<open>Integer widths on Soroban\<close>

definition get_soroban_int_width :: "nat \<Rightarrow> nat" where
  "get_soroban_int_width width =
     (if 1 \<le> width \<and> width \<le> 32 then 32
      else if 33 \<le> width \<and> width \<le> 64 then 64
      else if 65 \<le> width \<and> width \<le> 128 then 128
      else if 129 \<le> width \<and> width \<le> 256 then 256
      else width)"

definition is_soroban_compatible_width :: "nat \<Rightarrow> bool" where
  "is_soroban_compatible_width width \<longleftrightarrow> width = 32 \<or> width = 64 \<or> width = 128 \<or> width = 256"

definition report_width :: "Namespace \<Rightarrow> Loc \<Rightarrow> string \<Rightarrow> nat \<Rightarrow> nat \<Rightarrow> Namespace" where
  "report_width ns loc kind width rounded =
     (let message = kind @ dec_nat width
            @ '' is not supported by the Soroban runtime and will be rounded up to ''
            @ kind @ dec_nat rounded
      in push_ns ns (if strict_soroban_types ns then error_diagnostic loc message
                     else warning_diagnostic loc message))"

definition round_soroban_width :: "Type \<Rightarrow> Namespace \<Rightarrow> Loc \<Rightarrow> Type \<times> Namespace" where
  "round_soroban_width ty ns loc = (case ty of
       Type.Int width \<Rightarrow>
         (let rounded = get_soroban_int_width width
          in if rounded \<noteq> width then (Type.Int rounded, report_width ns loc ''int'' width rounded)
             else (Type.Int width, ns))
     | Type.Uint width \<Rightarrow>
         (let rounded = get_soroban_int_width width
          in if rounded \<noteq> width then (Type.Uint rounded, report_width ns loc ''uint'' width rounded)
             else (Type.Uint width, ns))
     | _ \<Rightarrow> (ty, ns))"

section \<open>Facts\<close>

lemma align_of_fuel_Struct:
  "align_of_fuel (Suc k) ns (Type.Struct st) = do {
     d \<leftarrow> struct_definition st ns;
     as \<leftarrow> seq_opt (map (\<lambda>f. align_of_fuel k ns (p_ty f))
             (filter (\<lambda>f. \<not> p_infinite_size f) (s_fields d)));
     Some (case iter_max as of Some a \<Rightarrow> a | None \<Rightarrow> 1) }"
  "align_of_fuel 0 ns (Type.Struct st) = None"
  by (subst align_of_fuel.simps, simp)+

lemma align_of_fuel_pos: "align_of_fuel k ns ty = Some a \<Longrightarrow> 0 < a"
proof (induction k arbitrary: ty a)
  case 0
  then show ?case
    by (cases ty) (auto simp: align_of_fuel.simps [of 0] ptr_size_def split: Target.splits if_splits)
next
  case (Suc k)
  show ?case
  proof (cases "\<exists>st. ty = Type.Struct st")
    case True
    then obtain st where ty: "ty = Type.Struct st" by blast
    with Suc.prems obtain d :: StructDecl and as where
      as: "seq_opt (map (\<lambda>f. align_of_fuel k ns (p_ty f))
            (filter (\<lambda>f. \<not> p_infinite_size f) (s_fields d))) = Some as" and
      a: "Some (case iter_max as of Some a \<Rightarrow> a | None \<Rightarrow> 1) = Some a"
      unfolding ty align_of_fuel_Struct Option.bind_eq_Some_conv by blast
    have "\<forall>x \<in> set as. 0 < x"
      using Suc.IH by (auto dest!: seq_opt_map_in_set [OF as])
    then show ?thesis using a by (auto simp: iter_max_def split: if_splits)
  next
    case False
    then show ?thesis using Suc.prems
      by (cases ty) (auto simp: align_of_fuel.simps [of "Suc k"] ptr_size_def split: Target.splits if_splits)
  qed
qed

lemma align_of_pos: "align_of ns ty = Some a \<Longrightarrow> 0 < a"
  by (auto simp: align_of_def dest: align_of_fuel_pos)

text \<open>
  A namespace in which no array has a negative length and no struct a negative size, as
  name resolution leaves it.
\<close>

primrec nonneg_dims :: "Type \<Rightarrow> bool" where
  "nonneg_dims (Type.Address p) = True"
| "nonneg_dims Type.Bool = True"
| "nonneg_dims (Type.Int n) = True"
| "nonneg_dims (Type.Uint n) = True"
| "nonneg_dims Type.Rational = True"
| "nonneg_dims (Type.Bytes n) = True"
| "nonneg_dims Type.DynamicBytes = True"
| "nonneg_dims Type.String = True"
| "nonneg_dims (Type.Array t dims) = (nonneg_dims t \<and> (\<forall>n. Fixed n \<in> set dims \<longrightarrow> 0 \<le> n))"
| "nonneg_dims (Type.Enum n) = True"
| "nonneg_dims (Type.Struct st) = True"
| "nonneg_dims (Type.Mapping kt kn vt vn) = True"
| "nonneg_dims (Type.Contract n) = True"
| "nonneg_dims (Type.Ref r) = nonneg_dims r"
| "nonneg_dims (Type.StorageRef i r) = nonneg_dims r"
| "nonneg_dims (Type.InternalFunction m ps rs) = True"
| "nonneg_dims (Type.ExternalFunction m ps rs) = True"
| "nonneg_dims (Type.UserType n) = True"
| "nonneg_dims Type.Value = True"
| "nonneg_dims Type.Void = True"
| "nonneg_dims Type.Unreachable = True"
| "nonneg_dims (Type.Slice t) = True"
| "nonneg_dims Type.Unresolved = True"
| "nonneg_dims Type.BufferPointer = True"
| "nonneg_dims Type.FunctionSelector = True"

definition wf_sizes :: "Namespace \<Rightarrow> bool" where
  "wf_sizes ns \<longleftrightarrow>
     (\<forall>d \<in> set (structs ns). (\<forall>f \<in> set (s_fields d). nonneg_dims (p_ty f)) \<and>
        (\<forall>x \<in> set (s_storage_offsets d). 0 \<le> x)) \<and>
     (\<forall>u \<in> set (user_types ns). nonneg_dims (u_ty u)) \<and>
     (\<forall>c \<in> set (contracts ns). \<forall>v \<in> set (c_variables c). nonneg_dims (v_ty v))"

lemma struct_definition_wf:
  assumes "wf_sizes ns" and "struct_definition st ns = Some d"
  shows "f \<in> set (s_fields d) \<Longrightarrow> nonneg_dims (p_ty f)" "x \<in> set (s_storage_offsets d) \<Longrightarrow> 0 \<le> x"
  using assms
  by (cases st; auto simp: struct_definition_def wf_sizes_def account_info_struct_def
      account_meta_struct_def external_function_struct_def builtin_struct_def builtin_field_def
      dest: vec_get_in_set)+

lemma dynamic_array_size_rev_nonneg:
  "dynamic_array_size_rev dims r = Some x \<Longrightarrow> 0 \<le> r \<Longrightarrow> \<forall>n. Fixed n \<in> set dims \<longrightarrow> 0 \<le> n \<Longrightarrow> 0 \<le> x"
  by (induction dims r rule: dynamic_array_size_rev.induct) auto

lemma dims_product_nonneg:
  assumes "dims_product dyn any_fixed dims = Some p" and "\<forall>n. Fixed n \<in> set dims \<longrightarrow> 0 \<le> n"
    and "\<And>n. dyn = Some n \<Longrightarrow> 0 \<le> n" and "\<And>n. any_fixed = Some n \<Longrightarrow> 0 \<le> n"
  shows "0 \<le> p"
  using assms(1,2)
  by (induction dims arbitrary: p)
     (auto simp: dims_product_def Option.bind_eq_Some_conv assms(3,4) split: ArrayLength.splits)

lemma sum_list_nonneg_opt:
  assumes "seq_opt (map g xs) = Some ys" and "\<And>x y. x \<in> set xs \<Longrightarrow> g x = Some y \<Longrightarrow> (0 :: int) \<le> y"
  shows "0 \<le> sum_list ys"
proof (rule sum_list_nonneg)
  fix y assume "y \<in> set ys"
  then obtain x where "x \<in> set xs" "g x = Some y"
    using seq_opt_map_in_set [OF assms(1)] by blast
  then show "0 \<le> y" by (rule assms(2))
qed

text \<open>The storage size of a type, by the kind of the type.\<close>

lemma storage_slots_fuel_simps:
  "storage_slots_fuel k ns (Type.Ref r) = storage_slots_fuel k ns r"
  "storage_slots_fuel k ns (Type.StorageRef i r) = storage_slots_fuel k ns r"
  "storage_slots_fuel k ns (Type.Array t dims) =
     (if target ns = Solana then
        (if Dynamic \<in> set dims then map_option (\<lambda>size. size * 4) (dynamic_array_size dims)
         else do {
           elem \<leftarrow> storage_slots_fuel k ns t;
           sparse \<leftarrow> is_sparse_array elem dims;
           if sparse then Some (SOLANA_BUCKET_SIZE * 4)
           else map_option (\<lambda>p. elem * p) (dims_product (Some 4) None dims) })
      else if Dynamic \<in> set dims then dynamic_array_size dims
      else do { elem \<leftarrow> storage_slots_fuel k ns t;
                p \<leftarrow> dims_product (Some 1) None dims;
                Some (elem * p) })"
  by (subst storage_slots_fuel.simps, simp)+

lemma dynamic_array_size_nonneg:
  "dynamic_array_size dims = Some x \<Longrightarrow> \<forall>n. Fixed n \<in> set dims \<longrightarrow> 0 \<le> n \<Longrightarrow> 0 \<le> x"
  unfolding dynamic_array_size_def by (erule dynamic_array_size_rev_nonneg) simp_all

lemma storage_slots_array_nonneg:
  assumes "storage_slots_fuel k ns (Type.Array t dims) = Some n"
    and "\<And>m. storage_slots_fuel k ns t = Some m \<Longrightarrow> 0 \<le> m" and "\<forall>n. Fixed n \<in> set dims \<longrightarrow> 0 \<le> n"
  shows "0 \<le> n"
  using assms(1) unfolding storage_slots_fuel_simps(3)
  by (auto simp: Option.bind_eq_Some_conv SOLANA_BUCKET_SIZE_def split: if_splits
      dest!: assms(2) dynamic_array_size_nonneg [OF _ assms(3)] dims_product_nonneg [OF _ assms(3)])

lemma storage_slots_fuel_nonneg:
  assumes wf: "wf_sizes ns"
  shows "storage_slots_fuel k ns ty = Some n \<Longrightarrow> nonneg_dims ty \<Longrightarrow> 0 \<le> n"
proof (induction k arbitrary: ty n)
  case 0
  then show ?case
  proof (induction ty arbitrary: n)
    case (Array t dims)
    show ?case using Array.prems Array.IH by (auto intro: storage_slots_array_nonneg)
  next
    case (Struct st)
    then show ?case using struct_definition_wf(2) [OF wf, of st]
      by (auto simp: storage_slots_fuel.simps [of 0] Option.bind_eq_Some_conv split: if_splits)
  qed (auto simp: storage_slots_fuel_simps(1,2) storage_slots_fuel.simps [of 0] SOLANA_BUCKET_SIZE_def
      split: if_splits)
next
  case (Suc k)
  note hop = Suc.IH
  from Suc.prems show ?case
  proof (induction ty arbitrary: n)
    case (Array t dims)
    show ?case using Array.prems Array.IH by (auto intro: storage_slots_array_nonneg)
  next
    case (Struct st)
    show ?case
    proof (cases "target ns = Solana")
      case True
      then show ?thesis using Struct struct_definition_wf(2) [OF wf, of st]
        by (auto simp: storage_slots_fuel.simps [of "Suc k"] Option.bind_eq_Some_conv split: if_splits)
    next
      case False
      then obtain d :: StructDecl and slots where d: "struct_definition st ns = Some d" and
        sl: "seq_opt (map (\<lambda>f. storage_slots_fuel k ns (p_ty f))
              (filter (\<lambda>f. \<not> p_infinite_size f) (s_fields d))) = Some slots" and n: "n = sum_list slots"
        using Struct.prems
        by (auto simp: storage_slots_fuel.simps [of "Suc k"] Option.bind_eq_Some_conv)
      show ?thesis unfolding n
        by (rule sum_list_nonneg_opt [OF sl]) (auto intro: hop struct_definition_wf(1) [OF wf d])
    qed
  next
    case (UserType m)
    then show ?case using wf
      by (auto simp: storage_slots_fuel.simps [of "Suc k"] Option.bind_eq_Some_conv wf_sizes_def
          split: if_splits dest!: vec_get_in_set intro: hop)
  qed (auto simp: storage_slots_fuel_simps(1,2) storage_slots_fuel.simps [of "Suc k"] SOLANA_BUCKET_SIZE_def
      split: if_splits)
qed

lemma storage_slots_nonneg:
  "wf_sizes ns \<Longrightarrow> nonneg_dims ty \<Longrightarrow> storage_slots ns ty = Some n \<Longrightarrow> 0 \<le> n"
  by (auto simp: storage_slots_def dest: storage_slots_fuel_nonneg)

lemma storage_align_fuel_Struct:
  "storage_align_fuel (Suc k) ns (Type.Struct st) =
     (if target ns = Solana then map_option (\<lambda>len. if len > 8 then 8 else len) (do {
        d \<leftarrow> struct_definition st ns;
        as \<leftarrow> seq_opt (map (\<lambda>f. storage_align_fuel k ns (p_ty f))
                (filter (\<lambda>f. \<not> p_infinite_size f) (s_fields d)));
        Some (case iter_max as of Some a \<Rightarrow> a | None \<Rightarrow> 1) })
      else Some 1)"
  "storage_align_fuel 0 ns (Type.Struct st) = (if target ns = Solana then None else Some 1)"
  by (subst storage_align_fuel.simps, simp)+

lemma storage_align_fuel_nonneg: "storage_align_fuel k ns ty = Some a \<Longrightarrow> 0 \<le> a \<and> a \<le> 8"
proof (induction k arbitrary: ty a)
  case 0
  then show ?case
  proof (induction ty arbitrary: a)
    case (Struct st)
    then show ?case by (auto simp: storage_align_fuel_Struct split: if_splits)
  qed (auto simp: storage_align_fuel.simps [of 0] Option.bind_eq_Some_conv ptr_size_def split: if_splits)
next
  case (Suc k)
  note hop = Suc.IH
  from Suc.prems show ?case
  proof (induction ty arbitrary: a)
    case (Struct st)
    show ?case
    proof (cases "target ns = Solana")
      case False
      then show ?thesis using Struct by (simp add: storage_align_fuel_Struct)
    next
      case True
      with Struct obtain d :: StructDecl and as m where
        as: "seq_opt (map (\<lambda>f. storage_align_fuel k ns (p_ty f))
              (filter (\<lambda>f. \<not> p_infinite_size f) (s_fields d))) = Some as" and
        m: "m = (case iter_max as of Some a \<Rightarrow> a | None \<Rightarrow> 1)" and a: "a = (if m > 8 then 8 else m)"
        by (auto simp: storage_align_fuel_Struct Option.bind_eq_Some_conv)
      have "\<forall>x \<in> set as. 0 \<le> x" using hop by (auto dest!: seq_opt_map_in_set [OF as])
      then show ?thesis using a m by (auto simp: iter_max_def split: if_splits)
    qed
  qed (auto simp: storage_align_fuel.simps [of "Suc k"] Option.bind_eq_Some_conv ptr_size_def split: if_splits)
qed

lemma storage_align_nonneg: "storage_align ns ty = Some a \<Longrightarrow> 0 \<le> a \<and> a \<le> 8"
  by (auto simp: storage_align_def dest: storage_align_fuel_nonneg)

section \<open>Integer widths on Soroban\<close>

lemma get_soroban_int_width_le:
  "1 \<le> w \<Longrightarrow> w \<le> 256 \<Longrightarrow> w \<le> get_soroban_int_width w \<and> is_soroban_compatible_width (get_soroban_int_width w)"
  by (auto simp: get_soroban_int_width_def is_soroban_compatible_width_def)



end
