(* ===== verification/StorageLayout.thy ===== *)
theory StorageLayout
  imports Sizes
begin

text \<open>
  The offsets of struct fields (\<open>struct_offsets\<close> of \<open>src/sema/types.rs\<close>), the
  order in which a contract inherits its bases (\<open>src/sema/contracts.rs\<close>) and the storage
  layout of a contract (\<open>layout\<close> of \<open>src/codegen/mod.rs\<close>), with the facts that
  fields and variables do not overlap.
\<close>

section \<open>Offsets of struct fields\<close>

text \<open>
  The next multiple of the alignment; \<open>%\<close> by zero panics. Offsets and alignments are not
  negative, so the truncating remainder of \<open>BigInt\<close> is \<open>mod\<close>.
\<close>

definition align_up :: "int \<Rightarrow> int \<Rightarrow> int option" where
  "align_up offset alignment =
     (if alignment = 0 then None
      else let remainder = offset mod alignment
           in Some (if remainder > 0 then offset + (alignment - remainder) else offset))"

fun struct_field_offsets ::
  "Namespace \<Rightarrow> Parameter list \<Rightarrow> int \<Rightarrow> int \<Rightarrow> (int list \<times> int \<times> int) option" where
  "struct_field_offsets ns [] offset largest = Some ([], offset, largest)"
| "struct_field_offsets ns (field # rest) offset largest = do {
     alignment \<leftarrow> align_of ns (p_ty field);
     offset \<leftarrow> align_up offset (int alignment);
     next_offset \<leftarrow> (if \<not> p_infinite_size field \<and> target_eq (target ns) Solana
             then map_option (\<lambda>size. offset + size) (solana_storage_size ns (p_ty field))
             else Some offset);
     (offsets, stop, largest) \<leftarrow>
       struct_field_offsets ns rest next_offset (max (int alignment) largest);
     Some (offset # offsets, stop, largest) }"

fun struct_field_storage_offsets ::
  "Namespace \<Rightarrow> Parameter list \<Rightarrow> int \<Rightarrow> int \<Rightarrow> (int list \<times> int \<times> int) option" where
  "struct_field_storage_offsets ns [] offset largest = Some ([], offset, largest)"
| "struct_field_storage_offsets ns (field # rest) offset largest =
     (if \<not> p_infinite_size field then do {
        alignment \<leftarrow> storage_align ns (p_ty field);
        offset \<leftarrow> align_up offset alignment;
        slots \<leftarrow> storage_slots ns (p_ty field);
        (offsets, stop, largest) \<leftarrow>
          struct_field_storage_offsets ns rest (offset + slots) (max alignment largest);
        Some (offset # offsets, stop, largest) }
      else struct_field_storage_offsets ns rest offset largest)"

text \<open>The entry for the overall size, padded to the largest alignment.\<close>

definition with_overall_size :: "int list \<times> int \<times> int \<Rightarrow> int list option" where
  "with_overall_size = (\<lambda>(offsets, offset, largest).
     if largest > 1 then map_option (\<lambda>stop. offsets @ [stop]) (align_up offset largest)
     else Some (offsets @ [offset]))"

definition struct_offsets_step :: "Namespace \<Rightarrow> nat \<Rightarrow> (bool \<times> Namespace) option" where
  "struct_offsets_step ns n = do {
     d \<leftarrow> vec_get (structs ns) n;
     offs \<leftarrow> struct_field_offsets ns (s_fields d) 0 0;
     offs \<leftarrow> with_overall_size offs;
     (let changes = (s_offsets d \<noteq> offs);
          d = d\<lparr>s_offsets := offs\<rparr>;
          ns = ns\<lparr>structs := (structs ns)[n := d]\<rparr>
      in do {
        storage \<leftarrow> struct_field_storage_offsets ns (s_fields d) 0 0;
        storage \<leftarrow> with_overall_size storage;
        Some (changes \<or> s_storage_offsets d \<noteq> storage,
              ns\<lparr>structs := (structs ns)[n := d\<lparr>s_storage_offsets := storage\<rparr>]\<rparr>) }) }"

fun struct_offsets_pass :: "nat list \<Rightarrow> bool \<Rightarrow> Namespace \<Rightarrow> (bool \<times> Namespace) option" where
  "struct_offsets_pass [] changes ns = Some (changes, ns)"
| "struct_offsets_pass (n # nos) changes ns = do {
     (c, ns) \<leftarrow> struct_offsets_step ns n;
     struct_offsets_pass nos (changes \<or> c) ns }"

partial_function (option) struct_offsets :: "Namespace \<Rightarrow> Namespace option" where
  "struct_offsets ns = do {
     (changes, ns) \<leftarrow> struct_offsets_pass [0 ..< length (structs ns)] False ns;
     if changes then struct_offsets ns else Some ns }"

declare struct_offsets.simps [code]

section \<open>Contract storage layout\<close>

text \<open>
  The inheritance order of \<open>contract_bases\<close> (\<open>src/sema/contracts.rs\<close>): bases from the
  last to the first, each before the contract itself, no contract twice. The recursion
  follows the base lists, at most one step per contract when inheritance has no cycle.
\<close>

fun base_order :: "nat \<Rightarrow> Namespace \<Rightarrow> nat \<Rightarrow> nat list \<Rightarrow> nat list option" where
  "base_order 0 ns contract_no order = None"
| "base_order (Suc k) ns contract_no order = do {
     c \<leftarrow> vec_get (contracts ns) contract_no;
     order \<leftarrow> fold (\<lambda>b acc. Option.bind acc (base_order k ns b)) (rev (c_bases c)) (Some order);
     Some (if contract_no \<in> set order then order else order @ [contract_no]) }"

definition contract_bases :: "Namespace \<Rightarrow> nat \<Rightarrow> nat list option" where
  "contract_bases ns contract_no = base_order (Suc (length (contracts ns))) ns contract_no []"

definition SOLANA_FIRST_OFFSET :: int where
  "SOLANA_FIRST_OFFSET = 16"

definition MAXIMUM_ACCOUNT_SIZE :: int where
  "MAXIMUM_ACCOUNT_SIZE = 10 * 1024 * 1024"

text \<open>On Solana a variable starts at a multiple of its alignment.\<close>

definition align_slot :: "Namespace \<Rightarrow> Type \<Rightarrow> int \<Rightarrow> int option" where
  "align_slot ns ty slot =
     (if target_eq (target ns) Solana
      then do { alignment \<leftarrow> align_of ns ty; align_up slot (int alignment) }
      else Some slot)"

text \<open>One variable of the loop of \<open>layout\<close>: constants take no storage.\<close>

definition layout_var ::
  "Namespace \<Rightarrow> nat \<times> nat \<times> Variable \<Rightarrow> int \<times> Layout list \<Rightarrow> (int \<times> Layout list) option" where
  "layout_var ns = (\<lambda>(contract_no, var_no, var) (slot, acc).
     if v_constant var then Some (slot, acc)
     else do {
       slot \<leftarrow> align_slot ns (v_ty var) slot;
       slots \<leftarrow> storage_slots ns (v_ty var);
       Some (slot + slots,
             acc @ [\<lparr>l_slot = slot, l_contract_no = contract_no, l_var_no = var_no,
                      l_ty = v_ty var\<rparr>]) })"

definition contract_vars :: "Namespace \<Rightarrow> nat \<Rightarrow> (nat \<times> nat \<times> Variable) list option" where
  "contract_vars ns contract_no =
     map_option (\<lambda>c. map (\<lambda>(i, v). (contract_no, i, v)) (enumerate 0 (c_variables c)))
       (vec_get (contracts ns) contract_no)"

primrec layout_vars ::
  "Namespace \<Rightarrow> (nat \<times> nat \<times> Variable) list \<Rightarrow> int \<times> Layout list \<Rightarrow> (int \<times> Layout list) option"
where
  "layout_vars ns [] st = Some st"
| "layout_vars ns (v # vs) st = do { st \<leftarrow> layout_var ns v st; layout_vars ns vs st }"

text \<open>
  The size check: \<open>space\<close> is the location and the value of the \<open>@space\<close> annotation of
  the first constructor, as \<open>eval_const_number\<close> evaluates it.
\<close>

definition check_space :: "(Loc \<times> int) option \<Rightarrow> int \<Rightarrow> Namespace \<Rightarrow> Namespace option" where
  "check_space space slot ns = (case space of
       None \<Rightarrow> Some ns
     | Some (loc, value) \<Rightarrow>
         (if \<not> target_eq (target ns) Solana then None
          else if slot > value then
            Some (push_ns ns (error_diagnostic loc
              (''contract requires at least '' @ dec_int slot @ '' bytes of space'')))
          else if value > MAXIMUM_ACCOUNT_SIZE then
            Some (push_ns ns (error_diagnostic loc
              ''Solana's runtime does not permit accounts larger than 10 MB''))
          else Some ns))"

definition layout :: "nat \<Rightarrow> (Loc \<times> int) option \<Rightarrow> Namespace \<Rightarrow> Namespace option" where
  "layout contract_no space ns = do {
     bases \<leftarrow> contract_bases ns contract_no;
     vars \<leftarrow> seq_opt (map (contract_vars ns) bases);
     c \<leftarrow> vec_get (contracts ns) contract_no;
     (slot, entries) \<leftarrow> layout_vars ns (concat vars)
       (if target_eq (target ns) Solana then SOLANA_FIRST_OFFSET else 0, c_layout c);
     ns \<leftarrow> check_space space slot ns;
     Some (ns\<lparr>contracts := (contracts ns)[contract_no :=
       c\<lparr>c_layout := entries, c_fixed_layout_size := slot\<rparr>]\<rparr>) }"

section \<open>Facts\<close>

lemma align_up_Some:
  assumes "align_up offset a = Some r" and "0 < a"
  shows "offset \<le> r" "r < offset + a" "r mod a = 0"
proof -
  have m: "offset mod a < a" "0 \<le> offset mod a" using assms(2) by simp_all
  have r: "r = (if 0 < offset mod a then offset + (a - offset mod a) else offset)"
    using assms by (simp add: align_up_def Let_def)
  show "offset \<le> r" using m(1) unfolding r by simp
  show "r < offset + a" using m assms(2) unfolding r by simp
  have "(offset + (a - offset mod a)) mod a = 0"
    by (metis add_diff_eq diff_add_eq minus_mod_eq_mult_div mod_add_self2 mod_mult_self1_is_0)
  then show "r mod a = 0" using m(2) unfolding r by auto
qed

text \<open>
  \<open>packed slots start xs stop\<close>: the pieces \<open>xs\<close>, each an offset with a size, lie
  one after the other between \<open>start\<close> and \<open>stop\<close>.
\<close>

fun packed :: "int \<Rightarrow> (int \<times> int) list \<Rightarrow> int \<Rightarrow> bool" where
  "packed start [] stop \<longleftrightarrow> start \<le> stop"
| "packed start ((offset, n) # xs) stop \<longleftrightarrow>
     start \<le> offset \<and> 0 \<le> n \<and> packed (offset + n) xs stop"

lemma packed_bounds:
  "packed start xs stop \<Longrightarrow> start \<le> stop \<and> (\<forall>(offset, n) \<in> set xs. start \<le> offset \<and> offset + n \<le> stop)"
proof (induction start xs stop rule: packed.induct)
  case (2 start offset n xs stop)
  then have "offset + n \<le> stop" "\<forall>(o', m) \<in> set xs. offset + n \<le> o' \<and> o' + m \<le> stop"
    "start \<le> offset" "0 \<le> n" by auto
  then show ?case by fastforce
qed simp

lemma packed_nth:
  assumes "packed start xs stop" "i < j" "j < length xs"
  shows "fst (xs ! i) + snd (xs ! i) \<le> fst (xs ! j)"
  using assms
proof (induction start xs stop arbitrary: i j rule: packed.induct)
  case (2 start offset n xs stop)
  show ?case
  proof (cases i)
    case 0
    then have "xs ! (j - 1) \<in> set xs" using "2.prems" by simp
    then have "offset + n \<le> fst (xs ! (j - 1))"
      using packed_bounds [of "offset + n" xs stop] "2.prems"(1) by (auto simp: case_prod_beta)
    then show ?thesis using "2.prems" 0 by (simp add: nth_Cons')
  next
    case (Suc m)
    then show ?thesis using 2 by (auto simp: nth_Cons')
  qed
qed simp

lemma packed_zip:
  assumes "packed start (zip xs ys) stop" "length xs = length ys"
  shows "i < length xs \<Longrightarrow> start \<le> xs ! i \<and> xs ! i + ys ! i \<le> stop"
    "j < length xs \<Longrightarrow> i < j \<Longrightarrow> xs ! i + ys ! i \<le> xs ! j"
proof -
  assume i: "i < length xs"
  then have "(xs ! i, ys ! i) \<in> set (zip xs ys)" using assms(2) by (auto simp: set_zip)
  then show "start \<le> xs ! i \<and> xs ! i + ys ! i \<le> stop" using packed_bounds [OF assms(1)] by auto
next
  assume "j < length xs" "i < j"
  then show "xs ! i + ys ! i \<le> xs ! j" using packed_nth [OF assms(1), of i j] assms(2) by simp
qed

lemma struct_field_storage_offsets_packed:
  assumes "wf_sizes ns"
  shows "struct_field_storage_offsets ns fs start largest = Some (offs, stop, largest') \<Longrightarrow>
    \<forall>f \<in> set fs. nonneg_dims (p_ty f) \<Longrightarrow>
    \<exists>sizes. seq_opt (map (\<lambda>f. storage_slots ns (p_ty f)) (filter (\<lambda>f. \<not> p_infinite_size f) fs)) = Some sizes
      \<and> length offs = length sizes \<and> packed start (zip offs sizes) stop"
proof (induction fs arbitrary: start largest offs)
  case (Cons f fs)
  show ?case
  proof (cases "p_infinite_size f")
    case True
    then show ?thesis using Cons by simp
  next
    case False
    then obtain a offset n offs' where a: "storage_align ns (p_ty f) = Some a"
      and up: "align_up start a = Some offset" and n: "storage_slots ns (p_ty f) = Some n"
      and rest: "struct_field_storage_offsets ns fs (offset + n) (max a largest) = Some (offs', stop, largest')"
      and offs: "offs = offset # offs'"
      using Cons.prems(1) by (auto simp: Option.bind_eq_Some_conv)
    have "0 < a" using storage_align_nonneg [OF a] up by (cases "a = 0") (simp_all add: align_up_def)
    then have "start \<le> offset" by (rule align_up_Some(1) [OF up])
    moreover have "0 \<le> n" using storage_slots_nonneg [OF assms _ n] Cons.prems(2) by simp
    ultimately show ?thesis using Cons.IH [OF rest] Cons.prems(2) False n offs by auto
  qed
qed simp

text \<open>One variable: constants leave the layout as it is, others are appended.\<close>

lemma layout_var_Some:
  assumes "layout_var ns (c, i, v) (slot, acc) = Some (slot', acc')" "\<not> v_constant v"
  obtains offset n where "slot \<le> offset" "storage_slots ns (v_ty v) = Some n" "slot' = offset + n"
    "acc' = acc @ [\<lparr>l_slot = offset, l_contract_no = c, l_var_no = i, l_ty = v_ty v\<rparr>]"
    "target ns = Solana \<Longrightarrow> \<exists>a. align_of ns (v_ty v) = Some a \<and> offset mod int a = 0"
proof -
  obtain offset where off: "align_slot ns (v_ty v) slot = Some offset"
    using assms by (cases "align_slot ns (v_ty v) slot") (simp_all add: layout_var_def)
  obtain n where sz: "storage_slots ns (v_ty v) = Some n"
    using assms off by (cases "storage_slots ns (v_ty v)") (simp_all add: layout_var_def)
  have n: "storage_slots ns (v_ty v) = Some n" "slot' = offset + n"
    "acc' = acc @ [\<lparr>l_slot = offset, l_contract_no = c, l_var_no = i, l_ty = v_ty v\<rparr>]"
    using assms off sz by (simp_all add: layout_var_def)
  show thesis
  proof (cases "target ns = Solana")
    case True
    with off obtain a where a: "align_of ns (v_ty v) = Some a" and up: "align_up slot (int a) = Some offset"
      by (auto simp: align_slot_def Option.bind_eq_Some_conv)
    have "0 < int a" using align_of_pos [OF a] by simp
    note up' = align_up_Some [OF up this]
    show thesis by (rule that [OF up'(1) n]) (intro exI [of _ a] conjI a up'(3))
  next
    case False
    then show thesis using that [OF _ n] off by (simp add: align_slot_def)
  qed
qed

lemma layout_vars_packed:
  assumes "wf_sizes ns"
  shows "layout_vars ns vs (slot, acc) = Some (slot', acc') \<Longrightarrow>
    \<forall>(c, i, v) \<in> set vs. nonneg_dims (v_ty v) \<Longrightarrow>
    \<exists>es sizes. acc' = acc @ es \<and> seq_opt (map (\<lambda>l. storage_slots ns (l_ty l)) es) = Some sizes \<and>
      packed slot (zip (map l_slot es) sizes) slot' \<and>
      map (\<lambda>l. (l_contract_no l, l_var_no l, l_ty l)) es =
        [(c, i, v_ty v). (c, i, v) \<leftarrow> vs, \<not> v_constant v] \<and>
      (target ns = Solana \<longrightarrow>
        (\<forall>l \<in> set es. \<exists>a. align_of ns (l_ty l) = Some a \<and> l_slot l mod int a = 0))"
proof (induction vs arbitrary: slot acc)
  case Nil
  then show ?case by simp
next
  case (Cons x vs)
  obtain c i v where x: "x = (c, i, v)" by (metis prod_cases3)
  from Cons.prems(1) obtain mid acc1 where
    one: "layout_var ns (c, i, v) (slot, acc) = Some (mid, acc1)" and
    rest: "layout_vars ns vs (mid, acc1) = Some (slot', acc')"
    by (auto simp: x Option.bind_eq_Some_conv)
  note IH = Cons.IH [OF rest]
  show ?case
  proof (cases "v_constant v")
    case True
    then have "mid = slot" "acc1 = acc" using one by (simp_all add: layout_var_def)
    then show ?thesis using IH Cons.prems(2) True by (simp add: x)
  next
    case False
    obtain offset n where v: "slot \<le> offset" "storage_slots ns (v_ty v) = Some n" "mid = offset + n"
      "acc1 = acc @ [\<lparr>l_slot = offset, l_contract_no = c, l_var_no = i, l_ty = v_ty v\<rparr>]"
      "target ns = Solana \<Longrightarrow> \<exists>a. align_of ns (v_ty v) = Some a \<and> offset mod int a = 0"
      using layout_var_Some [OF one False] by metis
    have n: "0 \<le> n" using storage_slots_nonneg [OF assms _ v(2)] Cons.prems(2) x by simp
    obtain es sizes where es: "acc' = acc1 @ es"
      "seq_opt (map (\<lambda>l. storage_slots ns (l_ty l)) es) = Some sizes"
      "packed mid (zip (map l_slot es) sizes) slot'"
      "map (\<lambda>l. (l_contract_no l, l_var_no l, l_ty l)) es = [(c, i, v_ty v). (c, i, v) \<leftarrow> vs, \<not> v_constant v]"
      "target ns = Solana \<longrightarrow>
        (\<forall>l \<in> set es. \<exists>a. align_of ns (l_ty l) = Some a \<and> l_slot l mod int a = 0)"
      using IH Cons.prems(2) by auto
    show ?thesis
      by (rule exI [of _ "\<lparr>l_slot = offset, l_contract_no = c, l_var_no = i, l_ty = v_ty v\<rparr> # es"],
          rule exI [of _ "n # sizes"])
         (use es v n False in \<open>simp add: x\<close>)
  qed
qed

section \<open>The order of the bases\<close>

text \<open>Every contract of the order stands after the contracts it inherits from.\<close>

definition bases_first :: "Namespace \<Rightarrow> nat list \<Rightarrow> bool" where
  "bases_first ns order \<longleftrightarrow> distinct order \<and>
     (\<forall>i < length order. order ! i < length (contracts ns) \<and>
        set (c_bases (contracts ns ! (order ! i))) \<subseteq> set (take i order))"

lemma bases_first_snoc:
  assumes "bases_first ns order" "c \<notin> set order" "c < length (contracts ns)"
    "set (c_bases (contracts ns ! c)) \<subseteq> set order"
  shows "bases_first ns (order @ [c])"
  using assms by (auto simp: bases_first_def nth_append less_Suc_eq subset_iff)

lemma base_order_extends:
  assumes "base_order k ns c order = Some order'" and "bases_first ns order"
  shows "bases_first ns order' \<and> (\<exists>new. order' = order @ new) \<and> c \<in> set order'"
  using assms
proof (induction k arbitrary: c order order')
  case 0
  then show ?case by simp
next
  case (Suc k)
  let ?visit = "\<lambda>b acc. Option.bind acc (base_order k ns b)"
  have all: "bases_first ns r \<and> (\<exists>new. r = order @ new) \<and> set bs \<subseteq> set r"
    if "fold ?visit bs (Some order) = Some r" "bases_first ns order" for bs r order
    using that
  proof (induction bs arbitrary: order)
    case (Cons b bs)
    have none: "fold ?visit bs None = None" for bs by (induction bs) auto
    with Cons.prems(1) obtain mid where mid: "base_order k ns b order = Some mid"
      and rest: "fold ?visit bs (Some mid) = Some r"
      by (cases "base_order k ns b order") auto
    have "bases_first ns mid" "\<exists>new. mid = order @ new" "b \<in> set mid"
      using Suc.IH [OF mid Cons.prems(2)] by auto
    then show ?case using Cons.IH [OF rest] by fastforce
  qed simp
  from Suc.prems(1) obtain d :: Contract and r where d: "vec_get (contracts ns) c = Some d"
    and r: "fold ?visit (rev (c_bases d)) (Some order) = Some r"
    and order': "order' = (if c \<in> set r then r else r @ [c])"
    by (auto simp: Option.bind_eq_Some_conv)
  show ?case using all [OF r Suc.prems(2)] d order' bases_first_snoc [of ns r c]
    by (auto simp: vec_get_Some)
qed

lemma contract_bases_order:
  assumes "contract_bases ns c = Some order"
  shows "bases_first ns order" "c \<in> set order"
  using base_order_extends [of "Suc (length (contracts ns))" ns c "[]" order] assms
  by (auto simp: contract_bases_def bases_first_def)

section \<open>Struct offsets are stable and do not overlap\<close>

lemma list_update_same: "n < length xs \<Longrightarrow> xs ! n = x \<Longrightarrow> xs[n := x] = xs"
  by auto

lemma struct_offsets_step_unchanged:
  assumes "struct_offsets_step ns n = Some (False, ns')"
  shows "ns' = ns \<and> (\<exists>d offs. vec_get (structs ns) n = Some d \<and>
    struct_field_storage_offsets ns (s_fields d) 0 0 = Some offs \<and>
    with_overall_size offs = Some (s_storage_offsets d))"
proof -
  obtain d where d: "vec_get (structs ns) n = Some d"
    using assms by (cases "vec_get (structs ns) n") (simp_all add: struct_offsets_step_def)
  then have id: "ns\<lparr>structs := (structs ns)[n := d]\<rparr> = ns"
    by (simp add: vec_get_Some list_update_same)
  from assms d obtain offs where
    1: "struct_field_offsets ns (s_fields d) 0 0 \<bind> with_overall_size = Some offs"
    by (auto simp: struct_offsets_step_def Option.bind_eq_Some_conv)
  show ?thesis
  proof (cases "s_offsets d = offs")
    case False
    then show ?thesis using assms d 1
      by (auto simp: struct_offsets_step_def Option.bind_eq_Some_conv Let_def)
  next
    case True
    then have same: "d\<lparr>s_offsets := offs\<rparr> = d" by auto
    from assms d 1 True id same show ?thesis
      by (auto simp: struct_offsets_step_def Option.bind_eq_Some_conv Let_def)
  qed
qed

lemma struct_offsets_pass_changes:
  "struct_offsets_pass nos True ns = Some (c, ns') \<Longrightarrow> c"
  by (induction nos "True" ns rule: struct_offsets_pass.induct) (auto simp: Option.bind_eq_Some_conv)

lemma struct_offsets_pass_unchanged:
  assumes "struct_offsets_pass nos False ns = Some (False, ns')"
  shows "ns' = ns \<and> (\<forall>n \<in> set nos. struct_offsets_step ns n = Some (False, ns))"
  using assms
proof (induction nos)
  case (Cons n nos)
  then obtain c mid where step: "struct_offsets_step ns n = Some (c, mid)"
    and rest: "struct_offsets_pass nos c mid = Some (False, ns')"
    by (auto simp: Option.bind_eq_Some_conv)
  have c: "\<not> c" using rest struct_offsets_pass_changes by (cases c) auto
  with step have "mid = ns" using struct_offsets_step_unchanged by auto
  then show ?case using Cons.IH step rest c by auto
qed simp

lemma struct_offsets_pass_length:
  "struct_offsets_pass nos c ns = Some (c', ns') \<Longrightarrow> length (structs ns') = length (structs ns)"
proof (induction nos arbitrary: c ns)
  case (Cons n nos)
  then obtain d mid where step: "struct_offsets_step ns n = Some (d, mid)"
    and rest: "struct_offsets_pass nos (c \<or> d) mid = Some (c', ns')"
    by (auto simp: Option.bind_eq_Some_conv)
  from step have "length (structs mid) = length (structs ns)"
    by (auto simp: struct_offsets_step_def Option.bind_eq_Some_conv Let_def)
  then show ?case using Cons.IH [OF rest] by simp
qed simp

text \<open>The loop ends only when a pass over all structs changes nothing.\<close>

lemma struct_offsets_stable:
  assumes "struct_offsets ns = Some ns'"
  shows "\<forall>n < length (structs ns'). struct_offsets_step ns' n = Some (False, ns')"
proof (rule struct_offsets.raw_induct [OF _ assms])
  fix rec ns ns'
  assume IH: "\<And>ns ns'. rec ns = Some ns' \<Longrightarrow>
      \<forall>n < length (structs ns'). struct_offsets_step ns' n = Some (False, ns')"
    and eq: "(struct_offsets_pass [0 ..< length (structs ns)] False ns \<bind>
      (\<lambda>(changes, ns). if changes then rec ns else Some ns)) = Some ns'"
  then obtain c mid where pass: "struct_offsets_pass [0 ..< length (structs ns)] False ns = Some (c, mid)"
    and r: "(if c then rec mid else Some mid) = Some ns'"
    by (auto simp: Option.bind_eq_Some_conv)
  show "\<forall>n < length (structs ns'). struct_offsets_step ns' n = Some (False, ns')"
  proof (cases c)
    case True
    then show ?thesis using IH r by simp
  next
    case False
    then show ?thesis using struct_offsets_pass_unchanged [of "[0 ..< length (structs ns)]" ns mid] pass r
        struct_offsets_pass_length [OF pass] by auto
  qed
qed

lemma with_overall_size_Some:
  assumes "with_overall_size (offs, stop, largest) = Some r"
  obtains overall where "r = offs @ [overall]" "stop \<le> overall" "1 < largest \<Longrightarrow> overall mod largest = 0"
proof (cases "1 < largest")
  case True
  with assms obtain z where z: "align_up stop largest = Some z" "r = offs @ [z]"
    by (auto simp: with_overall_size_def)
  show thesis by (rule that [OF z(2)]) (use align_up_Some [OF z(1)] True in auto)
next
  case False
  with assms show thesis by (intro that [of stop]) (auto simp: with_overall_size_def)
qed

lemma packed_mono: "packed start xs stop \<Longrightarrow> stop \<le> stop' \<Longrightarrow> packed start xs stop'"
  by (induction start xs stop rule: packed.induct) auto

lemma storage_offsets_packed:
  assumes "wf_sizes ns" "\<forall>f \<in> set fs. nonneg_dims (p_ty f)"
    and "struct_field_storage_offsets ns fs 0 0 = Some r" "with_overall_size r = Some storage"
  shows "\<exists>offs overall sizes. storage = offs @ [overall] \<and> length offs = length sizes \<and>
    seq_opt (map (\<lambda>f. storage_slots ns (p_ty f)) (filter (\<lambda>f. \<not> p_infinite_size f) fs)) = Some sizes \<and>
    packed 0 (zip offs sizes) overall"
proof -
  obtain offs stop largest where r: "r = (offs, stop, largest)" by (metis prod_cases3)
  obtain sizes where "seq_opt (map (\<lambda>f. storage_slots ns (p_ty f)) (filter (\<lambda>f. \<not> p_infinite_size f) fs)) = Some sizes"
    "length offs = length sizes" "packed 0 (zip offs sizes) stop"
    using struct_field_storage_offsets_packed [OF assms(1) assms(3) [unfolded r] assms(2)] by blast
  moreover obtain overall where "storage = offs @ [overall]" "stop \<le> overall"
    using assms(4) r by (auto elim: with_overall_size_Some)
  ultimately show ?thesis using packed_mono by blast
qed

lemma struct_offsets_step_wf:
  assumes "struct_offsets_step ns n = Some (c, ns')" and wf: "wf_sizes ns"
  shows "wf_sizes ns'"
proof -
  from assms(1) obtain d :: StructDecl and offs where d: "vec_get (structs ns) n = Some d"
    and offs: "struct_field_offsets ns (s_fields d) 0 0 \<bind> with_overall_size = Some offs"
    by (auto simp: struct_offsets_step_def Option.bind_eq_Some_conv)
  let ?d = "d\<lparr>s_offsets := offs\<rparr>" and ?ns = "ns\<lparr>structs := (structs ns)[n := d\<lparr>s_offsets := offs\<rparr>]\<rparr>"
  obtain r where r: "struct_field_storage_offsets ?ns (s_fields d) 0 0 = Some r"
    using assms(1) d offs by (cases "struct_field_storage_offsets ?ns (s_fields d) 0 0")
      (auto simp: struct_offsets_step_def Option.bind_eq_Some_conv Let_def)
  obtain storage where storage: "with_overall_size r = Some storage"
    using assms(1) d offs r by (cases "with_overall_size r")
      (auto simp: struct_offsets_step_def Option.bind_eq_Some_conv Let_def)
  have ns': "ns' = ?ns\<lparr>structs := (structs ?ns)[n := ?d\<lparr>s_storage_offsets := storage\<rparr>]\<rparr>"
    using assms(1) d offs r storage
    by (auto simp: struct_offsets_step_def Option.bind_eq_Some_conv Let_def)
  have "d \<in> set (structs ns)" using vec_get_in_set [OF d] .
  then have fs: "\<forall>f \<in> set (s_fields d). nonneg_dims (p_ty f)" "\<forall>x \<in> set (s_storage_offsets d). 0 \<le> x"
    using wf by (auto simp: wf_sizes_def)
  have upd: "x \<in> set ((structs ns)[n := y]) \<Longrightarrow> x = y \<or> x \<in> set (structs ns)" for x y
    using set_update_subset_insert by fast
  have wf': "wf_sizes ?ns" using wf fs by (auto simp: wf_sizes_def dest!: upd)
  obtain offs' overall sizes where "storage = offs' @ [overall]" "packed 0 (zip offs' sizes) overall"
    "length offs' = length sizes"
    using storage_offsets_packed [OF wf' fs(1) r storage] by blast
  then have "\<forall>x \<in> set storage. 0 \<le> x"
    using packed_zip(1) [of 0 offs' sizes overall] packed_bounds [of 0 "zip offs' sizes" overall]
    by (auto simp: in_set_conv_nth nth_append less_Suc_eq)
  then show ?thesis using wf fs by (auto simp: wf_sizes_def ns' dest!: upd)
qed

lemma struct_offsets_pass_wf:
  "struct_offsets_pass nos c ns = Some (c', ns') \<Longrightarrow> wf_sizes ns \<Longrightarrow> wf_sizes ns'"
proof (induction nos arbitrary: c ns)
  case (Cons n nos)
  then obtain d mid where "struct_offsets_step ns n = Some (d, mid)"
    and rest: "struct_offsets_pass nos (c \<or> d) mid = Some (c', ns')"
    by (auto simp: Option.bind_eq_Some_conv)
  then show ?case using Cons.IH [OF rest] Cons.prems(2) struct_offsets_step_wf by blast
qed simp

lemma struct_offsets_wf:
  assumes "struct_offsets ns = Some ns'" and "wf_sizes ns"
  shows "wf_sizes ns'"
proof -
  have "wf_sizes ns \<longrightarrow> wf_sizes ns'"
    by (rule struct_offsets.raw_induct [OF _ assms(1)])
       (auto simp: Option.bind_eq_Some_conv dest: struct_offsets_pass_wf split: if_splits)
  with assms(2) show ?thesis by simp
qed

text \<open>
  An example: on Solana, a struct of an 8-bit and a 64-bit integer, a contract with a flag, a
  constant and a variable of that struct type, and a contract that inherits from it and adds a
  256-bit integer.
\<close>

definition sample_identifier :: "string \<Rightarrow> Identifier" where
  "sample_identifier name = \<lparr>id_loc = Loc.Codegen, id_name = name\<rparr>"

definition sample_variable :: "string \<Rightarrow> Type \<Rightarrow> bool \<Rightarrow> Variable" where
  "sample_variable name ty constant = \<lparr>v_name = name, v_loc = Loc.Codegen, v_ty = ty,
     v_constant = constant, v_immutable = False, v_assigned = True, v_read = True,
     v_storage_type = None\<rparr>"

definition sample_contract :: "string \<Rightarrow> nat list \<Rightarrow> Variable list \<Rightarrow> Contract" where
  "sample_contract name bases vars = \<lparr>c_id = sample_identifier name, c_bases = bases, c_layout = [],
     c_fixed_layout_size = 0, c_variables = vars, c_creates = [], c_instantiable = True\<rparr>"

definition sample_struct :: StructDecl where
  "sample_struct = \<lparr>s_id = sample_identifier ''S'', s_loc = Loc.Codegen, s_contract = None,
     s_fields = [builtin_field (Some ''small'') (Type.Uint 8) False,
                 builtin_field (Some ''big'') (Type.Uint 64) False],
     s_offsets = [], s_storage_offsets = []\<rparr>"

definition sample_ns :: Namespace where
  "sample_ns = \<lparr>target = Solana, enums = [], structs = [sample_struct],
     contracts = [
       sample_contract ''A'' [] [sample_variable ''flag'' Type.Bool False,
         sample_variable ''limit'' (Type.Uint 64) True,
         sample_variable ''s'' (Type.Struct (StructType.UserDefined 0)) False],
       sample_contract ''B'' [0] [sample_variable ''x'' (Type.Uint 256) False]],
     user_types = [], address_length = 32, value_length = 8,
     diagnostics = \<lparr>contents = [], has_error = False\<rparr>, next_id = 0,
     var_constants = Map.empty, hover_overrides = Map.empty, strict_soroban_types = False\<rparr>"

lemma wf_sizes_sample_ns: "wf_sizes sample_ns"
  by (simp add: wf_sizes_def sample_ns_def sample_struct_def sample_contract_def sample_variable_def
      builtin_field_def)

lemma sample_struct_offsets:
  "map_option (\<lambda>ns. map s_storage_offsets (structs ns)) (struct_offsets sample_ns) = Some [[0, 8, 16]]"
  by code_simp

text \<open>
  C17: when \<open>struct_offsets\<close> returns, the storage offsets of every struct place its fields
  (those of finite size) one after the other, without overlap, inside the size recorded at
  the end, where the sizes are those of the final namespace: the iteration has reached a
  fixed point.
\<close>

theorem struct_storage_offsets_disjoint:
  assumes "struct_offsets ns = Some ns'" and "wf_sizes ns" and "n < length (structs ns')"
  shows "\<exists>offs overall sizes.
    s_storage_offsets (structs ns' ! n) = offs @ [overall] \<and>
    seq_opt (map (\<lambda>f. storage_slots ns' (p_ty f))
      (filter (\<lambda>f. \<not> p_infinite_size f) (s_fields (structs ns' ! n)))) = Some sizes \<and>
    length offs = length sizes \<and>
    (\<forall>i < length offs. 0 \<le> offs ! i \<and> offs ! i + sizes ! i \<le> overall) \<and>
    (\<forall>j < length offs. \<forall>i < j. offs ! i + sizes ! i \<le> offs ! j)"
proof -
  let ?d = "structs ns' ! n"
  have wf: "wf_sizes ns'" using struct_offsets_wf assms(1,2) by blast
  have d: "vec_get (structs ns') n = Some ?d" using assms(3) by (simp add: vec_get_Some)
  obtain r where "struct_field_storage_offsets ns' (s_fields ?d) 0 0 = Some r"
    "with_overall_size r = Some (s_storage_offsets ?d)"
    using struct_offsets_step_unchanged [of ns' n ns'] struct_offsets_stable [OF assms(1)] assms(3) d
    by auto
  moreover have "\<forall>f \<in> set (s_fields ?d). nonneg_dims (p_ty f)"
    using wf vec_get_in_set [OF d] by (auto simp: wf_sizes_def)
  ultimately obtain offs overall sizes where p: "s_storage_offsets ?d = offs @ [overall]"
    "length offs = length sizes" "packed 0 (zip offs sizes) overall"
    "seq_opt (map (\<lambda>f. storage_slots ns' (p_ty f)) (filter (\<lambda>f. \<not> p_infinite_size f) (s_fields ?d))) = Some sizes"
    using storage_offsets_packed [OF wf] by blast
  have "\<forall>i < length offs. 0 \<le> offs ! i \<and> offs ! i + sizes ! i \<le> overall"
    using packed_zip(1) [OF p(3,2)] by blast
  moreover have "\<forall>j < length offs. \<forall>i < j. offs ! i + sizes ! i \<le> offs ! j"
    using packed_zip(2) [OF p(3,2)] by blast
  ultimately show ?thesis using p by blast
qed

theorem struct_storage_offsets_disjoint_witness:
  "\<exists>ns' offs overall sizes. struct_offsets sample_ns = Some ns' \<and>
    s_storage_offsets (structs ns' ! 0) = offs @ [overall] \<and>
    seq_opt (map (\<lambda>f. storage_slots ns' (p_ty f))
      (filter (\<lambda>f. \<not> p_infinite_size f) (s_fields (structs ns' ! 0)))) = Some sizes \<and>
    length offs = length sizes \<and>
    (\<forall>i < length offs. 0 \<le> offs ! i \<and> offs ! i + sizes ! i \<le> overall) \<and>
    (\<forall>j < length offs. \<forall>i < j. offs ! i + sizes ! i \<le> offs ! j)"
proof -
  obtain ns' where ns': "struct_offsets sample_ns = Some ns'" "map s_storage_offsets (structs ns') = [[0, 8, 16]]"
    using sample_struct_offsets by auto
  have "0 < length (structs ns')" using arg_cong [OF ns'(2), of length] by simp
  then show ?thesis using struct_storage_offsets_disjoint [OF ns'(1) wf_sizes_sample_ns] ns'(1) by blast
qed

section \<open>Contract layouts do not overlap\<close>

lemma check_space_contracts: "check_space space slot ns = Some ns' \<Longrightarrow> contracts ns' = contracts ns"
  by (auto simp: check_space_def split: option.splits if_splits)

lemma layout_Some:
  assumes "layout c space ns = Some ns'"
  obtains bases vars slot entries where "contract_bases ns c = Some bases"
    "seq_opt (map (contract_vars ns) bases) = Some vars" "c < length (contracts ns)"
    "layout_vars ns (concat vars) (if target ns = Solana then SOLANA_FIRST_OFFSET else 0,
       c_layout (contracts ns ! c)) = Some (slot, entries)"
    "c_layout (contracts ns' ! c) = entries" "c_fixed_layout_size (contracts ns' ! c) = slot"
    "\<And>i. i \<noteq> c \<Longrightarrow> contracts ns' ! i = contracts ns ! i"
proof -
  from assms obtain bases where 1: "contract_bases ns c = Some bases"
    by (cases "contract_bases ns c") (simp_all add: layout_def)
  with assms obtain vars where 2: "seq_opt (map (contract_vars ns) bases) = Some vars"
    by (cases "seq_opt (map (contract_vars ns) bases)") (simp_all add: layout_def)
  with assms 1 have 3: "c < length (contracts ns)"
    by (cases "c < length (contracts ns)") (simp_all add: layout_def vec_get_def)
  let ?st = "(if target ns = Solana then SOLANA_FIRST_OFFSET else 0, c_layout (contracts ns ! c))"
  from assms 1 2 3 obtain slot entries where 4: "layout_vars ns (concat vars) ?st = Some (slot, entries)"
    by (cases "layout_vars ns (concat vars) ?st") (auto simp: layout_def vec_get_def)
  from assms 1 2 3 4 obtain ns1 where 5: "check_space space slot ns = Some ns1"
    by (cases "check_space space slot ns") (simp_all add: layout_def vec_get_def)
  have "contracts ns' = (contracts ns)[c := (contracts ns ! c)\<lparr>c_layout := entries, c_fixed_layout_size := slot\<rparr>]"
    using assms 1 2 3 4 5 check_space_contracts [OF 5] by (auto simp: layout_def vec_get_def)
  with 3 show thesis by (intro that [OF 1 2 3 4]) simp_all
qed

lemma contract_vars_nonneg:
  assumes "wf_sizes ns" "seq_opt (map (contract_vars ns) bases) = Some vars"
  shows "\<forall>(c, i, v) \<in> set (concat vars). nonneg_dims (v_ty v)"
proof clarify
  fix c i v assume "(c, i, v) \<in> set (concat vars)"
  then obtain vs where vs: "vs \<in> set vars" "(c, i, v) \<in> set vs" by auto
  then obtain b where "contract_vars ns b = Some vs" using seq_opt_map_in_set [OF assms(2)] by blast
  then obtain d where "vec_get (contracts ns) b = Some d" "v \<in> set (c_variables d)"
    using vs(2) by (auto simp: contract_vars_def in_set_enumerate_eq)
  then show "nonneg_dims (v_ty v)" using assms(1) vec_get_in_set by (fastforce simp: wf_sizes_def)
qed

text \<open>
  C3: the storage layout of a contract places its variables and those of its bases one after
  the other: each starts after the end of every earlier one, none starts before the first
  offset of the chain (the account header on Solana), all end within
  \<open>fixed_layout_size\<close>, and on Solana each offset is a multiple of the type's alignment.
\<close>

theorem layout_no_overlap:
  assumes "layout c space ns = Some ns'" and "wf_sizes ns" and "c_layout (contracts ns ! c) = []"
  shows "\<exists>sizes.
    seq_opt (map (\<lambda>l. storage_slots ns (l_ty l)) (c_layout (contracts ns' ! c))) = Some sizes \<and>
    (\<forall>i < length (c_layout (contracts ns' ! c)).
       (if target ns = Solana then SOLANA_FIRST_OFFSET else 0) \<le> l_slot (c_layout (contracts ns' ! c) ! i) \<and>
       l_slot (c_layout (contracts ns' ! c) ! i) + sizes ! i \<le> c_fixed_layout_size (contracts ns' ! c)) \<and>
    (\<forall>j < length (c_layout (contracts ns' ! c)). \<forall>i < j.
       l_slot (c_layout (contracts ns' ! c) ! i) + sizes ! i \<le> l_slot (c_layout (contracts ns' ! c) ! j)) \<and>
    (target ns = Solana \<longrightarrow> (\<forall>l \<in> set (c_layout (contracts ns' ! c)).
       \<exists>a. align_of ns (l_ty l) = Some a \<and> l_slot l mod int a = 0))"
proof -
  obtain bases vars slot entries where v: "seq_opt (map (contract_vars ns) bases) = Some vars"
    and lv: "layout_vars ns (concat vars) (if target ns = Solana then SOLANA_FIRST_OFFSET else 0,
       c_layout (contracts ns ! c)) = Some (slot, entries)"
    and r: "c_layout (contracts ns' ! c) = entries" "c_fixed_layout_size (contracts ns' ! c) = slot"
    using layout_Some [OF assms(1)] by metis
  let ?start = "if target ns = Solana then SOLANA_FIRST_OFFSET else 0"
  obtain sizes where s: "seq_opt (map (\<lambda>l. storage_slots ns (l_ty l)) entries) = Some sizes"
    "packed ?start (zip (map l_slot entries) sizes) slot"
    "target ns = Solana \<longrightarrow>
      (\<forall>l \<in> set entries. \<exists>a. align_of ns (l_ty l) = Some a \<and> l_slot l mod int a = 0)"
    using layout_vars_packed [OF assms(2) lv contract_vars_nonneg [OF assms(2) v]] assms(3) by auto
  have len: "length (map l_slot entries) = length sizes" using seq_opt_length [OF s(1)] by simp
  show ?thesis unfolding r
    using s(1,3) packed_zip [OF s(2) len] by (intro exI [of _ sizes] conjI allI impI) simp_all
qed

lemma sample_layout:
  "map_option (\<lambda>ns. map (map l_slot \<circ> c_layout) (contracts ns)) (layout 1 None sample_ns) =
     Some [[], [16, 24, 24]]"
  "c_layout (contracts sample_ns ! 1) = []"
  by code_simp+

theorem layout_no_overlap_witness:
  "\<exists>ns' sizes. layout 1 None sample_ns = Some ns' \<and>
    seq_opt (map (\<lambda>l. storage_slots sample_ns (l_ty l)) (c_layout (contracts ns' ! 1))) = Some sizes \<and>
    (\<forall>j < length (c_layout (contracts ns' ! 1)). \<forall>i < j.
       l_slot (c_layout (contracts ns' ! 1) ! i) + sizes ! i \<le> l_slot (c_layout (contracts ns' ! 1) ! j))"
proof -
  obtain ns' where ns': "layout 1 None sample_ns = Some ns'" using sample_layout(1) by auto
  then show ?thesis using layout_no_overlap [OF ns' wf_sizes_sample_ns sample_layout(2)] by blast
qed

text \<open>
  C19: the entries of the layout are exactly the variables of the contract and its bases that are
  not constants, each once: bases first, in declaration order within a contract.
\<close>

theorem layout_complete:
  assumes "layout c space ns = Some ns'" and "wf_sizes ns" and "c_layout (contracts ns ! c) = []"
  shows "\<exists>order. contract_bases ns c = Some order \<and> c \<in> set order \<and> bases_first ns order \<and>
    map (\<lambda>l. (l_contract_no l, l_var_no l, l_ty l)) (c_layout (contracts ns' ! c)) =
      [(b, i, v_ty v). b \<leftarrow> order, (i, v) \<leftarrow> enumerate 0 (c_variables (contracts ns ! b)), \<not> v_constant v]"
proof -
  obtain bases vars slot entries where b: "contract_bases ns c = Some bases"
    and v: "seq_opt (map (contract_vars ns) bases) = Some vars"
    and lv: "layout_vars ns (concat vars) (if target ns = Solana then SOLANA_FIRST_OFFSET else 0,
       c_layout (contracts ns ! c)) = Some (slot, entries)"
    and r: "c_layout (contracts ns' ! c) = entries"
    using layout_Some [OF assms(1)] by metis
  have "map (contract_vars ns) bases = map Some vars" using v by (simp add: seq_opt_eq_Some)
  then have vars: "vars = map (\<lambda>b. map (\<lambda>(i, v). (b, i, v)) (enumerate 0 (c_variables (contracts ns ! b)))) bases"
    by (induction bases arbitrary: vars) (auto simp: contract_vars_def vec_get_def split: if_splits)
  have "map (\<lambda>l. (l_contract_no l, l_var_no l, l_ty l)) entries =
      [(c, i, v_ty v). (c, i, v) \<leftarrow> concat vars, \<not> v_constant v]"
    using layout_vars_packed [OF assms(2) lv contract_vars_nonneg [OF assms(2) v]] assms(3) by auto
  also have "\<dots> = [(b, i, v_ty v). b \<leftarrow> bases, (i, v) \<leftarrow> enumerate 0 (c_variables (contracts ns ! b)), \<not> v_constant v]"
    unfolding vars by (induction bases) (simp_all add: comp_def case_prod_beta cong: if_cong)
  finally show ?thesis using b r contract_bases_order [OF b] by blast
qed


theorem layout_complete_witness:
  "\<exists>ns' order. layout 1 None sample_ns = Some ns' \<and> contract_bases sample_ns 1 = Some order \<and>
    bases_first sample_ns order"
proof -
  obtain ns' where ns': "layout 1 None sample_ns = Some ns'" using sample_layout(1) by auto
  then show ?thesis using layout_complete [OF ns' wf_sizes_sample_ns sample_layout(2)] by blast
qed

end
