(* ===== verification/Exprs.thy ===== *)
theory Exprs
  imports Types
begin

text \<open>
  Operations on the expressions of the control flow graph (\<open>src/codegen/mod.rs\<close>): the
  location and the type of an expression, the traversal \<open>recurse\<close>, the conversion
  \<open>cast\<close>, the rewriting traversal \<open>copy_filter\<close>, and the default value of a type
  (\<open>src/codegen/statements/mod.rs\<close>).

  The context that a traversal passes through by mutable reference is a state that each call
  returns.
\<close>

section \<open>Location and type\<close>

primrec expr_loc :: "Expression \<Rightarrow> Loc" where
  "expr_loc (Expression.Add loc ty overflowing left right) = loc"
| "expr_loc (Expression.AllocDynamicBytes loc ty sz initializer) = loc"
| "expr_loc (Expression.ArrayLiteral loc ty dimensions values) = loc"
| "expr_loc (Expression.BitwiseAnd loc ty left right) = loc"
| "expr_loc (Expression.BitwiseOr loc ty left right) = loc"
| "expr_loc (Expression.BitwiseXor loc ty left right) = loc"
| "expr_loc (Expression.BoolLiteral loc value) = loc"
| "expr_loc (Expression.Builtin loc tys kind args) = loc"
| "expr_loc (Expression.BytesCast loc ty from expr) = loc"
| "expr_loc (Expression.BytesLiteral loc ty value) = loc"
| "expr_loc (Expression.Cast loc ty expr) = loc"
| "expr_loc (Expression.BitwiseNot loc ty expr) = loc"
| "expr_loc (Expression.ConstArrayLiteral loc ty dimensions values) = loc"
| "expr_loc (Expression.UnsignedDivide loc ty left right) = loc"
| "expr_loc (Expression.SignedDivide loc ty left right) = loc"
| "expr_loc (Expression.Equal loc left right) = loc"
| "expr_loc (Expression.FormatString loc args) = loc"
| "expr_loc (Expression.FunctionArg loc ty arg_no) = loc"
| "expr_loc (Expression.GetRef loc ty expr) = loc"
| "expr_loc (Expression.InternalFunctionCfg ty cfg_no) = Loc.Codegen"
| "expr_loc (Expression.Keccak256 loc ty exprs) = loc"
| "expr_loc (Expression.Less loc is_signed left right) = loc"
| "expr_loc (Expression.LessEqual loc is_signed left right) = loc"
| "expr_loc (Expression.Load loc ty expr) = loc"
| "expr_loc (Expression.UnsignedModulo loc ty left right) = loc"
| "expr_loc (Expression.SignedModulo loc ty left right) = loc"
| "expr_loc (Expression.More loc is_signed left right) = loc"
| "expr_loc (Expression.MoreEqual loc is_signed left right) = loc"
| "expr_loc (Expression.Multiply loc ty overflowing left right) = loc"
| "expr_loc (Expression.Not loc expr) = loc"
| "expr_loc (Expression.NotEqual loc left right) = loc"
| "expr_loc (Expression.NumberLiteral loc ty value) = loc"
| "expr_loc Expression.Poison = Loc.Codegen"
| "expr_loc (Expression.Power loc ty overflowing base expo) = loc"
| "expr_loc (Expression.RationalNumberLiteral loc ty rational) = loc"
| "expr_loc (Expression.ReturnData loc) = loc"
| "expr_loc (Expression.SignExt loc ty expr) = loc"
| "expr_loc (Expression.ShiftLeft loc ty left right) = loc"
| "expr_loc (Expression.ShiftRight loc ty left right is_signed) = loc"
| "expr_loc (Expression.StorageArrayLength loc ty array elem) = loc"
| "expr_loc (Expression.StringCompare loc left right) = loc"
| "expr_loc (Expression.StructLiteral loc ty values) = loc"
| "expr_loc (Expression.StructMember loc ty expr member) = loc"
| "expr_loc (Expression.Subscript loc ty array_ty expr index) = loc"
| "expr_loc (Expression.Subtract loc ty overflowing left right) = loc"
| "expr_loc (Expression.Trunc loc ty expr) = loc"
| "expr_loc (Expression.Negate loc ty overflowing expr) = loc"
| "expr_loc (Expression.Undefined ty) = Loc.Codegen"
| "expr_loc (Expression.Variable loc ty var_no) = loc"
| "expr_loc (Expression.ZeroExt loc ty expr) = loc"
| "expr_loc (Expression.AdvancePointer pointer bytes_offset) = Loc.Codegen"
| "expr_loc (Expression.VectorData pointer) = Loc.Codegen"

text \<open>\<open>None\<close> where \<open>ty\<close> panics: a builtin with several results, and \<open>Poison\<close>.\<close>

primrec expr_ty :: "Expression \<Rightarrow> Type option" where
  "expr_ty (Expression.Add loc ty overflowing left right) = Some ty"
| "expr_ty (Expression.AllocDynamicBytes loc ty sz initializer) = Some ty"
| "expr_ty (Expression.ArrayLiteral loc ty dimensions values) = Some ty"
| "expr_ty (Expression.BitwiseAnd loc ty left right) = Some ty"
| "expr_ty (Expression.BitwiseOr loc ty left right) = Some ty"
| "expr_ty (Expression.BitwiseXor loc ty left right) = Some ty"
| "expr_ty (Expression.BoolLiteral loc value) = Some Type.Bool"
| "expr_ty (Expression.Builtin loc tys kind args) = (if length tys = 1 then Some (tys ! 0) else None)"
| "expr_ty (Expression.BytesCast loc ty from expr) = Some ty"
| "expr_ty (Expression.BytesLiteral loc ty value) = Some ty"
| "expr_ty (Expression.Cast loc ty expr) = Some ty"
| "expr_ty (Expression.BitwiseNot loc ty expr) = Some ty"
| "expr_ty (Expression.ConstArrayLiteral loc ty dimensions values) = Some ty"
| "expr_ty (Expression.UnsignedDivide loc ty left right) = Some ty"
| "expr_ty (Expression.SignedDivide loc ty left right) = Some ty"
| "expr_ty (Expression.Equal loc left right) = Some Type.Bool"
| "expr_ty (Expression.FormatString loc args) = Some Type.String"
| "expr_ty (Expression.FunctionArg loc ty arg_no) = Some ty"
| "expr_ty (Expression.GetRef loc ty expr) = Some ty"
| "expr_ty (Expression.InternalFunctionCfg ty cfg_no) = Some ty"
| "expr_ty (Expression.Keccak256 loc ty exprs) = Some ty"
| "expr_ty (Expression.Less loc is_signed left right) = Some Type.Bool"
| "expr_ty (Expression.LessEqual loc is_signed left right) = Some Type.Bool"
| "expr_ty (Expression.Load loc ty expr) = Some ty"
| "expr_ty (Expression.UnsignedModulo loc ty left right) = Some ty"
| "expr_ty (Expression.SignedModulo loc ty left right) = Some ty"
| "expr_ty (Expression.More loc is_signed left right) = Some Type.Bool"
| "expr_ty (Expression.MoreEqual loc is_signed left right) = Some Type.Bool"
| "expr_ty (Expression.Multiply loc ty overflowing left right) = Some ty"
| "expr_ty (Expression.Not loc expr) = Some Type.Bool"
| "expr_ty (Expression.NotEqual loc left right) = Some Type.Bool"
| "expr_ty (Expression.NumberLiteral loc ty value) = Some ty"
| "expr_ty Expression.Poison = None"
| "expr_ty (Expression.Power loc ty overflowing base expo) = Some ty"
| "expr_ty (Expression.RationalNumberLiteral loc ty rational) = Some ty"
| "expr_ty (Expression.ReturnData loc) = Some Type.DynamicBytes"
| "expr_ty (Expression.SignExt loc ty expr) = Some ty"
| "expr_ty (Expression.ShiftLeft loc ty left right) = Some ty"
| "expr_ty (Expression.ShiftRight loc ty left right is_signed) = Some ty"
| "expr_ty (Expression.StorageArrayLength loc ty array elem) = Some ty"
| "expr_ty (Expression.StringCompare loc left right) = Some Type.Bool"
| "expr_ty (Expression.StructLiteral loc ty values) = Some ty"
| "expr_ty (Expression.StructMember loc ty expr member) = Some ty"
| "expr_ty (Expression.Subscript loc ty array_ty expr index) = Some ty"
| "expr_ty (Expression.Subtract loc ty overflowing left right) = Some ty"
| "expr_ty (Expression.Trunc loc ty expr) = Some ty"
| "expr_ty (Expression.Negate loc ty overflowing expr) = Some ty"
| "expr_ty (Expression.Undefined ty) = Some ty"
| "expr_ty (Expression.Variable loc ty var_no) = Some ty"
| "expr_ty (Expression.ZeroExt loc ty expr) = Some ty"
| "expr_ty (Expression.AdvancePointer pointer bytes_offset) = Some Type.BufferPointer"
| "expr_ty (Expression.VectorData pointer) = Some (Type.Uint 64)"

section \<open>Traversal\<close>

definition run_all :: "('s \<Rightarrow> 's) list \<Rightarrow> 's \<Rightarrow> 's" where
  "run_all fs cx = fold (\<lambda>g cx. g cx) fs cx"

definition run_string :: "('s \<Rightarrow> 's) StringLocation \<Rightarrow> 's \<Rightarrow> 's" where
  "run_string l cx = (case l of CompileTime _ \<Rightarrow> cx | RunTime g \<Rightarrow> g cx)"

text \<open>
  The operands are visited only when the function returns true for the expression itself. The
  modulo operations, \<open>VectorData\<close> and the leaves fall under the last arm, which visits
  nothing.
\<close>

primrec recurse :: "(Expression \<Rightarrow> 's \<Rightarrow> bool \<times> 's) \<Rightarrow> Expression \<Rightarrow> 's \<Rightarrow> 's" where
  "recurse f (Expression.Add loc ty overflowing left right) cx =
     (let (go, cx) = f (Expression.Add loc ty overflowing left right) cx
      in if go then recurse f right (recurse f left cx) else cx)"
| "recurse f (Expression.AllocDynamicBytes loc ty sz initializer) cx =
     (let (go, cx) = f (Expression.AllocDynamicBytes loc ty sz initializer) cx
      in if go then recurse f sz cx else cx)"
| "recurse f (Expression.ArrayLiteral loc ty dimensions values) cx =
     (let (go, cx) = f (Expression.ArrayLiteral loc ty dimensions values) cx
      in if go then run_all (map (recurse f) values) cx else cx)"
| "recurse f (Expression.BitwiseAnd loc ty left right) cx =
     (let (go, cx) = f (Expression.BitwiseAnd loc ty left right) cx
      in if go then recurse f right (recurse f left cx) else cx)"
| "recurse f (Expression.BitwiseOr loc ty left right) cx =
     (let (go, cx) = f (Expression.BitwiseOr loc ty left right) cx
      in if go then recurse f right (recurse f left cx) else cx)"
| "recurse f (Expression.BitwiseXor loc ty left right) cx =
     (let (go, cx) = f (Expression.BitwiseXor loc ty left right) cx
      in if go then recurse f right (recurse f left cx) else cx)"
| "recurse f (Expression.BoolLiteral loc value) cx = snd (f (Expression.BoolLiteral loc value) cx)"
| "recurse f (Expression.Builtin loc tys kind args) cx =
     (let (go, cx) = f (Expression.Builtin loc tys kind args) cx
      in if go then run_all (map (recurse f) args) cx else cx)"
| "recurse f (Expression.BytesCast loc ty from expr) cx =
     (let (go, cx) = f (Expression.BytesCast loc ty from expr) cx
      in if go then recurse f expr cx else cx)"
| "recurse f (Expression.BytesLiteral loc ty value) cx = snd (f (Expression.BytesLiteral loc ty value) cx)"
| "recurse f (Expression.Cast loc ty expr) cx =
     (let (go, cx) = f (Expression.Cast loc ty expr) cx
      in if go then recurse f expr cx else cx)"
| "recurse f (Expression.BitwiseNot loc ty expr) cx =
     (let (go, cx) = f (Expression.BitwiseNot loc ty expr) cx
      in if go then recurse f expr cx else cx)"
| "recurse f (Expression.ConstArrayLiteral loc ty dimensions values) cx =
     (let (go, cx) = f (Expression.ConstArrayLiteral loc ty dimensions values) cx
      in if go then run_all (map (recurse f) values) cx else cx)"
| "recurse f (Expression.UnsignedDivide loc ty left right) cx =
     (let (go, cx) = f (Expression.UnsignedDivide loc ty left right) cx
      in if go then recurse f right (recurse f left cx) else cx)"
| "recurse f (Expression.SignedDivide loc ty left right) cx =
     (let (go, cx) = f (Expression.SignedDivide loc ty left right) cx
      in if go then recurse f right (recurse f left cx) else cx)"
| "recurse f (Expression.Equal loc left right) cx =
     (let (go, cx) = f (Expression.Equal loc left right) cx
      in if go then recurse f right (recurse f left cx) else cx)"
| "recurse f (Expression.FormatString loc args) cx =
     (let (go, cx) = f (Expression.FormatString loc args) cx
      in if go then run_all (map snd (map (map_prod id (recurse f)) args)) cx else cx)"
| "recurse f (Expression.FunctionArg loc ty arg_no) cx = snd (f (Expression.FunctionArg loc ty arg_no) cx)"
| "recurse f (Expression.GetRef loc ty expr) cx =
     (let (go, cx) = f (Expression.GetRef loc ty expr) cx
      in if go then recurse f expr cx else cx)"
| "recurse f (Expression.InternalFunctionCfg ty cfg_no) cx = snd (f (Expression.InternalFunctionCfg ty cfg_no) cx)"
| "recurse f (Expression.Keccak256 loc ty exprs) cx =
     (let (go, cx) = f (Expression.Keccak256 loc ty exprs) cx
      in if go then run_all (map (recurse f) exprs) cx else cx)"
| "recurse f (Expression.Less loc is_signed left right) cx =
     (let (go, cx) = f (Expression.Less loc is_signed left right) cx
      in if go then recurse f right (recurse f left cx) else cx)"
| "recurse f (Expression.LessEqual loc is_signed left right) cx =
     (let (go, cx) = f (Expression.LessEqual loc is_signed left right) cx
      in if go then recurse f right (recurse f left cx) else cx)"
| "recurse f (Expression.Load loc ty expr) cx =
     (let (go, cx) = f (Expression.Load loc ty expr) cx
      in if go then recurse f expr cx else cx)"
| "recurse f (Expression.UnsignedModulo loc ty left right) cx = snd (f (Expression.UnsignedModulo loc ty left right) cx)"
| "recurse f (Expression.SignedModulo loc ty left right) cx = snd (f (Expression.SignedModulo loc ty left right) cx)"
| "recurse f (Expression.More loc is_signed left right) cx =
     (let (go, cx) = f (Expression.More loc is_signed left right) cx
      in if go then recurse f right (recurse f left cx) else cx)"
| "recurse f (Expression.MoreEqual loc is_signed left right) cx =
     (let (go, cx) = f (Expression.MoreEqual loc is_signed left right) cx
      in if go then recurse f right (recurse f left cx) else cx)"
| "recurse f (Expression.Multiply loc ty overflowing left right) cx =
     (let (go, cx) = f (Expression.Multiply loc ty overflowing left right) cx
      in if go then recurse f right (recurse f left cx) else cx)"
| "recurse f (Expression.Not loc expr) cx =
     (let (go, cx) = f (Expression.Not loc expr) cx
      in if go then recurse f expr cx else cx)"
| "recurse f (Expression.NotEqual loc left right) cx =
     (let (go, cx) = f (Expression.NotEqual loc left right) cx
      in if go then recurse f right (recurse f left cx) else cx)"
| "recurse f (Expression.NumberLiteral loc ty value) cx = snd (f (Expression.NumberLiteral loc ty value) cx)"
| "recurse f Expression.Poison cx = snd (f Expression.Poison cx)"
| "recurse f (Expression.Power loc ty overflowing base expo) cx =
     (let (go, cx) = f (Expression.Power loc ty overflowing base expo) cx
      in if go then recurse f expo (recurse f base cx) else cx)"
| "recurse f (Expression.RationalNumberLiteral loc ty rational) cx = snd (f (Expression.RationalNumberLiteral loc ty rational) cx)"
| "recurse f (Expression.ReturnData loc) cx = snd (f (Expression.ReturnData loc) cx)"
| "recurse f (Expression.SignExt loc ty expr) cx =
     (let (go, cx) = f (Expression.SignExt loc ty expr) cx
      in if go then recurse f expr cx else cx)"
| "recurse f (Expression.ShiftLeft loc ty left right) cx =
     (let (go, cx) = f (Expression.ShiftLeft loc ty left right) cx
      in if go then recurse f right (recurse f left cx) else cx)"
| "recurse f (Expression.ShiftRight loc ty left right is_signed) cx =
     (let (go, cx) = f (Expression.ShiftRight loc ty left right is_signed) cx
      in if go then recurse f right (recurse f left cx) else cx)"
| "recurse f (Expression.StorageArrayLength loc ty array elem) cx =
     (let (go, cx) = f (Expression.StorageArrayLength loc ty array elem) cx
      in if go then recurse f array cx else cx)"
| "recurse f (Expression.StringCompare loc left right) cx =
     (let (go, cx) = f (Expression.StringCompare loc left right) cx
      in if go then run_string (map_StringLocation (recurse f) right) (run_string (map_StringLocation (recurse f) left) cx) else cx)"
| "recurse f (Expression.StructLiteral loc ty values) cx =
     (let (go, cx) = f (Expression.StructLiteral loc ty values) cx
      in if go then run_all (map (recurse f) values) cx else cx)"
| "recurse f (Expression.StructMember loc ty expr member) cx =
     (let (go, cx) = f (Expression.StructMember loc ty expr member) cx
      in if go then recurse f expr cx else cx)"
| "recurse f (Expression.Subscript loc ty array_ty expr index) cx =
     (let (go, cx) = f (Expression.Subscript loc ty array_ty expr index) cx
      in if go then recurse f index (recurse f expr cx) else cx)"
| "recurse f (Expression.Subtract loc ty overflowing left right) cx =
     (let (go, cx) = f (Expression.Subtract loc ty overflowing left right) cx
      in if go then recurse f right (recurse f left cx) else cx)"
| "recurse f (Expression.Trunc loc ty expr) cx =
     (let (go, cx) = f (Expression.Trunc loc ty expr) cx
      in if go then recurse f expr cx else cx)"
| "recurse f (Expression.Negate loc ty overflowing expr) cx =
     (let (go, cx) = f (Expression.Negate loc ty overflowing expr) cx
      in if go then recurse f expr cx else cx)"
| "recurse f (Expression.Undefined ty) cx = snd (f (Expression.Undefined ty) cx)"
| "recurse f (Expression.Variable loc ty var_no) cx = snd (f (Expression.Variable loc ty var_no) cx)"
| "recurse f (Expression.ZeroExt loc ty expr) cx =
     (let (go, cx) = f (Expression.ZeroExt loc ty expr) cx
      in if go then recurse f expr cx else cx)"
| "recurse f (Expression.AdvancePointer pointer bytes_offset) cx =
     (let (go, cx) = f (Expression.AdvancePointer pointer bytes_offset) cx
      in if go then recurse f bytes_offset (recurse f pointer cx) else cx)"
| "recurse f (Expression.VectorData pointer) cx = snd (f (Expression.VectorData pointer) cx)"

section \<open>Copying with a filter\<close>

primrec filter_all ::
  "(Expression \<Rightarrow> 's \<Rightarrow> Expression \<times> 's) \<Rightarrow> Expression list \<Rightarrow> 's \<Rightarrow> Expression list \<times> 's" where
  "filter_all flt [] cx = ([], cx)"
| "filter_all flt (e # es) cx =
     (let (e, cx) = flt e cx; (es, cx) = filter_all flt es cx in (e # es, cx))"

primrec filter_args ::
  "(Expression \<Rightarrow> 's \<Rightarrow> Expression \<times> 's) \<Rightarrow> (FormatArg \<times> Expression) list \<Rightarrow> 's \<Rightarrow>
   (FormatArg \<times> Expression) list \<times> 's" where
  "filter_args flt [] cx = ([], cx)"
| "filter_args flt (a # es) cx =
     (let (e, cx) = flt (snd a) cx; (es, cx) = filter_args flt es cx in ((fst a, e) # es, cx))"

definition filter_string ::
  "(Expression \<Rightarrow> 's \<Rightarrow> Expression \<times> 's) \<Rightarrow> Expression StringLocation \<Rightarrow> 's \<Rightarrow>
   Expression StringLocation \<times> 's" where
  "filter_string flt l cx = (case l of
       CompileTime bs \<Rightarrow> (CompileTime bs, cx)
     | RunTime e \<Rightarrow> (let (e, cx) = flt e cx in (RunTime e, cx)))"

text \<open>
  The filter is applied to the operands and then to the copy. The last arm of the source
  hands the expression to the filter as it is, without visiting its operands.
\<close>

primrec copy_filter :: "(Expression \<Rightarrow> 's \<Rightarrow> Expression \<times> 's) \<Rightarrow> Expression \<Rightarrow> 's \<Rightarrow> Expression \<times> 's" where
  "copy_filter flt (Expression.Add loc ty overflowing left right) cx =
     (let (left, cx) = flt left cx;
          (right, cx) = flt right cx
      in flt (Expression.Add loc ty overflowing left right) cx)"
| "copy_filter flt (Expression.AllocDynamicBytes loc ty sz initializer) cx =
     (let (sz, cx) = flt sz cx
      in flt (Expression.AllocDynamicBytes loc ty sz initializer) cx)"
| "copy_filter flt (Expression.ArrayLiteral loc ty dimensions values) cx =
     (let (values, cx) = filter_all flt values cx
      in flt (Expression.ArrayLiteral loc ty dimensions values) cx)"
| "copy_filter flt (Expression.BitwiseAnd loc ty left right) cx =
     (let (left, cx) = flt left cx;
          (right, cx) = flt right cx
      in flt (Expression.BitwiseAnd loc ty left right) cx)"
| "copy_filter flt (Expression.BitwiseOr loc ty left right) cx =
     (let (left, cx) = flt left cx;
          (right, cx) = flt right cx
      in flt (Expression.BitwiseOr loc ty left right) cx)"
| "copy_filter flt (Expression.BitwiseXor loc ty left right) cx =
     (let (left, cx) = flt left cx;
          (right, cx) = flt right cx
      in flt (Expression.BitwiseXor loc ty left right) cx)"
| "copy_filter flt (Expression.BoolLiteral loc value) cx = flt (Expression.BoolLiteral loc value) cx"
| "copy_filter flt (Expression.Builtin loc tys kind args) cx =
     (let (args, cx) = filter_all flt args cx
      in flt (Expression.Builtin loc tys kind args) cx)"
| "copy_filter flt (Expression.BytesCast loc ty from expr) cx =
     (let (expr, cx) = flt expr cx
      in flt (Expression.BytesCast loc ty from expr) cx)"
| "copy_filter flt (Expression.BytesLiteral loc ty value) cx = flt (Expression.BytesLiteral loc ty value) cx"
| "copy_filter flt (Expression.Cast loc ty expr) cx =
     (let (expr, cx) = flt expr cx
      in flt (Expression.Cast loc ty expr) cx)"
| "copy_filter flt (Expression.BitwiseNot loc ty expr) cx =
     (let (expr, cx) = flt expr cx
      in flt (Expression.BitwiseNot loc ty expr) cx)"
| "copy_filter flt (Expression.ConstArrayLiteral loc ty dimensions values) cx =
     (let (values, cx) = filter_all flt values cx
      in flt (Expression.ConstArrayLiteral loc ty dimensions values) cx)"
| "copy_filter flt (Expression.UnsignedDivide loc ty left right) cx =
     (let (left, cx) = flt left cx;
          (right, cx) = flt right cx
      in flt (Expression.UnsignedDivide loc ty left right) cx)"
| "copy_filter flt (Expression.SignedDivide loc ty left right) cx =
     (let (left, cx) = flt left cx;
          (right, cx) = flt right cx
      in flt (Expression.SignedDivide loc ty left right) cx)"
| "copy_filter flt (Expression.Equal loc left right) cx =
     (let (left, cx) = flt left cx;
          (right, cx) = flt right cx
      in flt (Expression.Equal loc left right) cx)"
| "copy_filter flt (Expression.FormatString loc args) cx =
     (let (args, cx) = filter_args flt args cx
      in flt (Expression.FormatString loc args) cx)"
| "copy_filter flt (Expression.FunctionArg loc ty arg_no) cx = flt (Expression.FunctionArg loc ty arg_no) cx"
| "copy_filter flt (Expression.GetRef loc ty expr) cx = flt (Expression.GetRef loc ty expr) cx"
| "copy_filter flt (Expression.InternalFunctionCfg ty cfg_no) cx = flt (Expression.InternalFunctionCfg ty cfg_no) cx"
| "copy_filter flt (Expression.Keccak256 loc ty exprs) cx = flt (Expression.Keccak256 loc ty exprs) cx"
| "copy_filter flt (Expression.Less loc is_signed left right) cx =
     (let (left, cx) = flt left cx;
          (right, cx) = flt right cx
      in flt (Expression.Less loc is_signed left right) cx)"
| "copy_filter flt (Expression.LessEqual loc is_signed left right) cx =
     (let (left, cx) = flt left cx;
          (right, cx) = flt right cx
      in flt (Expression.LessEqual loc is_signed left right) cx)"
| "copy_filter flt (Expression.Load loc ty expr) cx =
     (let (expr, cx) = flt expr cx
      in flt (Expression.Load loc ty expr) cx)"
| "copy_filter flt (Expression.UnsignedModulo loc ty left right) cx = flt (Expression.UnsignedModulo loc ty left right) cx"
| "copy_filter flt (Expression.SignedModulo loc ty left right) cx = flt (Expression.SignedModulo loc ty left right) cx"
| "copy_filter flt (Expression.More loc is_signed left right) cx =
     (let (left, cx) = flt left cx;
          (right, cx) = flt right cx
      in flt (Expression.More loc is_signed left right) cx)"
| "copy_filter flt (Expression.MoreEqual loc is_signed left right) cx =
     (let (left, cx) = flt left cx;
          (right, cx) = flt right cx
      in flt (Expression.MoreEqual loc is_signed left right) cx)"
| "copy_filter flt (Expression.Multiply loc ty overflowing left right) cx =
     (let (left, cx) = flt left cx;
          (right, cx) = flt right cx
      in flt (Expression.Multiply loc ty overflowing left right) cx)"
| "copy_filter flt (Expression.Not loc expr) cx =
     (let (expr, cx) = flt expr cx
      in flt (Expression.Not loc expr) cx)"
| "copy_filter flt (Expression.NotEqual loc left right) cx =
     (let (left, cx) = flt left cx;
          (right, cx) = flt right cx
      in flt (Expression.NotEqual loc left right) cx)"
| "copy_filter flt (Expression.NumberLiteral loc ty value) cx = flt (Expression.NumberLiteral loc ty value) cx"
| "copy_filter flt Expression.Poison cx = flt Expression.Poison cx"
| "copy_filter flt (Expression.Power loc ty overflowing base expo) cx =
     (let (base, cx) = flt base cx;
          (expo, cx) = flt expo cx
      in flt (Expression.Power loc ty overflowing base expo) cx)"
| "copy_filter flt (Expression.RationalNumberLiteral loc ty rational) cx = flt (Expression.RationalNumberLiteral loc ty rational) cx"
| "copy_filter flt (Expression.ReturnData loc) cx = flt (Expression.ReturnData loc) cx"
| "copy_filter flt (Expression.SignExt loc ty expr) cx =
     (let (expr, cx) = flt expr cx
      in flt (Expression.SignExt loc ty expr) cx)"
| "copy_filter flt (Expression.ShiftLeft loc ty left right) cx =
     (let (left, cx) = flt left cx;
          (right, cx) = flt right cx
      in flt (Expression.ShiftLeft loc ty left right) cx)"
| "copy_filter flt (Expression.ShiftRight loc ty left right is_signed) cx =
     (let (left, cx) = flt left cx;
          (right, cx) = flt right cx
      in flt (Expression.ShiftRight loc ty left right is_signed) cx)"
| "copy_filter flt (Expression.StorageArrayLength loc ty array elem) cx =
     (let (array, cx) = flt array cx
      in flt (Expression.StorageArrayLength loc ty array elem) cx)"
| "copy_filter flt (Expression.StringCompare loc left right) cx =
     (let (left, cx) = filter_string flt left cx;
          (right, cx) = filter_string flt right cx
      in flt (Expression.StringCompare loc left right) cx)"
| "copy_filter flt (Expression.StructLiteral loc ty values) cx =
     (let (values, cx) = filter_all flt values cx
      in flt (Expression.StructLiteral loc ty values) cx)"
| "copy_filter flt (Expression.StructMember loc ty expr member) cx =
     (let (expr, cx) = flt expr cx
      in flt (Expression.StructMember loc ty expr member) cx)"
| "copy_filter flt (Expression.Subscript loc ty array_ty expr index) cx =
     (let (expr, cx) = flt expr cx;
          (index, cx) = flt index cx
      in flt (Expression.Subscript loc ty array_ty expr index) cx)"
| "copy_filter flt (Expression.Subtract loc ty overflowing left right) cx =
     (let (left, cx) = flt left cx;
          (right, cx) = flt right cx
      in flt (Expression.Subtract loc ty overflowing left right) cx)"
| "copy_filter flt (Expression.Trunc loc ty expr) cx =
     (let (expr, cx) = flt expr cx
      in flt (Expression.Trunc loc ty expr) cx)"
| "copy_filter flt (Expression.Negate loc ty overflowing expr) cx =
     (let (expr, cx) = flt expr cx
      in flt (Expression.Negate loc ty overflowing expr) cx)"
| "copy_filter flt (Expression.Undefined ty) cx = flt (Expression.Undefined ty) cx"
| "copy_filter flt (Expression.Variable loc ty var_no) cx = flt (Expression.Variable loc ty var_no) cx"
| "copy_filter flt (Expression.ZeroExt loc ty expr) cx =
     (let (expr, cx) = flt expr cx
      in flt (Expression.ZeroExt loc ty expr) cx)"
| "copy_filter flt (Expression.AdvancePointer pointer bytes_offset) cx =
     (let (pointer, cx) = flt pointer cx;
          (bytes_offset, cx) = flt bytes_offset cx
      in flt (Expression.AdvancePointer pointer bytes_offset) cx)"
| "copy_filter flt (Expression.VectorData pointer) cx = flt (Expression.VectorData pointer) cx"

section \<open>Building expressions\<close>

definition add_u32 :: "Expression \<Rightarrow> Expression \<Rightarrow> Expression" where
  "add_u32 e other = Expression.Add Loc.Codegen (Type.Uint 32) False e other"

definition external_function_selector :: "Expression \<Rightarrow> Expression" where
  "external_function_selector e =
     Expression.Load (expr_loc e) Type.FunctionSelector
       (Expression.StructMember (expr_loc e) (Type.Ref Type.FunctionSelector) e 0)"

definition external_function_address :: "Expression \<Rightarrow> Expression" where
  "external_function_address e =
     Expression.Load (expr_loc e) (Type.Address False)
       (Expression.StructMember (expr_loc e) (Type.Ref (Type.Address False)) e 1)"

section \<open>Conversions\<close>

text \<open>
  The conversions of literals, which return early. \<open>u8\<close> arithmetic on byte lengths
  wraps.
\<close>

definition cast_literal :: "crates \<Rightarrow> Expression \<Rightarrow> Type \<Rightarrow> Type \<Rightarrow> Expression option" where
  "cast_literal C e from to = (case e of
       Expression.NumberLiteral loc _ v \<Rightarrow> (case to of
           Type.Uint to_len \<Rightarrow>
             (if is_primitive from then
                Some (Expression.NumberLiteral loc (Type.Uint to_len)
                  (if v < 0
                   then from_bytes_le C (vec_resize (to_signed_bytes_le C v) (to_len div 8) 0xff)
                   else v))
              else None)
         | Type.Int to_len \<Rightarrow>
             (if is_primitive from then Some (Expression.NumberLiteral loc (Type.Int to_len) v) else None)
         | Type.Bytes to_len \<Rightarrow>
             (if is_primitive from then Some (Expression.NumberLiteral loc (Type.Bytes to_len) v) else None)
         | Type.Address payable \<Rightarrow>
             (if is_primitive from then Some (Expression.NumberLiteral loc (Type.Address payable) v) else None)
         | Type.Rational \<Rightarrow> Some (Expression.RationalNumberLiteral loc Type.Rational (of_int v))
         | _ \<Rightarrow> None)
     | Expression.BytesLiteral loc _ bs \<Rightarrow> (case to of
           Type.Bytes to_len \<Rightarrow>
             (if is_primitive from
              then Some (Expression.BytesLiteral loc (Type.Bytes to_len) (vec_resize bs to_len 0))
              else None)
         | Type.DynamicBytes \<Rightarrow> Some (Expression.AllocDynamicBytes loc to
             (Expression.NumberLiteral loc (Type.Uint 32) (int (length bs))) (Some bs))
         | Type.String \<Rightarrow> Some (Expression.AllocDynamicBytes loc to
             (Expression.NumberLiteral loc (Type.Uint 32) (int (length bs))) (Some bs))
         | _ \<Rightarrow> None)
     | _ \<Rightarrow> None)"

text \<open>The type that a conversion to an integer starts from: enums and values have a width.\<close>

definition cast_from :: "Namespace \<Rightarrow> Type \<Rightarrow> Type \<Rightarrow> Type option" where
  "cast_from ns from to =
     (if (case to of Type.Uint _ \<Rightarrow> True | Type.Int _ \<Rightarrow> True | _ \<Rightarrow> False) then (case from of
         Type.Enum enum_no \<Rightarrow> do { e \<leftarrow> vec_get (enums ns) enum_no;
                                  w \<leftarrow> bits ns (e_ty e); Some (Type.Uint w) }
       | Type.Value \<Rightarrow> Some (Type.Int (value_length ns * 8))
       | _ \<Rightarrow> Some from)
      else Some from)"

definition cast_width ::
  "(Loc \<Rightarrow> Type \<Rightarrow> Expression \<Rightarrow> Expression) \<Rightarrow> Expression \<Rightarrow> Type \<Rightarrow> nat \<Rightarrow> nat \<Rightarrow> Expression" where
  "cast_width widen e to from_len to_len =
     (if from_len > to_len then Expression.Trunc (expr_loc e) to e
      else if from_len < to_len then widen (expr_loc e) to e
      else Expression.Cast (expr_loc e) to e)"

definition is_int_type :: "Type \<Rightarrow> bool" where
  "is_int_type ty = (case ty of Type.Int _ \<Rightarrow> True | Type.Uint _ \<Rightarrow> True | _ \<Rightarrow> False)"

text \<open>The arm from an integer to an address and back.\<close>

definition cast_to_address :: "Namespace \<Rightarrow> Expression \<Rightarrow> Type \<Rightarrow> bool \<Rightarrow> nat \<Rightarrow> Expression" where
  "cast_to_address ns e to from_signed from_len =
     (let address_bits = address_length ns * 8;
          address_to_int = (if from_signed then Type.Int address_bits else Type.Uint address_bits);
          expr = (if from_len > address_bits then Expression.Trunc (expr_loc e) address_to_int e
                  else if from_len < address_bits \<and> from_signed then Expression.ZeroExt (expr_loc e) to e
                  else if from_len < address_bits then Expression.SignExt (expr_loc e) to e
                  else e)
      in Expression.Cast (expr_loc e) to expr)"

definition cast_from_address :: "Namespace \<Rightarrow> Expression \<Rightarrow> Type \<Rightarrow> bool \<Rightarrow> nat \<Rightarrow> Expression" where
  "cast_from_address ns e to to_signed to_len =
     (let address_bits = address_length ns * 8;
          address_to_int = (if to_signed then Type.Int address_bits else Type.Uint address_bits);
          expr = Expression.Cast (expr_loc e) address_to_int e
      in if to_len < address_bits then Expression.Trunc (expr_loc e) to expr
         else if to_len > address_bits \<and> to_signed then Expression.ZeroExt (expr_loc e) to expr
         else if to_len > address_bits then Expression.SignExt (expr_loc e) to expr
         else expr)"

definition cast_bytes :: "Expression \<Rightarrow> Type \<Rightarrow> Type \<Rightarrow> nat \<Rightarrow> nat \<Rightarrow> Expression" where
  "cast_bytes e from to from_len to_len =
     (if to_len > from_len
      then Expression.ShiftLeft (expr_loc e) to (Expression.ZeroExt (expr_loc e) to e)
             (Expression.NumberLiteral (expr_loc e) (Type.Uint (to_len * 8))
               (int ((to_len - from_len) * 8 mod 256)))
      else Expression.Trunc (expr_loc e) to
             (Expression.ShiftRight (expr_loc e) from e
               (Expression.NumberLiteral (expr_loc e) (Type.Uint (from_len * 8))
                 (int ((from_len - to_len) * 8 mod 256))) False))"

text \<open>
  The arms of the main match that come before the ones on function selectors, in order. The
  outer option is a panic, the inner one whether an arm applies.
\<close>

definition cast_scalar ::
  "Namespace \<Rightarrow> Expression \<Rightarrow> Type \<Rightarrow> Type \<Rightarrow> Expression option option" where
  "cast_scalar ns e from to = (case from of
       Type.Uint from_len \<Rightarrow> (case to of
           Type.Enum enum_no \<Rightarrow> do { d \<leftarrow> vec_get (enums ns) enum_no; to_width \<leftarrow> bits ns (e_ty d);
             Some (Some (cast_width Expression.ZeroExt e to from_len to_width)) }
         | Type.Bytes n \<Rightarrow> Some (if from_len = 8 \<and> n = 1 then Some e else None)
         | Type.Uint to_len \<Rightarrow> Some (Some (cast_width Expression.ZeroExt e to from_len to_len))
         | Type.Int to_len \<Rightarrow> Some (Some (cast_width Expression.ZeroExt e to from_len to_len))
         | Type.Address _ \<Rightarrow> Some (Some (cast_to_address ns e to False from_len))
         | Type.Rational \<Rightarrow> Some (Some (Expression.Cast (expr_loc e) to e))
         | Type.Bool \<Rightarrow> do { ty \<leftarrow> expr_ty e; Some (Some (Expression.NotEqual (expr_loc e)
             (Expression.NumberLiteral (expr_loc e) ty 0) e)) }
         | _ \<Rightarrow> Some None)
     | Type.Int from_len \<Rightarrow> (case to of
           Type.Enum enum_no \<Rightarrow> do { d \<leftarrow> vec_get (enums ns) enum_no; to_width \<leftarrow> bits ns (e_ty d);
             Some (Some (cast_width Expression.ZeroExt e to from_len to_width)) }
         | Type.Uint to_len \<Rightarrow> Some (Some (cast_width Expression.SignExt e to from_len to_len))
         | Type.Int to_len \<Rightarrow> Some (Some (cast_width Expression.SignExt e to from_len to_len))
         | Type.Address _ \<Rightarrow> Some (Some (cast_to_address ns e to True from_len))
         | Type.Rational \<Rightarrow> Some (Some (Expression.Cast (expr_loc e) to e))
         | Type.Bool \<Rightarrow> do { ty \<leftarrow> expr_ty e; Some (Some (Expression.NotEqual (expr_loc e)
             (Expression.NumberLiteral (expr_loc e) ty 0) e)) }
         | _ \<Rightarrow> Some None)
     | Type.Address _ \<Rightarrow> Some (case to of
           Type.Uint to_len \<Rightarrow> Some (cast_from_address ns e to False to_len)
         | Type.Int to_len \<Rightarrow> Some (cast_from_address ns e to True to_len)
         | _ \<Rightarrow> None)
     | Type.Bytes n \<Rightarrow> Some (case to of
           Type.Uint w \<Rightarrow>
             Some (if n = 1 \<and> w = 8 then e
                   else cast_width Expression.ZeroExt e to n (w div 8 mod 256))
         | Type.Int w \<Rightarrow> Some (cast_width Expression.ZeroExt e to n (w div 8 mod 256))
         | Type.Bytes to_len \<Rightarrow> Some (cast_bytes e from to n to_len)
         | Type.DynamicBytes \<Rightarrow> Some (Expression.BytesCast (expr_loc e) from to e)
         | _ \<Rightarrow> None)
     | Type.Value \<Rightarrow> Some (case to of Type.Rational \<Rightarrow> Some (Expression.Cast (expr_loc e) to e) | _ \<Rightarrow> None)
     | Type.DynamicBytes \<Rightarrow> Some (case to of
           Type.Bytes _ \<Rightarrow> Some (Expression.BytesCast (expr_loc e) from to e)
         | _ \<Rightarrow> None)
     | Type.Bool \<Rightarrow> Some (if is_int_type to then Some (Expression.Cast (expr_loc e) to e) else None)
     | _ \<Rightarrow> Some None)"

text \<open>The arms that only change the type.\<close>

definition cast_plain :: "Type \<Rightarrow> Type \<Rightarrow> bool" where
  "cast_plain from to = (case from of
       Type.Uint _ \<Rightarrow> (case to of Type.Bytes _ \<Rightarrow> True | _ \<Rightarrow> False)
     | Type.Int _ \<Rightarrow> (case to of Type.Bytes _ \<Rightarrow> True | _ \<Rightarrow> False)
     | Type.Bytes _ \<Rightarrow> (case to of Type.Address _ \<Rightarrow> True | _ \<Rightarrow> False)
     | Type.Address p \<Rightarrow> (case to of Type.Address q \<Rightarrow> p \<noteq> q | Type.Contract _ \<Rightarrow> True
         | Type.Bytes _ \<Rightarrow> True | _ \<Rightarrow> False)
     | Type.Contract _ \<Rightarrow> (case to of Type.Address _ \<Rightarrow> True | Type.Contract _ \<Rightarrow> True | _ \<Rightarrow> False)
     | Type.String \<Rightarrow> (case to of Type.DynamicBytes \<Rightarrow> True | _ \<Rightarrow> False)
     | Type.DynamicBytes \<Rightarrow> (case to of Type.String \<Rightarrow> True | _ \<Rightarrow> False)
     | Type.InternalFunction _ _ _ \<Rightarrow> (case to of Type.InternalFunction _ _ _ \<Rightarrow> True | _ \<Rightarrow> False)
     | Type.ExternalFunction _ _ _ \<Rightarrow> (case to of Type.ExternalFunction _ _ _ \<Rightarrow> True | _ \<Rightarrow> False)
     | _ \<Rightarrow> False)"

definition is_selector_type :: "Type \<Rightarrow> bool" where
  "is_selector_type ty = (case ty of Type.FunctionSelector \<Rightarrow> True | _ \<Rightarrow> False)"

function cast :: "crates \<Rightarrow> Namespace \<Rightarrow> Expression \<Rightarrow> Type \<Rightarrow> Expression option" where
  "cast C ns e to = do {
     from0 \<leftarrow> expr_ty e;
     if type_eq from0 to then Some e
     else (case cast_literal C e from0 to of
       Some r \<Rightarrow> Some r
     | None \<Rightarrow> do {
         from \<leftarrow> cast_from ns from0 to;
         scalar \<leftarrow> cast_scalar ns e from to;
         (case scalar of
            Some r \<Rightarrow> Some r
          | None \<Rightarrow>
              if is_selector_type from then
                cast C ns (Expression.Cast (expr_loc e) (Type.Bytes (selector_length (target ns))) e) to
              else if is_selector_type to then
                cast C ns e (Type.Bytes (selector_length (target ns)))
              else if cast_plain from to then Some (Expression.Cast (expr_loc e) to e)
              else if is_contract_storage from \<or> is_contract_storage to then Some e
              else do {
                from_ref \<leftarrow> is_reference_type ns from;
                to_ref \<leftarrow> is_reference_type ns to;
                if from_ref \<and> \<not> to_ref then
                  cast C ns (Expression.Cast (expr_loc e) (Type.Uint (ptr_size (target ns))) e) to
                else if \<not> from_ref \<and> to_ref then
                  map_option (Expression.Cast (expr_loc e) to)
                    (cast C ns e (Type.Uint (ptr_size (target ns))))
                else if \<not> from_ref \<and> \<not> to_ref then Some (Expression.Cast (expr_loc e) to e)
                else Some e }) }) }"
  by pat_completeness auto

text \<open>Each recursive call replaces a selector or a reference type by a plain one.\<close>

definition cast_rank :: "Namespace \<Rightarrow> Type \<Rightarrow> nat" where
  "cast_rank ns ty = (if is_selector_type ty \<or> is_reference_type ns ty = Some True then 1 else 0)"

lemma cast_rank_simps [simp]:
  "cast_rank ns (Type.Bytes n) = 0" "cast_rank ns (Type.Uint n) = 0" "cast_rank ns (Type.Int n) = 0"
  "cast_rank ns Type.FunctionSelector = 1"
  by (simp_all add: cast_rank_def is_selector_type_def is_reference_type_def is_reference_type_fuel.simps)

lemma cast_from_rank:
  "cast_from ns from0 to = Some from \<Longrightarrow> cast_rank ns from = 1 \<Longrightarrow> cast_rank ns from0 = 1"
  by (auto simp: cast_from_def Option.bind_eq_Some_conv split: if_splits Type.splits)

lemma cast_rank_selector: "is_selector_type ty \<Longrightarrow> cast_rank ns ty = 1"
  by (simp add: cast_rank_def)

lemma cast_rank_reference: "is_reference_type ns ty = Some True \<Longrightarrow> cast_rank ns ty = 1"
  by (simp add: cast_rank_def)

termination cast
  by (relation "measure (\<lambda>(C, ns, e, to).
        (case expr_ty e of Some ty \<Rightarrow> cast_rank ns ty | None \<Rightarrow> 0) + cast_rank ns to)")
     (auto simp: cast_rank_selector cast_rank_reference dest: cast_from_rank)

declare cast.simps [simp del]

section \<open>Default values\<close>

text \<open>The loop over the fields of a struct: the first field without a default ends it.\<close>

primrec all_defaults :: "'a option option list \<Rightarrow> 'a \<Rightarrow> 'a option option" where
  "all_defaults [] result = Some (Some result)"
| "all_defaults (d # ds) result = (case d of
       None \<Rightarrow> None
     | Some None \<Rightarrow> Some None
     | Some (Some _) \<Rightarrow> all_defaults ds result)"

lemma all_defaults_cong [fundef_cong]:
  "ds = ds' \<Longrightarrow> r = r' \<Longrightarrow> all_defaults ds r = all_defaults ds' r'"
  by simp

text \<open>
  The default value of a type; the outer option is the panic (an index out of range, a
  reference to something other than an address), the inner one the result.
\<close>

fun default_fuel :: "nat \<Rightarrow> Namespace \<Rightarrow> Type \<Rightarrow> Expression option option" where
  "default_fuel k ns ty = (case ty of
       Type.Address _ \<Rightarrow> Some (Some (Expression.NumberLiteral Loc.Codegen ty 0))
     | Type.Uint _ \<Rightarrow> Some (Some (Expression.NumberLiteral Loc.Codegen ty 0))
     | Type.Int _ \<Rightarrow> Some (Some (Expression.NumberLiteral Loc.Codegen ty 0))
     | Type.Bool \<Rightarrow> Some (Some (Expression.BoolLiteral Loc.Codegen False))
     | Type.Bytes n \<Rightarrow> Some (Some (Expression.BytesLiteral Loc.Codegen ty (replicate n 0)))
     | Type.Enum n \<Rightarrow> (case k of 0 \<Rightarrow> None
         | Suc k' \<Rightarrow> do { e \<leftarrow> vec_get (enums ns) n; default_fuel k' ns (e_ty e) })
     | Type.Struct st \<Rightarrow> (case k of 0 \<Rightarrow> None
         | Suc k' \<Rightarrow> do {
             d \<leftarrow> struct_definition st ns;
             all_defaults (map (\<lambda>f. default_fuel k' ns (p_ty f)) (s_fields d))
               (Expression.StructLiteral Loc.Codegen ty []) })
     | Type.Ref t \<Rightarrow> (case t of
           Type.Address _ \<Rightarrow> Some (Some (Expression.GetRef Loc.Codegen (Type.Ref t)
             (Expression.NumberLiteral Loc.Codegen t 0)))
         | _ \<Rightarrow> None)
     | Type.StorageRef _ _ \<Rightarrow> Some None
     | Type.String \<Rightarrow> Some (Some (Expression.AllocDynamicBytes Loc.Codegen ty
         (Expression.NumberLiteral Loc.Codegen (Type.Uint 32) 0) None))
     | Type.DynamicBytes \<Rightarrow> Some (Some (Expression.AllocDynamicBytes Loc.Codegen ty
         (Expression.NumberLiteral Loc.Codegen (Type.Uint 32) 0) None))
     | Type.Array t dims \<Rightarrow> do {
         d \<leftarrow> default_fuel k ns t;
         Some (case d of None \<Rightarrow> None
           | Some _ \<Rightarrow> Some (if dims \<noteq> [] \<and> last dims = Dynamic
               then Expression.AllocDynamicBytes Loc.Codegen ty
                      (Expression.NumberLiteral Loc.Codegen (Type.Uint 32) 0) None
               else Expression.ArrayLiteral Loc.Codegen ty [] [])) }
     | _ \<Rightarrow> Some None)"

declare default_fuel.simps [simp del]

definition default_value :: "Namespace \<Rightarrow> Type \<Rightarrow> Expression option option" where
  "default_value ns ty = default_fuel (type_fuel ns) ns ty"

end
