(* ===== verification/Cfg.thy ===== *)
theory Cfg
  imports Exprs
begin

text \<open>
  The control flow graph (\<open>src/codegen/cfg.rs\<close>): instructions, basic blocks, the graph and
  the operations that build it, and the table of local variables
  (\<open>src/codegen/vartable.rs\<close>). The definitions and transfers recorded in a block
  (\<open>src/codegen/reaching_definitions.rs\<close>) are declared here because blocks hold them.
\<close>

section \<open>Instructions\<close>

datatype 'e ExternalCallAccounts = NoAccount | AbsentArgument | Present 'e

datatype CallTy = Regular | Delegate | Static

datatype InternalCallTy =
    Static nat
  | Dynamic Expression
  | Builtin nat
  | HostFunction string

datatype ReturnCode = Success | FunctionSelectorInvalid | AbiEncodingInvalid | InvalidDataError
  | AccountDataTooSmall | InvalidProgramId

datatype (plugins only: size code) Instr =
    Set Loc nat Expression
  | Call "nat list" "Type list" InternalCallTy "Expression list"
  | Return "Expression list"
  | Branch nat
  | BranchCond Expression nat nat
  | Store Expression Expression
  | AssertFailure "Expression option"
  | Print Expression
  | LoadStorage nat Type Expression "StorageType option"
  | ClearStorage Type Expression
  | SetStorage Type Expression Expression "StorageType option"
  | SetStorageBytes Expression Expression Expression
  | PushStorage nat Type "Expression option" Expression
  | PopStorage "nat option" Type Expression
  | PushMemory nat Type nat Expression
  | PopMemory nat Type nat Loc
  | Constructor "nat option" nat nat "nat option" Expression "Expression option" Expression
      "Expression option" "Expression option" "Expression option"
      "Expression ExternalCallAccounts" Loc
  | ExternalCall Loc "nat option" "Expression option" "Expression ExternalCallAccounts"
      "Expression option" Expression Expression Expression CallTy "(nat \<times> nat) option"
      "Expression option"
  | ValueTransfer "nat option" Expression Expression
  | SelfDestruct Expression
  | EmitEvent nat Expression "Expression list"
  | WriteBuffer Expression Expression Expression
  | MemCopy Expression Expression Expression
  | Switch Expression "(Expression \<times> nat) list" nat
  | Nop
  | ReturnData Expression Expression
  | ReturnCode ReturnCode
  | Unimplemented bool
  | AccountAccess Loc nat string

text \<open>The traversal of the expressions of an instruction, in the order of the source.\<close>

definition recurse_opt ::
  "(Expression \<Rightarrow> 's \<Rightarrow> bool \<times> 's) \<Rightarrow> Expression option \<Rightarrow> 's \<Rightarrow> 's" where
  "recurse_opt f oe cx = (case oe of None \<Rightarrow> cx | Some e \<Rightarrow> recurse f e cx)"

definition recurse_accounts ::
  "(Expression \<Rightarrow> 's \<Rightarrow> bool \<times> 's) \<Rightarrow> Expression ExternalCallAccounts \<Rightarrow> 's \<Rightarrow> 's" where
  "recurse_accounts f acc cx = (case acc of Present e \<Rightarrow> recurse f e cx | _ \<Rightarrow> cx)"

primrec recurse_expressions ::
  "(Expression \<Rightarrow> 's \<Rightarrow> bool \<times> 's) \<Rightarrow> Instr \<Rightarrow> 's \<Rightarrow> 's" where
  "recurse_expressions f (Instr.BranchCond cond t e) cx = recurse f cond cx"
| "recurse_expressions f (Instr.LoadStorage res ty storage st) cx = recurse f storage cx"
| "recurse_expressions f (Instr.ClearStorage ty storage) cx = recurse f storage cx"
| "recurse_expressions f (Instr.Print expr) cx = recurse f expr cx"
| "recurse_expressions f (Instr.AssertFailure arg) cx = recurse_opt f arg cx"
| "recurse_expressions f (Instr.PopStorage res ty storage) cx = recurse f storage cx"
| "recurse_expressions f (Instr.SelfDestruct recipient) cx = recurse f recipient cx"
| "recurse_expressions f (Instr.Set loc res expr) cx = recurse f expr cx"
| "recurse_expressions f (Instr.PushMemory res ty array value) cx = recurse f value cx"
| "recurse_expressions f (Instr.SetStorage ty value storage st) cx =
     recurse f storage (recurse f value cx)"
| "recurse_expressions f (Instr.Store dest data) cx = recurse f data (recurse f dest cx)"
| "recurse_expressions f (Instr.ReturnData data data_len) cx =
     recurse f data_len (recurse f data cx)"
| "recurse_expressions f (Instr.PushStorage res ty value storage) cx =
     recurse f storage (recurse_opt f value cx)"
| "recurse_expressions f (Instr.SetStorageBytes value storage offset) cx =
     recurse f offset (recurse f storage (recurse f value cx))"
| "recurse_expressions f (Instr.Return exprs) cx = run_all (map (recurse f) exprs) cx"
| "recurse_expressions f (Instr.Call res tys call args) cx = run_all (map (recurse f) args) cx"
| "recurse_expressions f (Instr.Constructor success res contract_no constructor_no encoded_args value
       gas salt address seeds accounts loc) cx =
     recurse_accounts f accounts (recurse_opt f address (recurse_opt f salt (recurse f gas
       (recurse_opt f value (recurse f encoded_args cx)))))"
| "recurse_expressions f (Instr.ExternalCall loc success address accounts seeds payload value gas
       callty contract_function_no flags) cx =
     recurse f gas (recurse f value (recurse f payload (recurse_opt f address cx)))"
| "recurse_expressions f (Instr.ValueTransfer success address value) cx =
     recurse f value (recurse f address cx)"
| "recurse_expressions f (Instr.EmitEvent event_no data topics) cx =
     run_all (map (recurse f) topics) (recurse f data cx)"
| "recurse_expressions f (Instr.WriteBuffer buf offset value) cx =
     recurse f offset (recurse f value cx)"
| "recurse_expressions f (Instr.MemCopy source destination nbytes) cx =
     recurse f nbytes (recurse f destination (recurse f source cx))"
| "recurse_expressions f (Instr.Switch cond cases default_block) cx =
     run_all (map (\<lambda>(e, _). recurse f e) cases) (recurse f cond cx)"
| "recurse_expressions f Instr.Nop cx = cx"
| "recurse_expressions f (Instr.ReturnCode code) cx = cx"
| "recurse_expressions f (Instr.Branch block) cx = cx"
| "recurse_expressions f (Instr.AccountAccess loc var_no name) cx = cx"
| "recurse_expressions f (Instr.PopMemory res ty array loc) cx = cx"
| "recurse_expressions f (Instr.Unimplemented reachable) cx = cx"

section \<open>Blocks and graphs\<close>

record Def =
  def_block_no :: nat
  def_instr_no :: nat
  def_assignment_no :: nat

datatype Transfer =
    Gen Def nat
  | Mod nat
  | Copy nat nat
  | Kill nat

type_synonym Defs = "(Def, bool) index_map"
type_synonym VarDefs = "(nat, Defs) index_map"

record BasicBlock =
  b_phis :: "nat set option"
  b_name :: string
  b_instr :: "Instr list"
  b_defs :: VarDefs
  b_loop_reaching_variables :: "nat set"
  b_transfers :: "Transfer list list"

datatype ASTFunction = SolidityFunction nat | YulFunction nat | NoFunction

datatype FunctionTy = Constructor | Function | Fallback | Receive | Modifier

datatype Storage = Constant nat | Contract int | Local

record LocalVariable =
  lv_id :: Identifier
  lv_ty :: Type
  lv_storage :: Storage

type_synonym Vars = "(nat, LocalVariable) index_map"

record ControlFlowGraph =
  cfg_name :: string
  cfg_function_no :: ASTFunction
  cfg_params :: "Parameter list"
  cfg_returns :: "Parameter list"
  cfg_vars :: Vars
  cfg_blocks :: "BasicBlock list"
  cfg_nonpayable :: bool
  cfg_public :: bool
  cfg_ty :: FunctionTy
  cfg_selector :: "u8 list"
  cfg_current :: nat
  cfg_array_lengths_temps :: "(nat, nat) index_map"
  cfg_modifier :: "nat option"

text \<open>
  The successors of a block: the instructions are visited from the last to the first, and a
  terminator that is not last, or a last instruction that is not a terminator, is a failed
  assertion.
\<close>

fun successors_rev :: "nat \<Rightarrow> Instr list \<Rightarrow> nat list option" where
  "successors_rev i [] = Some []"
| "successors_rev i (ins # rest) = (case ins of
       Instr.Branch block \<Rightarrow>
         (if i = 0 then map_option (\<lambda>out. block # out) (successors_rev (i + 1) rest) else None)
     | Instr.BranchCond _ true_block false_block \<Rightarrow>
         (if i = 0 then map_option (\<lambda>out. true_block # false_block # out) (successors_rev (i + 1) rest)
          else None)
     | Instr.Switch _ cases default_block \<Rightarrow>
         (if i = 0 then map_option (\<lambda>out. default_block # map snd cases @ out) (successors_rev (i + 1) rest)
          else None)
     | Instr.AssertFailure _ \<Rightarrow> (if i = 0 then successors_rev (i + 1) rest else None)
     | Instr.SelfDestruct _ \<Rightarrow> (if i = 0 then successors_rev (i + 1) rest else None)
     | Instr.ReturnCode _ \<Rightarrow> (if i = 0 then successors_rev (i + 1) rest else None)
     | Instr.ReturnData _ _ \<Rightarrow> (if i = 0 then successors_rev (i + 1) rest else None)
     | Instr.Return _ \<Rightarrow> (if i = 0 then successors_rev (i + 1) rest else None)
     | Instr.Unimplemented reachable \<Rightarrow>
         (if reachable then (if i \<noteq> 0 then successors_rev (i + 1) rest else None)
          else if i = 0 then successors_rev (i + 1) rest else None)
     | _ \<Rightarrow> (if i \<noteq> 0 then successors_rev (i + 1) rest else None))"

definition successors :: "BasicBlock \<Rightarrow> nat list option" where
  "successors block = successors_rev 0 (rev (b_instr block))"

definition placeholder :: ControlFlowGraph where
  "placeholder = \<lparr>cfg_name = '''', cfg_function_no = NoFunction, cfg_params = [], cfg_returns = [],
     cfg_vars = [], cfg_blocks = [], cfg_nonpayable = False, cfg_public = False,
     cfg_ty = FunctionTy.Function, cfg_selector = [], cfg_current = 0,
     cfg_array_lengths_temps = [], cfg_modifier = None\<rparr>"

definition is_placeholder :: "ControlFlowGraph \<Rightarrow> bool" where
  "is_placeholder cfg \<longleftrightarrow> cfg_blocks cfg = []"

definition new_basic_block :: "string \<Rightarrow> ControlFlowGraph \<Rightarrow> nat \<times> ControlFlowGraph" where
  "new_basic_block name cfg =
     (length (cfg_blocks cfg),
      cfg\<lparr>cfg_blocks := cfg_blocks cfg @
        [\<lparr>b_phis = None, b_name = name, b_instr = [], b_defs = [], b_loop_reaching_variables = {},
          b_transfers = []\<rparr>]\<rparr>)"

definition new_cfg :: "string \<Rightarrow> ASTFunction \<Rightarrow> ControlFlowGraph" where
  "new_cfg name function_no =
     snd (new_basic_block ''entry'' (placeholder\<lparr>cfg_name := name, cfg_function_no := function_no\<rparr>))"

definition set_phis :: "nat \<Rightarrow> nat set \<Rightarrow> ControlFlowGraph \<Rightarrow> ControlFlowGraph option" where
  "set_phis block phis cfg =
     (if phis = {} then Some cfg
      else do { b \<leftarrow> vec_get (cfg_blocks cfg) block;
                Some (cfg\<lparr>cfg_blocks := (cfg_blocks cfg)[block := b\<lparr>b_phis := Some phis\<rparr>]\<rparr>) })"

definition set_basic_block :: "nat \<Rightarrow> ControlFlowGraph \<Rightarrow> ControlFlowGraph" where
  "set_basic_block pos cfg = cfg\<lparr>cfg_current := pos\<rparr>"

section \<open>The table of local variables\<close>

record DirtyTracker =
  dt_lim :: nat
  dt_set :: "nat set"

record Vartable =
  vt_vars :: Vars
  vt_next_id :: nat
  vt_dirty :: "DirtyTracker list"

definition make_unique :: "Vars \<Rightarrow> Identifier \<Rightarrow> nat \<Rightarrow> Identifier" where
  "make_unique vars ident no =
     (if id_name ident = '''' then ident\<lparr>id_name := ''temp.'' @ dec_nat no\<rparr>
      else if \<exists>(_, var) \<in> set vars. id_name (lv_id var) = id_name ident
      then ident\<lparr>id_name := id_name ident @ ''.'' @ dec_nat no\<rparr>
      else ident)"

text \<open>
  The table is filled from the symbol table of a function, of which it reads the number, the
  name and the type of each variable.
\<close>

primrec insert_symbols :: "(nat \<times> Identifier \<times> Type) list \<Rightarrow> Vars \<Rightarrow> Vars" where
  "insert_symbols [] vars = vars"
| "insert_symbols (s # rest) vars =
     (case s of (var_no, ident, ty) \<Rightarrow> insert_symbols rest
        (AList.update var_no \<lparr>lv_id = make_unique vars ident var_no, lv_ty = ty, lv_storage = Local\<rparr> vars))"

definition from_symbol_table :: "(nat \<times> Identifier \<times> Type) list \<Rightarrow> nat \<Rightarrow> Vartable" where
  "from_symbol_table symbols first_id = \<lparr>vt_vars = insert_symbols symbols [], vt_next_id = first_id, vt_dirty = []\<rparr>"

definition add_symbol_table :: "(nat \<times> Identifier \<times> Type) list \<Rightarrow> Vartable \<Rightarrow> Vartable" where
  "add_symbol_table symbols vt = vt\<lparr>vt_vars := insert_symbols symbols (vt_vars vt)\<rparr>"

definition add_known :: "nat \<Rightarrow> Identifier \<Rightarrow> Type \<Rightarrow> Vartable \<Rightarrow> Vartable option" where
  "add_known var_no ident ty vt =
     (if map_of (vt_vars vt) var_no \<noteq> None then None
      else Some (vt\<lparr>vt_vars := AList.update var_no
             \<lparr>lv_id = make_unique (vt_vars vt) ident var_no, lv_ty = ty, lv_storage = Local\<rparr> (vt_vars vt)\<rparr>))"

definition new_vartable :: "nat \<Rightarrow> Vartable" where
  "new_vartable first_id = \<lparr>vt_vars = [], vt_next_id = first_id, vt_dirty = []\<rparr>"

definition temp_with :: "Identifier \<Rightarrow> Type \<Rightarrow> Vartable \<Rightarrow> nat \<times> Vartable" where
  "temp_with ident ty vt =
     (vt_next_id vt,
      vt\<lparr>vt_next_id := vt_next_id vt + 1,
         vt_vars := AList.update (vt_next_id vt) \<lparr>lv_id = ident, lv_ty = ty, lv_storage = Local\<rparr> (vt_vars vt)\<rparr>)"

definition temp_anonymous :: "Type \<Rightarrow> Vartable \<Rightarrow> nat \<times> Vartable" where
  "temp_anonymous ty vt =
     temp_with \<lparr>id_loc = Loc.Codegen, id_name = ''temp.'' @ dec_nat (vt_next_id vt)\<rparr> ty vt"

definition temp :: "Identifier \<Rightarrow> Type \<Rightarrow> Vartable \<Rightarrow> nat \<times> Vartable" where
  "temp ident ty vt =
     temp_with \<lparr>id_loc = id_loc ident, id_name = id_name ident @ ''.temp.'' @ dec_nat (vt_next_id vt)\<rparr> ty vt"

definition temp_name :: "string \<Rightarrow> Type \<Rightarrow> Vartable \<Rightarrow> nat \<times> Vartable" where
  "temp_name name ty vt =
     temp_with \<lparr>id_loc = Loc.Codegen, id_name = name @ ''.temp.'' @ dec_nat (vt_next_id vt)\<rparr> ty vt"

definition finalize :: "Vartable \<Rightarrow> Namespace \<Rightarrow> ControlFlowGraph \<Rightarrow> Namespace \<times> ControlFlowGraph" where
  "finalize vt ns cfg = (ns\<lparr>next_id := vt_next_id vt\<rparr>, cfg\<lparr>cfg_vars := vt_vars vt\<rparr>)"

definition set_dirty :: "nat \<Rightarrow> Vartable \<Rightarrow> Vartable" where
  "set_dirty var_no vt = vt\<lparr>vt_dirty := map (\<lambda>e.
     if var_no < dt_lim e then e\<lparr>dt_set := insert var_no (dt_set e)\<rparr> else e) (vt_dirty vt)\<rparr>"

definition new_dirty_tracker :: "Vartable \<Rightarrow> Vartable" where
  "new_dirty_tracker vt = vt\<lparr>vt_dirty := vt_dirty vt @ [\<lparr>dt_lim = vt_next_id vt, dt_set = {}\<rparr>]\<rparr>"

definition pop_dirty_tracker :: "Vartable \<Rightarrow> (nat set \<times> Vartable) option" where
  "pop_dirty_tracker vt =
     (if vt_dirty vt = [] then None
      else Some (dt_set (last (vt_dirty vt)), vt\<lparr>vt_dirty := butlast (vt_dirty vt)\<rparr>))"

section \<open>Adding instructions\<close>

definition add_instr ::
  "Instr \<Rightarrow> Vartable \<Rightarrow> ControlFlowGraph \<Rightarrow> (Vartable \<times> ControlFlowGraph) option" where
  "add_instr ins vartab cfg = do {
     b \<leftarrow> vec_get (cfg_blocks cfg) (cfg_current cfg);
     Some (case ins of Instr.Set _ res _ \<Rightarrow> set_dirty res vartab | _ \<Rightarrow> vartab,
           cfg\<lparr>cfg_blocks := (cfg_blocks cfg)[cfg_current cfg := b\<lparr>b_instr := b_instr b @ [ins]\<rparr>]\<rparr>) }"

definition modify_temp_array_length ::
  "Loc \<Rightarrow> bool \<Rightarrow> nat \<Rightarrow> Vartable \<Rightarrow> ControlFlowGraph \<Rightarrow> (Vartable \<times> ControlFlowGraph) option" where
  "modify_temp_array_length loc is_minus array_pos vartab cfg =
     (case map_of (cfg_array_lengths_temps cfg) array_pos of
        None \<Rightarrow> Some (vartab, cfg)
      | Some to_add \<Rightarrow>
          (let op = (if is_minus then Expression.Subtract else Expression.Add);
               add_expr = op loc (Type.Uint 32) True
                 (Expression.Variable loc (Type.Uint 32) to_add)
                 (Expression.NumberLiteral loc (Type.Uint 32) 1)
           in add_instr (Instr.Set loc to_add add_expr) vartab cfg))"

section \<open>Facts about blocks\<close>

definition is_terminator :: "Instr \<Rightarrow> bool" where
  "is_terminator ins = (case ins of
       Instr.Branch _ \<Rightarrow> True | Instr.BranchCond _ _ _ \<Rightarrow> True | Instr.Switch _ _ _ \<Rightarrow> True
     | Instr.AssertFailure _ \<Rightarrow> True | Instr.SelfDestruct _ \<Rightarrow> True | Instr.ReturnCode _ \<Rightarrow> True
     | Instr.ReturnData _ _ \<Rightarrow> True | Instr.Return _ \<Rightarrow> True
     | Instr.Unimplemented reachable \<Rightarrow> \<not> reachable | _ \<Rightarrow> False)"

definition targets :: "Instr \<Rightarrow> nat list" where
  "targets ins = (case ins of
       Instr.Branch block \<Rightarrow> [block] | Instr.BranchCond _ t e \<Rightarrow> [t, e]
     | Instr.Switch _ cases default_block \<Rightarrow> default_block # map snd cases | _ \<Rightarrow> [])"

lemma successors_rev_tail:
  "0 < i \<Longrightarrow> successors_rev i xs = (if \<exists>x \<in> set xs. is_terminator x then None else Some [])"
proof (induction xs arbitrary: i)
  case (Cons x xs)
  then show ?case by (cases x) (simp_all add: is_terminator_def)
qed simp

lemma successors_rev_head:
  "successors_rev 0 (x # xs) =
     (if is_terminator x \<and> \<not> (\<exists>y \<in> set xs. is_terminator y) then Some (targets x) else None)"
  by (cases x) (simp_all add: is_terminator_def targets_def successors_rev_tail)

lemma successors_terminator:
  assumes "successors b = Some es" "i < length (b_instr b)" "is_terminator (b_instr b ! i)"
  shows "Suc i = length (b_instr b)" "es = targets (b_instr b ! i)"
proof -
  obtain xs x where xs: "b_instr b = xs @ [x]" using assms(2) by (cases "b_instr b" rule: rev_cases) auto
  then have *: "\<not> (\<exists>y \<in> set xs. is_terminator y)" "es = targets x"
    using assms(1) by (auto simp: successors_def successors_rev_head simp del: successors_rev.simps(2) split: if_splits)
  have "i = length xs"
  proof (rule ccontr)
    assume "i \<noteq> length xs"
    then have "i < length xs" using assms(2) xs by simp
    then show False using assms(3) * by (simp add: xs nth_append)
  qed
  then show "Suc i = length (b_instr b)" "es = targets (b_instr b ! i)" using * by (simp_all add: xs)
qed

text \<open>
  \<open>successors\<close> succeeds exactly on blocks whose only terminator is their last
  instruction, and returns the targets of that terminator; an empty block has none.
\<close>

theorem successors_iff:
  "successors b = (if b_instr b = [] then Some []
     else if is_terminator (last (b_instr b)) \<and> \<not> (\<exists>x \<in> set (butlast (b_instr b)). is_terminator x)
     then Some (targets (last (b_instr b))) else None)"
  by (cases "b_instr b" rule: rev_cases)
     (simp_all add: successors_def successors_rev_head del: successors_rev.simps(2))

section \<open>Facts about the variable table\<close>

definition wf_vartable :: "Vartable \<Rightarrow> bool" where
  "wf_vartable vt \<longleftrightarrow> wf_index_map (vt_vars vt) \<and> fst ` set (vt_vars vt) \<subseteq> {..< vt_next_id vt} \<and>
     (\<forall>e \<in> set (vt_dirty vt). dt_lim e \<le> vt_next_id vt \<and> (\<forall>v \<in> dt_set e. v < dt_lim e))"

lemma wf_new_vartable: "wf_vartable (new_vartable n)"
  by (simp add: wf_vartable_def new_vartable_def wf_index_map_def)

lemma wf_set_dirty: "wf_vartable vt \<Longrightarrow> wf_vartable (set_dirty v vt)"
  by (auto simp: wf_vartable_def set_dirty_def)

lemma wf_new_dirty_tracker: "wf_vartable vt \<Longrightarrow> wf_vartable (new_dirty_tracker vt)"
  by (auto simp: wf_vartable_def new_dirty_tracker_def)

lemma wf_pop_dirty_tracker:
  assumes "wf_vartable vt" and "pop_dirty_tracker vt = Some (s, vt')"
  shows "wf_vartable vt'"
proof -
  have "vt' = vt\<lparr>vt_dirty := butlast (vt_dirty vt)\<rparr>"
    using assms(2) by (auto simp: pop_dirty_tracker_def split: if_splits)
  then show ?thesis using assms(1) unfolding wf_vartable_def
    by (simp, blast dest: in_set_butlastD)
qed

lemma temp_with_fresh:
  assumes "wf_vartable vt" and "temp_with ident ty vt = (v, vt')"
  shows "map_of (vt_vars vt) v = None" "wf_vartable vt'"
    "map_of (vt_vars vt') = (map_of (vt_vars vt))(v \<mapsto> \<lparr>lv_id = ident, lv_ty = ty, lv_storage = Local\<rparr>)"
    "vt_dirty vt' = vt_dirty vt" "vt_next_id vt' = Suc v"
proof -
  have v: "v = vt_next_id vt" and vt': "vt' = vt\<lparr>vt_next_id := vt_next_id vt + 1,
      vt_vars := AList.update v \<lparr>lv_id = ident, lv_ty = ty, lv_storage = Local\<rparr> (vt_vars vt)\<rparr>"
    using assms(2) by (auto simp: temp_with_def)
  show "map_of (vt_vars vt) v = None" using assms(1) v by (auto simp: wf_vartable_def map_of_eq_None_iff)
  show "wf_vartable vt'" using assms(1) v
    by (auto simp: vt' wf_vartable_def wf_index_map_def distinct_update dom_update)
  show "map_of (vt_vars vt') = (map_of (vt_vars vt))(v \<mapsto> \<lparr>lv_id = ident, lv_ty = ty, lv_storage = Local\<rparr>)"
    by (simp add: vt' update_conv')
  show "vt_dirty vt' = vt_dirty vt" "vt_next_id vt' = Suc v" by (simp_all add: vt' v)
qed

text \<open>
  C24: a temporary gets a number that no variable of the table has; the table gains that
  variable, keeps every other, and stays well-formed, whichever of the three functions made it.
\<close>

theorem temp_fresh:
  assumes "wf_vartable vt"
    and "(v, vt') \<in> {temp_anonymous ty vt, temp ident ty vt, temp_name name ty vt}"
  shows "map_of (vt_vars vt) v = None \<and> wf_vartable vt' \<and>
    (\<exists>var. lv_ty var = ty \<and> lv_storage var = Local \<and> map_of (vt_vars vt') = (map_of (vt_vars vt))(v \<mapsto> var))"
proof -
  obtain n where t: "temp_with n ty vt = (v, vt')"
    using assms(2) by (auto simp: temp_anonymous_def temp_def temp_name_def)
  show ?thesis using temp_with_fresh [OF assms(1) t]
    by (intro conjI exI [of _ "\<lparr>lv_id = n, lv_ty = ty, lv_storage = Local\<rparr>"]) simp_all
qed

theorem temp_fresh_witness:
  "map_of (vt_vars (new_vartable 3)) 3 = None \<and> wf_vartable (snd (temp_anonymous Type.Bool (new_vartable 3)))"
  using temp_fresh [OF wf_new_vartable, of 3 "snd (temp_anonymous Type.Bool (new_vartable 3))" Type.Bool 3
      undefined undefined]
  by (simp add: temp_anonymous_def temp_with_def new_vartable_def)

text \<open>The variables that a list of instructions sets.\<close>

fun set_vars :: "Instr list \<Rightarrow> nat list" where
  "set_vars [] = []"
| "set_vars (Instr.Set _ res _ # is) = res # set_vars is"
| "set_vars (_ # is) = set_vars is"

primrec add_instrs ::
  "Instr list \<Rightarrow> Vartable \<Rightarrow> ControlFlowGraph \<Rightarrow> (Vartable \<times> ControlFlowGraph) option" where
  "add_instrs [] vt cfg = Some (vt, cfg)"
| "add_instrs (i # is) vt cfg = do { (vt, cfg) \<leftarrow> add_instr i vt cfg; add_instrs is vt cfg }"

lemma set_vars_Cons:
  "set_vars (i # is) = (case i of Instr.Set _ res _ \<Rightarrow> [res] | _ \<Rightarrow> []) @ set_vars is"
  by (cases i) simp_all

lemma add_instr_Some:
  assumes "add_instr i vt cfg = Some (vt', cfg')"
  shows "vt' = (case i of Instr.Set _ res _ \<Rightarrow> set_dirty res vt | _ \<Rightarrow> vt)"
    "cfg_current cfg < length (cfg_blocks cfg)" "cfg_current cfg' = cfg_current cfg"
    "cfg_blocks cfg' = (cfg_blocks cfg)[cfg_current cfg :=
       (cfg_blocks cfg ! cfg_current cfg)\<lparr>b_instr := b_instr (cfg_blocks cfg ! cfg_current cfg) @ [i]\<rparr>]"
  using assms by (auto simp: add_instr_def vec_get_def Option.bind_eq_Some_conv split: if_splits)

lemma add_instrs_dirty:
  assumes "add_instrs is vt cfg = Some (vt', cfg')" and "vt_dirty vt = ds @ [t]"
  shows "\<exists>ds'. vt_dirty vt' = ds' @ [t\<lparr>dt_set := dt_set t \<union> {v \<in> set (set_vars is). v < dt_lim t}\<rparr>] \<and>
    length ds' = length ds"
  using assms
proof (induction "is" arbitrary: vt cfg ds t)
  case (Cons i "is")
  from Cons.prems(1) obtain vt1 cfg1 where one: "add_instr i vt cfg = Some (vt1, cfg1)"
    and rest: "add_instrs is vt1 cfg1 = Some (vt', cfg')"
    by (auto simp: Option.bind_eq_Some_conv)
  define ws where "ws = (case i of Instr.Set _ res _ \<Rightarrow> [res] | _ \<Rightarrow> [])"
  define t1 where "t1 = t\<lparr>dt_set := dt_set t \<union> {v \<in> set ws. v < dt_lim t}\<rparr>"
  have "\<exists>ds1. vt_dirty vt1 = ds1 @ [t1] \<and> length ds1 = length ds"
    using add_instr_Some(1) [OF one] Cons.prems(2)
    by (cases i; cases t) (auto simp: ws_def t1_def set_dirty_def)
  then obtain ds1 where ds1: "vt_dirty vt1 = ds1 @ [t1]" "length ds1 = length ds" by blast
  have "t\<lparr>dt_set := dt_set t \<union> {v \<in> set (set_vars (i # is)). v < dt_lim t}\<rparr> =
      t1\<lparr>dt_set := dt_set t1 \<union> {v \<in> set (set_vars is). v < dt_lim t1}\<rparr>"
    unfolding t1_def set_vars_Cons ws_def [symmetric] by (cases t) auto
  with Cons.IH [OF rest ds1(1)] ds1(2) show ?case by simp
qed simp

text \<open>
  C25: the set that a dirty tracker returns when it is popped is exactly the set of variables,
  created before the tracker, that the instructions added in between set: what the phi nodes of
  a branch are made of. The trackers below it are the ones that were there before.
\<close>

theorem dirty_tracker_exact:
  assumes "add_instrs is (new_dirty_tracker vt) cfg = Some (vt', cfg')"
  shows "\<exists>vt''. pop_dirty_tracker vt' = Some ({v \<in> set (set_vars is). v < vt_next_id vt}, vt'') \<and>
    length (vt_dirty vt'') = length (vt_dirty vt)"
proof -
  have t: "vt_dirty (new_dirty_tracker vt) = vt_dirty vt @ [\<lparr>dt_lim = vt_next_id vt, dt_set = {}\<rparr>]"
    by (simp add: new_dirty_tracker_def)
  show ?thesis using add_instrs_dirty [OF assms t] by (auto simp: pop_dirty_tracker_def)
qed

theorem dirty_tracker_exact_witness:
  "\<exists>vt'' vt' cfg'. add_instrs [Instr.Set Loc.Codegen 1 (Expression.BoolLiteral Loc.Codegen True),
      Instr.Set Loc.Codegen 7 (Expression.BoolLiteral Loc.Codegen True)]
      (new_dirty_tracker (new_vartable 5)) (new_cfg ''f'' NoFunction) = Some (vt', cfg') \<and>
    pop_dirty_tracker vt' = Some ({1}, vt'')"
proof -
  let ?is = "[Instr.Set Loc.Codegen 1 (Expression.BoolLiteral Loc.Codegen True),
      Instr.Set Loc.Codegen 7 (Expression.BoolLiteral Loc.Codegen True)]"
  obtain vt' cfg' where run: "add_instrs ?is (new_dirty_tracker (new_vartable 5)) (new_cfg ''f'' NoFunction) =
      Some (vt', cfg')"
    by (simp add: add_instr_def new_cfg_def new_basic_block_def placeholder_def vec_get_def)
  have "{v \<in> set (set_vars ?is). v < vt_next_id (new_vartable 5)} = {1}"
    by (auto simp: new_vartable_def)
  with run dirty_tracker_exact [OF run] show ?thesis by auto
qed

end
