(* ===== verification/Reaching.thy ===== *)
theory Reaching
  imports Cfg
begin

text \<open>
  The reaching definitions analysis (\<open>src/codegen/reaching_definitions.rs\<close>), on which
  constant folding, strength reduction and common subexpression elimination rest: the transfers
  of an instruction, their effect, and the worklist iteration over the blocks.

  The worklist is a \<open>HashSet\<close> whose iteration order is not specified: the block taken
  next is chosen by a parameter \<open>pick\<close>, and every fact holds for all choices.
\<close>

section \<open>Transfers\<close>

fun array_var :: "Expression \<Rightarrow> nat option" where
  "array_var (Expression.Variable _ _ var_no) = Some var_no"
| "array_var (Expression.Subscript _ _ _ expr _) = array_var expr"
| "array_var (Expression.StructMember _ _ expr _) = array_var expr"
| "array_var _ = None"

definition set_var :: "nat \<Rightarrow> nat \<Rightarrow> nat list \<Rightarrow> Transfer list" where
  "set_var block_no instr_no var_nos = foldl (\<lambda>transfer (assignment_no, var_no).
     (Kill var_no # transfer) @
       [Gen \<lparr>def_block_no = block_no, def_instr_no = instr_no, def_assignment_no = assignment_no\<rparr> var_no])
     [] (enumerate 0 var_nos)"

definition mod_var :: "Expression \<Rightarrow> Transfer list" where
  "mod_var dest = (case array_var dest of Some var_no \<Rightarrow> [Mod var_no] | None \<Rightarrow> [])"

definition instr_transfer :: "nat \<Rightarrow> nat \<Rightarrow> Instr \<Rightarrow> Transfer list" where
  "instr_transfer block_no instr_no instr = (case instr of
       Instr.Set _ res expr \<Rightarrow> (case expr of
           Expression.Variable _ _ src \<Rightarrow> [Kill res, Copy res src]
         | _ \<Rightarrow> set_var block_no instr_no [res])
     | Instr.Call res _ _ _ \<Rightarrow> set_var block_no instr_no res
     | Instr.LoadStorage res _ _ _ \<Rightarrow> set_var block_no instr_no [res]
     | Instr.PopStorage (Some res) _ _ \<Rightarrow> set_var block_no instr_no [res]
     | Instr.PushMemory res _ array _ \<Rightarrow> set_var block_no instr_no [res] @ [Mod array]
     | Instr.PopMemory _ _ array _ \<Rightarrow> [Mod array]
     | Instr.ExternalCall _ (Some res) _ _ _ _ _ _ _ _ _ \<Rightarrow> set_var block_no instr_no [res]
     | Instr.Constructor success res _ _ _ _ _ _ _ _ _ _ \<Rightarrow> (case success of
           None \<Rightarrow> set_var block_no instr_no [res]
         | Some success \<Rightarrow> set_var block_no instr_no [res, success])
     | Instr.ValueTransfer (Some res) _ _ \<Rightarrow> set_var block_no instr_no [res]
     | Instr.ClearStorage _ dest \<Rightarrow> mod_var dest
     | Instr.SetStorageBytes _ dest _ \<Rightarrow> mod_var dest
     | Instr.SetStorage _ _ dest _ \<Rightarrow> mod_var dest
     | Instr.Store dest _ \<Rightarrow> mod_var dest
     | _ \<Rightarrow> [])"

definition instr_transfers :: "nat \<Rightarrow> BasicBlock \<Rightarrow> Transfer list list" where
  "instr_transfers block_no block =
     map (\<lambda>(instr_no, instr). instr_transfer block_no instr_no instr) (enumerate 0 (b_instr block))"

primrec apply_transfer :: "Transfer \<Rightarrow> VarDefs \<Rightarrow> VarDefs" where
  "apply_transfer (Kill var_no) vars = swap_remove var_no vars"
| "apply_transfer (Mod var_no) vars = (case map_of vars var_no of
       Some entry \<Rightarrow> AList.update var_no (map (\<lambda>(d, _). (d, True)) entry) vars
     | None \<Rightarrow> vars)"
| "apply_transfer (Copy var_no src) vars = (case map_of vars src of
       Some defs \<Rightarrow> AList.update var_no defs vars
     | None \<Rightarrow> vars)"
| "apply_transfer (Gen d var_no) vars = (case map_of vars var_no of
       Some entry \<Rightarrow> AList.update var_no (AList.update d False entry) vars
     | None \<Rightarrow> AList.update var_no [(d, False)] vars)"

definition apply_transfers :: "Transfer list \<Rightarrow> VarDefs \<Rightarrow> VarDefs" where
  "apply_transfers transfers vars = fold apply_transfer transfers vars"

section \<open>The iteration\<close>

text \<open>Equality of ordered maps does not depend on the order of the entries.\<close>

definition index_map_eq :: "('v \<Rightarrow> 'v \<Rightarrow> bool) \<Rightarrow> ('k, 'v) index_map \<Rightarrow> ('k, 'v) index_map \<Rightarrow> bool" where
  "index_map_eq eq a b \<longleftrightarrow> length a = length b \<and>
     (\<forall>(k, v) \<in> set a. case map_of b k of Some w \<Rightarrow> eq v w | None \<Rightarrow> False)"

definition var_defs_eq :: "VarDefs \<Rightarrow> VarDefs \<Rightarrow> bool" where
  "var_defs_eq = index_map_eq (index_map_eq (=))"

fun merge_entry :: "Defs \<Rightarrow> Defs \<Rightarrow> bool \<Rightarrow> Defs \<times> bool" where
  "merge_entry [] entry changed = (entry, changed)"
| "merge_entry ((incoming_def, incoming_modified) # defs) entry changed =
     (case map_of entry incoming_def of
        Some e \<Rightarrow>
          if \<not> e \<and> incoming_modified then merge_entry defs (AList.update incoming_def True entry) True
          else merge_entry defs entry changed
      | None \<Rightarrow> merge_entry defs (AList.update incoming_def incoming_modified entry) True)"

definition loop_check :: "nat \<Rightarrow> nat \<Rightarrow> Defs \<Rightarrow> nat set \<Rightarrow> bool \<Rightarrow> nat set \<times> bool" where
  "loop_check edge var_no defs lrv changed =
     (if \<exists>(d, _) \<in> set defs. edge \<le> def_block_no d
      then (insert var_no lrv, changed \<or> var_no \<notin> lrv) else (lrv, changed))"

fun merge_vars :: "nat \<Rightarrow> VarDefs \<Rightarrow> BasicBlock \<Rightarrow> bool \<Rightarrow> BasicBlock \<times> bool" where
  "merge_vars edge [] block changed = (block, changed)"
| "merge_vars edge ((var_no, defs) # vars) block changed =
     (let (entry, changed) = (case map_of (b_defs block) var_no of
            Some entry \<Rightarrow> merge_entry defs entry changed
          | None \<Rightarrow> (defs, True));
          (lrv, changed) = loop_check edge var_no defs (b_loop_reaching_variables block) changed
      in merge_vars edge vars
           (block\<lparr>b_defs := AList.update var_no entry (b_defs block), b_loop_reaching_variables := lrv\<rparr>)
           changed)"

fun merge_edges ::
  "VarDefs \<Rightarrow> nat list \<Rightarrow> BasicBlock list \<Rightarrow> nat set \<Rightarrow> (BasicBlock list \<times> nat set) option" where
  "merge_edges vars [] blocks todo = Some (blocks, todo)"
| "merge_edges vars (edge # edges) blocks todo = do {
     block \<leftarrow> vec_get blocks edge;
     if var_defs_eq (b_defs block) vars then merge_edges vars edges blocks todo
     else (let (block, changed) = merge_vars edge vars block False
           in merge_edges vars edges (blocks[edge := block])
                (if changed then insert edge todo else todo)) }"

text \<open>The definitions at the end of a block.\<close>

definition block_out :: "BasicBlock \<Rightarrow> VarDefs" where
  "block_out block = fold apply_transfers (b_transfers block) (b_defs block)"

text \<open>The definitions that reach the instruction \<open>i\<close> of a block.\<close>

definition defs_at :: "BasicBlock \<Rightarrow> nat \<Rightarrow> VarDefs" where
  "defs_at block i = fold apply_transfers (take i (b_transfers block)) (b_defs block)"

definition find_block ::
  "nat \<Rightarrow> BasicBlock list \<times> nat set \<Rightarrow> (BasicBlock list \<times> nat set) option" where
  "find_block block_no = (\<lambda>(blocks, todo). do {
     block \<leftarrow> vec_get blocks block_no;
     edges \<leftarrow> successors block;
     merge_edges (block_out block) edges blocks (todo - {block_no}) })"

partial_function (option) find_loop ::
  "(nat set \<Rightarrow> nat) \<Rightarrow> BasicBlock list \<times> nat set \<Rightarrow> BasicBlock list option" where
  "find_loop pick st =
     (if snd st = {} then Some (fst st)
      else do { st \<leftarrow> find_block (pick (snd st)) st; find_loop pick st })"

declare find_loop.simps [code]

definition with_transfers :: "BasicBlock list \<Rightarrow> BasicBlock list" where
  "with_transfers blocks =
     map (\<lambda>(block_no, block). block\<lparr>b_transfers := instr_transfers block_no block\<rparr>) (enumerate 0 blocks)"

definition find_definitions :: "(nat set \<Rightarrow> nat) \<Rightarrow> ControlFlowGraph \<Rightarrow> ControlFlowGraph option" where
  "find_definitions pick cfg =
     map_option (\<lambda>blocks. cfg\<lparr>cfg_blocks := blocks\<rparr>)
       (find_loop pick (with_transfers (cfg_blocks cfg), {0}))"

section \<open>What transfers do to the set of definitions\<close>

text \<open>\<open>has vars v d\<close>: the definition \<open>d\<close> of the variable \<open>v\<close> may reach.\<close>

definition has :: "VarDefs \<Rightarrow> nat \<Rightarrow> Def \<Rightarrow> bool" where
  "has vars v d \<longleftrightarrow> (\<exists>ds. map_of vars v = Some ds \<and> d \<in> fst ` set ds)"

lemma has_Nil [simp]: "\<not> has [] v d"
  by (simp add: has_def)

lemma has_update:
  "has (AList.update x ds vars) v d \<longleftrightarrow> (if v = x then d \<in> fst ` set ds else has vars v d)"
  by (auto simp: has_def update_conv')

text \<open>The keys are distinct, in the outer and in the inner maps.\<close>

definition wf_defs :: "VarDefs \<Rightarrow> bool" where
  "wf_defs vars \<longleftrightarrow> wf_index_map vars \<and> (\<forall>v ds. map_of vars v = Some ds \<longrightarrow> wf_index_map ds)"

lemma wf_defs_Nil [simp]: "wf_defs []"
  by (simp add: wf_defs_def wf_index_map_def)

lemma wf_defs_index_map: "wf_defs vars \<Longrightarrow> wf_index_map vars"
  by (simp add: wf_defs_def)

lemma wf_defs_update: "wf_defs vars \<Longrightarrow> wf_index_map ds \<Longrightarrow> wf_defs (AList.update v ds vars)"
  by (auto simp: wf_defs_def index_map_simps update_conv' split: if_splits)

lemma wf_defs_lookup: "wf_defs vars \<Longrightarrow> map_of vars v = Some ds \<Longrightarrow> wf_index_map ds"
  by (simp add: wf_defs_def)

lemma wf_index_map_mod: "wf_index_map ds \<Longrightarrow> wf_index_map (map (\<lambda>(d, _). (d, True)) ds)"
  by (simp add: wf_index_map_def comp_def case_prod_beta)

lemma wf_apply_transfer: "wf_defs vars \<Longrightarrow> wf_defs (apply_transfer t vars)"
proof (cases t)
  case (Kill x)
  assume "wf_defs vars"
  then show ?thesis using Kill by (auto simp: wf_defs_def index_map_simps split: if_splits)
qed (auto intro!: wf_defs_update wf_index_map_mod simp: imap.valid_insert dest: wf_defs_lookup
    split: option.splits, simp add: wf_index_map_def)

lemma wf_apply_transfers: "wf_defs vars \<Longrightarrow> wf_defs (apply_transfers ts vars)"
  unfolding apply_transfers_def by (induction ts arbitrary: vars) (auto simp: wf_apply_transfer)

lemma has_Kill: "wf_defs vars \<Longrightarrow> has (apply_transfer (Kill x) vars) v d \<longleftrightarrow> v \<noteq> x \<and> has vars v d"
  by (cases "v = x") (simp_all add: has_def imap.lookup_remove wf_defs_index_map)

lemma has_Mod: "has (apply_transfer (Mod x) vars) v d \<longleftrightarrow> has vars v d"
proof (cases "map_of vars x")
  case (Some entry)
  have "fst ` set (map (\<lambda>(d, _). (d, True)) entry) = fst ` set entry" by force
  then show ?thesis using Some by (simp only: apply_transfer.simps option.case has_update) (auto simp: has_def)
qed simp

lemma has_Gen: "has (apply_transfer (Gen g x) vars) v d \<longleftrightarrow> v = x \<and> d = g \<or> has vars v d"
proof (cases "map_of vars x")
  case None
  then show ?thesis by (simp add: has_update) (auto simp: has_def)
next
  case (Some entry)
  then have "has vars x d \<longleftrightarrow> d \<in> fst ` set entry" by (simp add: has_def)
  then show ?thesis using Some by (simp add: has_update dom_update)
qed

lemma has_Kill_Copy:
  assumes "wf_defs vars" and "x \<noteq> y"
  shows "has (apply_transfers [Kill x, Copy x y] vars) v d \<longleftrightarrow> has vars (if v = x then y else v) d"
proof -
  have "map_of (swap_remove x vars) y = map_of vars y"
    using assms(2) wf_defs_index_map [OF assms(1)] by (simp add: index_map_simps)
  moreover have "has (swap_remove x vars) v d \<longleftrightarrow> v \<noteq> x \<and> has vars v d"
    using has_Kill [OF assms(1)] by simp
  ultimately show ?thesis
    by (cases "map_of vars y") (simp_all add: apply_transfers_def has_update, simp_all add: has_def)
qed

lemma has_Kills:
  "wf_defs vars \<Longrightarrow> has (apply_transfers (map Kill xs) vars) v d \<longleftrightarrow> v \<notin> set xs \<and> has vars v d"
  unfolding apply_transfers_def
  by (induction xs arbitrary: vars) (auto simp: has_Kill wf_apply_transfer simp del: apply_transfer.simps)

lemma has_Gens:
  "has (apply_transfers (map (\<lambda>(g, x). Gen g x) gs) vars) v d \<longleftrightarrow> (d, v) \<in> set gs \<or> has vars v d"
proof (induction gs arbitrary: vars)
  case (Cons gx gs)
  obtain g x where gx: "gx = (g, x)" by fastforce
  have "has (apply_transfers (map (\<lambda>(g, x). Gen g x) (gx # gs)) vars) v d \<longleftrightarrow>
      (d, v) \<in> set gs \<or> has (apply_transfer (Gen g x) vars) v d"
    using Cons.IH by (simp add: gx apply_transfers_def del: apply_transfer.simps)
  then show ?case unfolding has_Gen by (simp add: gx) blast
qed (simp add: apply_transfers_def)

lemma apply_transfers_append: "apply_transfers (ts @ us) vars = apply_transfers us (apply_transfers ts vars)"
  by (simp add: apply_transfers_def)

lemma set_var_eq:
  "set_var b i vs = map Kill (rev vs) @
     map (\<lambda>(g, x). Gen g x) (map (\<lambda>(a, v). (\<lparr>def_block_no = b, def_instr_no = i, def_assignment_no = a\<rparr>, v)) (enumerate 0 vs))"
  by (induction vs rule: rev_induct) (simp_all add: set_var_def enumerate_append_eq)

lemma set_enumerate: "set (enumerate 0 xs) = (\<lambda>a. (a, xs ! a)) ` {..< length xs}"
  by (auto simp: in_set_enumerate_eq image_iff)

lemma has_set_var:
  assumes "wf_defs vars"
  shows "has (apply_transfers (set_var b i vs) vars) v d \<longleftrightarrow>
    (\<exists>a < length vs. vs ! a = v \<and> d = \<lparr>def_block_no = b, def_instr_no = i, def_assignment_no = a\<rparr>) \<or>
    v \<notin> set vs \<and> has vars v d"
proof -
  let ?gs = "map (\<lambda>(a, v). (\<lparr>def_block_no = b, def_instr_no = i, def_assignment_no = a\<rparr>, v)) (enumerate 0 vs)"
  have "(d, v) \<in> set ?gs \<longleftrightarrow>
      (\<exists>a < length vs. vs ! a = v \<and> d = \<lparr>def_block_no = b, def_instr_no = i, def_assignment_no = a\<rparr>)"
    unfolding set_map set_enumerate image_image by auto
  then show ?thesis using assms
    unfolding set_var_eq apply_transfers_append has_Gens by (simp only: has_Kills set_rev)
qed

section \<open>What merging does\<close>

lemma merge_entry_keys:
  "fst ` set (fst (merge_entry defs entry c)) = fst ` set defs \<union> fst ` set entry"
proof (induction defs arbitrary: entry c)
  case (Cons dm defs)
  obtain d m where dm: "dm = (d, m)" by fastforce
  show ?case
  proof (cases "map_of entry d")
    case None
    then show ?thesis by (simp add: dm Cons.IH dom_update)
  next
    case (Some e)
    then have "d \<in> fst ` set entry" by (force dest: map_of_SomeD)
    then have "insert d (fst ` set defs \<union> fst ` set entry) = fst ` set defs \<union> fst ` set entry" by blast
    then show ?thesis using Some by (simp add: dm Cons.IH dom_update)
  qed
qed simp

lemma merge_entry_changed: "merge_entry defs entry True = (entry', c) \<Longrightarrow> c"
  by (induction defs entry True rule: merge_entry.induct) (auto split: option.splits if_splits)

lemma merge_entry_unchanged:
  "merge_entry defs entry c = (entry', False) \<Longrightarrow> entry' = entry \<and> \<not> c"
  by (induction defs entry c rule: merge_entry.induct)
     (auto split: option.splits if_splits dest: merge_entry_changed)

lemma wf_merge_entry: "wf_index_map entry \<Longrightarrow> wf_index_map (fst (merge_entry defs entry c))"
  by (induction defs entry c rule: merge_entry.induct)
     (auto simp: imap.valid_insert split: option.splits)

lemma loop_check_unchanged: "loop_check edge v defs lrv c = (lrv', False) \<Longrightarrow> lrv' = lrv \<and> \<not> c"
  by (auto simp: loop_check_def split: if_splits)

text \<open>One variable of the merge.\<close>

definition merge_var :: "nat \<Rightarrow> nat \<times> Defs \<Rightarrow> BasicBlock \<Rightarrow> bool \<Rightarrow> BasicBlock \<times> bool" where
  "merge_var edge x block changed = merge_vars edge [x] block changed"

lemma merge_vars_Cons:
  "merge_vars edge (x # vars) block c =
     (let (block, c) = merge_var edge x block c in merge_vars edge vars block c)"
  by (cases x) (simp add: merge_var_def case_prod_beta Let_def)

lemma merge_var_effect:
  assumes "merge_var edge (x, ds) block c = (block', c')"
  shows "has (b_defs block') v d \<longleftrightarrow> (v = x \<and> d \<in> fst ` set ds) \<or> has (b_defs block) v d"
    "b_instr block' = b_instr block" "b_transfers block' = b_transfers block"
    "wf_defs (b_defs block) \<Longrightarrow> wf_index_map ds \<Longrightarrow> wf_defs (b_defs block')"
    "\<not> c' \<Longrightarrow> block' = block \<and> \<not> c"
proof -
  obtain entry c1 where e: "(case map_of (b_defs block) x of
      Some entry \<Rightarrow> merge_entry ds entry c | None \<Rightarrow> (ds, True)) = (entry, c1)" by fastforce
  obtain lrv c2 where l: "loop_check edge x ds (b_loop_reaching_variables block) c1 = (lrv, c2)" by fastforce
  have b: "block' = block\<lparr>b_defs := AList.update x entry (b_defs block), b_loop_reaching_variables := lrv\<rparr>"
    and c': "c' = c2"
    using assms by (auto simp: merge_var_def e l)
  show "b_instr block' = b_instr block" "b_transfers block' = b_transfers block"
    by (simp_all add: b)
  have "wf_index_map entry" if "wf_defs (b_defs block)" "wf_index_map ds"
  proof (cases "map_of (b_defs block) x")
    case None
    then show ?thesis using e that by simp
  next
    case (Some old)
    then show ?thesis using e that wf_merge_entry [OF wf_defs_lookup [OF that(1) Some], of ds c] by simp
  qed
  then show "wf_defs (b_defs block) \<Longrightarrow> wf_index_map ds \<Longrightarrow> wf_defs (b_defs block')"
    by (simp add: b wf_defs_update)
  have "fst ` set entry = fst ` set ds \<union> {d. has (b_defs block) x d}"
  proof (cases "map_of (b_defs block) x")
    case None
    then show ?thesis using e by (simp add: has_def)
  next
    case (Some old)
    then show ?thesis using e merge_entry_keys [of ds old c] by (auto simp: has_def)
  qed
  then show "has (b_defs block') v d \<longleftrightarrow> (v = x \<and> d \<in> fst ` set ds) \<or> has (b_defs block) v d"
    by (simp add: b has_update)
  assume "\<not> c'"
  then have c1: "lrv = b_loop_reaching_variables block" "\<not> c1"
    using loop_check_unchanged [of edge x ds "b_loop_reaching_variables block" c1 lrv] l c' by auto
  then obtain old where old: "map_of (b_defs block) x = Some old" "entry = old" "\<not> c"
    using e merge_entry_unchanged by (cases "map_of (b_defs block) x") auto
  then show "block' = block \<and> \<not> c" using c1 by (simp add: b update_triv)
qed

lemma has_Cons:
  assumes "wf_index_map ((x, ds) # vars)"
  shows "has ((x, ds) # vars) v d \<longleftrightarrow> v = x \<and> d \<in> fst ` set ds \<or> has vars v d"
proof -
  have "map_of vars x = None" using assms by (simp add: wf_index_map_def map_of_eq_None_iff)
  then show ?thesis by (auto simp: has_def)
qed

lemma merge_vars_effect:
  assumes "merge_vars edge vars block c = (block', c')" and "wf_defs vars"
  shows "(\<forall>v d. has (b_defs block') v d \<longleftrightarrow> has vars v d \<or> has (b_defs block) v d) \<and>
    b_instr block' = b_instr block \<and> b_transfers block' = b_transfers block \<and>
    (wf_defs (b_defs block) \<longrightarrow> wf_defs (b_defs block')) \<and>
    (\<not> c' \<longrightarrow> block' = block \<and> \<not> c)"
  using assms
proof (induction vars arbitrary: block c)
  case (Cons xd vars)
  obtain x ds where xd: "xd = (x, ds)" by fastforce
  obtain mid c1 where m: "merge_var edge (x, ds) block c = (mid, c1)" by fastforce
  have r: "merge_vars edge vars mid c1 = (block', c')"
    using Cons.prems(1) by (simp add: merge_vars_Cons xd m)
  have im: "wf_index_map ((x, ds) # vars)" using Cons.prems(2) by (simp add: wf_defs_def xd)
  have ds: "wf_index_map ds" using wf_defs_lookup [OF Cons.prems(2), of x ds] by (simp add: xd)
  have "map_of vars x = None" using im by (simp add: wf_index_map_def map_of_eq_None_iff)
  then have wf: "wf_defs vars" using Cons.prems(2) im
    by (auto simp: wf_defs_def xd wf_index_map_def split: if_splits)
  note eff = merge_var_effect [OF m] and IH = Cons.IH [OF r wf]
  have "has (b_defs block') v d \<longleftrightarrow> has (xd # vars) v d \<or> has (b_defs block) v d" for v d
  proof -
    have "has (b_defs block') v d \<longleftrightarrow> has vars v d \<or> has (b_defs mid) v d" using IH by simp
    then show ?thesis unfolding eff(1) [of v d] xd has_Cons [OF im] by blast
  qed
  then show ?case using IH eff(2-5) ds by simp
qed simp

section \<open>The invariant of the worklist\<close>

definition le_defs :: "VarDefs \<Rightarrow> VarDefs \<Rightarrow> bool" where
  "le_defs a b \<longleftrightarrow> (\<forall>v d. has a v d \<longrightarrow> has b v d)"

lemma index_map_eq_keys:
  assumes "index_map_eq eq a b" "wf_index_map a" "wf_index_map b"
  shows "fst ` set a = fst ` set b"
proof (rule card_subset_eq)
  show "fst ` set a \<subseteq> fst ` set b" using assms(1)
    by (force simp: index_map_eq_def split: option.splits dest: map_of_SomeD)
  show "card (fst ` set a) = card (fst ` set b)"
    using assms by (metis index_map_eq_def wf_index_map_def distinct_card length_map set_map)
qed simp

lemma var_defs_eq_le:
  assumes "var_defs_eq a b" "wf_defs a" "wf_defs b"
  shows "le_defs b a"
  unfolding le_defs_def
proof (intro allI impI)
  fix v d assume "has b v d"
  then obtain ds where ds: "map_of b v = Some ds" "d \<in> fst ` set ds" by (auto simp: has_def)
  have "fst ` set a = fst ` set b"
    using index_map_eq_keys [OF assms(1) [unfolded var_defs_eq_def]] assms(2,3) by (simp add: wf_defs_index_map)
  with ds(1) have "v \<in> fst ` set a" by (force dest: map_of_SomeD)
  then obtain es where es: "map_of a v = Some es" by (metis map_of_eq_None_iff not_Some_eq)
  then have "index_map_eq (=) es ds"
    using assms(1) ds(1) by (force simp: var_defs_eq_def index_map_eq_def dest: map_of_SomeD)
  then have "fst ` set es = fst ` set ds"
    using index_map_eq_keys wf_defs_lookup [OF assms(2) es] wf_defs_lookup [OF assms(3) ds(1)] by blast
  then show "has a v d" using es ds(2) by (simp add: has_def)
qed

lemma le_defs_refl [simp]: "le_defs a a"
  by (simp add: le_defs_def)

lemma le_defs_trans: "le_defs a b \<Longrightarrow> le_defs b c \<Longrightarrow> le_defs a c"
  by (simp add: le_defs_def)

text \<open>
  One round over the successors: blocks keep their code, definitions only grow, every successor
  receives the definitions, and a block whose definitions change is put on the worklist.
\<close>

definition grows :: "BasicBlock list \<times> nat set \<Rightarrow> BasicBlock list \<times> nat set \<Rightarrow> bool" where
  "grows = (\<lambda>(blocks, todo) (blocks', todo').
     length blocks' = length blocks \<and> todo \<subseteq> todo' \<and>
     (\<forall>i < length blocks. b_instr (blocks' ! i) = b_instr (blocks ! i) \<and>
        b_transfers (blocks' ! i) = b_transfers (blocks ! i) \<and>
        le_defs (b_defs (blocks ! i)) (b_defs (blocks' ! i)) \<and>
        (wf_defs (b_defs (blocks ! i)) \<longrightarrow> wf_defs (b_defs (blocks' ! i))) \<and>
        (i \<in> todo' \<or> b_defs (blocks' ! i) = b_defs (blocks ! i))))"

lemma grows_refl: "grows st st"
  by (auto simp: grows_def)

lemma grows_trans: "grows a b \<Longrightarrow> grows b c \<Longrightarrow> grows a c"
  by (auto simp: grows_def le_defs_def split: prod.splits) (metis subsetD)+

lemma grows_wf:
  "grows (blocks, todo) (blocks', todo') \<Longrightarrow> \<forall>b \<in> set blocks. wf_defs (b_defs b) \<Longrightarrow>
   \<forall>b \<in> set blocks'. wf_defs (b_defs b)"
  by (simp add: grows_def all_set_conv_all_nth)

lemma merge_edge_grows:
  assumes "edge < length blocks" "wf_defs vars" "wf_defs (b_defs (blocks ! edge))"
    and "merge_vars edge vars (blocks ! edge) False = (block, changed)"
  shows "grows (blocks, todo) (blocks[edge := block], if changed then insert edge todo else todo)"
    and "le_defs vars (b_defs block)"
  using merge_vars_effect [OF assms(4,2)] assms(1)
  by (auto simp: grows_def le_defs_def nth_list_update)

lemma merge_edges_grows:
  assumes "merge_edges vars edges blocks todo = Some (blocks', todo')" "wf_defs vars"
    and "\<forall>b \<in> set blocks. wf_defs (b_defs b)"
  shows "grows (blocks, todo) (blocks', todo') \<and>
    (\<forall>e \<in> set edges. e < length blocks \<and> le_defs vars (b_defs (blocks' ! e)))"
  using assms
proof (induction edges arbitrary: blocks todo)
  case Nil
  then show ?case by (simp add: grows_refl)
next
  case (Cons e edges)
  then have e: "e < length blocks" by (cases "e < length blocks") (simp_all add: vec_get_def)
  have wfe: "wf_defs (b_defs (blocks ! e))" using Cons.prems(3) e by simp
  show ?case
  proof (cases "var_defs_eq (b_defs (blocks ! e)) vars")
    case True
    then have "merge_edges vars edges blocks todo = Some (blocks', todo')"
      using Cons.prems(1) e by (simp add: vec_get_def)
    note IH = Cons.IH [OF this Cons.prems(2,3)]
    have "le_defs vars (b_defs (blocks ! e))" using var_defs_eq_le [OF True wfe Cons.prems(2)] .
    moreover have "le_defs (b_defs (blocks ! e)) (b_defs (blocks' ! e))"
      using IH e by (simp add: grows_def)
    ultimately show ?thesis using IH e le_defs_trans by auto
  next
    case False
    obtain block changed where m: "merge_vars e vars (blocks ! e) False = (block, changed)" by fastforce
    let ?todo = "if changed then insert e todo else todo"
    have rest: "merge_edges vars edges (blocks[e := block]) ?todo = Some (blocks', todo')"
      using Cons.prems(1) e False m by (simp add: vec_get_def)
    note g = merge_edge_grows(1) [OF e Cons.prems(2) wfe m, of todo]
      merge_edge_grows(2) [OF e Cons.prems(2) wfe m]
    have "\<forall>b \<in> set (blocks[e := block]). wf_defs (b_defs b)"
      using grows_wf [OF g(1)] Cons.prems(3) by blast
    note IH = Cons.IH [OF rest Cons.prems(2) this]
    have "le_defs (b_defs block) (b_defs (blocks' ! e))" using IH e by (auto simp: grows_def)
    with g(2) have "le_defs vars (b_defs (blocks' ! e))" by (rule le_defs_trans)
    then show ?thesis using IH e grows_trans [OF g(1)] by auto
  qed
qed

definition edges_ok :: "BasicBlock list \<Rightarrow> nat \<Rightarrow> bool" where
  "edges_ok blocks b \<longleftrightarrow> (\<exists>es. successors (blocks ! b) = Some es \<and>
     (\<forall>e \<in> set es. e < length blocks \<and> le_defs (block_out (blocks ! b)) (b_defs (blocks ! e))))"

text \<open>
  The invariant: the definitions at the end of a block have reached its successors, except for
  the blocks on the worklist and those, other than the entry, that no definition has reached.
\<close>

definition worklist_inv :: "BasicBlock list \<times> nat set \<Rightarrow> bool" where
  "worklist_inv = (\<lambda>(blocks, todo). \<forall>b < length blocks. wf_defs (b_defs (blocks ! b)) \<and>
     (b \<in> todo \<or> b \<noteq> 0 \<and> b_defs (blocks ! b) = [] \<or> edges_ok blocks b))"

lemma wf_fold_transfers: "wf_defs vars \<Longrightarrow> wf_defs (fold apply_transfers tss vars)"
  by (induction tss arbitrary: vars) (auto simp: wf_apply_transfers)

lemma wf_block_out: "wf_defs (b_defs b) \<Longrightarrow> wf_defs (block_out b)"
  by (simp add: block_out_def wf_fold_transfers)

lemma successors_cong: "b_instr a = b_instr b \<Longrightarrow> successors a = successors b"
  by (simp add: successors_def)

lemma block_out_cong: "b_transfers a = b_transfers b \<Longrightarrow> b_defs a = b_defs b \<Longrightarrow> block_out a = block_out b"
  by (simp add: block_out_def)

lemma find_block_inv:
  assumes "find_block b (blocks, todo) = Some (blocks', todo')" and inv: "worklist_inv (blocks, todo)"
  shows "worklist_inv (blocks', todo') \<and> length blocks' = length blocks \<and>
    (\<forall>i < length blocks. b_instr (blocks' ! i) = b_instr (blocks ! i) \<and>
      b_transfers (blocks' ! i) = b_transfers (blocks ! i))"
proof -
  from assms(1) have b: "b < length blocks"
    by (cases "b < length blocks") (simp_all add: find_block_def vec_get_def)
  from assms(1) b obtain es where es: "successors (blocks ! b) = Some es"
    by (cases "successors (blocks ! b)") (simp_all add: find_block_def vec_get_def)
  have me: "merge_edges (block_out (blocks ! b)) es blocks (todo - {b}) = Some (blocks', todo')"
    using assms(1) b es by (simp add: find_block_def vec_get_def)
  have wf: "\<forall>x \<in> set blocks. wf_defs (b_defs x)" using inv by (auto simp: worklist_inv_def in_set_conv_nth)
  then have "wf_defs (block_out (blocks ! b))" using b by (simp add: wf_block_out)
  from merge_edges_grows [OF me this wf]
  have g: "grows (blocks, todo - {b}) (blocks', todo')"
    and reach: "\<forall>e \<in> set es. e < length blocks \<and> le_defs (block_out (blocks ! b)) (b_defs (blocks' ! e))"
    by auto
  have ok: "edges_ok blocks' i" if i: "i < length blocks" "i \<notin> todo'"
    and old: "\<And>fs. successors (blocks ! i) = Some fs \<Longrightarrow> \<forall>e \<in> set fs. e < length blocks \<and>
      le_defs (block_out (blocks ! i)) (b_defs (blocks' ! e))" "successors (blocks ! i) \<noteq> None" for i
  proof -
    have "successors (blocks' ! i) = successors (blocks ! i)" "block_out (blocks' ! i) = block_out (blocks ! i)"
      using g i by (auto simp: grows_def intro: successors_cong block_out_cong)
    then show ?thesis using old g by (auto simp: edges_ok_def grows_def)
  qed
  have "wf_defs (b_defs (blocks' ! i)) \<and>
      (i \<in> todo' \<or> i \<noteq> 0 \<and> b_defs (blocks' ! i) = [] \<or> edges_ok blocks' i)" if i: "i < length blocks" for i
  proof (cases "i \<in> todo'")
    case True
    then show ?thesis using g i wf by (auto simp: grows_def)
  next
    case False
    have same: "b_defs (blocks' ! i) = b_defs (blocks ! i)" "wf_defs (b_defs (blocks' ! i))"
      using g i False wf by (auto simp: grows_def)
    show ?thesis
    proof (cases "i = b")
      case True
      then show ?thesis using ok [OF i False] es reach same by auto
    next
      case neq: False
      then have "i \<notin> todo" using g False by (auto simp: grows_def)
      then have "i \<noteq> 0 \<and> b_defs (blocks ! i) = [] \<or> edges_ok blocks i" using inv i by (auto simp: worklist_inv_def)
      then show ?thesis
      proof
        assume "edges_ok blocks i"
        then obtain fs where fs: "successors (blocks ! i) = Some fs"
          "\<forall>e \<in> set fs. e < length blocks \<and> le_defs (block_out (blocks ! i)) (b_defs (blocks ! e))"
          by (auto simp: edges_ok_def)
        then have "\<forall>e \<in> set fs. e < length blocks \<and> le_defs (block_out (blocks ! i)) (b_defs (blocks' ! e))"
          using g by (auto simp: grows_def intro: le_defs_trans)
        then show ?thesis using ok [OF i False] fs(1) same by simp
      qed (use same in simp)
    qed
  qed
  then show ?thesis using g by (auto simp: worklist_inv_def grows_def)
qed

end
