(* ===== verification/Symtable.thy ===== *)
theory Symtable
  imports Types
begin

text \<open>
  The symbol table of a function (\<open>src/sema/symtable.rs\<close>) with the stack of active scopes
  of the expression context (\<open>src/sema/expression/mod.rs\<close>) and the loop scopes: declaring
  a variable, looking a name up from the innermost scope outwards, entering and leaving scopes,
  \<open>break\<close> and \<open>continue\<close>. The context is the pair of stacks; the names of a scope are
  a map, the variables of the function an ordered map from their number.
\<close>

section \<open>Data\<close>

datatype VariableUsage = Parameter | ReturnVariable | AnonymousReturnVariable | LocalVariable
  | DestructureVariable | TryCatchReturns | TryCatchErrorString | TryCatchErrorBytes | YulLocalVariable

datatype StorageLocation = Memory Loc | Storage Loc | Calldata Loc

text \<open>Of the initializer only its outermost constructor matters.\<close>

datatype InitExpr = InitAllocDynamicBytes | InitArrayLiteral | InitConstructor | InitStructLiteral | InitOther

datatype VariableInitializer = Solidity "InitExpr option" | Yul bool

record SymVariable =
  sv_id :: Identifier
  sv_ty :: Type
  sv_pos :: nat
  sv_slice :: bool
  sv_assigned :: bool
  sv_read :: bool
  sv_usage_type :: VariableUsage
  sv_initializer :: VariableInitializer
  sv_storage_location :: "StorageLocation option"

record VarScope =
  vs_loc :: "Loc option"
  vs_names :: "string \<rightharpoonup> nat"

record Symtable =
  st_vars :: "(nat, SymVariable) index_map"
  st_arguments :: "nat option list"
  st_returns :: "nat list"
  st_scopes :: "VarScope list"

record LoopScope =
  no_breaks :: nat
  no_continues :: nat

record ExprContext =
  ctx_loops :: "LoopScope list"
  ctx_active_scopes :: "VarScope list"

definition has_initializer :: "VariableInitializer \<Rightarrow> bool" where
  "has_initializer i = (case i of Solidity e \<Rightarrow> e \<noteq> None | Yul b \<Rightarrow> b)"

definition is_reference :: "Namespace \<Rightarrow> SymVariable \<Rightarrow> bool option" where
  "is_reference ns var =
     (if (case sv_storage_location var of Some (Calldata _) \<Rightarrow> False | _ \<Rightarrow> True) then do {
        ref \<leftarrow> is_reference_type ns (sv_ty var);
        Some (ref \<and> (case sv_initializer var of Solidity (Some e) \<Rightarrow> e = InitOther | _ \<Rightarrow> False)) }
      else Some False)"

section \<open>Names\<close>

text \<open>The scopes are a stack with its top at the end of the list.\<close>

fun find_name :: "VarScope list \<Rightarrow> string \<Rightarrow> nat option" where
  "find_name [] name = None"
| "find_name (scope # outer) name = (case vs_names scope name of Some n \<Rightarrow> Some n | None \<Rightarrow> find_name outer name)"

definition find_var :: "Symtable \<Rightarrow> ExprContext \<Rightarrow> string \<Rightarrow> SymVariable option" where
  "find_var st cx name = (case find_name (rev (ctx_active_scopes cx)) name of
       Some n \<Rightarrow> map_of (st_vars st) n
     | None \<Rightarrow> None)"

definition enter_scope :: "ExprContext \<Rightarrow> ExprContext" where
  "enter_scope cx = cx\<lparr>ctx_active_scopes := ctx_active_scopes cx @ [\<lparr>vs_loc = None, vs_names = Map.empty\<rparr>]\<rparr>"

definition leave_scope :: "Symtable \<Rightarrow> Loc \<Rightarrow> ExprContext \<Rightarrow> ExprContext \<times> Symtable" where
  "leave_scope st loc cx =
     (if ctx_active_scopes cx = [] then (cx, st)
      else (cx\<lparr>ctx_active_scopes := butlast (ctx_active_scopes cx)\<rparr>,
            st\<lparr>st_scopes := st_scopes st @ [(last (ctx_active_scopes cx))\<lparr>vs_loc := Some loc\<rparr>]\<rparr>))"

text \<open>
  Declaring a variable. The table, the namespace (its next number and its diagnostics) and the
  context change; the result is the number of the variable, or nothing when the name is taken.
  The variable stays in the table in that case. Without an active scope the code panics.
\<close>

definition add_variable ::
  "Identifier \<Rightarrow> Type \<Rightarrow> VariableInitializer \<Rightarrow> VariableUsage \<Rightarrow> StorageLocation option \<Rightarrow>
   Symtable \<times> Namespace \<times> ExprContext \<Rightarrow> (nat option \<times> Symtable \<times> Namespace \<times> ExprContext) option" where
  "add_variable ident ty initializer usage_type storage_location = (\<lambda>(st, ns, cx).
     let pos = next_id ns;
         ns = ns\<lparr>next_id := next_id ns + 1\<rparr>;
         st = st\<lparr>st_vars := AList.update pos
           \<lparr>sv_id = ident, sv_ty = ty, sv_pos = pos, sv_slice = False, sv_assigned = False, sv_read = False,
            sv_usage_type = usage_type, sv_initializer = initializer,
            sv_storage_location = storage_location\<rparr> (st_vars st)\<rparr>
     in if id_name ident = [] then Some (Some pos, st, ns, cx)
        else case find_var st cx (id_name ident) of
          Some prev \<Rightarrow> Some (None, st, push_ns ns
            \<lparr>d_loc = id_loc ident, d_level = Error, d_ty = NoType,
             d_message = id_name ident @ '' is already declared'',
             d_notes = [\<lparr>n_loc = id_loc (sv_id prev), n_message = ''location of previous declaration''\<rparr>]\<rparr>, cx)
        | None \<Rightarrow>
            if ctx_active_scopes cx = [] then None
            else let scopes = ctx_active_scopes cx;
                     inner = last scopes
                 in Some (Some pos, st, ns, cx\<lparr>ctx_active_scopes :=
                      butlast scopes @ [inner\<lparr>vs_names := (vs_names inner)(id_name ident \<mapsto> pos)\<rparr>]\<rparr>))"

definition exclusive_add ::
  "Identifier \<Rightarrow> Type \<Rightarrow> VariableInitializer \<Rightarrow> VariableUsage \<Rightarrow> StorageLocation option \<Rightarrow>
   Symtable \<times> Namespace \<times> ExprContext \<Rightarrow> (nat option \<times> Symtable \<times> Namespace \<times> ExprContext) option" where
  "exclusive_add ident ty initializer usage_type storage_location = (\<lambda>(st, ns, cx).
     case find_var st cx (id_name ident) of
       Some var \<Rightarrow> Some (None, st, push_ns ns
         \<lparr>d_loc = id_loc ident, d_level = Error, d_ty = DeclarationError,
          d_message = ''variable name '' @ [CHR 0x27] @ id_name ident @ [CHR 0x27] @ '' already used in this scope'',
          d_notes = [\<lparr>n_loc = id_loc (sv_id var), n_message = ''found previous declaration here''\<rparr>]\<rparr>, cx)
     | None \<Rightarrow> add_variable ident ty initializer usage_type storage_location (st, ns, cx))"

definition get_name :: "Symtable \<Rightarrow> nat \<Rightarrow> string option" where
  "get_name st pos = map_option (\<lambda>v. id_name (sv_id v)) (map_of (st_vars st) pos)"

section \<open>Loops\<close>

definition enter_loop :: "ExprContext \<Rightarrow> ExprContext" where
  "enter_loop cx = cx\<lparr>ctx_loops := ctx_loops cx @ [\<lparr>no_breaks = 0, no_continues = 0\<rparr>]\<rparr>"

definition leave_loop :: "ExprContext \<Rightarrow> (LoopScope \<times> ExprContext) option" where
  "leave_loop cx = (if ctx_loops cx = [] then None
     else Some (last (ctx_loops cx), cx\<lparr>ctx_loops := butlast (ctx_loops cx)\<rparr>))"

definition do_break :: "ExprContext \<Rightarrow> bool \<times> ExprContext" where
  "do_break cx = (if ctx_loops cx = [] then (False, cx)
     else (True, cx\<lparr>ctx_loops := butlast (ctx_loops cx) @
            [(last (ctx_loops cx))\<lparr>no_breaks := no_breaks (last (ctx_loops cx)) + 1\<rparr>]\<rparr>))"

definition in_a_loop :: "ExprContext \<Rightarrow> bool" where
  "in_a_loop cx = (ctx_loops cx \<noteq> [])"

definition do_continue :: "ExprContext \<Rightarrow> bool \<times> ExprContext" where
  "do_continue cx = (if ctx_loops cx = [] then (False, cx)
     else (True, cx\<lparr>ctx_loops := butlast (ctx_loops cx) @
            [(last (ctx_loops cx))\<lparr>no_continues := no_continues (last (ctx_loops cx)) + 1\<rparr>]\<rparr>))"

section \<open>Invariant\<close>

type_synonym sym_state = "Symtable \<times> Namespace \<times> ExprContext"

text \<open>
  Every variable has its number as key, below the next number; every name of an active scope is
  that of its variable; no two active scopes have a name in common.
\<close>

definition wf_vars :: "Symtable \<Rightarrow> Namespace \<Rightarrow> bool" where
  "wf_vars st ns \<longleftrightarrow> wf_index_map (st_vars st) \<and>
     (\<forall>n v. map_of (st_vars st) n = Some v \<longrightarrow> n < next_id ns \<and> sv_pos v = n)"

definition wf_scope :: "Symtable \<Rightarrow> VarScope \<Rightarrow> bool" where
  "wf_scope st scope \<longleftrightarrow> (\<forall>name n. vs_names scope name = Some n \<longrightarrow>
     (\<exists>v. map_of (st_vars st) n = Some v \<and> id_name (sv_id v) = name))"

fun disjoint_scopes :: "VarScope list \<Rightarrow> bool" where
  "disjoint_scopes [] \<longleftrightarrow> True"
| "disjoint_scopes (s # ss) \<longleftrightarrow> (\<forall>t \<in> set ss. dom (vs_names s) \<inter> dom (vs_names t) = {}) \<and> disjoint_scopes ss"

definition wf_sym :: "sym_state \<Rightarrow> bool" where
  "wf_sym = (\<lambda>(st, ns, cx). wf_vars st ns \<and> (\<forall>s \<in> set (ctx_active_scopes cx). wf_scope st s) \<and>
     disjoint_scopes (ctx_active_scopes cx))"

lemma disjoint_scopes_append:
  "disjoint_scopes (ss @ ts) \<longleftrightarrow> disjoint_scopes ss \<and> disjoint_scopes ts \<and>
     (\<forall>s \<in> set ss. \<forall>t \<in> set ts. dom (vs_names s) \<inter> dom (vs_names t) = {})"
  by (induction ss) (simp, simp add: ball_Un, blast)

lemma find_name_None: "find_name ss name = None \<longleftrightarrow> (\<forall>s \<in> set ss. vs_names s name = None)"
  by (induction ss) (auto split: option.splits)

lemma find_name_Some: "find_name ss name = Some n \<Longrightarrow> \<exists>s \<in> set ss. vs_names s name = Some n"
  by (induction ss) (auto split: option.splits)

text \<open>A name of an active scope is found, with the variable it was declared for.\<close>

lemma find_var_wf:
  assumes "wf_sym (st, ns, cx)"
  shows "find_var st cx name = None \<longleftrightarrow> (\<forall>s \<in> set (ctx_active_scopes cx). vs_names s name = None)"
    and "find_var st cx name = Some v \<Longrightarrow> id_name (sv_id v) = name \<and> map_of (st_vars st) (sv_pos v) = Some v"
proof -
  have n: "\<exists>v. map_of (st_vars st) n = Some v \<and> id_name (sv_id v) = name"
    if "find_name (rev (ctx_active_scopes cx)) name = Some n" for n
    using find_name_Some [OF that] assms by (auto simp: wf_sym_def wf_scope_def)
  show "find_var st cx name = None \<longleftrightarrow> (\<forall>s \<in> set (ctx_active_scopes cx). vs_names s name = None)"
    using n find_name_None [of "rev (ctx_active_scopes cx)" name]
    by (cases "find_name (rev (ctx_active_scopes cx)) name") (auto simp: find_var_def)
  show "id_name (sv_id v) = name \<and> map_of (st_vars st) (sv_pos v) = Some v" if "find_var st cx name = Some v"
    using that n assms by (auto simp: find_var_def wf_sym_def wf_vars_def split: option.splits)
qed

section \<open>Declaring\<close>

definition new_variable ::
  "Identifier \<Rightarrow> Type \<Rightarrow> VariableInitializer \<Rightarrow> VariableUsage \<Rightarrow> StorageLocation option \<Rightarrow> nat \<Rightarrow> SymVariable" where
  "new_variable ident ty initializer usage_type storage_location pos =
     \<lparr>sv_id = ident, sv_ty = ty, sv_pos = pos, sv_slice = False, sv_assigned = False, sv_read = False,
      sv_usage_type = usage_type, sv_initializer = initializer, sv_storage_location = storage_location\<rparr>"

text \<open>A variable with a fresh number changes no lookup.\<close>

lemma insert_fresh:
  assumes "wf_sym (st, ns, cx)" and "sv_pos v = next_id ns"
  defines "st' \<equiv> st\<lparr>st_vars := AList.update (next_id ns) v (st_vars st)\<rparr>"
    and "ns' \<equiv> ns\<lparr>next_id := next_id ns + 1\<rparr>"
  shows "wf_sym (st', ns', cx)" "find_var st' cx name = find_var st cx name"
    "map_of (st_vars st') = (map_of (st_vars st))(next_id ns \<mapsto> v)"
proof -
  have fresh: "map_of (st_vars st) (next_id ns) = None"
    using assms(1) by (cases "map_of (st_vars st) (next_id ns)") (auto simp: wf_sym_def wf_vars_def)
  show upd: "map_of (st_vars st') = (map_of (st_vars st))(next_id ns \<mapsto> v)"
    by (simp add: st'_def update_conv')
  have "wf_scope st' s" if "wf_scope st s" for s
    using that fresh unfolding wf_scope_def upd by (metis fun_upd_other option.distinct(1))
  moreover have "wf_vars st' ns'" using assms(1,2)
    by (auto simp: wf_sym_def wf_vars_def upd st'_def ns'_def index_map_simps update_conv' less_Suc_eq)
  ultimately show "wf_sym (st', ns', cx)" using assms(1) by (auto simp: wf_sym_def)
  show "find_var st' cx name = find_var st cx name"
  proof (cases "find_name (rev (ctx_active_scopes cx)) name")
    case (Some n)
    then have "n \<noteq> next_id ns"
      using find_name_Some [OF Some] assms(1) fresh by (fastforce simp: wf_sym_def wf_scope_def)
    then show ?thesis using Some by (simp add: find_var_def upd)
  qed (simp add: find_var_def)
qed

text \<open>Binding a free name in the innermost scope.\<close>

lemma bind_name:
  assumes wf: "wf_sym (st, ns, cx)" and scopes: "ctx_active_scopes cx = outer @ [inner]"
    and free: "find_var st cx name = None"
    and v: "map_of (st_vars st) pos = Some v" "id_name (sv_id v) = name"
  defines "cx' \<equiv> cx\<lparr>ctx_active_scopes := outer @ [inner\<lparr>vs_names := (vs_names inner)(name \<mapsto> pos)\<rparr>]\<rparr>"
  shows "wf_sym (st, ns, cx')" "find_var st cx' x = (if x = name then Some v else find_var st cx x)"
proof -
  have none: "\<forall>s \<in> set outer. vs_names s name = None" "vs_names inner name = None"
    using free find_var_wf(1) [OF wf] scopes by auto
  let ?inner = "inner\<lparr>vs_names := (vs_names inner)(name \<mapsto> pos)\<rparr>"
  have "wf_scope st inner" using wf scopes by (simp add: wf_sym_def)
  then have "wf_scope st ?inner" using v by (simp add: wf_scope_def)
  moreover have "dom (vs_names s) \<inter> dom (vs_names ?inner) = {}" if "s \<in> set outer" for s
    using wf scopes none(1) that by (auto simp: wf_sym_def disjoint_scopes_append)
  ultimately show "wf_sym (st, ns, cx')"
    using wf by (auto simp: wf_sym_def cx'_def scopes disjoint_scopes_append)
  show "find_var st cx' x = (if x = name then Some v else find_var st cx x)"
    using v(1) by (simp add: find_var_def cx'_def scopes)
qed

text \<open>The table and the namespace of a declaration that was made.\<close>

definition declared ::
  "Identifier \<Rightarrow> Type \<Rightarrow> VariableInitializer \<Rightarrow> VariableUsage \<Rightarrow> StorageLocation option \<Rightarrow> Namespace \<Rightarrow> Symtable \<Rightarrow> Symtable"
where
  "declared ident ty init usage sloc ns st = st\<lparr>st_vars :=
     AList.update (next_id ns) (new_variable ident ty init usage sloc (next_id ns)) (st_vars st)\<rparr>"

abbreviation numbered :: "Namespace \<Rightarrow> Namespace" where
  "numbered ns \<equiv> ns\<lparr>next_id := next_id ns + 1\<rparr>"

lemma insert_declared:
  assumes "wf_sym (st, ns, cx)"
  shows "wf_sym (declared ident ty init usage sloc ns st, numbered ns, cx)"
    "find_var (declared ident ty init usage sloc ns st) cx name = find_var st cx name"
    "map_of (st_vars (declared ident ty init usage sloc ns st)) =
       (map_of (st_vars st))(next_id ns \<mapsto> new_variable ident ty init usage sloc (next_id ns))"
  using insert_fresh [OF assms, of "new_variable ident ty init usage sloc (next_id ns)"]
  by (simp_all add: declared_def new_variable_def)

lemma add_variable_taken:
  assumes "wf_sym (st, ns, cx)" and "id_name ident \<noteq> []" and "find_var st cx (id_name ident) = Some prev"
  shows "\<exists>d. d_level d = Error \<and> add_variable ident ty init usage sloc (st, ns, cx) =
      Some (None, declared ident ty init usage sloc ns st, push_ns (numbered ns) d, cx)"
    and "wf_sym (declared ident ty init usage sloc ns st, push_ns (numbered ns) d, cx)"
proof -
  note ins = insert_declared [OF assms(1), of ident ty init usage sloc]
  show "\<exists>d. d_level d = Error \<and> add_variable ident ty init usage sloc (st, ns, cx) =
      Some (None, declared ident ty init usage sloc ns st, push_ns (numbered ns) d, cx)"
    using assms(2,3) ins(2)
    by (simp add: add_variable_def Let_def declared_def new_variable_def) (rule exI, rule conjI [OF _ refl], simp)
  show "wf_sym (declared ident ty init usage sloc ns st, push_ns (numbered ns) d, cx)"
    using ins(1) by (auto simp: wf_sym_def wf_vars_def push_ns_def)
qed

lemma add_variable_free:
  fixes ty init usage sloc
  assumes "wf_sym (st, ns, cx)" and "id_name ident \<noteq> []" and "find_var st cx (id_name ident) = None"
    and scopes: "ctx_active_scopes cx = outer @ [inner]"
  defines "cx' \<equiv> cx\<lparr>ctx_active_scopes := outer @ [inner\<lparr>vs_names := (vs_names inner)(id_name ident \<mapsto> next_id ns)\<rparr>]\<rparr>"
    and "st' \<equiv> declared ident ty init usage sloc ns st"
  shows "add_variable ident ty init usage sloc (st, ns, cx) = Some (Some (next_id ns), st', numbered ns, cx')"
    and "wf_sym (st', numbered ns, cx')"
    and "find_var st' cx' = (find_var st cx)(id_name ident \<mapsto> new_variable ident ty init usage sloc (next_id ns))"
proof -
  note ins = insert_declared [OF assms(1), of ident ty init usage sloc, folded st'_def]
  show "add_variable ident ty init usage sloc (st, ns, cx) = Some (Some (next_id ns), st', numbered ns, cx')"
    using assms(2,3) ins(2)
    by (simp add: add_variable_def Let_def scopes cx'_def st'_def declared_def new_variable_def)
  have v: "map_of (st_vars st') (next_id ns) = Some (new_variable ident ty init usage sloc (next_id ns))"
    by (simp add: ins(3))
  from bind_name [OF ins(1) scopes _ this, of "id_name ident"] assms(3) ins(2)
  show "wf_sym (st', numbered ns, cx')"
    "find_var st' cx' = (find_var st cx)(id_name ident \<mapsto> new_variable ident ty init usage sloc (next_id ns))"
    by (simp_all add: cx'_def new_variable_def fun_eq_iff)
qed

text \<open>
  C21: declaring a variable. In an active scope, a name that no active scope has is bound to a new
  variable with the next number: looking the name up gives that variable and every other lookup is
  as before. A name that is visible, in whatever scope, is refused with an error and no lookup
  changes, so a declaration never shadows another.
\<close>

theorem add_variable_declares:
  assumes "wf_sym (st, ns, cx)" and "ctx_active_scopes cx \<noteq> []" and "id_name ident \<noteq> []"
  shows "\<exists>r st' ns' cx'. add_variable ident ty init usage sloc (st, ns, cx) = Some (r, st', ns', cx') \<and>
    wf_sym (st', ns', cx') \<and> next_id ns' = next_id ns + 1 \<and>
    (case find_var st cx (id_name ident) of
       Some prev \<Rightarrow> r = None \<and> has_error (diagnostics ns') \<and> find_var st' cx' = find_var st cx
     | None \<Rightarrow> r = Some (next_id ns) \<and> diagnostics ns' = diagnostics ns \<and>
         find_var st' cx' = (find_var st cx)(id_name ident \<mapsto> new_variable ident ty init usage sloc (next_id ns)))"
proof (cases "find_var st cx (id_name ident)")
  case None
  obtain outer inner where scopes: "ctx_active_scopes cx = outer @ [inner]"
    using assms(2) by (cases "ctx_active_scopes cx" rule: rev_cases) auto
  from add_variable_free [OF assms(1,3) None scopes, of ty init usage sloc] None
  show ?thesis by simp
next
  case (Some prev)
  then obtain d where "d_level d = Error" "add_variable ident ty init usage sloc (st, ns, cx) =
      Some (None, declared ident ty init usage sloc ns st, push_ns (numbered ns) d, cx)"
    using add_variable_taken(1) [OF assms(1,3)] by blast
  then show ?thesis
    using Some add_variable_taken(2) [OF assms(1,3) Some] insert_declared(2) [OF assms(1)]
    by (simp add: fun_eq_iff) (simp add: push_ns_def)
qed

section \<open>Blocks\<close>

text \<open>
  What happens inside a block: declarations in any order and nested blocks. A failed declaration
  (\<open>None\<close>) is a step as well; it leaves an error.
\<close>

inductive block_steps :: "sym_state \<Rightarrow> sym_state \<Rightarrow> bool" where
  start: "block_steps s s"
| decl: "block_steps s s1 \<Longrightarrow> add_variable ident ty init usage sloc s1 = Some (r, s2) \<Longrightarrow> block_steps s s2"
| decl_exclusive: "block_steps s s1 \<Longrightarrow> exclusive_add ident ty init usage sloc s1 = Some (r, s2) \<Longrightarrow>
    block_steps s s2"
| nested: "block_steps s (st, ns, cx) \<Longrightarrow> block_steps (st, ns, enter_scope cx) (st1, ns1, cx1) \<Longrightarrow>
    leave_scope st1 loc cx1 = (cx2, st2) \<Longrightarrow> block_steps s (st2, ns1, cx2)"

definition keeps_outer :: "VarScope list \<Rightarrow> sym_state \<Rightarrow> sym_state \<Rightarrow> bool" where
  "keeps_outer outer = (\<lambda>(st, ns, cx) (st', ns', cx'). wf_sym (st', ns', cx') \<and> next_id ns \<le> next_id ns' \<and>
     (\<exists>inner. ctx_active_scopes cx' = outer @ [inner]) \<and>
     (\<forall>n < next_id ns. map_of (st_vars st') n = map_of (st_vars st) n))"

lemma keeps_outer_trans:
  "keeps_outer outer a b \<Longrightarrow> keeps_outer outer b c \<Longrightarrow> keeps_outer outer a c"
  by (auto simp: keeps_outer_def)

lemma add_variable_keeps_outer:
  assumes "wf_sym (st, ns, cx)" and scopes: "ctx_active_scopes cx = outer @ [inner]"
    and run: "add_variable ident ty init usage sloc (st, ns, cx) = Some (r, st', ns', cx')"
  shows "keeps_outer outer (st, ns, cx) (st', ns', cx')"
proof -
  have st': "st' = declared ident ty init usage sloc ns st" and id': "next_id ns' = next_id ns + 1"
    and out: "\<exists>inner. ctx_active_scopes cx' = outer @ [inner]"
    using run scopes
    by (auto simp: add_variable_def Let_def declared_def new_variable_def push_ns_def split: if_splits option.splits)
  have "wf_sym (st', ns', cx')"
  proof (cases "id_name ident = []")
    case True
    then have "cx' = cx" "ns' = numbered ns" using run by (auto simp: add_variable_def Let_def)
    then show ?thesis using insert_declared(1) [OF assms(1)] by (simp add: st')
  next
    case False
    note taken = add_variable_taken [OF assms(1) False] and free = add_variable_free [OF assms(1) False _ scopes]
    show ?thesis
    proof (cases "find_var st cx (id_name ident)")
      case None
      then show ?thesis using free(1,2) [OF None, of ty init usage sloc] run by simp
    next
      case (Some prev)
      then show ?thesis using taken [OF Some, of ty init usage sloc] run by auto
    qed
  qed
  then show ?thesis using out by (auto simp: keeps_outer_def id' st' declared_def update_conv')
qed

lemma exclusive_add_keeps_outer:
  assumes "wf_sym (st, ns, cx)" and "ctx_active_scopes cx = outer @ [inner]"
    and "exclusive_add ident ty init usage sloc (st, ns, cx) = Some (r, st', ns', cx')"
  shows "keeps_outer outer (st, ns, cx) (st', ns', cx')"
  using assms add_variable_keeps_outer [OF assms(1,2)]
  by (auto simp: exclusive_add_def keeps_outer_def wf_sym_def wf_vars_def push_ns_def split: option.splits)

lemma wf_enter_scope: "wf_sym (st, ns, cx) \<Longrightarrow> wf_sym (st, ns, enter_scope cx)"
  by (auto simp: wf_sym_def enter_scope_def disjoint_scopes_append wf_scope_def)

lemma leave_keeps_outer:
  assumes "keeps_outer (ctx_active_scopes cx) (st, ns, enter_scope cx) (st1, ns1, cx1)"
    and "leave_scope st1 loc cx1 = (cx2, st2)"
  shows "ctx_active_scopes cx2 = ctx_active_scopes cx" "st_vars st2 = st_vars st1" "wf_sym (st2, ns1, cx2)"
  using assms by (auto simp: keeps_outer_def leave_scope_def wf_sym_def disjoint_scopes_append wf_vars_def wf_scope_def)

lemma block_steps_keeps_outer:
  assumes "block_steps s s'" and "wf_sym s" and "ctx_active_scopes (snd (snd s)) = outer @ [inner]"
  shows "keeps_outer outer s s'"
  using assms
proof (induction arbitrary: outer inner rule: block_steps.induct)
  case (start s)
  then show ?case by (cases s) (simp add: keeps_outer_def)
next
  case (decl s s1 ident ty init usage sloc r s2)
  have s1: "keeps_outer outer s s1" by (rule decl.IH [OF decl.prems])
  obtain st1 ns1 cx1 st2 ns2 cx2 where eq: "s1 = (st1, ns1, cx1)" "s2 = (st2, ns2, cx2)"
    by (cases s1, cases s2) auto
  obtain inner1 where "wf_sym (st1, ns1, cx1)" "ctx_active_scopes cx1 = outer @ [inner1]"
    using s1 by (auto simp: keeps_outer_def eq split: prod.splits)
  then have "keeps_outer outer s1 s2"
    using add_variable_keeps_outer decl.hyps(2) by (simp add: eq)
  with s1 show ?case by (rule keeps_outer_trans)
next
  case (decl_exclusive s s1 ident ty init usage sloc r s2)
  have s1: "keeps_outer outer s s1" by (rule decl_exclusive.IH [OF decl_exclusive.prems])
  obtain st1 ns1 cx1 st2 ns2 cx2 where eq: "s1 = (st1, ns1, cx1)" "s2 = (st2, ns2, cx2)"
    by (cases s1, cases s2) auto
  obtain inner1 where "wf_sym (st1, ns1, cx1)" "ctx_active_scopes cx1 = outer @ [inner1]"
    using s1 by (auto simp: keeps_outer_def eq split: prod.splits)
  then have "keeps_outer outer s1 s2"
    using exclusive_add_keeps_outer decl_exclusive.hyps(2) by (simp add: eq)
  with s1 show ?case by (rule keeps_outer_trans)
next
  case (nested s st ns cx st1 ns1 cx1 loc cx2 st2)
  have s1: "keeps_outer outer s (st, ns, cx)" by (rule nested.IH(1) [OF nested.prems])
  then have wf: "wf_sym (st, ns, cx)" by (cases s) (simp add: keeps_outer_def)
  have "keeps_outer (ctx_active_scopes cx) (st, ns, enter_scope cx) (st1, ns1, cx1)"
    using nested.IH(2) [OF wf_enter_scope [OF wf]] by (simp add: enter_scope_def)
  from this leave_keeps_outer [OF this nested.hyps(3)] s1
  show ?case by (cases s) (auto simp: keeps_outer_def)
qed

text \<open>
  C22: leaving a block restores the names. Whatever is declared between entering a scope and
  leaving it, nested blocks included, every name means afterwards what it meant before, and the
  table stays well formed.
\<close>

theorem leave_scope_restores:
  assumes "wf_sym (st, ns, cx)" and "block_steps (st, ns, enter_scope cx) (st1, ns1, cx1)"
    and "leave_scope st1 loc cx1 = (cx2, st2)"
  shows "wf_sym (st2, ns1, cx2) \<and> ctx_active_scopes cx2 = ctx_active_scopes cx \<and> find_var st2 cx2 = find_var st cx"
proof -
  have k: "keeps_outer (ctx_active_scopes cx) (st, ns, enter_scope cx) (st1, ns1, cx1)"
    using block_steps_keeps_outer [OF assms(2) wf_enter_scope [OF assms(1)]] by (simp add: enter_scope_def)
  note l = leave_keeps_outer [OF k assms(3)]
  have "find_var st2 cx2 name = find_var st cx name" for name
  proof (cases "find_name (rev (ctx_active_scopes cx)) name")
    case (Some n)
    then have "n < next_id ns"
      using find_name_Some [OF Some] assms(1) by (fastforce simp: wf_sym_def wf_scope_def wf_vars_def)
    then have "map_of (st_vars st1) n = map_of (st_vars st) n" using k by (simp add: keeps_outer_def)
    then show ?thesis using Some l(1,2) by (simp add: find_var_def)
  qed (simp add: find_var_def l(1))
  then show ?thesis using l(1,3) by blast
qed

section \<open>Examples\<close>

definition sym_ns :: Namespace where
  "sym_ns = \<lparr>target = Solana, enums = [], structs = [], contracts = [], user_types = [],
     address_length = 32, value_length = 8, diagnostics = \<lparr>contents = [], has_error = False\<rparr>, next_id = 0,
     var_constants = Map.empty, hover_overrides = Map.empty, strict_soroban_types = False\<rparr>"

abbreviation empty_table :: Symtable where
  "empty_table \<equiv> \<lparr>st_vars = [], st_arguments = [], st_returns = [], st_scopes = []\<rparr>"

definition one_scope :: ExprContext where
  "one_scope = enter_scope \<lparr>ctx_loops = [], ctx_active_scopes = []\<rparr>"

lemma wf_empty_table: "wf_sym (empty_table, sym_ns, one_scope)"
  by (simp add: wf_sym_def wf_vars_def wf_scope_def one_scope_def enter_scope_def wf_index_map_def)

lemma find_empty_table: "find_var empty_table one_scope name = None"
  by (simp add: find_var_def one_scope_def enter_scope_def)

abbreviation x_ident :: Identifier where
  "x_ident \<equiv> \<lparr>id_loc = Loc.Codegen, id_name = ''x''\<rparr>"

theorem add_variable_declares_witness:
  "\<exists>st' ns' cx'. add_variable x_ident Type.Bool (Solidity None) LocalVariable None (empty_table, sym_ns, one_scope) =
     Some (Some 0, st', ns', cx') \<and>
     find_var st' cx' ''x'' = Some (new_variable x_ident Type.Bool (Solidity None) LocalVariable None 0)"
proof -
  have "ctx_active_scopes one_scope \<noteq> []" "next_id sym_ns = 0"
    by (simp_all add: one_scope_def enter_scope_def sym_ns_def)
  then show ?thesis
    using add_variable_declares [OF wf_empty_table, of x_ident Type.Bool "Solidity None" LocalVariable None]
    by (auto simp: find_empty_table)
qed

theorem leave_scope_restores_witness:
  "\<exists>st1 ns1 cx1 cx2 st2. add_variable x_ident Type.Bool (Solidity None) LocalVariable None
       (empty_table, sym_ns, enter_scope one_scope) = Some (Some 0, st1, ns1, cx1) \<and>
     leave_scope st1 Loc.Codegen cx1 = (cx2, st2) \<and> find_var st2 cx2 ''x'' = None"
proof -
  obtain st1 ns1 cx1 where add: "add_variable x_ident Type.Bool (Solidity None) LocalVariable None
       (empty_table, sym_ns, enter_scope one_scope) = Some (Some 0, st1, ns1, cx1)"
    by (simp add: add_variable_def Let_def find_var_def one_scope_def enter_scope_def sym_ns_def)
  obtain cx2 st2 where leave: "leave_scope st1 Loc.Codegen cx1 = (cx2, st2)" by fastforce
  have "block_steps (empty_table, sym_ns, enter_scope one_scope) (st1, ns1, cx1)"
    by (rule block_steps.decl [OF block_steps.start add])
  from leave_scope_restores [OF wf_empty_table this leave]
  show ?thesis using add leave find_empty_table by metis
qed

end
