(* ===== verification/Undefined.thy ===== *)
theory Undefined
  imports Reaching Symtable
begin

text \<open>
  The check for variables that are read before they are defined
  (\<open>src/codegen/undefined_variable.rs\<close>). It walks the blocks with the definitions that
  reach each instruction and looks at every variable that the traversal of the instruction's
  expressions meets.

  The symbol tables of the functions are the argument \<open>symtables\<close>. The diagnostics are
  collected in a \<open>HashMap\<close> from the variable; the order in which they are appended to the
  namespace is the argument \<open>order\<close>.
\<close>

section \<open>The check\<close>

type_synonym found = "(nat, Diagnostic) index_map"

definition add_diagnostic :: "SymVariable \<Rightarrow> nat \<Rightarrow> Loc \<Rightarrow> found \<Rightarrow> found" where
  "add_diagnostic var var_no read_loc ds =
     (if sv_usage_type var = ReturnVariable \<and>
         (case sv_storage_location var of Some (StorageLocation.Storage _) \<Rightarrow> False | _ \<Rightarrow> True)
      then ds
      else let ds = (case map_of ds var_no of
               Some _ \<Rightarrow> ds
             | None \<Rightarrow> AList.update var_no
                 \<lparr>d_loc = id_loc (sv_id var), d_level = Error, d_ty = TypeError,
                  d_message = ''Variable '' @ [CHR 0x27] @ id_name (sv_id var) @ [CHR 0x27] @ '' is undefined'',
                  d_notes = []\<rparr> ds);
               diag = the (map_of ds var_no)
           in AList.update var_no
                (diag\<lparr>d_notes := d_notes diag @
                   [\<lparr>n_loc = read_loc, n_message = ''Variable read before being defined''\<rparr>]\<rparr>) ds)"

text \<open>
  Whether the definition leaves the variable undefined: it assigns \<open>Undefined\<close> and the
  variable was not modified since. A definition outside the graph is a panic.
\<close>

definition is_array_type :: "Type \<Rightarrow> bool" where
  "is_array_type ty = (case ty of Type.Array _ _ \<Rightarrow> True | _ \<Rightarrow> False)"

definition undefined_def :: "ControlFlowGraph \<Rightarrow> SymVariable \<Rightarrow> Def \<times> bool \<Rightarrow> bool option" where
  "undefined_def cfg var = (\<lambda>(d, modified). do {
     block \<leftarrow> vec_get (cfg_blocks cfg) (def_block_no d);
     ins \<leftarrow> vec_get (b_instr block) (def_instr_no d);
     Some (case ins of
         Instr.Set _ _ (Expression.Undefined _) \<Rightarrow> \<not> modified \<and> \<not> is_array_type (sv_ty var)
       | _ \<Rightarrow> False) })"

fun check_defs ::
  "ControlFlowGraph \<Rightarrow> SymVariable \<Rightarrow> nat \<Rightarrow> Loc \<Rightarrow> Defs \<Rightarrow> found \<Rightarrow> found option" where
  "check_defs cfg var var_no loc [] ds = Some ds"
| "check_defs cfg var var_no loc (d # defs) ds = do {
     bad \<leftarrow> undefined_def cfg var d;
     check_defs cfg var var_no loc defs (if bad then add_diagnostic var var_no loc ds else ds) }"

text \<open>The variables of the function: a Solidity or Yul function number out of range is a panic.\<close>

type_synonym symtables = "ASTFunction \<Rightarrow> (nat, SymVariable) index_map option"

definition find_variable :: "symtables \<Rightarrow> ASTFunction \<Rightarrow> nat \<Rightarrow> SymVariable option option" where
  "find_variable symtables func_no var_no = (case func_no of
       NoFunction \<Rightarrow> Some None
     | _ \<Rightarrow> map_option (\<lambda>vars. map_of vars var_no) (symtables func_no))"

text \<open>The function that the traversal calls; the collected diagnostics are its state.\<close>

definition find_undefined_variables_in_expression ::
  "symtables \<Rightarrow> ASTFunction \<Rightarrow> VarDefs \<Rightarrow> ControlFlowGraph \<Rightarrow> Expression \<Rightarrow> found option \<Rightarrow> bool \<times> found option"
where
  "find_undefined_variables_in_expression symtables func_no defs cfg e ctx = (case e of
       Expression.Variable loc _ var_no \<Rightarrow> (False, do {
         ds \<leftarrow> ctx;
         variable \<leftarrow> find_variable symtables func_no var_no;
         (case (map_of defs var_no, variable) of
            (Some def_map, Some var) \<Rightarrow> check_defs cfg var var_no loc def_map ds
          | _ \<Rightarrow> Some ds) })
     | Expression.Builtin _ _ Builtin.ArrayLength _ \<Rightarrow> (False, ctx)
     | _ \<Rightarrow> (True, ctx))"

definition check_variables_in_expression ::
  "symtables \<Rightarrow> ASTFunction \<Rightarrow> Instr \<Rightarrow> VarDefs \<Rightarrow> ControlFlowGraph \<Rightarrow> found option \<Rightarrow> found option" where
  "check_variables_in_expression symtables func_no instr defs cfg ctx = (case instr of
       Instr.Store _ _ \<Rightarrow> ctx
     | _ \<Rightarrow> recurse_expressions (find_undefined_variables_in_expression symtables func_no defs cfg) instr ctx)"

fun check_block ::
  "symtables \<Rightarrow> ASTFunction \<Rightarrow> ControlFlowGraph \<Rightarrow> BasicBlock \<Rightarrow> nat list \<Rightarrow> VarDefs \<Rightarrow> found \<Rightarrow> found option" where
  "check_block symtables func_no cfg block [] var_defs ds = Some ds"
| "check_block symtables func_no cfg block (instr_no # rest) var_defs ds = do {
     instr \<leftarrow> vec_get (b_instr block) instr_no;
     ds \<leftarrow> check_variables_in_expression symtables func_no instr var_defs cfg (Some ds);
     transfers \<leftarrow> vec_get (b_transfers block) instr_no;
     check_block symtables func_no cfg block rest (apply_transfers transfers var_defs) ds }"

fun check_blocks :: "symtables \<Rightarrow> ASTFunction \<Rightarrow> ControlFlowGraph \<Rightarrow> BasicBlock list \<Rightarrow> found \<Rightarrow> found option" where
  "check_blocks symtables func_no cfg [] ds = Some ds"
| "check_blocks symtables func_no cfg (block # blocks) ds = do {
     ds \<leftarrow> check_block symtables func_no cfg block [0 ..< length (b_instr block)] (b_defs block) ds;
     check_blocks symtables func_no cfg blocks ds }"

definition find_undefined_variables ::
  "symtables \<Rightarrow> (found \<Rightarrow> Diagnostic list) \<Rightarrow> ControlFlowGraph \<Rightarrow> ASTFunction \<Rightarrow> Namespace \<Rightarrow> (bool \<times> Namespace) option"
where
  "find_undefined_variables symtables order cfg func_no ns = do {
     ds \<leftarrow> check_blocks symtables func_no cfg (cfg_blocks cfg) [];
     (let all_diagnostics = order ds in
      Some (all_diagnostics \<noteq> [],
            ns\<lparr>diagnostics := append_diagnostics (diagnostics ns) all_diagnostics\<rparr>)) }"

section \<open>What the traversal visits\<close>

text \<open>
  The expressions a traversal visits when \<open>go\<close> decides whether to descend, in order. A traversal
  whose function decides by the expression alone runs over this list.
\<close>

definition visited :: "(Expression \<Rightarrow> bool) \<Rightarrow> Expression \<Rightarrow> Expression list" where
  "visited go e = recurse (\<lambda>e acc. (go e, acc @ [e])) e []"

definition visited_instr :: "(Expression \<Rightarrow> bool) \<Rightarrow> Instr \<Rightarrow> Expression list" where
  "visited_instr go i = recurse_expressions (\<lambda>e acc. (go e, acc @ [e])) i []"

text \<open>Two traversals that descend alike, with a map from the states of one to those of the other.\<close>

lemma run_all_hom:
  assumes "\<And>x a. x \<in> set xs \<Longrightarrow> g x (h a) = h (f x a)"
  shows "run_all (map g xs) (h a) = h (run_all (map f xs) a)"
  using assms by (induction xs arbitrary: a) (simp_all add: run_all_def)

lemma run_string_hom:
  assumes "\<And>x a. x \<in> set_StringLocation l \<Longrightarrow> g x (h a) = h (f x a)"
  shows "run_string (map_StringLocation g l) (h a) = h (run_string (map_StringLocation f l) a)"
  using assms by (cases l) (simp_all add: run_string_def)

lemma recurse_hom:
  assumes "\<And>e a. fst (g e (h a)) = fst (f e a)" "\<And>e a. snd (g e (h a)) = h (snd (f e a))"
  shows "recurse g e (h a) = h (recurse f e a)"
proof (induction e arbitrary: a)
  case (FormatString loc args)
  have "recurse g (snd x) (h a) = h (recurse f (snd x) a)" if "x \<in> set args" for x a
    using FormatString.IH [OF that, of "snd x"] by (cases x) (simp add: prod_set_simps)
  then show ?case by (simp add: case_prod_beta assms comp_def run_all_hom)
qed (simp_all add: case_prod_beta assms run_all_hom run_string_hom)

lemma recurse_expressions_hom:
  assumes "\<And>e a. fst (g e (h a)) = fst (f e a)" "\<And>e a. snd (g e (h a)) = h (snd (f e a))"
  shows "recurse_expressions g i (h a) = h (recurse_expressions f i a)"
proof -
  note rec = recurse_hom [where g = g and h = h and f = f, OF assms]
  have "recurse_opt g x (h a) = h (recurse_opt f x a)" for x a
    by (cases x) (simp_all add: recurse_opt_def rec)
  moreover have "recurse_accounts g x (h a) = h (recurse_accounts f x a)" for x a
    by (cases x) (simp_all add: recurse_accounts_def rec)
  moreover have "run_all (map (recurse g) xs) (h a) = h (run_all (map (recurse f) xs) a)" for xs a
    by (rule run_all_hom) (rule rec)
  moreover have "run_all (map (\<lambda>(e, _). recurse g e) xs) (h a) = h (run_all (map (\<lambda>(e, _). recurse f e) xs) a)"
    for xs :: "(Expression \<times> nat) list" and a
    by (rule run_all_hom) (simp add: case_prod_beta rec)
  ultimately show ?thesis by (cases i) (simp_all add: rec)
qed

text \<open>A traversal that decides by the expression alone runs over the visited expressions.\<close>

lemma recurse_expressions_fold:
  assumes "\<And>e cx. fst (f e cx) = go e"
  shows "recurse_expressions f i cx = fold (\<lambda>e. snd \<circ> f e) (visited_instr go i) cx"
  using recurse_expressions_hom [of f "\<lambda>acc. fold (\<lambda>e. snd \<circ> f e) acc cx" "\<lambda>e acc. (go e, acc @ [e])" i "[]"]
  by (simp add: assms visited_instr_def)

section \<open>Exactness\<close>

text \<open>The traversal stops at variables and at the length of an array.\<close>

definition descends :: "Expression \<Rightarrow> bool" where
  "descends e = (case e of Expression.Variable _ _ _ \<Rightarrow> False
     | Expression.Builtin _ _ Builtin.ArrayLength _ \<Rightarrow> False | _ \<Rightarrow> True)"

definition reportable :: "SymVariable \<Rightarrow> bool" where
  "reportable var \<longleftrightarrow> sv_usage_type var = ReturnVariable \<longrightarrow>
     (\<exists>loc. sv_storage_location var = Some (StorageLocation.Storage loc))"

definition undefined_at :: "symtables \<Rightarrow> ASTFunction \<Rightarrow> ControlFlowGraph \<Rightarrow> VarDefs \<Rightarrow> nat \<Rightarrow> bool" where
  "undefined_at symtables func_no cfg defs v \<longleftrightarrow> (\<exists>var def_map. find_variable symtables func_no v = Some (Some var) \<and>
     reportable var \<and> map_of defs v = Some def_map \<and> (\<exists>d \<in> set def_map. undefined_def cfg var d = Some True))"

definition is_store :: "Instr \<Rightarrow> bool" where
  "is_store i = (case i of Instr.Store _ _ \<Rightarrow> True | _ \<Rightarrow> False)"

definition reads :: "Instr \<Rightarrow> nat set" where
  "reads i = (if is_store i then {} else {v. \<exists>loc ty. Expression.Variable loc ty v \<in> set (visited_instr descends i)})"

lemma add_diagnostic_keys:
  "fst ` set (add_diagnostic var v loc ds) = (if reportable var then insert v (fst ` set ds) else fst ` set ds)"
  by (auto simp: add_diagnostic_def reportable_def Let_def dom_update split: option.splits StorageLocation.splits)

lemma check_defs_keys:
  "check_defs cfg var v loc defs ds = Some ds' \<Longrightarrow>
   fst ` set ds' = fst ` set ds \<union> {w. w = v \<and> reportable var \<and> (\<exists>d \<in> set defs. undefined_def cfg var d = Some True)}"
proof (induction defs arbitrary: ds)
  case (Cons d defs)
  then obtain bad where bad: "undefined_def cfg var d = Some bad"
    and rest: "check_defs cfg var v loc defs (if bad then add_diagnostic var v loc ds else ds) = Some ds'"
    by (auto split: bind_splits)
  show ?case unfolding Cons.IH [OF rest] by (cases bad) (auto simp: bad add_diagnostic_keys)
qed simp

text \<open>One variable that the traversal meets, all of them, and an instruction.\<close>

abbreviation undefined_read :: "symtables \<Rightarrow> ASTFunction \<Rightarrow> ControlFlowGraph \<Rightarrow> VarDefs \<Rightarrow> Expression \<Rightarrow> nat set" where
  "undefined_read symtables func_no cfg defs e \<equiv>
     {v. (\<exists>loc ty. e = Expression.Variable loc ty v) \<and> undefined_at symtables func_no cfg defs v}"

lemma visit_keys:
  assumes "snd (find_undefined_variables_in_expression symtables func_no defs cfg e (Some ds)) = Some ds'"
  shows "fst ` set ds' = fst ` set ds \<union> undefined_read symtables func_no cfg defs e"
proof (cases "\<exists>loc ty v. e = Expression.Variable loc ty v")
  case True
  then obtain loc ty v where e: "e = Expression.Variable loc ty v" by blast
  obtain variable where var: "find_variable symtables func_no v = Some variable"
    using assms by (auto simp: e find_undefined_variables_in_expression_def split: bind_splits)
  show ?thesis
  proof (cases "map_of defs v = None \<or> variable = None")
    case True
    then show ?thesis using assms var
      by (auto simp: e find_undefined_variables_in_expression_def undefined_at_def split: option.splits)
  next
    case False
    then obtain def_map x where "map_of defs v = Some def_map" "variable = Some x" by auto
    then show ?thesis using assms var check_defs_keys [of cfg x v loc def_map ds ds']
      by (auto simp: e find_undefined_variables_in_expression_def undefined_at_def)
  qed
next
  case False
  then show ?thesis using assms
    by (auto simp: find_undefined_variables_in_expression_def split: Expression.splits Builtin.splits)
qed

lemma visit_go: "fst (find_undefined_variables_in_expression symtables func_no defs cfg e ctx) = descends e"
  by (cases e) (simp_all add: find_undefined_variables_in_expression_def descends_def split: Builtin.split)

lemma visit_panic: "snd (find_undefined_variables_in_expression symtables func_no defs cfg e None) = None"
  by (cases e) (simp_all add: find_undefined_variables_in_expression_def split: Builtin.split)

lemma visits_keys:
  assumes "fold (\<lambda>e. snd \<circ> find_undefined_variables_in_expression symtables func_no defs cfg e) es (Some ds) = Some ds'"
  shows "fst ` set ds' = fst ` set ds \<union> (\<Union>e \<in> set es. undefined_read symtables func_no cfg defs e)"
  using assms
proof (induction es arbitrary: ds)
  case (Cons e es)
  let ?f = "find_undefined_variables_in_expression symtables func_no defs cfg"
  have panic: "fold (\<lambda>e. snd \<circ> ?f e) xs None = None" for xs
    by (induction xs) (simp_all add: visit_panic)
  obtain ds1 where ds1: "snd (?f e (Some ds)) = Some ds1"
    using Cons.prems panic [of es] by (cases "snd (?f e (Some ds))") (simp_all add: comp_def)
  then have "fst ` set ds' = fst ` set ds1 \<union> (\<Union>e \<in> set es. undefined_read symtables func_no cfg defs e)"
    using Cons by simp
  then show ?case using visit_keys [OF ds1] by auto
qed simp

lemma check_variables_keys:
  assumes "check_variables_in_expression symtables func_no i defs cfg (Some ds) = Some ds'"
  shows "fst ` set ds' = fst ` set ds \<union> {v \<in> reads i. undefined_at symtables func_no cfg defs v}"
proof (cases "is_store i")
  case True
  then show ?thesis using assms
    by (auto simp: check_variables_in_expression_def reads_def is_store_def split: Instr.splits)
next
  case False
  then have "check_variables_in_expression symtables func_no i defs cfg (Some ds) =
      fold (\<lambda>e. snd \<circ> find_undefined_variables_in_expression symtables func_no defs cfg e)
        (visited_instr descends i) (Some ds)"
    using recurse_expressions_fold [of _ descends i, OF visit_go]
    by (cases i) (simp_all add: check_variables_in_expression_def is_store_def)
  from visits_keys [OF assms [unfolded this]] False show ?thesis by (auto simp: reads_def)
qed

lemma check_block_keys:
  assumes "check_block symtables func_no cfg block [k ..< length (b_instr block)] (defs_at block k) ds = Some ds'"
  shows "fst ` set ds' = fst ` set ds \<union> (\<Union>i \<in> {k ..< length (b_instr block)}.
    {v \<in> reads (b_instr block ! i). undefined_at symtables func_no cfg (defs_at block i) v})"
  using assms
proof (induction "length (b_instr block) - k" arbitrary: k ds)
  case 0
  then show ?case by simp
next
  case (Suc n)
  then have k: "k < length (b_instr block)" by simp
  then have upt: "[k ..< length (b_instr block)] = k # [Suc k ..< length (b_instr block)]" by (rule upt_conv_Cons)
  obtain ds1 where ds1: "check_variables_in_expression symtables func_no (b_instr block ! k) (defs_at block k) cfg (Some ds) =
      Some ds1" and len: "k < length (b_transfers block)"
    and rest: "check_block symtables func_no cfg block [Suc k ..< length (b_instr block)]
      (apply_transfers (b_transfers block ! k) (defs_at block k)) ds1 = Some ds'"
    using Suc.prems k by (auto simp: upt vec_get_def split: bind_splits if_splits)
  have "apply_transfers (b_transfers block ! k) (defs_at block k) = defs_at block (Suc k)"
    using len by (simp add: defs_at_def take_Suc_conv_app_nth)
  then have IH: "fst ` set ds' = fst ` set ds1 \<union> (\<Union>i \<in> {Suc k ..< length (b_instr block)}.
    {v \<in> reads (b_instr block ! i). undefined_at symtables func_no cfg (defs_at block i) v})"
    using Suc.hyps rest k by simp
  have "{k ..< length (b_instr block)} = insert k {Suc k ..< length (b_instr block)}" using k by auto
  then show ?case using IH check_variables_keys [OF ds1] by auto
qed

lemma check_blocks_keys:
  "check_blocks symtables func_no cfg blocks ds = Some ds' \<Longrightarrow>
   fst ` set ds' = fst ` set ds \<union> {v. \<exists>block \<in> set blocks. \<exists>i < length (b_instr block).
     v \<in> reads (b_instr block ! i) \<and> undefined_at symtables func_no cfg (defs_at block i) v}"
proof (induction blocks arbitrary: ds)
  case (Cons block blocks)
  then obtain ds1 where ds1: "check_block symtables func_no cfg block [0 ..< length (b_instr block)] (defs_at block 0) ds = Some ds1"
    and rest: "check_blocks symtables func_no cfg blocks ds1 = Some ds'"
    by (auto simp: defs_at_def split: bind_splits)
  show ?case unfolding Cons.IH [OF rest] check_block_keys [OF ds1] by auto
qed simp


section \<open>Examples\<close>

definition u_block :: "Instr list \<Rightarrow> BasicBlock" where
  "u_block instrs = \<lparr>b_phis = None, b_name = ''entry'', b_instr = instrs, b_defs = [],
     b_loop_reaching_variables = {}, b_transfers = []\<rparr>"

text \<open>\<open>uint64 x; return f(x);\<close> for an expression \<open>f\<close> that reads \<open>x\<close>.\<close>

definition read_cfg :: "(Expression \<Rightarrow> Expression) \<Rightarrow> ControlFlowGraph" where
  "read_cfg f = placeholder\<lparr>cfg_blocks := [u_block [
     Instr.Set Loc.Codegen 0 (Expression.Undefined (Type.Uint 64)),
     Instr.Return [f (Expression.Variable Loc.Codegen (Type.Uint 64) 0)]]]\<rparr>"

definition x_table :: symtables where
  "x_table f = Some [(0, new_variable x_ident (Type.Uint 64) (Solidity None) LocalVariable None 0)]"

definition report :: "(Expression \<Rightarrow> Expression) \<Rightarrow> bool option" where
  "report f = do {
     cfg \<leftarrow> find_definitions Min (read_cfg f);
     (found, _) \<leftarrow> find_undefined_variables x_table (map snd) cfg (SolidityFunction 0) sym_ns;
     Some found }"

abbreviation divide_by_two :: "Expression \<Rightarrow> Expression" where
  "divide_by_two e \<equiv> Expression.UnsignedDivide Loc.Codegen (Type.Uint 64) e
     (Expression.NumberLiteral Loc.Codegen (Type.Uint 64) 2)"

abbreviation modulo_two :: "Expression \<Rightarrow> Expression" where
  "modulo_two e \<equiv> Expression.UnsignedModulo Loc.Codegen (Type.Uint 64) e
     (Expression.NumberLiteral Loc.Codegen (Type.Uint 64) 2)"

lemma report_divide: "report divide_by_two = Some True"
  by code_simp


text \<open>
  An undefined operand of a remainder is not found. For \<open>uint64 x;\<close> the check reports
  the read in \<open>x / 2\<close> but not the read in \<open>x % 2\<close>: the traversal of expressions
  has no case for the modulo operators and does not visit their operands.
\<close>

theorem undefined_modulo_operand_missed:
  "report divide_by_two = Some True \<and> report modulo_two = Some False"
  by (intro conjI; code_simp)

end
