(* ===== verification/ReachingSound.thy ===== *)
theory ReachingSound
  imports Reaching
begin

text \<open>
  Soundness of the reaching definitions analysis. An execution is followed as a path through the
  blocks that remembers, for every variable, the instruction that gave it its current value; a
  copy \<open>x := y\<close> hands on the origin of \<open>y\<close>, as the analysis does. The analysis is
  sound when that origin is among the definitions recorded at the entry of the block.
\<close>

section \<open>The fixed point\<close>

text \<open>What every step of the loop preserves holds of its result.\<close>

lemma find_loop_rule:
  assumes "find_loop pick st = Some blocks'" and "P st"
    and step: "\<And>b st st'. P st \<Longrightarrow> find_block b st = Some st' \<Longrightarrow> P st'"
  shows "P (blocks', {})"
proof -
  have "P st \<longrightarrow> P (blocks', {})"
  proof (rule find_loop.raw_induct [OF _ assms(1)])
    fix rec :: "(nat set \<Rightarrow> nat) \<Rightarrow> BasicBlock list \<times> nat set \<Rightarrow> BasicBlock list option"
      and pick st blocks'
    assume IH: "\<And>pick st blocks'. rec pick st = Some blocks' \<Longrightarrow> P st \<longrightarrow> P (blocks', {})"
      and eq: "(if snd st = {} then Some (fst st)
        else find_block (pick (snd st)) st \<bind> rec pick) = Some blocks'"
    show "P st \<longrightarrow> P (blocks', {})"
    proof (cases "snd st = {}")
      case True
      then show ?thesis using eq by (cases st) simp
    next
      case False
      then obtain mid where "find_block (pick (snd st)) st = Some mid" "rec pick mid = Some blocks'"
        using eq by (auto simp: Option.bind_eq_Some_conv)
      then show ?thesis using IH step by blast
    qed
  qed
  with assms(2) show ?thesis by blast
qed

lemma find_loop_inv:
  assumes "find_loop pick st = Some blocks'" and "worklist_inv st"
  shows "worklist_inv (blocks', {}) \<and> length blocks' = length (fst st) \<and>
    (\<forall>i < length (fst st). b_instr (blocks' ! i) = b_instr (fst st ! i) \<and>
       b_transfers (blocks' ! i) = b_transfers (fst st ! i))"
proof -
  define P where "P = (\<lambda>st' :: BasicBlock list \<times> nat set. worklist_inv st' \<and> length (fst st') = length (fst st) \<and>
    (\<forall>i < length (fst st). b_instr (fst st' ! i) = b_instr (fst st ! i) \<and>
       b_transfers (fst st' ! i) = b_transfers (fst st ! i)))"
  have "P (blocks', {})"
  proof (rule find_loop_rule [OF assms(1)])
    show "P st" using assms(2) by (simp add: P_def)
    fix b s s' assume "P s" "find_block b s = Some s'"
    then show "P s'" using find_block_inv [of b "fst s" "snd s" "fst s'" "snd s'"] by (simp add: P_def)
  qed
  then show ?thesis by (simp add: P_def)
qed

section \<open>The origin of values\<close>

text \<open>The variables that an instruction writes, in the order of their assignment numbers.\<close>

definition written :: "Instr \<Rightarrow> nat list" where
  "written instr = (case instr of
       Instr.Set _ res _ \<Rightarrow> [res]
     | Instr.Call res _ _ _ \<Rightarrow> res
     | Instr.LoadStorage res _ _ _ \<Rightarrow> [res]
     | Instr.PushStorage res _ _ _ \<Rightarrow> [res]
     | Instr.PopStorage (Some res) _ _ \<Rightarrow> [res]
     | Instr.PushMemory res _ _ _ \<Rightarrow> [res]
     | Instr.PopMemory res _ _ _ \<Rightarrow> [res]
     | Instr.Constructor success res _ _ _ _ _ _ _ _ _ _ \<Rightarrow>
         (case success of None \<Rightarrow> [res] | Some s \<Rightarrow> [res, s])
     | Instr.ExternalCall _ (Some res) _ _ _ _ _ _ _ _ _ \<Rightarrow> [res]
     | Instr.ValueTransfer (Some res) _ _ \<Rightarrow> [res]
     | Instr.AccountAccess _ var_no _ \<Rightarrow> [var_no]
     | _ \<Rightarrow> [])"

type_synonym origin = "nat \<rightharpoonup> Def"

definition assign :: "nat \<Rightarrow> nat \<Rightarrow> nat list \<Rightarrow> origin \<Rightarrow> origin" where
  "assign b i vs org = fold (\<lambda>(a, v) org.
     org(v \<mapsto> \<lparr>def_block_no = b, def_instr_no = i, def_assignment_no = a\<rparr>)) (enumerate 0 vs) org"

definition origin_instr :: "nat \<Rightarrow> nat \<Rightarrow> Instr \<Rightarrow> origin \<Rightarrow> origin" where
  "origin_instr b i instr org = (case instr of
       Instr.Set _ res (Expression.Variable _ _ src) \<Rightarrow> org(res := org src)
     | _ \<Rightarrow> assign b i (written instr) org)"

definition origin_block :: "nat \<Rightarrow> BasicBlock \<Rightarrow> origin \<Rightarrow> origin" where
  "origin_block b block org =
     fold (\<lambda>(i, instr). origin_instr b i instr) (enumerate 0 (b_instr block)) org"

inductive reaches :: "BasicBlock list \<Rightarrow> nat \<Rightarrow> origin \<Rightarrow> bool" for blocks where
  entry: "reaches blocks 0 Map.empty"
| edge: "reaches blocks b org \<Longrightarrow> b < length blocks \<Longrightarrow> successors (blocks ! b) = Some es \<Longrightarrow>
    e \<in> set es \<Longrightarrow> reaches blocks e (origin_block b (blocks ! b) org)"

text \<open>
  The instructions whose writes the transfers record. A copy of a variable to itself kills its
  definitions and finds nothing to copy; pushes to storage, pops from memory and account
  accesses have no transfer for the variable they write.
\<close>

definition tracked :: "Instr \<Rightarrow> bool" where
  "tracked instr = (case instr of
       Instr.Set _ res (Expression.Variable _ _ src) \<Rightarrow> res \<noteq> src
     | Instr.PushStorage _ _ _ _ \<Rightarrow> False
     | Instr.PopMemory _ _ _ _ \<Rightarrow> False
     | Instr.AccountAccess _ _ _ \<Rightarrow> False
     | _ \<Rightarrow> True)"

definition covers :: "VarDefs \<Rightarrow> origin \<Rightarrow> bool" where
  "covers vars org \<longleftrightarrow> (\<forall>v d. org v = Some d \<longrightarrow> has vars v d)"

lemma assign_Some:
  "assign b i vs org v = Some d \<Longrightarrow>
   (\<exists>a < length vs. vs ! a = v \<and> d = \<lparr>def_block_no = b, def_instr_no = i, def_assignment_no = a\<rparr>) \<or>
   v \<notin> set vs \<and> org v = Some d"
proof (induction vs rule: rev_induct)
  case (snoc x vs)
  have step: "assign b i (vs @ [x]) org =
      (assign b i vs org)(x \<mapsto> \<lparr>def_block_no = b, def_instr_no = i, def_assignment_no = length vs\<rparr>)"
    by (simp add: assign_def enumerate_append_eq)
  show ?case
  proof (cases "v = x")
    case True
    then show ?thesis using snoc.prems step by (intro disjI1 exI [of _ "length vs"]) simp
  next
    case False
    then have "assign b i vs org v = Some d" using snoc.prems step by simp
    from snoc.IH [OF this] show ?thesis using False by (auto simp: nth_append)
  qed
qed (simp add: assign_def)

lemma covers_set_var:
  assumes "wf_defs vars" "covers vars org"
  shows "covers (apply_transfers (set_var b i vs) vars) (assign b i vs org)"
  unfolding covers_def
proof (intro allI impI)
  fix v d assume "assign b i vs org v = Some d"
  from assign_Some [OF this] assms(2)
  show "has (apply_transfers (set_var b i vs) vars) v d"
    unfolding has_set_var [OF assms(1)] covers_def by meson
qed

lemma covers_Mod: "covers vars org \<Longrightarrow> covers (apply_transfers [Mod x] vars) org"
  unfolding covers_def apply_transfers_def using has_Mod by simp

lemma covers_mod_var: "covers vars org \<Longrightarrow> covers (apply_transfers (mod_var e) vars) org"
  by (auto simp: mod_var_def covers_Mod split: option.splits) (simp add: apply_transfers_def)

lemma assign_Nil [simp]: "assign b i [] org = org"
  by (simp add: assign_def)

lemma covers_instr:
  assumes "tracked instr" "wf_defs vars" "covers vars org"
  shows "covers (apply_transfers (instr_transfer b i instr) vars) (origin_instr b i instr org)"
proof (cases "\<exists>loc res l t src. instr = Instr.Set loc res (Expression.Variable l t src)")
  case True
  then obtain loc res l t src where i: "instr = Instr.Set loc res (Expression.Variable l t src)" by blast
  then have "res \<noteq> src" using assms(1) by (simp add: tracked_def)
  then show ?thesis using assms(3) has_Kill_Copy [OF assms(2)]
    by (auto simp: covers_def i instr_transfer_def origin_instr_def split: if_splits)
next
  case False
  note sv = covers_set_var [OF assms(2,3)] and mv = covers_mod_var [OF assms(3)]
  have none: "covers (apply_transfers [] vars) org" using assms(3) by (simp add: apply_transfers_def)
  show ?thesis
  proof (cases instr)
    case (Set loc res e)
    then show ?thesis using False sv
      by (cases e) (auto simp: instr_transfer_def origin_instr_def written_def)
  next
    case (PushMemory res ty array v)
    then show ?thesis using covers_Mod [OF sv]
      by (simp add: instr_transfer_def origin_instr_def written_def apply_transfers_append)
  qed (use sv mv none covers_Mod [OF assms(3)] assms(1) in
      \<open>auto simp: instr_transfer_def origin_instr_def written_def tracked_def split: option.splits\<close>)
qed

section \<open>Soundness\<close>

lemma covers_instrs:
  assumes "\<forall>(i, ins) \<in> set xs. tracked ins" "wf_defs vars" "covers vars org"
  shows "covers (fold apply_transfers (map (\<lambda>(i, ins). instr_transfer b i ins) xs) vars)
    (fold (\<lambda>(i, ins). origin_instr b i ins) xs org)"
  using assms
  by (induction xs arbitrary: vars org) (auto simp: covers_instr wf_apply_transfers)

lemma covers_block:
  assumes "\<forall>ins \<in> set (b_instr block). tracked ins" "wf_defs vars" "covers vars org"
  shows "covers (fold apply_transfers (instr_transfers b block) vars) (origin_block b block org)"
  unfolding instr_transfers_def origin_block_def
  using assms by (intro covers_instrs) (auto simp: in_set_enumerate_eq)

lemma covers_mono: "covers vars org \<Longrightarrow> le_defs vars vars' \<Longrightarrow> covers vars' org"
  by (simp add: covers_def le_defs_def)

lemma nth_with_transfers:
  "i < length blocks \<Longrightarrow>
   with_transfers blocks ! i = (blocks ! i)\<lparr>b_transfers := instr_transfers i (blocks ! i)\<rparr>"
  by (simp add: with_transfers_def nth_enumerate_eq)

lemma length_with_transfers [simp]: "length (with_transfers blocks) = length blocks"
  by (simp add: with_transfers_def)

lemma find_definitions_fixpoint:
  assumes "find_definitions pick cfg = Some cfg'"
    and "\<forall>block \<in> set (cfg_blocks cfg). b_defs block = []"
  shows "worklist_inv (cfg_blocks cfg', {})"
    and "length (cfg_blocks cfg') = length (cfg_blocks cfg)"
    and "i < length (cfg_blocks cfg) \<Longrightarrow> b_instr (cfg_blocks cfg' ! i) = b_instr (cfg_blocks cfg ! i) \<and>
      b_transfers (cfg_blocks cfg' ! i) = instr_transfers i (cfg_blocks cfg ! i)"
proof -
  from assms(1) obtain blocks where
    run: "find_loop pick (with_transfers (cfg_blocks cfg), {0}) = Some blocks"
    and blocks: "cfg_blocks cfg' = blocks" by (auto simp: find_definitions_def)
  have "worklist_inv (with_transfers (cfg_blocks cfg), {0})"
    using assms(2) by (auto simp: worklist_inv_def nth_with_transfers)
  from find_loop_inv [OF run this]
  show "worklist_inv (cfg_blocks cfg', {})" "length (cfg_blocks cfg') = length (cfg_blocks cfg)"
    "i < length (cfg_blocks cfg) \<Longrightarrow> b_instr (cfg_blocks cfg' ! i) = b_instr (cfg_blocks cfg ! i) \<and>
      b_transfers (cfg_blocks cfg' ! i) = instr_transfers i (cfg_blocks cfg ! i)"
    by (simp_all add: blocks nth_with_transfers)
qed

lemma reaches_covers:
  assumes "find_definitions pick cfg = Some cfg'"
    and "\<forall>block \<in> set (cfg_blocks cfg). b_defs block = [] \<and> (\<forall>ins \<in> set (b_instr block). tracked ins)"
    and "\<forall>b org. reaches (cfg_blocks cfg) b org \<longrightarrow> b \<noteq> 0 \<longrightarrow> org \<noteq> Map.empty"
    and "reaches (cfg_blocks cfg) b org"
  shows "covers (b_defs (cfg_blocks cfg' ! b)) org"
proof -
  have "\<forall>block \<in> set (cfg_blocks cfg). b_defs block = []" using assms(2) by blast
  note fp = find_definitions_fixpoint [OF assms(1) this]
  from assms(4) show ?thesis
  proof (induction rule: reaches.induct)
    case entry
    then show ?case by (simp add: covers_def)
  next
    case (edge b org es e)
    have b': "b < length (cfg_blocks cfg')" using edge.hyps(2) fp(2) by simp
    have "b = 0 \<or> (\<exists>v d. has (b_defs (cfg_blocks cfg' ! b)) v d)"
      using assms(3) edge.hyps(1) edge.IH by (fastforce simp: covers_def)
    then have "b = 0 \<or> b_defs (cfg_blocks cfg' ! b) \<noteq> []" by auto
    then have ok: "edges_ok (cfg_blocks cfg') b" "wf_defs (b_defs (cfg_blocks cfg' ! b))"
      using fp(1) b' by (auto simp: worklist_inv_def)
    have code: "b_instr (cfg_blocks cfg' ! b) = b_instr (cfg_blocks cfg ! b)"
      "b_transfers (cfg_blocks cfg' ! b) = instr_transfers b (cfg_blocks cfg ! b)"
      using fp(3) [OF edge.hyps(2)] by auto
    have "successors (cfg_blocks cfg' ! b) = Some es"
      using edge.hyps(3) successors_cong [OF code(1)] by simp
    then have le: "le_defs (block_out (cfg_blocks cfg' ! b)) (b_defs (cfg_blocks cfg' ! e))"
      using ok(1) edge.hyps(4) by (auto simp: edges_ok_def)
    have "\<forall>ins \<in> set (b_instr (cfg_blocks cfg ! b)). tracked ins"
      using assms(2) nth_mem [OF edge.hyps(2)] by blast
    from covers_block [OF this ok(2) edge.IH, of b]
    have "covers (block_out (cfg_blocks cfg' ! b)) (origin_block b (cfg_blocks cfg ! b) org)"
      by (simp add: block_out_def code(2))
    then show ?case using le by (rule covers_mono)
  qed
qed

text \<open>
  C2: the analysis is sound. When a path of the graph enters a block, the instruction that gave
  a variable its value is among the definitions the analysis recorded for that block, whatever
  order the worklist was processed in. It holds for graphs whose writes have transfers and in
  which every block other than the entry is entered with some variable defined; the analysis
  does not visit blocks that no definition reaches.
\<close>

theorem reaching_definitions_sound:
  assumes "find_definitions pick cfg = Some cfg'"
    and "\<forall>block \<in> set (cfg_blocks cfg). b_defs block = [] \<and> (\<forall>ins \<in> set (b_instr block). tracked ins)"
    and "\<forall>b org. reaches (cfg_blocks cfg) b org \<longrightarrow> b \<noteq> 0 \<longrightarrow> org \<noteq> Map.empty"
    and "reaches (cfg_blocks cfg) b org" and "org v = Some d"
  shows "\<exists>ds. map_of (b_defs (cfg_blocks cfg' ! b)) v = Some ds \<and> d \<in> fst ` set ds"
  using reaches_covers [OF assms(1-4)] assms(5) by (simp add: covers_def has_def)

section \<open>Examples\<close>

definition sample_block :: "string \<Rightarrow> Instr list \<Rightarrow> BasicBlock" where
  "sample_block name instrs = \<lparr>b_phis = None, b_name = name, b_instr = instrs, b_defs = [],
     b_loop_reaching_variables = {}, b_transfers = []\<rparr>"

abbreviation int_lit :: "int \<Rightarrow> Expression" where
  "int_lit v \<equiv> Expression.NumberLiteral Loc.Codegen (Type.Int 64) v"

abbreviation int_var :: "nat \<Rightarrow> Expression" where
  "int_var v \<equiv> Expression.Variable Loc.Codegen (Type.Int 64) v"

text \<open>\<open>x := 2; if c then x := 1 else y := x; return x\<close>.\<close>

definition branch_cfg :: ControlFlowGraph where
  "branch_cfg = placeholder\<lparr>cfg_blocks := [
     sample_block ''entry'' [Instr.Set Loc.Codegen 0 (int_lit 2),
       Instr.BranchCond (Expression.FunctionArg Loc.Codegen Type.Bool 0) 1 2],
     sample_block ''then'' [Instr.Set Loc.Codegen 0 (int_lit 1), Instr.Branch 3],
     sample_block ''else'' [Instr.Set Loc.Codegen 1 (int_var 0), Instr.Branch 3],
     sample_block ''endif'' [Instr.Return [int_var 0]]]\<rparr>"

text \<open>The same with the self-assignment \<open>x := x\<close> in the second branch.\<close>

definition self_copy_cfg :: ControlFlowGraph where
  "self_copy_cfg = placeholder\<lparr>cfg_blocks := [
     sample_block ''entry'' [Instr.Set Loc.Codegen 0 (int_lit 2),
       Instr.BranchCond (Expression.FunctionArg Loc.Codegen Type.Bool 0) 1 2],
     sample_block ''then'' [Instr.Set Loc.Codegen 0 (int_lit 1), Instr.Branch 3],
     sample_block ''else'' [Instr.Set Loc.Codegen 0 (int_var 0), Instr.Branch 3],
     sample_block ''endif'' [Instr.Return [int_var 0]]]\<rparr>"

lemma branch_cfg_find:
  "map_option (\<lambda>cfg. map_of (b_defs (cfg_blocks cfg ! 3)) 0) (find_definitions Min branch_cfg) =
     Some (Some [(\<lparr>def_block_no = 1, def_instr_no = 0, def_assignment_no = 0\<rparr>, False),
                 (\<lparr>def_block_no = 0, def_instr_no = 0, def_assignment_no = 0\<rparr>, False)])"
  by code_simp

lemma self_copy_cfg_find:
  "map_option (\<lambda>cfg. map_of (b_defs (cfg_blocks cfg ! 3)) 0) (find_definitions Min self_copy_cfg) =
     Some (Some [(\<lparr>def_block_no = 1, def_instr_no = 0, def_assignment_no = 0\<rparr>, False)])"
  by code_simp

lemmas sample_simps = branch_cfg_def self_copy_cfg_def sample_block_def placeholder_def successors_def
  origin_block_def origin_instr_def assign_def written_def tracked_def

lemma branch_cfg_defined: "reaches (cfg_blocks branch_cfg) b org \<Longrightarrow> b \<noteq> 0 \<longrightarrow> org 0 \<noteq> None"
proof (induction rule: reaches.induct)
  case (edge b org es e)
  then have "b = 0 \<or> b = 1 \<or> b = 2 \<or> b = 3" by (auto simp: sample_simps)
  then show ?case using edge by (elim disjE) (auto simp: sample_simps)
qed simp

lemma else_path:
  assumes "blocks = cfg_blocks branch_cfg \<or> blocks = cfg_blocks self_copy_cfg"
  shows "\<exists>org. reaches blocks 3 org \<and>
    org 0 = Some \<lparr>def_block_no = 0, def_instr_no = 0, def_assignment_no = 0\<rparr>"
proof -
  have "reaches blocks 2 (origin_block 0 (blocks ! 0) Map.empty)"
    by (rule reaches.edge [OF reaches.entry, of _ "[1, 2]"]) (use assms in \<open>auto simp: sample_simps\<close>)
  then have "reaches blocks 3 (origin_block 2 (blocks ! 2) (origin_block 0 (blocks ! 0) Map.empty))"
    by (rule reaches.edge [of _ _ _ "[3]"]) (use assms in \<open>auto simp: sample_simps\<close>)
  moreover have "origin_block 2 (blocks ! 2) (origin_block 0 (blocks ! 0) Map.empty) 0 =
      Some \<lparr>def_block_no = 0, def_instr_no = 0, def_assignment_no = 0\<rparr>"
    using assms by (auto simp: sample_simps)
  ultimately show ?thesis by blast
qed

theorem reaching_definitions_sound_witness:
  "\<exists>cfg' ds. find_definitions Min branch_cfg = Some cfg' \<and>
    map_of (b_defs (cfg_blocks cfg' ! 3)) 0 = Some ds \<and>
    \<lparr>def_block_no = 0, def_instr_no = 0, def_assignment_no = 0\<rparr> \<in> fst ` set ds"
proof -
  obtain cfg' where run: "find_definitions Min branch_cfg = Some cfg'" using branch_cfg_find by auto
  obtain org where org: "reaches (cfg_blocks branch_cfg) 3 org"
    "org 0 = Some \<lparr>def_block_no = 0, def_instr_no = 0, def_assignment_no = 0\<rparr>" using else_path by blast
  have 1: "\<forall>block \<in> set (cfg_blocks branch_cfg). b_defs block = [] \<and> (\<forall>ins \<in> set (b_instr block). tracked ins)"
    by (simp add: sample_simps)
  have 2: "\<forall>b org. reaches (cfg_blocks branch_cfg) b org \<longrightarrow> b \<noteq> 0 \<longrightarrow> org \<noteq> Map.empty"
    using branch_cfg_defined by fastforce
  show ?thesis using reaching_definitions_sound [OF run 1 2 org] run by blast
qed

text \<open>
  A self-assignment loses definitions. In \<open>x := 2; if c then x := 1 else x := x\<close>, the
  value 2 reaches the end on the second branch, but the analysis records only the definition of
  the first: the transfers of \<open>x := x\<close> are \<open>Kill x\<close> and then a copy from
  \<open>x\<close>, which has no definitions left.
\<close>

theorem self_copy_loses_definition:
  "\<exists>cfg' org. find_definitions Min self_copy_cfg = Some cfg' \<and>
    reaches (cfg_blocks self_copy_cfg) 3 org \<and>
    org 0 = Some \<lparr>def_block_no = 0, def_instr_no = 0, def_assignment_no = 0\<rparr> \<and>
    map_of (b_defs (cfg_blocks cfg' ! 3)) 0 =
      Some [(\<lparr>def_block_no = 1, def_instr_no = 0, def_assignment_no = 0\<rparr>, False)]"
proof -
  obtain cfg' where "find_definitions Min self_copy_cfg = Some cfg'"
    "map_of (b_defs (cfg_blocks cfg' ! 3)) 0 =
      Some [(\<lparr>def_block_no = 1, def_instr_no = 0, def_assignment_no = 0\<rparr>, False)]"
    using self_copy_cfg_find by auto
  then show ?thesis using else_path [of "cfg_blocks self_copy_cfg"] by blast
qed

end
