(* ===== verification/ReachingTerm.thy ===== *)
theory ReachingTerm
  imports ReachingSound
begin

text \<open>
  Termination of the reaching definitions analysis: the worklist iteration ends for every order in
  which the blocks are taken. What a block records only grows, inside a finite set, and a block is
  put on the worklist only when it has grown.
\<close>

section \<open>What a block records\<close>

datatype fact = Key nat | Reach nat Def | Modified nat Def | Looped nat

definition facts :: "BasicBlock \<Rightarrow> fact set" where
  "facts b = {Key v | v. map_of (b_defs b) v \<noteq> None} \<union>
     {Reach v d | v d. \<exists>ds. map_of (b_defs b) v = Some ds \<and> map_of ds d \<noteq> None} \<union>
     {Modified v d | v d. \<exists>ds. map_of (b_defs b) v = Some ds \<and> map_of ds d = Some True} \<union>
     Looped ` b_loop_reaching_variables b"

lemma facts_iff:
  "Key v \<in> facts b \<longleftrightarrow> map_of (b_defs b) v \<noteq> None"
  "Reach v d \<in> facts b \<longleftrightarrow> (\<exists>ds. map_of (b_defs b) v = Some ds \<and> map_of ds d \<noteq> None)"
  "Modified v d \<in> facts b \<longleftrightarrow> (\<exists>ds. map_of (b_defs b) v = Some ds \<and> map_of ds d = Some True)"
  "Looped v \<in> facts b \<longleftrightarrow> v \<in> b_loop_reaching_variables b"
  by (auto simp: facts_def)

lemma facts_subsetI:
  assumes "\<And>v. Key v \<in> facts a \<Longrightarrow> Key v \<in> facts b" "\<And>v d. Reach v d \<in> facts a \<Longrightarrow> Reach v d \<in> facts b"
    "\<And>v d. Modified v d \<in> facts a \<Longrightarrow> Modified v d \<in> facts b" "\<And>v. Looped v \<in> facts a \<Longrightarrow> Looped v \<in> facts b"
  shows "facts a \<subseteq> facts b"
proof
  fix x assume "x \<in> facts a"
  then show "x \<in> facts b" using assms by (cases x) auto
qed

text \<open>How the entry of one variable grows.\<close>

definition entry_le :: "Defs \<Rightarrow> Defs \<Rightarrow> bool" where
  "entry_le a b \<longleftrightarrow> (\<forall>d. (map_of a d \<noteq> None \<longrightarrow> map_of b d \<noteq> None) \<and> (map_of a d = Some True \<longrightarrow> map_of b d = Some True))"

definition entry_less :: "Defs \<Rightarrow> Defs \<Rightarrow> bool" where
  "entry_less a b \<longleftrightarrow> entry_le a b \<and>
     (\<exists>d. map_of a d = None \<and> map_of b d \<noteq> None \<or> map_of a d = Some False \<and> map_of b d = Some True)"

lemma entry_less_le: "entry_less a b \<Longrightarrow> entry_le b c \<Longrightarrow> entry_less a c"
  by (fastforce simp: entry_less_def entry_le_def)

lemma entry_le_trans: "entry_le a b \<Longrightarrow> entry_le b c \<Longrightarrow> entry_le a c"
  by (auto simp: entry_le_def)

lemma entry_update:
  "map_of entry d = None \<or> map_of entry d = Some False \<and> m \<Longrightarrow> entry_less entry (AList.update d m entry)"
  by (auto simp: entry_less_def entry_le_def update_conv')

lemma merge_entry_le: "entry_le entry (fst (merge_entry defs entry c))"
proof (induction defs entry c rule: merge_entry.induct)
  case (2 d m defs entry c)
  show ?case
  proof (cases "map_of entry d")
    case None
    then have "entry_less entry (AList.update d m entry)" by (simp add: entry_update)
    then show ?thesis using 2(1) [OF None] None by (auto intro: entry_le_trans simp: entry_less_def)
  next
    case (Some e)
    show ?thesis
    proof (cases "\<not> e \<and> m")
      case True
      then have "entry_less entry (AList.update d True entry)" using Some by (simp add: entry_update)
      then show ?thesis using 2(2) [OF Some True] Some True by (auto intro: entry_le_trans simp: entry_less_def)
    next
      case False
      then show ?thesis using 2(3) [OF Some False] Some by auto
    qed
  qed
qed (simp add: entry_le_def)

lemma merge_entry_less: "snd (merge_entry defs entry c) \<Longrightarrow> \<not> c \<Longrightarrow> entry_less entry (fst (merge_entry defs entry c))"
proof (induction defs entry c rule: merge_entry.induct)
  case (2 d m defs entry c)
  show ?case
  proof (cases "map_of entry d")
    case None
    then have "entry_less entry (AList.update d m entry)" by (simp add: entry_update)
    then show ?thesis using None merge_entry_le entry_less_le by simp
  next
    case (Some e)
    show ?thesis
    proof (cases "\<not> e \<and> m")
      case True
      then have "entry_less entry (AList.update d True entry)" using Some by (simp add: entry_update)
      then show ?thesis using True Some merge_entry_le entry_less_le by simp
    next
      case False
      then show ?thesis using 2(3) [OF Some False] 2(4,5) Some by auto
    qed
  qed
qed simp

lemma merge_var_facts:
  assumes "merge_var edge (x, ds) block c = (block', c')"
  shows "facts block \<subseteq> facts block'" and "c' \<Longrightarrow> \<not> c \<Longrightarrow> facts block \<subset> facts block'"
proof -
  obtain entry c1 where e: "(case map_of (b_defs block) x of
      Some entry \<Rightarrow> merge_entry ds entry c | None \<Rightarrow> (ds, True)) = (entry, c1)" by fastforce
  obtain lrv c2 where l: "loop_check edge x ds (b_loop_reaching_variables block) c1 = (lrv, c2)" by fastforce
  have b: "block' = block\<lparr>b_defs := AList.update x entry (b_defs block), b_loop_reaching_variables := lrv\<rparr>"
    and c': "c' = c2"
    using assms by (auto simp: merge_var_def e l)
  have lrv: "b_loop_reaching_variables block \<subseteq> lrv" "c2 \<Longrightarrow> \<not> c1 \<Longrightarrow> b_loop_reaching_variables block \<subset> lrv"
    using l by (auto simp: loop_check_def split: if_splits)
  have old: "entry_le old entry" "c1 \<Longrightarrow> \<not> c \<Longrightarrow> entry_less old entry" if "map_of (b_defs block) x = Some old" for old
    using e that merge_entry_le [of old ds c] merge_entry_less [of ds old c] by auto
  show sub: "facts block \<subseteq> facts block'"
    using lrv(1) old(1) by (intro facts_subsetI) (auto simp: facts_iff b update_conv' entry_le_def)
  assume ch: "c'" "\<not> c"
  show "facts block \<subset> facts block'"
  proof (cases c1)
    case True
    show ?thesis
    proof (cases "map_of (b_defs block) x")
      case None
      then have "Key x \<notin> facts block" "Key x \<in> facts block'" by (auto simp: facts_iff b update_conv')
      then show ?thesis using sub by blast
    next
      case (Some prev)
      from old(2) [OF Some True ch(2)] obtain d where
        "map_of prev d = None \<and> map_of entry d \<noteq> None \<or> map_of prev d = Some False \<and> map_of entry d = Some True"
        by (auto simp: entry_less_def)
      then have "(Reach x d \<notin> facts block \<and> Reach x d \<in> facts block') \<or>
          (Modified x d \<notin> facts block \<and> Modified x d \<in> facts block')"
        using Some by (auto simp: facts_iff b update_conv')
      then show ?thesis using sub by blast
    qed
  next
    case False
    then obtain v where "v \<in> lrv" "v \<notin> b_loop_reaching_variables block" using lrv ch c' by blast
    then have "Looped v \<in> facts block'" "Looped v \<notin> facts block" by (auto simp: facts_iff b)
    then show ?thesis using sub by blast
  qed
qed

lemma merge_vars_facts:
  "merge_vars edge vars block c = (block', c') \<Longrightarrow>
   facts block \<subseteq> facts block' \<and> (c' \<and> \<not> c \<longrightarrow> facts block \<subset> facts block')"
proof (induction vars arbitrary: block c)
  case (Cons xd vars)
  obtain mid c1 where m: "merge_var edge xd block c = (mid, c1)" by fastforce
  then have r: "merge_vars edge vars mid c1 = (block', c')" using Cons.prems by (simp add: merge_vars_Cons)
  have "facts block \<subseteq> facts mid" "c1 \<Longrightarrow> \<not> c \<Longrightarrow> facts block \<subset> facts mid"
    using merge_var_facts [of edge "fst xd" "snd xd" block c mid c1] m by auto
  with Cons.IH [OF r] show ?case by (cases c1) auto
qed simp

section \<open>A finite universe\<close>

text \<open>The variables \<open>V\<close> and definitions \<open>D\<close> that the transfers mention.\<close>

definition transfer_in :: "nat set \<Rightarrow> Def set \<Rightarrow> Transfer \<Rightarrow> bool" where
  "transfer_in V D t = (case t of Gen d v \<Rightarrow> v \<in> V \<and> d \<in> D | Copy v _ \<Rightarrow> v \<in> V | _ \<Rightarrow> True)"

definition defs_in :: "nat set \<Rightarrow> Def set \<Rightarrow> VarDefs \<Rightarrow> bool" where
  "defs_in V D vars \<longleftrightarrow> wf_defs vars \<and> (\<forall>v ds. map_of vars v = Some ds \<longrightarrow> v \<in> V \<and> fst ` set ds \<subseteq> D)"

definition block_in :: "nat set \<Rightarrow> Def set \<Rightarrow> BasicBlock \<Rightarrow> bool" where
  "block_in V D b \<longleftrightarrow> defs_in V D (b_defs b) \<and> b_loop_reaching_variables b \<subseteq> V \<and>
     (\<forall>ts \<in> set (b_transfers b). \<forall>t \<in> set ts. transfer_in V D t)"

lemma defs_in_update: "defs_in V D vars \<Longrightarrow> v \<in> V \<Longrightarrow> wf_index_map ds \<Longrightarrow> fst ` set ds \<subseteq> D \<Longrightarrow>
    defs_in V D (AList.update v ds vars)"
  by (auto simp: defs_in_def wf_defs_update update_conv' split: if_splits)

lemma defs_in_transfer:
  assumes "defs_in V D vars" "transfer_in V D t"
  shows "defs_in V D (apply_transfer t vars)"
proof -
  have look: "v \<in> V \<and> wf_index_map ds \<and> fst ` set ds \<subseteq> D" if "map_of vars v = Some ds" for v ds
    using assms(1) that wf_defs_lookup [of vars v ds] by (auto simp: defs_in_def)
  have imap: "wf_index_map vars" using assms(1) by (simp add: defs_in_def wf_defs_def)
  show ?thesis
  proof (cases t)
    case (Kill v)
    have "wf_defs (swap_remove v vars)" using wf_apply_transfer [of vars "Kill v"] assms(1) by (simp add: defs_in_def)
    then show ?thesis using look imap Kill by (auto simp: defs_in_def imap.lookup_remove split: if_splits)
  next
    case (Mod v)
    show ?thesis
    proof (cases "map_of vars v")
      case (Some ds)
      have "fst ` set (map (\<lambda>(d, _). (d, True)) ds) = fst ` set ds" by force
      then show ?thesis using look [OF Some] Some Mod assms(1)
        by (simp add: defs_in_update wf_index_map_mod)
    qed (use Mod assms(1) in simp)
  next
    case (Copy v src)
    then show ?thesis using assms look [of src]
      by (auto simp: transfer_in_def intro!: defs_in_update split: option.split)
  next
    case (Gen d v)
    then have v: "v \<in> V" "d \<in> D" using assms(2) by (simp_all add: transfer_in_def)
    show ?thesis
    proof (cases "map_of vars v")
      case None
      have "wf_index_map [(d, False)]" by (simp add: wf_index_map_def)
      then show ?thesis using None Gen v assms(1) by (simp add: defs_in_update)
    next
      case (Some ds)
      then show ?thesis using look [OF Some] Gen v assms(1)
        by (simp add: defs_in_update imap.valid_insert dom_update)
    qed
  qed
qed

lemma defs_in_transfers:
  "defs_in V D vars \<Longrightarrow> \<forall>t \<in> set ts. transfer_in V D t \<Longrightarrow> defs_in V D (apply_transfers ts vars)"
  unfolding apply_transfers_def
  by (induction ts arbitrary: vars) (auto simp: defs_in_transfer simp del: apply_transfer.simps)

lemma defs_in_out: "block_in V D b \<Longrightarrow> defs_in V D (block_out b)"
proof -
  have "defs_in V D vars \<Longrightarrow> \<forall>ts \<in> set tss. \<forall>t \<in> set ts. transfer_in V D t \<Longrightarrow>
      defs_in V D (fold apply_transfers tss vars)" for tss vars
    by (induction tss arbitrary: vars) (auto simp: defs_in_transfers)
  then show "block_in V D b \<Longrightarrow> defs_in V D (block_out b)" by (simp add: block_in_def block_out_def)
qed

lemma block_in_merge:
  "merge_vars edge vars block c = (block', c') \<Longrightarrow> block_in V D block \<Longrightarrow>
   \<forall>(v, ds) \<in> set vars. v \<in> V \<and> wf_index_map ds \<and> fst ` set ds \<subseteq> D \<Longrightarrow> block_in V D block'"
proof (induction vars arbitrary: block c)
  case (Cons xd vars)
  obtain x ds where xd: "xd = (x, ds)" by fastforce
  obtain mid c1 where m: "merge_var edge (x, ds) block c = (mid, c1)" by fastforce
  have r: "merge_vars edge vars mid c1 = (block', c')" using Cons.prems(1) by (simp add: merge_vars_Cons xd m)
  have x: "x \<in> V" "wf_index_map ds" "fst ` set ds \<subseteq> D" using Cons.prems(3) by (auto simp: xd)
  have "fst ` set (case map_of (b_defs block) x of Some entry \<Rightarrow> fst (merge_entry ds entry c) | None \<Rightarrow> ds) \<subseteq> D \<and>
      wf_index_map (case map_of (b_defs block) x of Some entry \<Rightarrow> fst (merge_entry ds entry c) | None \<Rightarrow> ds)"
    using Cons.prems(2) x wf_defs_lookup [of "b_defs block" x]
    by (auto simp: block_in_def defs_in_def merge_entry_keys wf_merge_entry split: option.splits)
  then have "block_in V D mid" using m Cons.prems(2) x
    by (auto simp: merge_var_def block_in_def Let_def loop_check_def case_prod_beta intro!: defs_in_update
        split: option.splits if_splits)
  then show ?case using Cons.IH [OF r] Cons.prems(3) by simp
qed simp

lemma facts_finite:
  assumes "finite V" "finite D"
  defines "U \<equiv> Key ` V \<union> (\<lambda>(v, d). Reach v d) ` (V \<times> D) \<union> (\<lambda>(v, d). Modified v d) ` (V \<times> D) \<union> Looped ` V"
  shows "finite U" and "block_in V D b \<Longrightarrow> facts b \<subseteq> U"
proof -
  show "finite U" using assms(1,2) by (simp add: U_def)
  assume b: "block_in V D b"
  have v: "v \<in> V" if "map_of (b_defs b) v = Some ds" for v ds
    using b that by (simp add: block_in_def defs_in_def)
  have d: "d \<in> D" if "map_of (b_defs b) v = Some ds" "map_of ds d = Some m" for v ds d m
  proof -
    have "fst ` set ds \<subseteq> D" using b that(1) by (simp add: block_in_def defs_in_def)
    moreover have "d \<in> fst ` set ds" using map_of_SomeD [OF that(2)] by (metis fst_conv image_eqI)
    ultimately show ?thesis by blast
  qed
  have l: "b_loop_reaching_variables b \<subseteq> V" using b by (simp add: block_in_def)
  show "facts b \<subseteq> U" unfolding facts_def U_def using v d l by auto
qed

section \<open>The loop ends\<close>

definition total :: "BasicBlock list \<Rightarrow> nat" where
  "total blocks = (\<Sum>b \<leftarrow> blocks. card (facts b))"

lemma total_update:
  assumes "e < length blocks" "finite (facts b)" "facts (blocks ! e) \<subseteq> facts b"
  shows "total blocks \<le> total (blocks[e := b])"
    and "facts (blocks ! e) \<subset> facts b \<Longrightarrow> total blocks < total (blocks[e := b])"
proof -
  have split: "total (blocks[e := x]) = card (facts x) + (total (take e blocks) + total (drop (Suc e) blocks))" for x
    using assms(1) by (simp add: total_def upd_conv_take_nth_drop)
  have old: "total blocks = card (facts (blocks ! e)) + (total (take e blocks) + total (drop (Suc e) blocks))"
    using split [of "blocks ! e"] by simp
  show "total blocks \<le> total (blocks[e := b])"
    unfolding split old using card_mono [OF assms(2,3)] by simp
  show "total blocks < total (blocks[e := b])" if "facts (blocks ! e) \<subset> facts b"
    unfolding split old using psubset_card_mono [OF assms(2) that] by simp
qed

text \<open>One round: all successors exist; the blocks grow, strictly when the worklist does.\<close>

definition wf_graph :: "nat set \<Rightarrow> Def set \<Rightarrow> BasicBlock list \<Rightarrow> bool" where
  "wf_graph V D blocks \<longleftrightarrow> (\<forall>b \<in> set blocks. block_in V D b) \<and>
     (\<forall>b \<in> set blocks. \<exists>es. successors b = Some es \<and> (\<forall>e \<in> set es. e < length blocks))"

lemma wf_graph_update:
  assumes "wf_graph V D blocks" "e < length blocks" "block_in V D b" "b_instr b = b_instr (blocks ! e)"
  shows "wf_graph V D (blocks[e := b])"
proof -
  have "successors b = successors (blocks ! e)" using assms(4) by (rule successors_cong)
  moreover have "blocks ! e \<in> set blocks" using assms(2) by simp
  ultimately show ?thesis using assms(1,3)
    by (auto simp: wf_graph_def dest!: set_update_subset_insert [THEN subsetD])
qed

lemma merge_edges_step:
  assumes "finite V" "finite D" "wf_graph V D blocks" "defs_in V D vars" "\<forall>e \<in> set edges. e < length blocks"
  shows "\<exists>blocks' todo'. merge_edges vars edges blocks todo = Some (blocks', todo') \<and>
    wf_graph V D blocks' \<and> length blocks' = length blocks \<and> todo' \<subseteq> todo \<union> {..< length blocks} \<and>
    (todo' = todo \<and> total blocks \<le> total blocks' \<or> total blocks < total blocks')"
  using assms(3,5)
proof (induction edges arbitrary: blocks todo)
  case (Cons e edges)
  then have e: "e < length blocks" by simp
  show ?case
  proof (cases "var_defs_eq (b_defs (blocks ! e)) vars")
    case True
    then show ?thesis using Cons.IH [OF Cons.prems(1), of todo] Cons.prems(2) e by (simp add: vec_get_def)
  next
    case False
    obtain b ch where m: "merge_vars e vars (blocks ! e) False = (b, ch)" by fastforce
    have be: "block_in V D (blocks ! e)" using Cons.prems(1) e by (simp add: wf_graph_def)
    have vars: "\<forall>(v, ds) \<in> set vars. v \<in> V \<and> wf_index_map ds \<and> fst ` set ds \<subseteq> D"
      using assms(4) by (force simp: defs_in_def wf_defs_def wf_index_map_def dest: map_of_is_SomeI)
    have b: "block_in V D b" by (rule block_in_merge [OF m be vars])
    have fin: "finite (facts b)" using facts_finite [OF assms(1,2)] b finite_subset by blast
    have ins: "b_instr b = b_instr (blocks ! e)"
      using merge_vars_effect [OF m] assms(4) by (simp add: defs_in_def)
    have f: "facts (blocks ! e) \<subseteq> facts b" "ch \<Longrightarrow> facts (blocks ! e) \<subset> facts b"
      using merge_vars_facts [OF m] by auto
    note tot = total_update [OF e fin f(1)]
    have "wf_graph V D (blocks[e := b])" by (rule wf_graph_update [OF Cons.prems(1) e b ins])
    moreover have "\<forall>x \<in> set edges. x < length (blocks[e := b])" using Cons.prems(2) by simp
    ultimately obtain blocks' todo' where
      "merge_edges vars edges (blocks[e := b]) (if ch then insert e todo else todo) = Some (blocks', todo')"
      "wf_graph V D blocks'" "length blocks' = length blocks"
      "todo' \<subseteq> (if ch then insert e todo else todo) \<union> {..< length blocks}"
      "todo' = (if ch then insert e todo else todo) \<and> total (blocks[e := b]) \<le> total blocks' \<or>
       total (blocks[e := b]) < total blocks'"
      using Cons.IH [of "blocks[e := b]" "if ch then insert e todo else todo"] by auto
    then show ?thesis using tot f(2) e False m by (cases ch) (auto simp: vec_get_def)
  qed
qed auto

lemma find_loop_ends:
  assumes "finite V" "finite D" and pick: "\<And>S. finite S \<Longrightarrow> S \<noteq> {} \<Longrightarrow> pick S \<in> S"
    and "wf_graph V D blocks" "todo \<subseteq> {..< length blocks}"
  shows "\<exists>blocks'. find_loop pick (blocks, todo) = Some blocks'"
proof -
  let ?U = "Key ` V \<union> (\<lambda>(v, d). Reach v d) ` (V \<times> D) \<union> (\<lambda>(v, d). Modified v d) ` (V \<times> D) \<union> Looped ` V"
  have le: "total blocks \<le> length blocks * card ?U" if "wf_graph V D blocks" for blocks
  proof -
    have "card (facts b) \<le> card ?U" if "b \<in> set blocks" for b
      using facts_finite [OF assms(1,2)] that \<open>wf_graph V D blocks\<close> by (simp add: card_mono wf_graph_def)
    then show ?thesis unfolding total_def
      by (induction blocks) (simp_all add: add_mono)
  qed
  let ?m = "\<lambda>(blocks, todo). (length blocks * card ?U - total blocks) * Suc (length blocks) + card (todo :: nat set)"
  show ?thesis using assms(4,5)
  proof (induction "(blocks, todo)" arbitrary: blocks todo rule: measure_induct_rule [where f = ?m])
    case less
    show ?case
    proof (cases "todo = {}")
      case True
      then show ?thesis by (subst find_loop.simps) simp
    next
      case False
      have fin: "finite todo" using less.prems(2) finite_subset by blast
      have p: "pick todo \<in> todo" "pick todo < length blocks" using pick [OF fin False] less.prems(2) by auto
      then obtain es where es: "successors (blocks ! pick todo) = Some es" "\<forall>e \<in> set es. e < length blocks"
        and bin: "block_in V D (blocks ! pick todo)"
        using less.prems(1) unfolding wf_graph_def by (meson nth_mem)
      obtain blocks' todo' where step: "merge_edges (block_out (blocks ! pick todo)) es blocks (todo - {pick todo}) =
          Some (blocks', todo')" and wf: "wf_graph V D blocks'" and len: "length blocks' = length blocks"
        and sub: "todo' \<subseteq> (todo - {pick todo}) \<union> {..< length blocks}"
        and prog: "todo' = todo - {pick todo} \<and> total blocks \<le> total blocks' \<or> total blocks < total blocks'"
        using merge_edges_step [OF assms(1,2) less.prems(1) defs_in_out [OF bin] es(2)] by blast
      have t': "todo' \<subseteq> {..< length blocks'}" using sub less.prems(2) len by auto
      then have card': "card todo' \<le> length blocks" using card_mono [of "{..< length blocks}" todo'] len by simp
      have c1: "card (todo - {pick todo}) < card todo" using fin p(1) by (rule card_Diff1_less)
      have "?m (blocks', todo') < ?m (blocks, todo)"
      proof (cases "todo' = todo - {pick todo}")
        case True
        then have "length blocks * card ?U - total blocks' \<le> length blocks * card ?U - total blocks"
          using prog by auto
        then have "(length blocks * card ?U - total blocks') * Suc (length blocks) \<le>
            (length blocks * card ?U - total blocks) * Suc (length blocks)" by (rule mult_le_mono1)
        then show ?thesis using True c1 len by simp
      next
        case False
        then have "total blocks < total blocks'" using prog by blast
        moreover have "total blocks' \<le> length blocks * card ?U" using le [OF wf] len by simp
        ultimately have "Suc (length blocks * card ?U - total blocks') \<le> length blocks * card ?U - total blocks" by linarith
        then have "Suc (length blocks * card ?U - total blocks') * Suc (length blocks) \<le>
            (length blocks * card ?U - total blocks) * Suc (length blocks)" by (rule mult_le_mono1)
        then show ?thesis using card' len by simp
      qed
      from less.hyps [OF this wf t'] obtain r where "find_loop pick (blocks', todo') = Some r" by blast
      then show ?thesis using False p(2) es(1) step
        by (simp add: find_loop.simps [of pick "(blocks, todo)"] find_block_def vec_get_def)
    qed
  qed
qed

definition transfer_vars :: "Transfer \<Rightarrow> nat set" where
  "transfer_vars t = (case t of Gen _ v \<Rightarrow> {v} | Copy v _ \<Rightarrow> {v} | _ \<Rightarrow> {})"

definition transfer_defs :: "Transfer \<Rightarrow> Def set" where
  "transfer_defs t = (case t of Gen d _ \<Rightarrow> {d} | _ \<Rightarrow> {})"

text \<open>
  C14: the analysis terminates. For a graph whose blocks end in their only terminator and whose edges
  stay in the graph, the worklist iteration ends with a result, in whatever order the blocks are
  taken from the worklist.
\<close>

theorem reaching_definitions_terminates:
  assumes "\<forall>S. finite S \<longrightarrow> S \<noteq> {} \<longrightarrow> pick S \<in> S" and "cfg_blocks cfg \<noteq> []"
    and "\<forall>b \<in> set (cfg_blocks cfg). b_defs b = [] \<and> b_loop_reaching_variables b = {} \<and>
      (\<exists>es. successors b = Some es \<and> (\<forall>e \<in> set es. e < length (cfg_blocks cfg)))"
  shows "\<exists>cfg'. find_definitions pick cfg = Some cfg'"
proof -
  let ?bs = "with_transfers (cfg_blocks cfg)"
  let ?ts = "\<Union>b \<in> set ?bs. \<Union>ts \<in> set (b_transfers b). set ts"
  define V where "V = (\<Union>t \<in> ?ts. transfer_vars t)"
  define D where "D = (\<Union>t \<in> ?ts. transfer_defs t)"
  have fin: "finite V" "finite D"
    by (auto simp: V_def D_def transfer_vars_def transfer_defs_def split: Transfer.splits)
  have tr: "transfer_in V D t" if "t \<in> ?ts" for t
  proof -
    have "transfer_vars t \<subseteq> V" "transfer_defs t \<subseteq> D" using that unfolding V_def D_def by blast+
    then show ?thesis by (cases t) (auto simp: transfer_in_def transfer_vars_def transfer_defs_def)
  qed
  have same: "b_defs b = [] \<and> b_loop_reaching_variables b = {} \<and>
      (\<exists>es. successors b = Some es \<and> (\<forall>e \<in> set es. e < length ?bs))" if b: "b \<in> set ?bs" for b
  proof -
    obtain i where i: "i < length (cfg_blocks cfg)" "b = ?bs ! i" using b by (auto simp: in_set_conv_nth)
    have "successors b = successors (cfg_blocks cfg ! i)"
      by (rule successors_cong) (simp add: i nth_with_transfers)
    then show ?thesis using assms(3) nth_mem [OF i(1)] by (simp add: i nth_with_transfers)
  qed
  have "wf_graph V D ?bs"
    unfolding wf_graph_def block_in_def
  proof (intro conjI ballI)
    fix b assume b: "b \<in> set ?bs"
    show "defs_in V D (b_defs b)" "b_loop_reaching_variables b \<subseteq> V"
      "\<exists>es. successors b = Some es \<and> (\<forall>e \<in> set es. e < length ?bs)"
      using same [OF b] by (simp_all add: defs_in_def)
    show "transfer_in V D t" if "ts \<in> set (b_transfers b)" "t \<in> set ts" for ts t
      using b that by (intro tr) blast
  qed
  moreover have "{0} \<subseteq> {..< length ?bs}" using assms(2) by simp
  ultimately obtain r where "find_loop pick (?bs, {0}) = Some r"
    using find_loop_ends [OF fin] assms(1) by blast
  then show ?thesis by (simp add: find_definitions_def)
qed

theorem reaching_definitions_terminates_witness:
  "\<exists>cfg'. find_definitions Max branch_cfg = Some cfg'"
  by (rule reaching_definitions_terminates)
     (auto simp: branch_cfg_def sample_block_def placeholder_def successors_def)

end
