(* ===== verification/Constfold.thy ===== *)
theory Constfold
  imports Reaching "HOL-Library.Signed_Division"
begin

text \<open>
  Constant folding (\<open>src/codegen/constant_folding.rs\<close>) with the range check it shares
  with the type checker (\<open>overflow_diagnostic\<close> of \<open>src/sema/eval.rs\<close>).

  Each folding function of the source calls \<open>expression\<close> on its operands. Here it takes
  those calls as arguments, as computations that thread the namespace: \<open>add_fold\<close> applied to
  \<open>expression left\<close> and \<open>expression right\<close> runs them in the order of the source.
  A folded expression comes with the flag that says whether it is constant.

  The arbitrary precision integers and the hash functions are the parameter \<open>C\<close>
  (\<open>crates\<close>).
\<close>

type_synonym 'a folding = "Namespace \<Rightarrow> ('a \<times> Namespace) option"
type_synonym folded = "Expression \<times> bool"

section \<open>Range check\<close>

definition overflow_diagnostic :: "crates \<Rightarrow> int \<Rightarrow> Type \<Rightarrow> Loc \<Rightarrow> Diagnostic option" where
  "overflow_diagnostic C result ty loc =
     (if bigint_bits C result > 1024 then (case ty of
         Type.Uint w \<Rightarrow>
           (if result < 0 then Some (error_diagnostic loc
              (''large negative value does not fit into type uint'' @ dec_nat w @
               ''. Cannot implicitly convert signed literal to unsigned type.''))
            else if bigint_bits C result > w then Some (error_diagnostic loc
              (''value is too large to fit into type uint'' @ dec_nat w))
            else None)
       | Type.Int w \<Rightarrow>
           (if length (to_signed_bytes_le C result) * 8 > w then Some (error_diagnostic loc
              (''value is too large to fit into type int'' @ dec_nat w))
            else None)
       | _ \<Rightarrow> None)
     else (case ty of
         Type.Uint w \<Rightarrow>
           (if result < 0 then Some (error_diagnostic loc
              (''negative value '' @ dec_int result @ '' does not fit into type uint'' @ dec_nat w @
               ''. Cannot implicitly convert signed literal to unsigned type.''))
            else if bigint_bits C result > w then Some (error_diagnostic loc
              (''value '' @ dec_int result @ '' does not fit into type uint'' @ dec_nat w @ ''.''))
            else None)
       | Type.Int w \<Rightarrow>
           (if length (to_signed_bytes_le C result) * 8 > w then Some (error_diagnostic loc
              (''value '' @ dec_int result @ '' does not fit into type int'' @ dec_nat w @ ''.''))
            else None)
       | _ \<Rightarrow> None))"

text \<open>The value a literal of the type gets; other types are unreachable.\<close>

definition wrap_value :: "crates \<Rightarrow> Type \<Rightarrow> int \<Rightarrow> int option" where
  "wrap_value C ty v = (case ty of
       Type.Uint w \<Rightarrow> Some
         (if v < 0 then from_bytes_le C (vec_resize (to_signed_bytes_le C v) (w div 8) 0xff)
          else if bigint_bits C v > w then from_bytes_le C (vec_truncate (to_bytes_le C v) (w div 8))
          else v)
     | Type.Int w \<Rightarrow> Some
         (let bs = to_signed_bytes_le C v
          in if length bs * 8 > w then from_signed_bytes_le C (vec_truncate bs (w div 8)) else v)
     | Type.StorageRef _ _ \<Rightarrow> Some v
     | _ \<Rightarrow> None)"

definition bigint_to_expression ::
  "crates \<Rightarrow> Loc \<Rightarrow> Type \<Rightarrow> int \<Rightarrow> bool \<Rightarrow> folded folding" where
  "bigint_to_expression C loc ty v overflowing ns =
     (let ns = (if overflowing then ns
                else case overflow_diagnostic C v ty loc of Some d \<Rightarrow> push_ns ns d | None \<Rightarrow> ns)
      in map_option (\<lambda>v. ((Expression.NumberLiteral loc ty v, True), ns)) (wrap_value C ty v))"

section \<open>Operators\<close>

text \<open>The value of a number literal.\<close>

definition number :: "Expression \<Rightarrow> int option" where
  "number e = (case e of Expression.NumberLiteral _ _ v \<Rightarrow> Some v | _ \<Rightarrow> None)"

definition binary_fold ::
  "folded folding \<Rightarrow> folded folding \<Rightarrow> (Expression \<Rightarrow> Expression \<Rightarrow> Expression) \<Rightarrow>
   (int \<Rightarrow> int \<Rightarrow> folded folding) \<Rightarrow> folded folding" where
  "binary_fold left right rebuild op ns = do {
     (l, ns) \<leftarrow> left ns;
     (r, ns) \<leftarrow> right ns;
     (case (number (fst l), number (fst r)) of
        (Some lv, Some rv) \<Rightarrow> op lv rv ns
      | _ \<Rightarrow> Some ((rebuild (fst l) (fst r), snd l \<and> snd r), ns)) }"

definition add_fold where
  "add_fold C loc ty overflowing left right =
     binary_fold left right (Expression.Add loc ty overflowing)
       (\<lambda>l r. bigint_to_expression C loc ty (l + r) overflowing)"

definition subtract_fold where
  "subtract_fold C loc ty overflowing left right =
     binary_fold left right (Expression.Subtract loc ty overflowing)
       (\<lambda>l r. bigint_to_expression C loc ty (l - r) overflowing)"

definition multiply_fold where
  "multiply_fold C loc ty overflowing left right =
     binary_fold left right (Expression.Multiply loc ty overflowing)
       (\<lambda>l r. bigint_to_expression C loc ty (l * r) overflowing)"

definition advance_pointer :: "Expression \<Rightarrow> folded folding \<Rightarrow> folded folding" where
  "advance_pointer pointer offset ns = do {
     (off, ns) \<leftarrow> offset ns;
     Some (if number (fst off) = Some 0 then (pointer, False)
           else (Expression.AdvancePointer pointer (fst off), snd off), ns) }"

definition bitwise_and_fold where
  "bitwise_and_fold C loc ty left right =
     binary_fold left right (Expression.BitwiseAnd loc ty)
       (\<lambda>l r. bigint_to_expression C loc ty (and l r) True)"

definition bitwise_or_fold where
  "bitwise_or_fold C loc ty left right =
     binary_fold left right (Expression.BitwiseOr loc ty)
       (\<lambda>l r. bigint_to_expression C loc ty (or l r) True)"

definition bitwise_xor_fold where
  "bitwise_xor_fold C loc ty left right =
     binary_fold left right (Expression.BitwiseXor loc ty)
       (\<lambda>l r. bigint_to_expression C loc ty (xor l r) True)"

text \<open>
  The shifts: \<open>left_expr\<close> is the operand before folding, whose type gives the number of
  bits. \<open>shl\<close> multiplies, \<open>shr\<close> rounds towards minus infinity.
\<close>

definition shift_fold ::
  "string \<Rightarrow> Expression \<Rightarrow> Loc \<Rightarrow> (Expression \<Rightarrow> Expression \<Rightarrow> Expression) \<Rightarrow>
   (int \<Rightarrow> nat \<Rightarrow> folded folding) \<Rightarrow> folded folding \<Rightarrow> folded folding \<Rightarrow> folded folding" where
  "shift_fold direction left_expr loc rebuild op left right ns = do {
     (l, ns) \<leftarrow> left ns;
     (r, ns) \<leftarrow> right ns;
     (case (number (fst l), number (fst r)) of
        (Some lv, Some rv) \<Rightarrow> do {
          ty \<leftarrow> expr_ty left_expr;
          w \<leftarrow> bits ns ty;
          if rv < 0 \<or> int w \<le> rv then
            Some ((rebuild (fst l) (fst r), snd l \<and> snd r),
                  push_ns ns (error_diagnostic loc (direction @ '' shift by '' @ dec_int rv @ '' is not possible'')))
          else op lv (nat rv) ns }
      | _ \<Rightarrow> Some ((rebuild (fst l) (fst r), snd l \<and> snd r), ns)) }"

definition shift_left_fold where
  "shift_left_fold C loc ty left_expr left right =
     shift_fold ''left'' left_expr loc (Expression.ShiftLeft loc ty)
       (\<lambda>l n. bigint_to_expression C loc ty (l * 2 ^ n) True) left right"

definition shift_right_fold where
  "shift_right_fold C loc ty left_expr is_signed left right =
     shift_fold ''right'' left_expr loc (\<lambda>l r. Expression.ShiftRight loc ty l r is_signed)
       (\<lambda>l n. bigint_to_expression C loc ty (l div 2 ^ n) True) left right"

definition power_fold :: "crates \<Rightarrow> Loc \<Rightarrow> Type \<Rightarrow> bool \<Rightarrow> folded folding \<Rightarrow> folded folding \<Rightarrow> folded folding"
where
  "power_fold C loc ty overflowing base expo ns = do {
     (b, ns) \<leftarrow> base ns;
     (e, ns) \<leftarrow> expo ns;
     (let kept = (Expression.Power loc ty overflowing (fst b) (fst e), snd b \<and> snd e) in
      case (number (fst b), number (fst e)) of
        (Some l, Some r) \<Rightarrow>
          (if r < 0 \<or> 65535 \<le> r then
             Some (kept, push_ns ns (error_diagnostic loc (''power '' @ dec_int r @ '' not possible'')))
           else bigint_to_expression C loc ty (l ^ nat r) overflowing ns)
      | _ \<Rightarrow> Some (kept, ns)) }"

text \<open>
  Division and remainder: \<open>BigInt\<close> truncates towards zero. A zero divisor is reported even
  when the dividend is not constant.
\<close>

definition division_fold ::
  "crates \<Rightarrow> Loc \<Rightarrow> Type \<Rightarrow> (int \<Rightarrow> int \<Rightarrow> int) \<Rightarrow> (Expression \<Rightarrow> Expression \<Rightarrow> Expression) \<Rightarrow>
   folded folding \<Rightarrow> folded folding \<Rightarrow> folded folding" where
  "division_fold C loc ty op rebuild left right ns = do {
     (l, ns) \<leftarrow> left ns;
     (r, ns) \<leftarrow> right ns;
     (let kept = (rebuild (fst l) (fst r), snd l \<and> snd r) in
      case number (fst r) of
        None \<Rightarrow> Some (kept, ns)
      | Some rv \<Rightarrow>
          (if rv = 0 then Some (kept, push_ns ns (error_diagnostic loc ''divide by zero''))
           else case number (fst l) of
             None \<Rightarrow> Some (kept, ns)
           | Some lv \<Rightarrow> bigint_to_expression C loc ty (op lv rv) False ns)) }"

definition divide_fold where
  "divide_fold C loc ty left right is_signed =
     division_fold C loc ty (\<lambda>l r. l sdiv r)
       (if is_signed then Expression.SignedDivide loc ty else Expression.UnsignedDivide loc ty) left right"

definition modulo_fold where
  "modulo_fold C loc ty left right is_signed =
     division_fold C loc ty (\<lambda>l r. l smod r)
       (if is_signed then Expression.SignedModulo loc ty else Expression.UnsignedModulo loc ty) left right"

definition unary_fold ::
  "folded folding \<Rightarrow> (Expression \<Rightarrow> Expression) \<Rightarrow> (int \<Rightarrow> folded folding) \<Rightarrow> folded folding" where
  "unary_fold arg rebuild op ns = do {
     (e, ns) \<leftarrow> arg ns;
     (case number (fst e) of
        Some v \<Rightarrow> op v ns
      | None \<Rightarrow> Some ((rebuild (fst e), snd e), ns)) }"

definition zero_ext_fold where
  "zero_ext_fold loc ty arg =
     unary_fold arg (Expression.ZeroExt loc ty) (\<lambda>v ns. Some ((Expression.NumberLiteral loc ty v, True), ns))"

definition sign_ext_fold where
  "sign_ext_fold loc ty arg =
     unary_fold arg (Expression.SignExt loc ty) (\<lambda>v ns. Some ((Expression.NumberLiteral loc ty v, True), ns))"

definition trunc_fold where
  "trunc_fold C loc ty arg =
     unary_fold arg (Expression.Trunc loc ty) (\<lambda>v. bigint_to_expression C loc ty v True)"

definition bitwise_not_fold where
  "bitwise_not_fold C loc ty arg =
     unary_fold arg (Expression.BitwiseNot loc ty) (\<lambda>v. bigint_to_expression C loc ty (not v) True)"

definition negate_fold where
  "negate_fold C loc ty arg overflowing =
     unary_fold arg (Expression.Negate loc ty overflowing) (\<lambda>v. bigint_to_expression C loc ty (- v) overflowing)"

section \<open>Hashes\<close>

definition hash_bytes :: "crates \<Rightarrow> Builtin \<Rightarrow> u8 list \<Rightarrow> u8 list option" where
  "hash_bytes C kind bs = (case kind of
       Builtin.Keccak256 \<Rightarrow> Some (keccak256 C bs)
     | Builtin.Ripemd160 \<Rightarrow> Some (ripemd160 C bs)
     | Builtin.Blake2_256 \<Rightarrow> Some (blake2b C 32 bs)
     | Builtin.Blake2_128 \<Rightarrow> Some (blake2b C 16 bs)
     | Builtin.Sha256 \<Rightarrow> Some (sha256 C bs)
     | _ \<Rightarrow> None)"

definition is_hash :: "Builtin \<Rightarrow> bool" where
  "is_hash kind = (case kind of Builtin.Keccak256 \<Rightarrow> True | Builtin.Ripemd160 \<Rightarrow> True
     | Builtin.Blake2_256 \<Rightarrow> True | Builtin.Blake2_128 \<Rightarrow> True | Builtin.Sha256 \<Rightarrow> True | _ \<Rightarrow> False)"

text \<open>The initial value of an allocation.\<close>

definition init_bytes :: "Expression \<Rightarrow> u8 list option" where
  "init_bytes e = (case e of Expression.AllocDynamicBytes _ _ _ init \<Rightarrow> init | _ \<Rightarrow> None)"

definition builtin_hash ::
  "crates \<Rightarrow> Loc \<Rightarrow> Type list \<Rightarrow> Builtin \<Rightarrow> folded folding list \<Rightarrow> folded folding" where
  "builtin_hash C loc tys kind args ns = do {
     arg \<leftarrow> vec_get args 0;
     (e, ns) \<leftarrow> arg ns;
     (case init_bytes (fst e) of
        Some bs \<Rightarrow> do {
          hash \<leftarrow> hash_bytes C kind bs;
          ty \<leftarrow> vec_get tys 0;
          Some ((Expression.BytesLiteral loc ty hash, True), ns) }
      | None \<Rightarrow> Some ((Expression.Builtin loc tys kind [fst e], False), ns)) }"

text \<open>The loop of the \<open>Bytes\<close> arm, as the source has it.\<close>

partial_function (option) insert_zeros :: "nat \<Rightarrow> u8 list \<Rightarrow> u8 list option" where
  "insert_zeros n bs = (if n < length bs then insert_zeros n (0 # bs) else Some bs)"

declare insert_zeros.simps [code]

text \<open>The bytes an argument of \<open>keccak_256\<close> adds to the hash; the inner option is whether it is constant.\<close>

definition keccak_arg :: "crates \<Rightarrow> Namespace \<Rightarrow> Expression \<Rightarrow> u8 list option option" where
  "keccak_arg C ns e = (case e of
       Expression.BytesLiteral _ _ bs \<Rightarrow> Some (Some bs)
     | Expression.AllocDynamicBytes _ _ _ init \<Rightarrow> Some init
     | Expression.NumberLiteral _ ty v \<Rightarrow>
         (let bs = to_bytes_le C v in
          map_option Some (case ty of
            Type.Enum _ \<Rightarrow> Some (vec_resize bs 1 0)
          | Type.Uint w \<Rightarrow> Some (vec_resize bs (w div 8) 0)
          | Type.Int w \<Rightarrow> Some (vec_resize bs (w div 8) (if v < 0 then 0xff else 0))
          | Type.Bytes n \<Rightarrow> insert_zeros n bs
          | Type.Address _ \<Rightarrow> Some (vec_resize bs (address_length ns) 0)
          | _ \<Rightarrow> None))
     | _ \<Rightarrow> Some None)"

text \<open>The hashed bytes; arguments after the first that is not constant are not looked at.\<close>

fun keccak_args :: "crates \<Rightarrow> Namespace \<Rightarrow> Expression list \<Rightarrow> u8 list \<Rightarrow> u8 list option option" where
  "keccak_args C ns [] acc = Some (Some acc)"
| "keccak_args C ns (e # es) acc = (case keccak_arg C ns e of
       None \<Rightarrow> None
     | Some None \<Rightarrow> Some None
     | Some (Some bs) \<Rightarrow> keccak_args C ns es (acc @ bs))"

definition keccak_256 :: "crates \<Rightarrow> Loc \<Rightarrow> Type \<Rightarrow> folded folding list \<Rightarrow> folded folding" where
  "keccak_256 C loc ty args ns = do {
     (es, ns) \<leftarrow> seq_st args ns;
     constant \<leftarrow> keccak_args C ns (map fst es) [];
     Some (case constant of
        Some bs \<Rightarrow> (Expression.BytesLiteral loc ty (rev (keccak256 C bs)), True)
      | None \<Rightarrow> (Expression.Keccak256 loc ty (map fst es), False), ns) }"

section \<open>The remaining expressions\<close>

text \<open>Expressions that are only rebuilt from their folded operands.\<close>

definition rebuild1 :: "folded folding \<Rightarrow> (Expression \<Rightarrow> Expression) \<Rightarrow> folded folding" where
  "rebuild1 arg rebuild ns = do { (e, ns) \<leftarrow> arg ns; Some ((rebuild (fst e), False), ns) }"

definition rebuild2 ::
  "folded folding \<Rightarrow> folded folding \<Rightarrow> (Expression \<Rightarrow> Expression \<Rightarrow> Expression) \<Rightarrow> folded folding" where
  "rebuild2 left right rebuild ns = do {
     (l, ns) \<leftarrow> left ns; (r, ns) \<leftarrow> right ns; Some ((rebuild (fst l) (fst r), False), ns) }"

definition rebuild_list :: "folded folding list \<Rightarrow> (Expression list \<Rightarrow> Expression) \<Rightarrow> folded folding" where
  "rebuild_list args rebuild ns = do {
     (es, ns) \<leftarrow> seq_st args ns; Some ((rebuild (map fst es), False), ns) }"

text \<open>One function of the source for each.\<close>

definition struct_literal_fold where
  "struct_literal_fold loc ty args = rebuild_list args (Expression.StructLiteral loc ty)"

definition array_literal_fold where
  "array_literal_fold loc ty dimensions args = rebuild_list args (Expression.ArrayLiteral loc ty dimensions)"

definition const_array_literal_fold where
  "const_array_literal_fold loc ty dimensions args =
     rebuild_list args (Expression.ConstArrayLiteral loc ty dimensions)"

definition load_fold where
  "load_fold loc ty arg = rebuild1 arg (Expression.Load loc ty)"

definition cast_fold where
  "cast_fold loc ty arg = rebuild1 arg (Expression.Cast loc ty)"

definition more_fold where
  "more_fold loc is_signed left right = rebuild2 left right (Expression.More loc is_signed)"

definition less_fold where
  "less_fold loc is_signed left right = rebuild2 left right (Expression.Less loc is_signed)"

definition more_equal_fold where
  "more_equal_fold loc is_signed left right = rebuild2 left right (Expression.MoreEqual loc is_signed)"

definition less_equal_fold where
  "less_equal_fold loc is_signed left right = rebuild2 left right (Expression.LessEqual loc is_signed)"

definition subscript_fold where
  "subscript_fold loc ty array_ty array index = rebuild2 array index (Expression.Subscript loc ty array_ty)"

definition struct_member_fold where
  "struct_member_fold loc ty arg member = rebuild1 arg (\<lambda>e. Expression.StructMember loc ty e member)"

definition storage_array_length_fold where
  "storage_array_length_fold loc ty array elem = rebuild1 array (\<lambda>e. Expression.StorageArrayLength loc ty e elem)"

function pad_front :: "nat \<Rightarrow> u8 list \<Rightarrow> u8 list" where
  "pad_front n bs = (if length bs < n then pad_front n (0 # bs) else bs)"
  by pat_completeness auto
termination
  by (relation "measure (\<lambda>(n, bs). n - length bs)") auto

declare pad_front.simps [simp del]

definition bytes_cast_fold :: "crates \<Rightarrow> Loc \<Rightarrow> Type \<Rightarrow> Type \<Rightarrow> folded folding \<Rightarrow> folded folding" where
  "bytes_cast_fold C loc to from arg ns = do {
     (e, ns) \<leftarrow> arg ns;
     (let kept = Expression.BytesCast loc to from (fst e) in
      Some (case fst e of
        Expression.NumberLiteral l ty v \<Rightarrow> (case ty of
            Type.Bytes len \<Rightarrow>
              (Expression.AllocDynamicBytes l Type.DynamicBytes
                 (Expression.NumberLiteral l (Type.Uint 32) (int len))
                 (Some (pad_front len (rev (to_bytes_le C v)))), False)
          | _ \<Rightarrow> (kept, False))
      | _ \<Rightarrow> (kept, False), ns)) }"

definition bytes_literal :: "Expression \<Rightarrow> u8 list option" where
  "bytes_literal e = (case e of Expression.BytesLiteral _ _ bs \<Rightarrow> Some bs | _ \<Rightarrow> None)"

definition equality_fold ::
  "Loc \<Rightarrow> (u8 list \<Rightarrow> u8 list \<Rightarrow> bool) \<Rightarrow> (Expression \<Rightarrow> Expression \<Rightarrow> Expression) \<Rightarrow>
   folded folding \<Rightarrow> folded folding \<Rightarrow> folded folding" where
  "equality_fold loc test rebuild left right ns = do {
     (l, ns) \<leftarrow> left ns;
     (r, ns) \<leftarrow> right ns;
     Some (case (bytes_literal (fst l), bytes_literal (fst r)) of
        (Some lb, Some rb) \<Rightarrow> (Expression.BoolLiteral loc (test lb rb), True)
      | _ \<Rightarrow> (rebuild (fst l) (fst r), False), ns) }"

definition equal_fold where
  "equal_fold loc left right = equality_fold loc (=) (Expression.Equal loc) left right"

definition not_equal_fold where
  "not_equal_fold loc left right = equality_fold loc (\<noteq>) (Expression.NotEqual loc) left right"

definition not_fold :: "Loc \<Rightarrow> folded folding \<Rightarrow> folded folding" where
  "not_fold loc arg ns = do { (e, ns) \<leftarrow> arg ns; Some ((Expression.Not loc (fst e), snd e), ns) }"

definition fold_string :: "folded folding StringLocation \<Rightarrow> Expression StringLocation folding" where
  "fold_string l ns = (case l of
       CompileTime bs \<Rightarrow> Some (CompileTime bs, ns)
     | RunTime f \<Rightarrow> do { (e, ns) \<leftarrow> f ns; Some (RunTime (fst e), ns) })"

definition string_compare ::
  "Loc \<Rightarrow> folded folding StringLocation \<Rightarrow> folded folding StringLocation \<Rightarrow> folded folding" where
  "string_compare loc left right ns = (case (left, right) of
       (CompileTime l, CompileTime r) \<Rightarrow> Some ((Expression.BoolLiteral loc (l = r), True), ns)
     | _ \<Rightarrow> do {
         (l, ns) \<leftarrow> fold_string left ns;
         (r, ns) \<leftarrow> fold_string right ns;
         Some ((Expression.StringCompare loc l r, False), ns) })"

text \<open>
  The loop of \<open>bytes_concat\<close> over the folded arguments: \<open>lst\<close> is the constant being
  collected, \<open>res\<close> the arguments before it.
\<close>

fun concat_args ::
  "Expression list \<Rightarrow> Expression option \<Rightarrow> Expression list \<Rightarrow> (Expression option \<times> Expression list) option" where
  "concat_args [] lst res = Some (lst, res)"
| "concat_args (e # es) lst res = (case init_bytes e of
       Some bs \<Rightarrow>
         (if bs = [] then concat_args es lst res
          else (case lst of
             Some (Expression.AllocDynamicBytes loc ty sz (Some init)) \<Rightarrow> (case sz of
                 Expression.NumberLiteral nl nty v \<Rightarrow>
                   concat_args es (Some (Expression.AllocDynamicBytes loc ty
                     (Expression.NumberLiteral nl nty (v + int (length bs))) (Some (init @ bs)))) res
               | _ \<Rightarrow> None)
           | _ \<Rightarrow> concat_args es (Some e) res))
     | None \<Rightarrow> concat_args es None (res @ (case lst of Some l \<Rightarrow> [l] | None \<Rightarrow> []) @ [e]))"

definition bytes_concat :: "Loc \<Rightarrow> folded folding list \<Rightarrow> folded folding" where
  "bytes_concat loc args ns = do {
     (es, ns) \<leftarrow> seq_st args ns;
     (lst, res) \<leftarrow> concat_args (map fst es) None [];
     Some ((if res = [] then (case lst of
               Some e \<Rightarrow> e
             | None \<Rightarrow> Expression.AllocDynamicBytes loc Type.DynamicBytes
                         (Expression.NumberLiteral loc (Type.Uint 32) 0) None)
            else let res = res @ (case lst of Some e \<Rightarrow> [e] | None \<Rightarrow> []) in
              if length res = 1 then res ! 0
              else Expression.Builtin loc [Type.DynamicBytes] Builtin.Concat res, False), ns) }"

definition builtin_fold ::
  "Loc \<Rightarrow> Type list \<Rightarrow> Builtin \<Rightarrow> folded folding list \<Rightarrow> folded folding" where
  "builtin_fold loc tys kind args = rebuild_list args (Expression.Builtin loc tys kind)"

section \<open>Expressions\<close>

text \<open>
  The recursive function, over the treatment \<open>rv\<close> of variables: \<open>vars\<close> is passed
  down unchanged and only used there.
\<close>

primrec expression_with ::
  "crates \<Rightarrow> (Loc \<Rightarrow> nat \<Rightarrow> Type \<Rightarrow> Expression \<Rightarrow> folded folding) \<Rightarrow> Expression \<Rightarrow> folded folding" where
  "expression_with C rv (Expression.Add loc ty overflowing left right) ns =
     add_fold C loc ty overflowing (expression_with C rv left) (expression_with C rv right) ns"
| "expression_with C rv (Expression.AllocDynamicBytes loc ty sz initializer) ns =
     rebuild1 (expression_with C rv sz) (\<lambda>e. Expression.AllocDynamicBytes loc ty e initializer) ns"
| "expression_with C rv (Expression.ArrayLiteral loc ty dimensions values) ns =
     array_literal_fold loc ty dimensions (map (expression_with C rv) values) ns"
| "expression_with C rv (Expression.BitwiseAnd loc ty left right) ns =
     bitwise_and_fold C loc ty (expression_with C rv left) (expression_with C rv right) ns"
| "expression_with C rv (Expression.BitwiseOr loc ty left right) ns =
     bitwise_or_fold C loc ty (expression_with C rv left) (expression_with C rv right) ns"
| "expression_with C rv (Expression.BitwiseXor loc ty left right) ns =
     bitwise_xor_fold C loc ty (expression_with C rv left) (expression_with C rv right) ns"
| "expression_with C rv (Expression.BoolLiteral loc value) ns =
     Some (((Expression.BoolLiteral loc value), True), ns)"
| "expression_with C rv (Expression.Builtin loc tys kind args) ns =
     (if is_hash kind then builtin_hash C loc tys kind (map (expression_with C rv) args) ns
      else if kind = Builtin.Concat then bytes_concat loc (map (expression_with C rv) args) ns
      else builtin_fold loc tys kind (map (expression_with C rv) args) ns)"
| "expression_with C rv (Expression.BytesCast loc ty from expr) ns =
     bytes_cast_fold C loc ty from (expression_with C rv expr) ns"
| "expression_with C rv (Expression.BytesLiteral loc ty value) ns =
     Some (((Expression.BytesLiteral loc ty value), True), ns)"
| "expression_with C rv (Expression.Cast loc ty expr) ns =
     cast_fold loc ty (expression_with C rv expr) ns"
| "expression_with C rv (Expression.BitwiseNot loc ty expr) ns =
     bitwise_not_fold C loc ty (expression_with C rv expr) ns"
| "expression_with C rv (Expression.ConstArrayLiteral loc ty dimensions values) ns =
     const_array_literal_fold loc ty dimensions (map (expression_with C rv) values) ns"
| "expression_with C rv (Expression.UnsignedDivide loc ty left right) ns =
     divide_fold C loc ty (expression_with C rv left) (expression_with C rv right) False ns"
| "expression_with C rv (Expression.SignedDivide loc ty left right) ns =
     divide_fold C loc ty (expression_with C rv left) (expression_with C rv right) True ns"
| "expression_with C rv (Expression.Equal loc left right) ns =
     equal_fold loc (expression_with C rv left) (expression_with C rv right) ns"
| "expression_with C rv (Expression.FormatString loc args) ns =
     Some (((Expression.FormatString loc args), False), ns)"
| "expression_with C rv (Expression.FunctionArg loc ty arg_no) ns =
     Some (((Expression.FunctionArg loc ty arg_no), True), ns)"
| "expression_with C rv (Expression.GetRef loc ty expr) ns =
     Some (((Expression.GetRef loc ty expr), False), ns)"
| "expression_with C rv (Expression.InternalFunctionCfg ty cfg_no) ns =
     Some (((Expression.InternalFunctionCfg ty cfg_no), False), ns)"
| "expression_with C rv (Expression.Keccak256 loc ty exprs) ns =
     keccak_256 C loc ty (map (expression_with C rv) exprs) ns"
| "expression_with C rv (Expression.Less loc is_signed left right) ns =
     less_fold loc is_signed (expression_with C rv left) (expression_with C rv right) ns"
| "expression_with C rv (Expression.LessEqual loc is_signed left right) ns =
     less_equal_fold loc is_signed (expression_with C rv left) (expression_with C rv right) ns"
| "expression_with C rv (Expression.Load loc ty expr) ns =
     load_fold loc ty (expression_with C rv expr) ns"
| "expression_with C rv (Expression.UnsignedModulo loc ty left right) ns =
     modulo_fold C loc ty (expression_with C rv left) (expression_with C rv right) False ns"
| "expression_with C rv (Expression.SignedModulo loc ty left right) ns =
     modulo_fold C loc ty (expression_with C rv left) (expression_with C rv right) True ns"
| "expression_with C rv (Expression.More loc is_signed left right) ns =
     more_fold loc is_signed (expression_with C rv left) (expression_with C rv right) ns"
| "expression_with C rv (Expression.MoreEqual loc is_signed left right) ns =
     more_equal_fold loc is_signed (expression_with C rv left) (expression_with C rv right) ns"
| "expression_with C rv (Expression.Multiply loc ty overflowing left right) ns =
     multiply_fold C loc ty overflowing (expression_with C rv left) (expression_with C rv right) ns"
| "expression_with C rv (Expression.Not loc expr) ns =
     not_fold loc (expression_with C rv expr) ns"
| "expression_with C rv (Expression.NotEqual loc left right) ns =
     not_equal_fold loc (expression_with C rv left) (expression_with C rv right) ns"
| "expression_with C rv (Expression.NumberLiteral loc ty value) ns =
     Some (((Expression.NumberLiteral loc ty value), True), ns)"
| "expression_with C rv Expression.Poison ns =
     None"
| "expression_with C rv (Expression.Power loc ty overflowing base expo) ns =
     power_fold C loc ty overflowing (expression_with C rv base) (expression_with C rv expo) ns"
| "expression_with C rv (Expression.RationalNumberLiteral loc ty rational) ns =
     Some (((Expression.RationalNumberLiteral loc ty rational), True), ns)"
| "expression_with C rv (Expression.ReturnData loc) ns =
     Some (((Expression.ReturnData loc), False), ns)"
| "expression_with C rv (Expression.SignExt loc ty expr) ns =
     sign_ext_fold loc ty (expression_with C rv expr) ns"
| "expression_with C rv (Expression.ShiftLeft loc ty left right) ns =
     shift_left_fold C loc ty left (expression_with C rv left) (expression_with C rv right) ns"
| "expression_with C rv (Expression.ShiftRight loc ty left right is_signed) ns =
     shift_right_fold C loc ty left is_signed (expression_with C rv left) (expression_with C rv right) ns"
| "expression_with C rv (Expression.StorageArrayLength loc ty array elem) ns =
     storage_array_length_fold loc ty (expression_with C rv array) elem ns"
| "expression_with C rv (Expression.StringCompare loc left right) ns =
     string_compare loc (map_StringLocation (expression_with C rv) left)
       (map_StringLocation (expression_with C rv) right) ns"
| "expression_with C rv (Expression.StructLiteral loc ty values) ns =
     struct_literal_fold loc ty (map (expression_with C rv) values) ns"
| "expression_with C rv (Expression.StructMember loc ty expr member) ns =
     struct_member_fold loc ty (expression_with C rv expr) member ns"
| "expression_with C rv (Expression.Subscript loc ty array_ty expr index) ns =
     subscript_fold loc ty array_ty (expression_with C rv expr) (expression_with C rv index) ns"
| "expression_with C rv (Expression.Subtract loc ty overflowing left right) ns =
     subtract_fold C loc ty overflowing (expression_with C rv left) (expression_with C rv right) ns"
| "expression_with C rv (Expression.Trunc loc ty expr) ns =
     trunc_fold C loc ty (expression_with C rv expr) ns"
| "expression_with C rv (Expression.Negate loc ty overflowing expr) ns =
     negate_fold C loc ty (expression_with C rv expr) overflowing ns"
| "expression_with C rv (Expression.Undefined ty) ns =
     Some (((Expression.Undefined ty), False), ns)"
| "expression_with C rv (Expression.Variable loc ty var_no) ns =
     rv loc var_no ty (Expression.Variable loc ty var_no) ns"
| "expression_with C rv (Expression.ZeroExt loc ty expr) ns =
     zero_ext_fold loc ty (expression_with C rv expr) ns"
| "expression_with C rv (Expression.AdvancePointer pointer bytes_offset) ns =
     advance_pointer pointer (expression_with C rv bytes_offset) ns"
| "expression_with C rv (Expression.VectorData pointer) ns =
     Some (((Expression.VectorData pointer), False), ns)"

text \<open>With \<open>vars\<close> absent, a variable is left as it is.\<close>

definition reference_variable_none :: "Loc \<Rightarrow> nat \<Rightarrow> Type \<Rightarrow> Expression \<Rightarrow> folded folding" where
  "reference_variable_none loc var ty expr ns = Some ((expr, False), ns)"

definition expression_none :: "crates \<Rightarrow> Expression \<Rightarrow> folded folding" where
  "expression_none C = expression_with C reference_variable_none"

definition get_definition :: "Def \<Rightarrow> ControlFlowGraph \<Rightarrow> Expression option option" where
  "get_definition d cfg = do {
     block \<leftarrow> vec_get (cfg_blocks cfg) (def_block_no d);
     ins \<leftarrow> vec_get (b_instr block) (def_instr_no d);
     Some (case ins of Instr.Set _ _ expr \<Rightarrow> Some expr | _ \<Rightarrow> None) }"

definition constants_equal :: "Expression \<Rightarrow> Expression \<Rightarrow> bool" where
  "constants_equal left right = (case left of
       Expression.NumberLiteral _ _ l \<Rightarrow> number right = Some l
     | Expression.BytesLiteral _ _ l \<Rightarrow> bytes_literal right = Some l \<or> init_bytes right = Some l
     | Expression.AllocDynamicBytes _ _ _ init \<Rightarrow> (case init of
           Some l \<Rightarrow> bytes_literal right = Some l \<or> init_bytes right = Some l
         | None \<Rightarrow> False)
     | _ \<Rightarrow> False)"

text \<open>The loop over the definitions; \<open>v\<close> is the value of those seen so far.\<close>

fun same_constant ::
  "crates \<Rightarrow> ControlFlowGraph \<Rightarrow> Def list \<Rightarrow> Expression option \<Rightarrow> Expression option folding" where
  "same_constant C cfg [] v ns = Some (v, ns)"
| "same_constant C cfg (d # ds) v ns = do {
     definition_opt \<leftarrow> get_definition d cfg;
     (case definition_opt of
        None \<Rightarrow> Some (None, ns)
      | Some expr \<Rightarrow> do {
          (e, ns) \<leftarrow> expression_none C expr ns;
          if \<not> snd e then Some (None, ns)
          else if (case v of Some prev \<Rightarrow> \<not> constants_equal prev (fst e) | None \<Rightarrow> False)
          then Some (None, ns)
          else same_constant C cfg ds (Some (fst e)) ns }) }"

definition is_ref_type :: "Type \<Rightarrow> bool" where
  "is_ref_type ty = (case ty of Type.Ref _ \<Rightarrow> True | Type.StorageRef _ _ \<Rightarrow> True | _ \<Rightarrow> False)"

definition reference_variable ::
  "crates \<Rightarrow> ControlFlowGraph \<Rightarrow> VarDefs \<Rightarrow> Loc \<Rightarrow> nat \<Rightarrow> Type \<Rightarrow> Expression \<Rightarrow> folded folding" where
  "reference_variable C cfg vars loc var ty expr ns =
     (if is_ref_type ty then Some ((expr, False), ns)
      else (case map_of vars var of
         None \<Rightarrow> Some ((expr, False), ns)
       | Some defs \<Rightarrow> do {
           (v, ns) \<leftarrow> same_constant C cfg (map fst defs) None ns;
           (case v of
              Some e \<Rightarrow> Some ((e, True),
                if loc \<noteq> Loc.Codegen then ns\<lparr>var_constants := (var_constants ns)(loc \<mapsto> e)\<rparr> else ns)
            | None \<Rightarrow> Some ((expr, False), ns)) }))"

definition expression :: "crates \<Rightarrow> ControlFlowGraph \<Rightarrow> VarDefs \<Rightarrow> Expression \<Rightarrow> folded folding" where
  "expression C cfg vars = expression_with C (reference_variable C cfg vars)"

section \<open>Instructions and the pass\<close>

type_synonym folder = "Expression \<Rightarrow> Namespace \<Rightarrow> (Expression \<times> Namespace) option"

definition fold_opt :: "folder \<Rightarrow> Expression option \<Rightarrow> Expression option folding" where
  "fold_opt f oe ns = (case oe of
       None \<Rightarrow> Some (None, ns)
     | Some e \<Rightarrow> do { (e, ns) \<leftarrow> f e ns; Some (Some e, ns) })"

definition fold_accounts ::
  "folder \<Rightarrow> Expression ExternalCallAccounts \<Rightarrow> Expression ExternalCallAccounts folding" where
  "fold_accounts f acc ns = (case acc of
       Present e \<Rightarrow> do { (e, ns) \<leftarrow> f e ns; Some (Present e, ns) }
     | _ \<Rightarrow> Some (acc, ns))"

text \<open>The branch of a switch on a literal: the last case with the same literal, else the default.\<close>

definition switch_target :: "int \<Rightarrow> (Expression \<times> nat) list \<Rightarrow> nat \<Rightarrow> nat" where
  "switch_target num cases default_block =
     foldl (\<lambda>block (item, goto). if number item = Some num then goto else block) default_block cases"

text \<open>
  The folded instruction, the namespace, and whether the loop over the instructions of the block
  is left. With \<open>dry_run\<close> the instruction stays as it is, but its expressions are folded
  for their diagnostics (the data of an event excepted).
\<close>

definition fold_instr ::
  "crates \<Rightarrow> ControlFlowGraph \<Rightarrow> VarDefs \<Rightarrow> bool \<Rightarrow> Instr \<Rightarrow> Namespace \<Rightarrow>
   (Instr \<times> Namespace \<times> bool) option" where
  "fold_instr C cfg vars dry_run instr ns =
     (let f = (\<lambda>e ns. do { (r, ns) \<leftarrow> expression C cfg vars e ns; Some (fst r, ns) });
          keep = (\<lambda>new ns. Some (if dry_run then instr else new, ns, False))
      in case instr of
       Instr.Set loc res expr \<Rightarrow> do {
         (r, ns) \<leftarrow> expression C cfg vars expr ns;
         keep (Instr.Set loc res (fst r))
           (if snd r then ns\<lparr>var_constants := (var_constants ns)(loc \<mapsto> fst r)\<rparr> else ns) }
     | Instr.Call res return_tys call args \<Rightarrow> do {
         (args, ns) \<leftarrow> seq_st (map f args) ns; keep (Instr.Call res return_tys call args) ns }
     | Instr.Return values \<Rightarrow> do { (values, ns) \<leftarrow> seq_st (map f values) ns; keep (Instr.Return values) ns }
     | Instr.BranchCond cond true_block false_block \<Rightarrow> do {
         (cond, ns) \<leftarrow> f cond ns;
         keep (case cond of
             Expression.BoolLiteral _ b \<Rightarrow> Instr.Branch (if b then true_block else false_block)
           | _ \<Rightarrow> Instr.BranchCond cond true_block false_block) ns }
     | Instr.Store dest data \<Rightarrow> do {
         (dest, ns) \<leftarrow> f dest ns; (data, ns) \<leftarrow> f data ns; keep (Instr.Store dest data) ns }
     | Instr.AssertFailure (Some expr) \<Rightarrow> do {
         (buf, ns) \<leftarrow> f expr ns; keep (Instr.AssertFailure (Some buf)) ns }
     | Instr.Print expr \<Rightarrow> do { (expr, ns) \<leftarrow> f expr ns; keep (Instr.Print expr) ns }
     | Instr.ClearStorage ty storage \<Rightarrow> do {
         (storage, ns) \<leftarrow> f storage ns; keep (Instr.ClearStorage ty storage) ns }
     | Instr.SetStorage ty val storage stty \<Rightarrow> do {
         (storage, ns) \<leftarrow> f storage ns; (val, ns) \<leftarrow> f val ns;
         keep (Instr.SetStorage ty val storage stty) ns }
     | Instr.LoadStorage res ty storage stty \<Rightarrow> do {
         (storage, ns) \<leftarrow> f storage ns; keep (Instr.LoadStorage res ty storage stty) ns }
     | Instr.SetStorageBytes val storage offset \<Rightarrow> do {
         (storage, ns) \<leftarrow> f storage ns; (val, ns) \<leftarrow> f val ns; (offset, ns) \<leftarrow> f offset ns;
         keep (Instr.SetStorageBytes val storage offset) ns }
     | Instr.PushStorage res ty val storage \<Rightarrow> do {
         (storage, ns) \<leftarrow> f storage ns; (val, ns) \<leftarrow> fold_opt f val ns;
         keep (Instr.PushStorage res ty val storage) ns }
     | Instr.PopStorage res ty storage \<Rightarrow> do {
         (storage, ns) \<leftarrow> f storage ns; keep (Instr.PopStorage res ty storage) ns }
     | Instr.PushMemory res ty array val \<Rightarrow> do {
         (val, ns) \<leftarrow> f val ns; keep (Instr.PushMemory res ty array val) ns }
     | Instr.Constructor success res contract_no constructor_no encoded_args val gas salt address
         seeds accounts loc \<Rightarrow> do {
         (encoded_args, ns) \<leftarrow> f encoded_args ns;
         (val, ns) \<leftarrow> fold_opt f val ns;
         (gas, ns) \<leftarrow> f gas ns;
         (salt, ns) \<leftarrow> fold_opt f salt ns;
         (address, ns) \<leftarrow> fold_opt f address ns;
         (seeds, ns) \<leftarrow> fold_opt f seeds ns;
         (accounts, ns) \<leftarrow> fold_accounts f accounts ns;
         keep (Instr.Constructor success res contract_no constructor_no encoded_args val gas salt
           address seeds accounts loc) ns }
     | Instr.ExternalCall loc success address accounts seeds payload val gas callty
         contract_function_no flags \<Rightarrow> do {
         (val, ns) \<leftarrow> f val ns;
         (gas, ns) \<leftarrow> f gas ns;
         (payload, ns) \<leftarrow> f payload ns;
         (address, ns) \<leftarrow> fold_opt f address ns;
         (accounts, ns) \<leftarrow> fold_accounts f accounts ns;
         (seeds, ns) \<leftarrow> fold_opt f seeds ns;
         (flags, ns) \<leftarrow> fold_opt f flags ns;
         keep (Instr.ExternalCall loc success address accounts seeds payload val gas callty
           contract_function_no flags) ns }
     | Instr.SelfDestruct recipient \<Rightarrow> do {
         (recipient, ns) \<leftarrow> f recipient ns; keep (Instr.SelfDestruct recipient) ns }
     | Instr.EmitEvent event_no data topics \<Rightarrow> do {
         (topics, ns) \<leftarrow> seq_st (map f topics) ns;
         if dry_run then Some (instr, ns, False)
         else do { (data, ns) \<leftarrow> f data ns; Some (Instr.EmitEvent event_no data topics, ns, False) } }
     | Instr.MemCopy source destination nbytes \<Rightarrow> do {
         (nbytes, ns) \<leftarrow> f nbytes ns; (source, ns) \<leftarrow> f source ns; (destination, ns) \<leftarrow> f destination ns;
         keep (Instr.MemCopy source destination nbytes) ns }
     | Instr.Switch cond cases default_block \<Rightarrow> do {
         (cond, ns) \<leftarrow> f cond ns;
         (cases, ns) \<leftarrow> seq_st (map (\<lambda>(e, goto) ns. do { (e, ns) \<leftarrow> f e ns; Some ((e, goto), ns) }) cases) ns;
         (case number cond of
            Some num \<Rightarrow>
              if dry_run then Some (instr, ns, False)
              else Some (Instr.Branch (switch_target num cases default_block), ns, True)
          | None \<Rightarrow> keep (Instr.Switch cond cases default_block) ns) }
     | Instr.ReturnData data data_len \<Rightarrow> do {
         (data, ns) \<leftarrow> f data ns; (data_len, ns) \<leftarrow> f data_len ns; keep (Instr.ReturnData data data_len) ns }
     | Instr.WriteBuffer buf offset val \<Rightarrow> do {
         (offset, ns) \<leftarrow> f offset ns; (val, ns) \<leftarrow> f val ns; keep (Instr.WriteBuffer buf offset val) ns }
     | _ \<Rightarrow> Some (instr, ns, False))"

definition set_instr :: "nat \<Rightarrow> nat \<Rightarrow> Instr \<Rightarrow> ControlFlowGraph \<Rightarrow> ControlFlowGraph" where
  "set_instr block_no instr_no instr cfg =
     cfg\<lparr>cfg_blocks := (cfg_blocks cfg)[block_no := (cfg_blocks cfg ! block_no)
       \<lparr>b_instr := (b_instr (cfg_blocks cfg ! block_no))[instr_no := instr]\<rparr>]\<rparr>"

fun fold_block ::
  "crates \<Rightarrow> bool \<Rightarrow> nat \<Rightarrow> nat list \<Rightarrow> VarDefs \<Rightarrow> ControlFlowGraph \<Rightarrow> Namespace \<Rightarrow>
   (ControlFlowGraph \<times> Namespace) option" where
  "fold_block C dry_run block_no [] vars cfg ns = Some (cfg, ns)"
| "fold_block C dry_run block_no (instr_no # rest) vars cfg ns = do {
     block \<leftarrow> vec_get (cfg_blocks cfg) block_no;
     instr \<leftarrow> vec_get (b_instr block) instr_no;
     (instr, ns, stop) \<leftarrow> fold_instr C cfg vars dry_run instr ns;
     (let cfg = (if dry_run then cfg else set_instr block_no instr_no instr cfg) in
      if stop then Some (cfg, ns)
      else do {
        transfers \<leftarrow> vec_get (b_transfers block) instr_no;
        fold_block C dry_run block_no rest (apply_transfers transfers vars) cfg ns }) }"

fun fold_blocks ::
  "crates \<Rightarrow> bool \<Rightarrow> nat list \<Rightarrow> ControlFlowGraph \<Rightarrow> Namespace \<Rightarrow> (ControlFlowGraph \<times> Namespace) option"
where
  "fold_blocks C dry_run [] cfg ns = Some (cfg, ns)"
| "fold_blocks C dry_run (block_no # rest) cfg ns = do {
     block \<leftarrow> vec_get (cfg_blocks cfg) block_no;
     (cfg, ns) \<leftarrow> fold_block C dry_run block_no [0 ..< length (b_instr block)] (b_defs block) cfg ns;
     fold_blocks C dry_run rest cfg ns }"

definition constant_folding ::
  "crates \<Rightarrow> ControlFlowGraph \<Rightarrow> bool \<Rightarrow> Namespace \<Rightarrow> (ControlFlowGraph \<times> Namespace) option" where
  "constant_folding C cfg dry_run ns =
     fold_blocks C dry_run [0 ..< length (cfg_blocks cfg)] cfg ns"

end
