(* ===== verification/Semantics.thy ===== *)
theory Semantics
  imports Exprs "HOL-Library.Signed_Division"
begin

text \<open>
  What integer and boolean expressions mean: the specification that the passes on expressions
  are measured against. An expression of an integer type has a mathematical value in the range
  of its type; arithmetic that leaves the range wraps when the operation is marked overflowing
  and stops the program (\<open>None\<close>) otherwise; a division by zero and a shift by the width or
  more have no value. A conversion gives the value of the target type that is equal modulo its
  width. Booleans are 0 and 1.
\<close>

section \<open>Integer types\<close>

text \<open>The integer types of the language: the width is a positive number of bytes.\<close>

definition is_int :: "Type \<Rightarrow> bool" where
  "is_int ty = (case ty of Type.Uint w \<Rightarrow> 0 < w \<and> w mod 8 = 0 | Type.Int w \<Rightarrow> 0 < w \<and> w mod 8 = 0 | _ \<Rightarrow> False)"

definition signed_ty :: "Type \<Rightarrow> bool" where
  "signed_ty ty = (case ty of Type.Int _ \<Rightarrow> True | _ \<Rightarrow> False)"

definition width :: "Type \<Rightarrow> nat" where
  "width ty = (case ty of Type.Uint w \<Rightarrow> w | Type.Int w \<Rightarrow> w | _ \<Rightarrow> 0)"

definition in_range :: "Type \<Rightarrow> int \<Rightarrow> bool" where
  "in_range ty v = (if signed_ty ty then - (2 ^ (width ty - 1)) \<le> v \<and> v < 2 ^ (width ty - 1)
                    else 0 \<le> v \<and> v < 2 ^ width ty)"

definition wrap :: "Type \<Rightarrow> int \<Rightarrow> int" where
  "wrap ty v = (if signed_ty ty then signed_take_bit (width ty - 1) v else take_bit (width ty) v)"

definition checked :: "Type \<Rightarrow> bool \<Rightarrow> int \<Rightarrow> int option" where
  "checked ty overflowing v =
     (if in_range ty v then Some v else if overflowing then Some (wrap ty v) else None)"

lemma is_int_cases:
  assumes "is_int ty"
  obtains n where "ty = Type.Uint (8 * n)" "0 < n" | n where "ty = Type.Int (8 * n)" "0 < n"
  using assms by (cases ty) (auto simp: is_int_def elim!: dvdE simp: mod_eq_0_iff_dvd)

lemma wrap_id: "in_range ty v \<Longrightarrow> wrap ty v = v"
  by (auto simp: in_range_def wrap_def take_bit_int_eq_self_iff signed_take_bit_int_eq_self_iff)

lemma wrap_in_range: "is_int ty \<Longrightarrow> in_range ty (wrap ty v)"
  by (auto simp: in_range_def wrap_def signed_take_bit_int_greater_eq_minus_exp
      signed_take_bit_int_less_exp take_bit_nonnegative take_bit_int_less_exp)

lemma checked_True: "checked ty True v = Some (wrap ty v)"
  by (simp add: checked_def wrap_id)

lemma checked_in_range: "is_int ty \<Longrightarrow> checked ty overflowing v = Some r \<Longrightarrow> in_range ty r"
  by (auto simp: checked_def wrap_in_range split: if_splits)

text \<open>The value of a wider type that a value of the operand's type keeps.\<close>

definition extends :: "bool \<Rightarrow> Type option \<Rightarrow> Type \<Rightarrow> bool" where
  "extends sign from to = (case from of
       Some t \<Rightarrow> is_int t \<and> signed_ty t = sign \<and>
         (if signed_ty to = sign then width t \<le> width to else \<not> sign \<and> width t < width to)
     | None \<Rightarrow> False)"

lemma extends_in_range:
  assumes "extends sign (Some t) to" "in_range t v" "is_int to"
  shows "in_range to v"
proof -
  have less: "x < 2 ^ b" if "x < 2 ^ a" "a \<le> b" for x :: int and a b :: nat
    using that by (meson less_le_trans one_le_numeral power_increasing)
  have neg: "- (2 ^ b) \<le> x" if "- (2 ^ a) \<le> x" "a \<le> b" for x :: int and a b :: nat
    using that by (meson le_imp_neg_le order_trans one_le_numeral power_increasing)
  show ?thesis
  proof (cases "signed_ty t")
    case True
    then have "signed_ty to" "width t - 1 \<le> width to - 1" using assms(1) by (auto simp: extends_def split: if_splits)
    then show ?thesis using assms(2) True by (auto simp: in_range_def dest: less neg)
  next
    case False
    then have v: "0 \<le> v" "v < 2 ^ width t" using assms(2) by (simp_all add: in_range_def)
    have le: "width t \<le> (if signed_ty to then width to - 1 else width to)"
      using assms(1) False by (auto simp: extends_def split: if_splits)
    have "- (2 ^ (width to - 1)) \<le> (0 :: int)" by simp
    then show ?thesis using less [OF v(2) le] v(1) by (auto simp: in_range_def)
  qed
qed

section \<open>Well-typed expressions\<close>

text \<open>
  The integer and boolean fragment, with the operand types that code generation produces:
  binary operators on two operands of the result's type, signedness of the operator and of the
  type in agreement, literals in the range of their type. \<open>T\<close> gives the types of the
  variables.
\<close>

primrec wt :: "(nat \<Rightarrow> Type) \<Rightarrow> Expression \<Rightarrow> bool" where
  "wt T (Expression.Add loc ty overflowing left right) \<longleftrightarrow> wt T left \<and> wt T right \<and> expr_ty left = Some ty \<and> expr_ty right = Some ty \<and> is_int ty"
| "wt T (Expression.AllocDynamicBytes loc ty sz initializer) \<longleftrightarrow> False"
| "wt T (Expression.ArrayLiteral loc ty dimensions values) \<longleftrightarrow> False"
| "wt T (Expression.BitwiseAnd loc ty left right) \<longleftrightarrow> wt T left \<and> wt T right \<and> expr_ty left = Some ty \<and> expr_ty right = Some ty \<and> is_int ty"
| "wt T (Expression.BitwiseOr loc ty left right) \<longleftrightarrow> wt T left \<and> wt T right \<and> expr_ty left = Some ty \<and> expr_ty right = Some ty \<and> is_int ty"
| "wt T (Expression.BitwiseXor loc ty left right) \<longleftrightarrow> wt T left \<and> wt T right \<and> expr_ty left = Some ty \<and> expr_ty right = Some ty \<and> is_int ty"
| "wt T (Expression.BoolLiteral loc value) \<longleftrightarrow> True"
| "wt T (Expression.Builtin loc tys kind args) \<longleftrightarrow> False"
| "wt T (Expression.BytesCast loc ty from expr) \<longleftrightarrow> False"
| "wt T (Expression.BytesLiteral loc ty value) \<longleftrightarrow> False"
| "wt T (Expression.Cast loc ty expr) \<longleftrightarrow> wt T expr \<and> is_int ty \<and> (\<exists>t. expr_ty expr = Some t \<and> is_int t)"
| "wt T (Expression.BitwiseNot loc ty expr) \<longleftrightarrow> wt T expr \<and> expr_ty expr = Some ty \<and> is_int ty"
| "wt T (Expression.ConstArrayLiteral loc ty dimensions values) \<longleftrightarrow> False"
| "wt T (Expression.UnsignedDivide loc ty left right) \<longleftrightarrow> wt T left \<and> wt T right \<and> expr_ty left = Some ty \<and> expr_ty right = Some ty \<and> is_int ty \<and> \<not> signed_ty ty"
| "wt T (Expression.SignedDivide loc ty left right) \<longleftrightarrow> wt T left \<and> wt T right \<and> expr_ty left = Some ty \<and> expr_ty right = Some ty \<and> is_int ty \<and> signed_ty ty"
| "wt T (Expression.Equal loc left right) \<longleftrightarrow> wt T left \<and> wt T right \<and> expr_ty left = expr_ty right \<and>
     (\<exists>t. expr_ty left = Some t \<and> (is_int t \<or> t = Type.Bool))"
| "wt T (Expression.FormatString loc args) \<longleftrightarrow> False"
| "wt T (Expression.FunctionArg loc ty arg_no) \<longleftrightarrow> is_int ty \<or> ty = Type.Bool"
| "wt T (Expression.GetRef loc ty expr) \<longleftrightarrow> False"
| "wt T (Expression.InternalFunctionCfg ty cfg_no) \<longleftrightarrow> False"
| "wt T (Expression.Keccak256 loc ty exprs) \<longleftrightarrow> False"
| "wt T (Expression.Less loc is_signed left right) \<longleftrightarrow> wt T left \<and> wt T right \<and> expr_ty left = expr_ty right \<and>
     (\<exists>t. expr_ty left = Some t \<and> is_int t \<and> is_signed = signed_ty t)"
| "wt T (Expression.LessEqual loc is_signed left right) \<longleftrightarrow> wt T left \<and> wt T right \<and> expr_ty left = expr_ty right \<and>
     (\<exists>t. expr_ty left = Some t \<and> is_int t \<and> is_signed = signed_ty t)"
| "wt T (Expression.Load loc ty expr) \<longleftrightarrow> False"
| "wt T (Expression.UnsignedModulo loc ty left right) \<longleftrightarrow> wt T left \<and> wt T right \<and> expr_ty left = Some ty \<and> expr_ty right = Some ty \<and> is_int ty \<and> \<not> signed_ty ty"
| "wt T (Expression.SignedModulo loc ty left right) \<longleftrightarrow> wt T left \<and> wt T right \<and> expr_ty left = Some ty \<and> expr_ty right = Some ty \<and> is_int ty \<and> signed_ty ty"
| "wt T (Expression.More loc is_signed left right) \<longleftrightarrow> wt T left \<and> wt T right \<and> expr_ty left = expr_ty right \<and>
     (\<exists>t. expr_ty left = Some t \<and> is_int t \<and> is_signed = signed_ty t)"
| "wt T (Expression.MoreEqual loc is_signed left right) \<longleftrightarrow> wt T left \<and> wt T right \<and> expr_ty left = expr_ty right \<and>
     (\<exists>t. expr_ty left = Some t \<and> is_int t \<and> is_signed = signed_ty t)"
| "wt T (Expression.Multiply loc ty overflowing left right) \<longleftrightarrow> wt T left \<and> wt T right \<and> expr_ty left = Some ty \<and> expr_ty right = Some ty \<and> is_int ty"
| "wt T (Expression.Not loc expr) \<longleftrightarrow> wt T expr \<and> expr_ty expr = Some Type.Bool"
| "wt T (Expression.NotEqual loc left right) \<longleftrightarrow> wt T left \<and> wt T right \<and> expr_ty left = expr_ty right \<and>
     (\<exists>t. expr_ty left = Some t \<and> (is_int t \<or> t = Type.Bool))"
| "wt T (Expression.NumberLiteral loc ty value) \<longleftrightarrow> is_int ty \<and> in_range ty value"
| "wt T Expression.Poison \<longleftrightarrow> False"
| "wt T (Expression.Power loc ty overflowing base expo) \<longleftrightarrow> wt T base \<and> wt T expo \<and> expr_ty base = Some ty \<and> expr_ty expo = Some ty \<and> is_int ty"
| "wt T (Expression.RationalNumberLiteral loc ty rational) \<longleftrightarrow> False"
| "wt T (Expression.ReturnData loc) \<longleftrightarrow> False"
| "wt T (Expression.SignExt loc ty expr) \<longleftrightarrow> wt T expr \<and> is_int ty \<and> extends True (expr_ty expr) ty"
| "wt T (Expression.ShiftLeft loc ty left right) \<longleftrightarrow> wt T left \<and> wt T right \<and> expr_ty left = Some ty \<and> expr_ty right = Some ty \<and> is_int ty"
| "wt T (Expression.ShiftRight loc ty left right is_signed) \<longleftrightarrow> wt T left \<and> wt T right \<and> expr_ty left = Some ty \<and> expr_ty right = Some ty \<and> is_int ty \<and> is_signed = signed_ty ty"
| "wt T (Expression.StorageArrayLength loc ty array elem) \<longleftrightarrow> False"
| "wt T (Expression.StringCompare loc left right) \<longleftrightarrow> False"
| "wt T (Expression.StructLiteral loc ty values) \<longleftrightarrow> False"
| "wt T (Expression.StructMember loc ty expr member) \<longleftrightarrow> False"
| "wt T (Expression.Subscript loc ty array_ty expr index) \<longleftrightarrow> False"
| "wt T (Expression.Subtract loc ty overflowing left right) \<longleftrightarrow> wt T left \<and> wt T right \<and> expr_ty left = Some ty \<and> expr_ty right = Some ty \<and> is_int ty"
| "wt T (Expression.Trunc loc ty expr) \<longleftrightarrow> wt T expr \<and> is_int ty \<and> (\<exists>t. expr_ty expr = Some t \<and> is_int t)"
| "wt T (Expression.Negate loc ty overflowing expr) \<longleftrightarrow> wt T expr \<and> expr_ty expr = Some ty \<and> is_int ty"
| "wt T (Expression.Undefined ty) \<longleftrightarrow> False"
| "wt T (Expression.Variable loc ty var_no) \<longleftrightarrow> (is_int ty \<or> ty = Type.Bool) \<and> T var_no = ty"
| "wt T (Expression.ZeroExt loc ty expr) \<longleftrightarrow> wt T expr \<and> is_int ty \<and> extends False (expr_ty expr) ty"
| "wt T (Expression.AdvancePointer pointer bytes_offset) \<longleftrightarrow> False"
| "wt T (Expression.VectorData pointer) \<longleftrightarrow> False"

section \<open>Evaluation\<close>

definition lift1 :: "(int \<Rightarrow> int option) \<Rightarrow> int option \<Rightarrow> int option" where
  "lift1 f a = Option.bind a f"

definition lift2 :: "(int \<Rightarrow> int \<Rightarrow> int option) \<Rightarrow> int option \<Rightarrow> int option \<Rightarrow> int option" where
  "lift2 f a b = Option.bind a (\<lambda>x. Option.bind b (f x))"

lemma lift_simps [simp]:
  "lift1 f (Some x) = f x" "lift1 f None = None" "lift2 g (Some x) (Some y) = g x y"
  "lift2 g None b = None" "lift2 g a None = None"
  by (simp_all add: lift1_def lift2_def)

primrec eval :: "(nat \<Rightarrow> int) \<Rightarrow> (nat \<Rightarrow> int) \<Rightarrow> Expression \<Rightarrow> int option" where
  "eval env args (Expression.Add loc ty overflowing left right) = lift2 (\<lambda>a b. checked ty overflowing (a + b)) (eval env args left) (eval env args right)"
| "eval env args (Expression.AllocDynamicBytes loc ty sz initializer) = None"
| "eval env args (Expression.ArrayLiteral loc ty dimensions values) = None"
| "eval env args (Expression.BitwiseAnd loc ty left right) = lift2 (\<lambda>a b. Some (wrap ty (and a b))) (eval env args left) (eval env args right)"
| "eval env args (Expression.BitwiseOr loc ty left right) = lift2 (\<lambda>a b. Some (wrap ty (or a b))) (eval env args left) (eval env args right)"
| "eval env args (Expression.BitwiseXor loc ty left right) = lift2 (\<lambda>a b. Some (wrap ty (xor a b))) (eval env args left) (eval env args right)"
| "eval env args (Expression.BoolLiteral loc value) = Some (of_bool value)"
| "eval env args (Expression.Builtin loc tys kind exprs) = None"
| "eval env args (Expression.BytesCast loc ty from expr) = None"
| "eval env args (Expression.BytesLiteral loc ty value) = None"
| "eval env args (Expression.Cast loc ty expr) = lift1 (\<lambda>a. Some (wrap ty a)) (eval env args expr)"
| "eval env args (Expression.BitwiseNot loc ty expr) = lift1 (\<lambda>a. Some (wrap ty (not a))) (eval env args expr)"
| "eval env args (Expression.ConstArrayLiteral loc ty dimensions values) = None"
| "eval env args (Expression.UnsignedDivide loc ty left right) = lift2 (\<lambda>a b. if b = 0 then None else Some (wrap ty (a sdiv b))) (eval env args left) (eval env args right)"
| "eval env args (Expression.SignedDivide loc ty left right) = lift2 (\<lambda>a b. if b = 0 then None else Some (wrap ty (a sdiv b))) (eval env args left) (eval env args right)"
| "eval env args (Expression.Equal loc left right) = lift2 (\<lambda>a b. Some (of_bool (a = b))) (eval env args left) (eval env args right)"
| "eval env args (Expression.FormatString loc exprs) = None"
| "eval env args (Expression.FunctionArg loc ty arg_no) = Some (args arg_no)"
| "eval env args (Expression.GetRef loc ty expr) = None"
| "eval env args (Expression.InternalFunctionCfg ty cfg_no) = None"
| "eval env args (Expression.Keccak256 loc ty exprs) = None"
| "eval env args (Expression.Less loc is_signed left right) = lift2 (\<lambda>a b. Some (of_bool (a < b))) (eval env args left) (eval env args right)"
| "eval env args (Expression.LessEqual loc is_signed left right) = lift2 (\<lambda>a b. Some (of_bool (a \<le> b))) (eval env args left) (eval env args right)"
| "eval env args (Expression.Load loc ty expr) = None"
| "eval env args (Expression.UnsignedModulo loc ty left right) = lift2 (\<lambda>a b. if b = 0 then None else Some (wrap ty (a smod b))) (eval env args left) (eval env args right)"
| "eval env args (Expression.SignedModulo loc ty left right) = lift2 (\<lambda>a b. if b = 0 then None else Some (wrap ty (a smod b))) (eval env args left) (eval env args right)"
| "eval env args (Expression.More loc is_signed left right) = lift2 (\<lambda>a b. Some (of_bool (b < a))) (eval env args left) (eval env args right)"
| "eval env args (Expression.MoreEqual loc is_signed left right) = lift2 (\<lambda>a b. Some (of_bool (b \<le> a))) (eval env args left) (eval env args right)"
| "eval env args (Expression.Multiply loc ty overflowing left right) = lift2 (\<lambda>a b. checked ty overflowing (a * b)) (eval env args left) (eval env args right)"
| "eval env args (Expression.Not loc expr) = lift1 (\<lambda>a. Some (1 - a)) (eval env args expr)"
| "eval env args (Expression.NotEqual loc left right) = lift2 (\<lambda>a b. Some (of_bool (a \<noteq> b))) (eval env args left) (eval env args right)"
| "eval env args (Expression.NumberLiteral loc ty value) = Some value"
| "eval env args Expression.Poison = None"
| "eval env args (Expression.Power loc ty overflowing base expo) = lift2 (\<lambda>a b. if b < 0 then None else checked ty overflowing (a ^ nat b)) (eval env args base) (eval env args expo)"
| "eval env args (Expression.RationalNumberLiteral loc ty rational) = None"
| "eval env args (Expression.ReturnData loc) = None"
| "eval env args (Expression.SignExt loc ty expr) = lift1 (\<lambda>a. Some (wrap ty a)) (eval env args expr)"
| "eval env args (Expression.ShiftLeft loc ty left right) = lift2 (\<lambda>a b. if b < 0 \<or> int (width ty) \<le> b then None else Some (wrap ty (a * 2 ^ nat b))) (eval env args left) (eval env args right)"
| "eval env args (Expression.ShiftRight loc ty left right is_signed) = lift2 (\<lambda>a b. if b < 0 \<or> int (width ty) \<le> b then None else Some (wrap ty (a div 2 ^ nat b))) (eval env args left) (eval env args right)"
| "eval env args (Expression.StorageArrayLength loc ty array elem) = None"
| "eval env args (Expression.StringCompare loc left right) = None"
| "eval env args (Expression.StructLiteral loc ty values) = None"
| "eval env args (Expression.StructMember loc ty expr member) = None"
| "eval env args (Expression.Subscript loc ty array_ty expr index) = None"
| "eval env args (Expression.Subtract loc ty overflowing left right) = lift2 (\<lambda>a b. checked ty overflowing (a - b)) (eval env args left) (eval env args right)"
| "eval env args (Expression.Trunc loc ty expr) = lift1 (\<lambda>a. Some (wrap ty a)) (eval env args expr)"
| "eval env args (Expression.Negate loc ty overflowing expr) = lift1 (\<lambda>a. checked ty overflowing (- a)) (eval env args expr)"
| "eval env args (Expression.Undefined ty) = None"
| "eval env args (Expression.Variable loc ty var_no) = Some (env var_no)"
| "eval env args (Expression.ZeroExt loc ty expr) = lift1 (\<lambda>a. Some (wrap ty a)) (eval env args expr)"
| "eval env args (Expression.AdvancePointer pointer bytes_offset) = None"
| "eval env args (Expression.VectorData pointer) = None"

section \<open>Conversions\<close>



end
