(* ===== verification/ConstfoldFrame.thy ===== *)
theory ConstfoldFrame
  imports Constfold Semantics
begin

text \<open>
  Facts about constant folding that its correctness rests on. A folded literal has the value of
  the operation, wrapped to the width of its type, and the range check reports exactly the values
  that do not fit. Folding only appends diagnostics to the namespace and records constants.
\<close>

section \<open>Literals\<close>

lemma pow256: "(256 :: int) ^ n = 2 ^ (8 * n)"
  by (simp add: power_mult)

context bigint_crate
begin

lemma wrap_value_uint:
  assumes "0 < n"
  shows "wrap_value C (Type.Uint (8 * n)) v = Some (wrap (Type.Uint (8 * n)) v)"
proof -
  have w: "wrap (Type.Uint (8 * n)) v = v mod 2 ^ (8 * n)"
    by (simp add: wrap_def signed_ty_def width_def take_bit_eq_mod)
  consider "v < 0" | "0 \<le> v" "bigint_bits C v > 8 * n" | "0 \<le> v" "bigint_bits C v \<le> 8 * n"
    by linarith
  then show ?thesis
  proof cases
    case 1
    then have "le_val (vec_resize (to_signed_bytes_le C v) n 255) = v mod 256 ^ n"
      using resize_signed_bytes [of v n] by simp
    then show ?thesis using 1 by (simp add: wrap_value_def from_bytes_val w pow256)
  next
    case 2
    then have "le_val (take n (to_bytes_le C v)) = v mod 256 ^ n"
      by (simp add: le_val_take le_val_to_bytes)
    then show ?thesis using 2 by (simp add: wrap_value_def from_bytes_val vec_truncate_def w pow256)
  next
    case 3
    then have "v < 2 ^ (8 * n)" using bits_le_iff [of v "8 * n"] by simp
    then show ?thesis using 3 by (simp add: wrap_value_def w)
  qed
qed

lemma wrap_value_int:
  assumes "0 < n"
  shows "wrap_value C (Type.Int (8 * n)) v = Some (wrap (Type.Int (8 * n)) v)"
proof (cases "length (to_signed_bytes_le C v) \<le> n")
  case True
  then have "in_range (Type.Int (8 * n)) v"
    using signed_bytes_fit [OF assms, of v] by (simp add: in_range_def signed_ty_def width_def)
  then show ?thesis using True by (simp add: wrap_value_def Let_def wrap_id)
next
  case False
  let ?bs = "to_signed_bytes_le C v"
  have len: "length (take n ?bs) = n" using False by simp
  then have "take n ?bs \<noteq> []" using assms by auto
  then have "le_sval (take n ?bs) = signed_take_bit (8 * n - 1) (le_val (take n ?bs))"
    using le_sval_signed [of "take n ?bs"] len by simp
  also have "le_val (take n ?bs) = v mod 256 ^ n"
    using le_sval_mod_le [of n ?bs] False by (simp add: le_sval_to_signed_bytes)
  also have "v mod 256 ^ n = take_bit (Suc (8 * n - 1)) v"
    using assms by (simp add: pow256 take_bit_eq_mod)
  finally have "le_sval (take n ?bs) = signed_take_bit (8 * n - 1) v"
    by (simp add: signed_take_bit_take_bit)
  then show ?thesis using False
    by (simp add: wrap_value_def Let_def from_signed_bytes_val vec_truncate_def wrap_def signed_ty_def width_def)
qed

lemma wrap_value_is_int: "is_int ty \<Longrightarrow> wrap_value C ty v = Some (wrap ty v)"
  by (elim is_int_cases) (simp_all only: wrap_value_uint wrap_value_int)

lemma overflow_diagnostic_iff:
  assumes "is_int ty"
  shows "overflow_diagnostic C v ty loc = None \<longleftrightarrow> in_range ty v"
  using assms
proof (cases rule: is_int_cases)
  case (1 n)
  have "bigint_bits C v \<le> 8 * n \<longleftrightarrow> \<bar>v\<bar> < 2 ^ (8 * n)" by (rule bits_le_iff)
  then show ?thesis
    by (auto simp: 1 overflow_diagnostic_def in_range_def signed_ty_def width_def)
next
  case (2 n)
  show ?thesis using signed_bytes_fit [OF 2(2), of v]
    by (auto simp: 2 overflow_diagnostic_def in_range_def signed_ty_def width_def)
qed

lemma overflow_diagnostic_error: "overflow_diagnostic C v ty loc = Some d \<Longrightarrow> d_level d = Error \<and> d_loc d = loc"
  by (auto simp: overflow_diagnostic_def error_diagnostic_def split: if_splits Type.splits)

lemma bigint_to_expression_spec:
  assumes "is_int ty"
  shows "bigint_to_expression C loc ty v overflowing ns =
    Some ((Expression.NumberLiteral loc ty (wrap ty v), True),
      if overflowing \<or> in_range ty v then ns
      else push_ns ns (the (overflow_diagnostic C v ty loc)))"
  using assms overflow_diagnostic_iff [OF assms, of v loc]
  by (auto simp: bigint_to_expression_def Let_def wrap_value_is_int split: option.splits)

end

section \<open>What folding does to the namespace\<close>

text \<open>
  Folding appends diagnostics, keeps the error flag in step with them, and records constants for
  the language server; nothing else of the namespace changes.
\<close>

definition extends_ns :: "Namespace \<Rightarrow> Namespace \<Rightarrow> bool" where
  "extends_ns ns ns' \<longleftrightarrow> (\<exists>new vc.
     ns' = ns\<lparr>diagnostics := \<lparr>contents = contents (diagnostics ns) @ new,
                has_error = (has_error (diagnostics ns) \<or> (\<exists>d \<in> set new. d_level d = Error))\<rparr>,
              var_constants := vc\<rparr>)"

definition frame :: "'a folding \<Rightarrow> bool" where
  "frame f \<longleftrightarrow> (\<forall>ns r ns'. f ns = Some (r, ns') \<longrightarrow> extends_ns ns ns')"

named_theorems frame_intros \<open>computations that only extend the namespace\<close>

lemma extends_ns_refl [simp]: "extends_ns ns ns"
  unfolding extends_ns_def
  by (rule exI [of _ "[]"], rule exI [of _ "var_constants ns"]) (cases "diagnostics ns", simp)

lemma extends_ns_trans: "extends_ns a b \<Longrightarrow> extends_ns b c \<Longrightarrow> extends_ns a c"
proof -
  assume "extends_ns a b" "extends_ns b c"
  then obtain n1 v1 n2 v2 where
    b: "b = a\<lparr>diagnostics := \<lparr>contents = contents (diagnostics a) @ n1,
          has_error = (has_error (diagnostics a) \<or> (\<exists>d \<in> set n1. d_level d = Error))\<rparr>, var_constants := v1\<rparr>" and
    c: "c = b\<lparr>diagnostics := \<lparr>contents = contents (diagnostics b) @ n2,
          has_error = (has_error (diagnostics b) \<or> (\<exists>d \<in> set n2. d_level d = Error))\<rparr>, var_constants := v2\<rparr>"
    unfolding extends_ns_def by blast
  show ?thesis unfolding extends_ns_def
    by (rule exI [of _ "n1 @ n2"], rule exI [of _ v2]) (simp add: b c bex_Un disj_assoc)
qed

lemma extends_ns_push: "extends_ns ns (push_ns ns d)"
  unfolding extends_ns_def
  by (rule exI [of _ "[d]"], rule exI [of _ "var_constants ns"])
     (cases "diagnostics ns", auto simp: push_ns_def push_def Let_def)

lemma extends_ns_var_constants: "extends_ns ns (ns\<lparr>var_constants := vc\<rparr>)"
  unfolding extends_ns_def
  by (rule exI [of _ "[]"], rule exI [of _ vc]) (cases "diagnostics ns", simp)

lemma extends_ns_error: "extends_ns ns ns' \<Longrightarrow> has_error (diagnostics ns) \<Longrightarrow> has_error (diagnostics ns')"
  by (auto simp: extends_ns_def)

lemma frame_Some [frame_intros]: "frame (\<lambda>ns. Some (r, ns))"
  by (auto simp: frame_def)

lemma frame_None [frame_intros]: "frame (\<lambda>ns. None)"
  by (simp add: frame_def)

lemma frame_if [frame_intros]: "frame f \<Longrightarrow> frame g \<Longrightarrow> frame (\<lambda>ns. if b then f ns else g ns)"
  by (simp add: frame_def)

lemma frame_bind:
  assumes "frame f" "\<And>r. frame (g r)"
  shows "frame (\<lambda>ns. f ns \<bind> (\<lambda>(r, ns). g r ns))"
  using assms by (fastforce simp: frame_def Option.bind_eq_Some_conv intro: extends_ns_trans)

lemma frame_map: "frame f \<Longrightarrow> frame (\<lambda>ns. f ns \<bind> (\<lambda>(r, ns). Some (g r, ns)))"
  by (rule frame_bind) (auto intro: frame_intros)

lemma frame_seq_st [frame_intros]: "(\<And>f. f \<in> set fs \<Longrightarrow> frame f) \<Longrightarrow> frame (seq_st fs)"
proof (induction fs)
  case (Cons f fs)
  have "frame (\<lambda>ns. f ns \<bind> (\<lambda>(x, ns). seq_st fs ns \<bind> (\<lambda>(xs, ns). Some (x # xs, ns))))"
    using Cons by (intro frame_bind frame_map) auto
  then show ?case by (simp add: frame_def)
qed (simp add: frame_def)

lemma frame_bigint [frame_intros]: "frame (bigint_to_expression C loc ty v overflowing)"
  by (auto simp: frame_def bigint_to_expression_def Let_def extends_ns_push split: if_splits option.splits)

lemma frame_number [frame_intros]: "frame (\<lambda>ns. Some ((Expression.NumberLiteral loc ty v, True), ns))"
  by (rule frame_Some)

lemma frame_binary [frame_intros]:
  assumes "frame l" "frame r" "\<And>a b. frame (op a b)"
  shows "frame (binary_fold l r rebuild op)"
proof -
  have "frame (\<lambda>ns. l ns \<bind> (\<lambda>(x, ns). r ns \<bind> (\<lambda>(y, ns). (case (number (fst x), number (fst y)) of
      (Some lv, Some rv) \<Rightarrow> op lv rv ns
    | _ \<Rightarrow> Some ((rebuild (fst x) (fst y), snd x \<and> snd y), ns)))))"
    using assms by (intro frame_bind) (auto simp: frame_def split: option.splits)
  then show ?thesis by (simp add: binary_fold_def frame_def)
qed

lemma frame_unary [frame_intros]:
  assumes "frame a" "\<And>v. frame (op v)"
  shows "frame (unary_fold a rebuild op)"
proof -
  have "frame (\<lambda>ns. a ns \<bind> (\<lambda>(e, ns). (case number (fst e) of
      Some v \<Rightarrow> op v ns | None \<Rightarrow> Some ((rebuild (fst e), snd e), ns))))"
    using assms by (intro frame_bind) (auto simp: frame_def split: option.splits)
  then show ?thesis by (simp add: unary_fold_def frame_def)
qed

lemma frame_shift [frame_intros]:
  assumes "frame l" "frame r" "\<And>a b. frame (op a b)"
  shows "frame (shift_fold s e loc rebuild op l r)"
proof -
  have "frame (\<lambda>ns. l ns \<bind> (\<lambda>(x, ns). r ns \<bind> (\<lambda>(y, ns). (case (number (fst x), number (fst y)) of
      (Some lv, Some rv) \<Rightarrow> do {
          ty \<leftarrow> expr_ty e;
          w \<leftarrow> bits ns ty;
          if rv < 0 \<or> int w \<le> rv then
            Some ((rebuild (fst x) (fst y), snd x \<and> snd y),
                  push_ns ns (error_diagnostic loc (s @ '' shift by '' @ dec_int rv @ '' is not possible'')))
          else op lv (nat rv) ns }
    | _ \<Rightarrow> Some ((rebuild (fst x) (fst y), snd x \<and> snd y), ns)))))"
    using assms by (intro frame_bind)
      (auto simp: frame_def Option.bind_eq_Some_conv extends_ns_push split: option.splits if_splits)
  then show ?thesis by (simp add: shift_fold_def frame_def)
qed

lemma frame_power [frame_intros]:
  assumes "frame b" "frame e"
  shows "frame (power_fold C loc ty overflowing b e)"
proof -
  have "frame (\<lambda>ns. b ns \<bind> (\<lambda>(x, ns). e ns \<bind> (\<lambda>(y, ns).
      (let kept = (Expression.Power loc ty overflowing (fst x) (fst y), snd x \<and> snd y) in
       case (number (fst x), number (fst y)) of
        (Some l, Some r) \<Rightarrow>
          (if r < 0 \<or> 65535 \<le> r then
             Some (kept, push_ns ns (error_diagnostic loc (''power '' @ dec_int r @ '' not possible'')))
           else bigint_to_expression C loc ty (l ^ nat r) overflowing ns)
      | _ \<Rightarrow> Some (kept, ns)))))"
    using assms frame_bigint by (intro frame_bind)
      (auto simp: frame_def Let_def extends_ns_push split: option.splits if_splits)
  then show ?thesis by (simp add: power_fold_def frame_def)
qed

lemma frame_division [frame_intros]:
  assumes "frame l" "frame r"
  shows "frame (division_fold C loc ty op rebuild l r)"
proof -
  have "frame (\<lambda>ns. l ns \<bind> (\<lambda>(x, ns). r ns \<bind> (\<lambda>(y, ns).
      (let kept = (rebuild (fst x) (fst y), snd x \<and> snd y) in
       case number (fst y) of
        None \<Rightarrow> Some (kept, ns)
      | Some rv \<Rightarrow>
          (if rv = 0 then Some (kept, push_ns ns (error_diagnostic loc ''divide by zero''))
           else case number (fst x) of
             None \<Rightarrow> Some (kept, ns)
           | Some lv \<Rightarrow> bigint_to_expression C loc ty (op lv rv) False ns)))))"
    using assms frame_bigint by (intro frame_bind)
      (auto simp: frame_def Let_def extends_ns_push split: option.splits if_splits)
  then show ?thesis by (simp add: division_fold_def frame_def)
qed

lemma frame_rebuild [frame_intros]:
  "frame a \<Longrightarrow> frame (rebuild1 a g)"
  "frame a \<Longrightarrow> frame b \<Longrightarrow> frame (rebuild2 a b h)"
  "frame a \<Longrightarrow> frame (not_fold loc a)"
  "frame a \<Longrightarrow> frame (advance_pointer p a)"
  "(\<And>f. f \<in> set fs \<Longrightarrow> frame f) \<Longrightarrow> frame (rebuild_list fs k)"
  "frame a \<Longrightarrow> frame b \<Longrightarrow> frame (equality_fold loc test h a b)"
  "frame a \<Longrightarrow> frame (bytes_cast_fold C loc to from a)"
  using frame_seq_st [of fs]
  by (fastforce simp: frame_def rebuild1_def rebuild2_def not_fold_def advance_pointer_def rebuild_list_def
      equality_fold_def bytes_cast_fold_def Let_def Option.bind_eq_Some_conv intro: extends_ns_trans)+

lemma frame_lists [frame_intros]:
  assumes "\<And>f. f \<in> set fs \<Longrightarrow> frame f"
  shows "frame (bytes_concat loc fs)" "frame (keccak_256 C loc ty fs)" "frame (builtin_fold loc tys kind fs)"
    "frame (builtin_hash C loc tys kind fs)"
proof -
  have seq: "frame (seq_st fs)" using assms by (rule frame_seq_st)
  show "frame (bytes_concat loc fs)" "frame (keccak_256 C loc ty fs)"
    using seq by (auto simp: frame_def bytes_concat_def keccak_256_def Option.bind_eq_Some_conv)
  show "frame (builtin_fold loc tys kind fs)"
    unfolding builtin_fold_def using assms by (rule frame_rebuild)
  have "frame (fs ! 0)" if "fs \<noteq> []" using assms that by (cases fs) auto
  then show "frame (builtin_hash C loc tys kind fs)"
    by (auto simp: frame_def builtin_hash_def vec_get_def Option.bind_eq_Some_conv split: if_splits option.splits)
qed

lemma frame_string_compare [frame_intros]:
  assumes "\<And>f. f \<in> set_StringLocation l \<union> set_StringLocation r \<Longrightarrow> frame f"
  shows "frame (string_compare loc l r)"
proof -
  have one: "frame (fold_string x)" if "\<And>f. f \<in> set_StringLocation x \<Longrightarrow> frame f" for x
  proof (cases x)
    case (RunTime f)
    then have "frame f" using that by simp
    then show ?thesis using RunTime by (auto simp: frame_def fold_string_def Option.bind_eq_Some_conv)
  qed (simp add: frame_def fold_string_def)
  have "frame (fold_string l)" "frame (fold_string r)" using assms by (auto intro: one)
  then have "frame (\<lambda>ns. fold_string l ns \<bind> (\<lambda>(a, ns). fold_string r ns \<bind>
      (\<lambda>(b, ns). Some ((Expression.StringCompare loc a b, False), ns))))"
    by (intro frame_bind frame_map)
  then show ?thesis by (cases l; cases r) (simp_all add: frame_def string_compare_def)
qed

lemmas fold_defs = add_fold_def subtract_fold_def multiply_fold_def bitwise_and_fold_def bitwise_or_fold_def
  bitwise_xor_fold_def shift_left_fold_def shift_right_fold_def divide_fold_def modulo_fold_def
  zero_ext_fold_def sign_ext_fold_def trunc_fold_def bitwise_not_fold_def negate_fold_def
  equal_fold_def not_equal_fold_def struct_literal_fold_def array_literal_fold_def const_array_literal_fold_def
  load_fold_def cast_fold_def more_fold_def less_fold_def more_equal_fold_def less_equal_fold_def
  subscript_fold_def struct_member_fold_def storage_array_length_fold_def

lemma frame_expression_with:
  assumes "\<And>loc v ty e. frame (rv loc v ty e)"
  shows "frame (expression_with C rv e)"
proof (induction e)
  case (Variable loc ty v)
  then show ?case using assms by (simp add: frame_def)
qed (auto simp: fold_defs StringLocation.set_map intro!: frame_intros)

end
