(* ===== verification/ConstfoldSound.thy ===== *)
theory ConstfoldSound
  imports ConstfoldFrame
begin

text \<open>
  Correctness of constant folding on the integer and boolean fragment: an expression that folds
  without an error keeps its type and its value.
\<close>

section \<open>Folding keeps the value\<close>

text \<open>
  A computation that folds \<open>e\<close>: when it leaves no error, the result is well typed, has the
  type of \<open>e\<close> and its value in every environment of \<open>E\<close>, and when it is flagged
  constant its value does not depend on variables.
\<close>

definition folds ::
  "(nat \<Rightarrow> Type) \<Rightarrow> (nat \<Rightarrow> int) set \<Rightarrow> (nat \<Rightarrow> int) \<Rightarrow> folded folding \<Rightarrow> Expression \<Rightarrow> bool" where
  "folds T E args f e \<longleftrightarrow> (\<forall>ns e' c ns'. f ns = Some ((e', c), ns') \<longrightarrow> \<not> has_error (diagnostics ns') \<longrightarrow>
     wt T e' \<and> expr_ty e' = expr_ty e \<and> (\<forall>env \<in> E. eval env args e' = eval env args e) \<and>
     (c \<longrightarrow> (\<forall>env env'. eval env' args e' = eval env args e')))"

lemma foldsD:
  assumes "folds T E args f e" "f ns = Some (r, ns')" "\<not> has_error (diagnostics ns')"
  shows "wt T (fst r)" "expr_ty (fst r) = expr_ty e"
    and folds_value: "env \<in> E \<Longrightarrow> eval env args (fst r) = eval env args e"
    and folds_constant: "snd r \<Longrightarrow> eval env' args (fst r) = eval env args (fst r)"
proof -
  have f: "f ns = Some ((fst r, snd r), ns')" using assms(2) by simp
  have same: "wt T (fst r) \<and> expr_ty (fst r) = expr_ty e \<and> (\<forall>env \<in> E. eval env args (fst r) = eval env args e) \<and>
      (snd r \<longrightarrow> (\<forall>env env'. eval env' args (fst r) = eval env args (fst r)))"
    using assms(1) [unfolded folds_def] f assms(3) by blast
  show "wt T (fst r)" "expr_ty (fst r) = expr_ty e" using same by blast+
  show "eval env args (fst r) = eval env args e" if "env \<in> E" using same that by blast
  show "eval env' args (fst r) = eval env args (fst r)" if "snd r" using same that by blast
qed

lemma foldsI:
  assumes "\<And>ns e' c ns'. f ns = Some ((e', c), ns') \<Longrightarrow> \<not> has_error (diagnostics ns') \<Longrightarrow>
    wt T e' \<and> expr_ty e' = expr_ty e \<and> (\<forall>env \<in> E. eval env args e' = eval env args e) \<and>
    (c \<longrightarrow> (\<forall>env env'. eval env' args e' = eval env args e'))"
  shows "folds T E args f e"
  unfolding folds_def using assms by blast

lemma bind_pair_Some:
  "(f ns \<bind> (\<lambda>(x, ns). h x ns)) = Some res \<longleftrightarrow> (\<exists>x ns1. f ns = Some (x, ns1) \<and> h x ns1 = Some res)"
  by (cases "f ns") auto

lemma frame_no_error:
  "frame f \<Longrightarrow> f ns = Some (r, ns') \<Longrightarrow> \<not> has_error (diagnostics ns') \<Longrightarrow> \<not> has_error (diagnostics ns)"
  unfolding frame_def by (meson extends_ns_error)

text \<open>A folded operand that is a literal.\<close>

lemma number_Some: "number e = Some v \<Longrightarrow> \<exists>loc ty. e = Expression.NumberLiteral loc ty v"
  by (cases e) (simp_all add: number_def)

lemma number_literal:
  assumes "wt T e" "number e = Some v" "expr_ty e = Some ty"
  shows "in_range ty v" and eval_number: "eval env args e = Some v"
proof -
  obtain loc t where e: "e = Expression.NumberLiteral loc t v" using number_Some [OF assms(2)] by blast
  show "in_range ty v" "eval env args e = Some v" using assms(1,3) by (simp_all add: e)
qed

lemma folds_literal:
  assumes "is_int ty" "in_range ty v" "e' = Expression.NumberLiteral loc ty v"
  shows "wt T e'" "expr_ty e' = Some ty" "eval env args e' = Some v"
  using assms by simp_all

text \<open>An operation on literals that gives the value \<open>sem\<close> when it reports no error.\<close>

definition lit_op :: "Type \<Rightarrow> int option \<Rightarrow> folded folding \<Rightarrow> bool" where
  "lit_op ty r f \<longleftrightarrow> (\<forall>ns e' c ns'. f ns = Some ((e', c), ns') \<longrightarrow> \<not> has_error (diagnostics ns') \<longrightarrow>
     (\<exists>v loc. e' = Expression.NumberLiteral loc ty v \<and> in_range ty v \<and> r = Some v))"

text \<open>
  The operators on two operands of the result's type: both operands are folded, and \<open>k\<close>
  either rebuilds the operator or computes it.
\<close>

definition computes ::
  "Type \<Rightarrow> (Expression \<Rightarrow> Expression \<Rightarrow> Expression) \<Rightarrow> (int \<Rightarrow> int \<Rightarrow> int option) \<Rightarrow>
   (folded \<Rightarrow> folded \<Rightarrow> folded folding) \<Rightarrow> bool" where
  "computes ty rebuild sem k \<longleftrightarrow> (\<forall>x y ns e' c ns'. k x y ns = Some ((e', c), ns') \<longrightarrow> \<not> has_error (diagnostics ns') \<longrightarrow>
     e' = rebuild (fst x) (fst y) \<and> c = (snd x \<and> snd y) \<or>
     (\<exists>a b. number (fst x) = Some a \<and> number (fst y) = Some b \<and> (in_range ty a \<longrightarrow> in_range ty b \<longrightarrow>
        (\<exists>v loc. e' = Expression.NumberLiteral loc ty v \<and> in_range ty v \<and> sem a b = Some v))))"

lemma operator_folds:
  assumes F: "F = (\<lambda>ns. f ns \<bind> (\<lambda>(x, ns). g ns \<bind> (\<lambda>(y, ns). k x y ns)))"
    and l: "folds T E args f l" "expr_ty l = Some ty" and r: "folds T E args g r" "expr_ty r = Some ty"
    and fr: "frame g" "\<And>x y. frame (k x y)" and int: "is_int ty"
    and ty_re: "\<And>l' r'. expr_ty (rebuild l' r') = Some ty"
    and wt_re: "\<And>l' r'. wt T l' \<Longrightarrow> wt T r' \<Longrightarrow> expr_ty l' = Some ty \<Longrightarrow> expr_ty r' = Some ty \<Longrightarrow> wt T (rebuild l' r')"
    and ev: "\<And>env l' r'. eval env args (rebuild l' r') = lift2 sem (eval env args l') (eval env args r')"
    and k: "computes ty rebuild sem k"
  shows "folds T E args F (rebuild l r)"
proof (rule foldsI)
  fix ns e' c ns'
  assume "F ns = Some ((e', c), ns')" and ne: "\<not> has_error (diagnostics ns')"
  then obtain x ns1 y ns2 where x: "f ns = Some (x, ns1)" and y: "g ns1 = Some (y, ns2)"
    and res: "k x y ns2 = Some ((e', c), ns')"
    unfolding F bind_pair_Some by blast
  have ne2: "\<not> has_error (diagnostics ns2)" using frame_no_error [OF fr(2) res ne] .
  have ne1: "\<not> has_error (diagnostics ns1)" using frame_no_error [OF fr(1) y ne2] .
  note X = foldsD [OF l(1) x ne1, unfolded l(2)] and Y = foldsD [OF r(1) y ne2, unfolded r(2)]
  consider (kept) "e' = rebuild (fst x) (fst y)" "c = (snd x \<and> snd y)"
    | (lit) a b where "number (fst x) = Some a" "number (fst y) = Some b"
        "in_range ty a \<longrightarrow> in_range ty b \<longrightarrow>
          (\<exists>v loc. e' = Expression.NumberLiteral loc ty v \<and> in_range ty v \<and> sem a b = Some v)"
    using k res ne unfolding computes_def by blast
  then show "wt T e' \<and> expr_ty e' = expr_ty (rebuild l r) \<and> (\<forall>env \<in> E. eval env args e' = eval env args (rebuild l r)) \<and>
      (c \<longrightarrow> (\<forall>env env'. eval env' args e' = eval env args e'))"
  proof cases
    case kept
    have "eval env' args e' = eval env args e'" if c for env env'
      using X(4) [of env' env] Y(4) [of env' env] that by (simp add: kept ev)
    then show ?thesis using X(1,2,3) Y(1,2,3) by (simp add: kept(1) ty_re wt_re ev)
  next
    case (lit a b)
    obtain v loc where v: "e' = Expression.NumberLiteral loc ty v" "in_range ty v" "sem a b = Some v"
      using lit(3) number_literal(1) [OF X(1) lit(1) X(2)] number_literal(1) [OF Y(1) lit(2) Y(2)] by blast
    have "eval env args (rebuild l r) = Some v" if "env \<in> E" for env
    proof -
      have "eval env args l = Some a" "eval env args r = Some b"
        using eval_number [OF X(1) lit(1) X(2), of env args] eval_number [OF Y(1) lit(2) Y(2), of env args]
          X(3) [OF that] Y(3) [OF that] by simp_all
      then show ?thesis using v(3) by (simp add: ev)
    qed
    then show ?thesis using v int by (simp add: ty_re)
  qed
qed

lemma unary_folds:
  assumes x: "folds T E args f x" "expr_ty x = Some t"
    and fr: "\<And>a. frame (op a)" and int: "is_int ty"
    and ty_re: "\<And>x'. expr_ty (rebuild x') = Some ty"
    and wt_re: "\<And>x'. wt T x' \<Longrightarrow> expr_ty x' = Some t \<Longrightarrow> wt T (rebuild x')"
    and ev: "\<And>env x'. eval env args (rebuild x') = lift1 sem (eval env args x')"
    and op: "\<And>a. in_range t a \<Longrightarrow> lit_op ty (sem a) (op a)"
  shows "folds T E args (unary_fold f rebuild op) (rebuild x)"
proof (rule foldsI)
  fix ns e' c ns'
  assume "unary_fold f rebuild op ns = Some ((e', c), ns')" and ne: "\<not> has_error (diagnostics ns')"
  then obtain y ns1 where y: "f ns = Some (y, ns1)"
    and res: "(case number (fst y) of Some v \<Rightarrow> op v ns1 | None \<Rightarrow> Some ((rebuild (fst y), snd y), ns1)) =
      Some ((e', c), ns')"
    unfolding unary_fold_def bind_pair_Some by blast
  have ne1: "\<not> has_error (diagnostics ns1)"
    using res ne frame_no_error [OF fr] by (auto split: option.splits)
  note Y = foldsD [OF x(1) y ne1, unfolded x(2)]
  show "wt T e' \<and> expr_ty e' = expr_ty (rebuild x) \<and> (\<forall>env \<in> E. eval env args e' = eval env args (rebuild x)) \<and>
      (c \<longrightarrow> (\<forall>env env'. eval env' args e' = eval env args e'))"
  proof (cases "number (fst y)")
    case None
    then have kept: "e' = rebuild (fst y)" "c = snd y" using res by simp_all
    have "eval env' args e' = eval env args e'" if c for env env'
      using Y(4) [of env' env] that by (simp add: kept ev)
    then show ?thesis using Y(1,2,3) by (simp add: kept(1) ty_re wt_re ev)
  next
    case (Some a)
    with res obtain v loc where v: "e' = Expression.NumberLiteral loc ty v" "in_range ty v" "sem a = Some v"
      using op [OF number_literal(1) [OF Y(1) Some Y(2)]] ne unfolding lit_op_def by fastforce
    have "eval env args (rebuild x) = Some v" if "env \<in> E" for env
      using eval_number [OF Y(1) Some Y(2), of env args] Y(3) [OF that] v(3) by (simp add: ev)
    then show ?thesis using v int by (simp add: ty_re)
  qed
qed

text \<open>Expressions that are rebuilt from two folded operands, or from one.\<close>

lemma rebuild2_folds:
  assumes l: "folds T E args f l" and r: "folds T E args g r" and fr: "frame g"
    and re: "\<And>l' r'. expr_ty (rebuild l' r') = Some Type.Bool"
    and wt_re: "\<And>l' r'. wt T l' \<Longrightarrow> wt T r' \<Longrightarrow> expr_ty l' = expr_ty l \<Longrightarrow> expr_ty r' = expr_ty r \<Longrightarrow> wt T (rebuild l' r')"
    and ev: "\<And>env l' r'. eval env args (rebuild l' r') = lift2 sem (eval env args l') (eval env args r')"
  shows "folds T E args (rebuild2 f g rebuild) (rebuild l r)"
    and "folds T E args (equality_fold loc test rebuild f g) (rebuild l r)"
proof -
  have key: "wt T (rebuild (fst x) (fst y)) \<and> (\<forall>env \<in> E. eval env args (rebuild (fst x) (fst y)) =
      eval env args (rebuild l r)) \<and> bytes_literal (fst x) = None"
    if "f ns = Some (x, ns1)" "g ns1 = Some (y, ns2)" "\<not> has_error (diagnostics ns2)" for ns x ns1 y ns2
  proof -
    have ne1: "\<not> has_error (diagnostics ns1)" using frame_no_error [OF fr that(2,3)] .
    note X = foldsD [OF l that(1) ne1] and Y = foldsD [OF r that(2,3)]
    have "bytes_literal (fst x) = None" using X(1) by (cases "fst x") (simp_all add: bytes_literal_def)
    then show ?thesis using X(1,2,3) Y(1,2,3) by (simp add: wt_re ev)
  qed
  show "folds T E args (rebuild2 f g rebuild) (rebuild l r)"
    by (rule foldsI) (auto simp: rebuild2_def bind_pair_Some re dest: key)
  show "folds T E args (equality_fold loc test rebuild f g) (rebuild l r)"
  proof (rule foldsI)
    fix ns e' c ns'
    assume "equality_fold loc test rebuild f g ns = Some ((e', c), ns')" and ne: "\<not> has_error (diagnostics ns')"
    then obtain x ns1 y ns2 where xy: "f ns = Some (x, ns1)" "g ns1 = Some (y, ns2)" and
      res: "Some (case (bytes_literal (fst x), bytes_literal (fst y)) of
        (Some lb, Some rb) \<Rightarrow> (Expression.BoolLiteral loc (test lb rb), True)
      | _ \<Rightarrow> (rebuild (fst x) (fst y), False), ns2) = Some ((e', c), ns')"
      unfolding equality_fold_def bind_pair_Some by blast
    have ns2: "ns' = ns2" using res by simp
    have k: "wt T (rebuild (fst x) (fst y)) \<and> (\<forall>env \<in> E. eval env args (rebuild (fst x) (fst y)) =
        eval env args (rebuild l r)) \<and> bytes_literal (fst x) = None"
      using key [OF xy] ne by (simp add: ns2)
    then have "e' = rebuild (fst x) (fst y)" "\<not> c" using res by simp_all
    then show "wt T e' \<and> expr_ty e' = expr_ty (rebuild l r) \<and> (\<forall>env \<in> E. eval env args e' = eval env args (rebuild l r)) \<and>
      (c \<longrightarrow> (\<forall>env env'. eval env' args e' = eval env args e'))"
      using k by (simp add: re)
  qed
qed

lemma rebuild1_folds:
  assumes x: "folds T E args f x" "expr_ty (rebuild x) = Some ty"
    and ty_re: "\<And>x'. expr_ty (rebuild x') = Some ty"
    and wt_re: "\<And>x'. wt T x' \<Longrightarrow> expr_ty x' = expr_ty x \<Longrightarrow> wt T (rebuild x')"
    and ev: "\<And>env x'. eval env args (rebuild x') = lift1 sem (eval env args x')"
  shows "folds T E args (rebuild1 f rebuild) (rebuild x)"
proof (rule foldsI)
  fix ns e' c ns'
  assume "rebuild1 f rebuild ns = Some ((e', c), ns')" and ne: "\<not> has_error (diagnostics ns')"
  then obtain y where y: "f ns = Some (y, ns')" "e' = rebuild (fst y)" "\<not> c"
    unfolding rebuild1_def bind_pair_Some by auto
  note Y = foldsD [OF x(1) y(1) ne]
  show "wt T e' \<and> expr_ty e' = expr_ty (rebuild x) \<and> (\<forall>env \<in> E. eval env args e' = eval env args (rebuild x)) \<and>
      (c \<longrightarrow> (\<forall>env env'. eval env' args e' = eval env args e'))"
    using Y(1,2,3) y(2,3) by (simp add: ty_re wt_re ev)
qed

lemma not_folds:
  assumes x: "folds T E args f x" "expr_ty x = Some Type.Bool"
  shows "folds T E args (not_fold loc f) (Expression.Not loc x)"
proof (rule foldsI)
  fix ns e' c ns'
  assume "not_fold loc f ns = Some ((e', c), ns')" and ne: "\<not> has_error (diagnostics ns')"
  then obtain y where y: "f ns = Some (y, ns')" "e' = Expression.Not loc (fst y)" "c = snd y"
    unfolding not_fold_def bind_pair_Some by auto
  note Y = foldsD [OF x(1) y(1) ne]
  show "wt T e' \<and> expr_ty e' = expr_ty (Expression.Not loc x) \<and>
      (\<forall>env \<in> E. eval env args e' = eval env args (Expression.Not loc x)) \<and>
      (c \<longrightarrow> (\<forall>env env'. eval env' args e' = eval env args e'))"
  proof (intro conjI impI allI ballI)
    fix env env' assume c
    then have "eval env' args (fst y) = eval env args (fst y)" using Y(4) [of env' env] y(3) by simp
    then show "eval env' args e' = eval env args e'" by (simp add: y(2))
  qed (use Y(1,2,3) x(2) y(2) in simp_all)
qed

section \<open>The operators compute\<close>

context bigint_crate
begin

lemma bigint_result:
  assumes int: "is_int ty" and res: "bigint_to_expression C loc ty v overflowing ns = Some ((e', c), ns')"
    and ne: "\<not> has_error (diagnostics ns')" and sem: "overflowing \<Longrightarrow> sem = Some (wrap ty v)"
    and "\<not> overflowing \<Longrightarrow> in_range ty v \<Longrightarrow> sem = Some v"
  shows "\<exists>v' loc. e' = Expression.NumberLiteral loc ty v' \<and> in_range ty v' \<and> sem = Some v'"
proof (cases "overflowing \<or> in_range ty v")
  case True
  then have "e' = Expression.NumberLiteral loc ty (wrap ty v)" using res by (simp add: bigint_to_expression_spec [OF int])
  moreover have "sem = Some (wrap ty v)" using True assms(4,5) by (cases overflowing) (simp_all add: wrap_id)
  ultimately show ?thesis using wrap_in_range [OF int] by blast
next
  case False
  then obtain d where d: "overflow_diagnostic C v ty loc = Some d"
    using overflow_diagnostic_iff [OF int, of v loc] by auto
  then have "ns' = push_ns ns d" using res False by (simp add: bigint_to_expression_spec [OF int])
  moreover have "d_level d = Error" using overflow_diagnostic_error [OF d] by simp
  ultimately show ?thesis using ne by (simp add: push_ns_def push_def Let_def)
qed

lemma lit_op_bigint:
  assumes "is_int ty" "overflowing \<Longrightarrow> sem = Some (wrap ty v)"
    "\<not> overflowing \<Longrightarrow> in_range ty v \<Longrightarrow> sem = Some v"
  shows "lit_op ty sem (bigint_to_expression C loc ty v overflowing)"
  unfolding lit_op_def using bigint_result [OF assms(1) _ _ assms(2,3)] by blast

lemma computes_binary:
  assumes "\<And>a b. in_range ty a \<Longrightarrow> in_range ty b \<Longrightarrow> lit_op ty (sem a b) (op a b)"
  shows "computes ty rebuild sem (\<lambda>x y ns. case (number (fst x), number (fst y)) of
      (Some lv, Some rv) \<Rightarrow> op lv rv ns
    | _ \<Rightarrow> Some ((rebuild (fst x) (fst y), snd x \<and> snd y), ns))"
  using assms unfolding computes_def lit_op_def by (simp split: option.split)

lemma computes_shift:
  assumes ty: "is_int ty" "expr_ty e = Some ty"
    and op: "\<And>a n. int n < width ty \<Longrightarrow> lit_op ty (sem a (int n)) (op a n)"
  shows "computes ty rebuild sem (\<lambda>x y ns. case (number (fst x), number (fst y)) of
      (Some lv, Some rv) \<Rightarrow> do {
          ty \<leftarrow> expr_ty e;
          w \<leftarrow> bits ns ty;
          if rv < 0 \<or> int w \<le> rv then
            Some ((rebuild (fst x) (fst y), snd x \<and> snd y),
                  push_ns ns (error_diagnostic loc (s @ '' shift by '' @ dec_int rv @ '' is not possible'')))
          else op lv (nat rv) ns }
    | _ \<Rightarrow> Some ((rebuild (fst x) (fst y), snd x \<and> snd y), ns))"
proof -
  have bits: "bits ns ty = Some (width ty)" for ns
    using ty(1) by (cases rule: is_int_cases) (simp_all add: bits_def bits_fuel.simps width_def)
  have "\<exists>v loc. e' = Expression.NumberLiteral loc ty v \<and> in_range ty v \<and> sem a b = Some v"
    if "0 \<le> b" "b < int (width ty)" "op a (nat b) ns = Some ((e', c), ns')" "\<not> has_error (diagnostics ns')"
    for a b ns e' c ns'
    using op [of "nat b" a] that unfolding lit_op_def by fastforce
  then show ?thesis unfolding computes_def
    by (simp add: ty(2) bits split: option.split)
qed

lemma computes_power:
  assumes "is_int ty"
  shows "computes ty (Expression.Power loc ty overflowing)
    (\<lambda>a b. if b < 0 then None else checked ty overflowing (a ^ nat b))
    (\<lambda>x y ns. let kept = (Expression.Power loc ty overflowing (fst x) (fst y), snd x \<and> snd y) in
       case (number (fst x), number (fst y)) of
        (Some l, Some r) \<Rightarrow>
          (if r < 0 \<or> 65535 \<le> r then
             Some (kept, push_ns ns (error_diagnostic loc (''power '' @ dec_int r @ '' not possible'')))
           else bigint_to_expression C loc ty (l ^ nat r) overflowing ns)
      | _ \<Rightarrow> Some (kept, ns))"
proof -
  have "lit_op ty (checked ty overflowing v) (bigint_to_expression C loc ty v overflowing)" for v
    using assms by (rule lit_op_bigint) (simp_all add: checked_True, simp add: checked_def)
  then show ?thesis unfolding computes_def lit_op_def
    by (simp add: Let_def split: option.split) force
qed

lemma computes_division:
  assumes "is_int ty"
  shows "computes ty rebuild (\<lambda>a b. if b = 0 then None else Some (wrap ty (op a b)))
    (\<lambda>x y ns. let kept = (rebuild (fst x) (fst y), snd x \<and> snd y) in
       case number (fst y) of
        None \<Rightarrow> Some (kept, ns)
      | Some rv \<Rightarrow>
          (if rv = 0 then Some (kept, push_ns ns (error_diagnostic loc ''divide by zero''))
           else case number (fst x) of
             None \<Rightarrow> Some (kept, ns)
           | Some lv \<Rightarrow> bigint_to_expression C loc ty (op lv rv) False ns))"
proof -
  have "lit_op ty (Some (wrap ty v)) (bigint_to_expression C loc ty v False)" for v
    using assms by (rule lit_op_bigint) (simp_all add: wrap_id)
  then show ?thesis unfolding computes_def lit_op_def
    by (simp add: Let_def split: option.split) force
qed

end

section \<open>Expressions\<close>

text \<open>
  What the treatment of variables promises: it only extends the namespace, and the expression it
  puts in the place of a variable has the type and value of the variable. \<open>T\<close> gives the
  types of all variables, \<open>D\<close> of those an expression may read here, \<open>E\<close> the
  environments it may be evaluated in.
\<close>

locale variable_folding = bigint_crate +
  fixes rv :: "Loc \<Rightarrow> nat \<Rightarrow> Type \<Rightarrow> Expression \<Rightarrow> folded folding"
    and T D :: "nat \<Rightarrow> Type" and E :: "(nat \<Rightarrow> int) set" and args :: "nat \<Rightarrow> int"
  assumes rv_frame: "frame (rv loc v ty e)"
    and rv_folds: "wt D (Expression.Variable loc ty v) \<Longrightarrow>
      folds T E args (rv loc v ty (Expression.Variable loc ty v)) (Expression.Variable loc ty v)"
begin

lemma frame_fold: "frame (expression_with C rv e)"
  using rv_frame by (rule frame_expression_with)

lemma checked_op: "is_int ty \<Longrightarrow> lit_op ty (checked ty overflowing v) (bigint_to_expression C loc ty v overflowing)"
  by (rule lit_op_bigint) (simp_all add: checked_True, simp add: checked_def)

lemma wrapping_op: "is_int ty \<Longrightarrow> lit_op ty (Some (wrap ty v)) (bigint_to_expression C loc ty v True)"
  by (rule lit_op_bigint) simp_all

lemma binary_folds:
  assumes "folds T E args f l" "expr_ty l = Some ty" "folds T E args g r" "expr_ty r = Some ty"
    "frame g" "is_int ty" "\<And>a b. frame (op a b)"
    "\<And>l' r'. expr_ty (rebuild l' r') = Some ty"
    "\<And>l' r'. wt T l' \<Longrightarrow> wt T r' \<Longrightarrow> expr_ty l' = Some ty \<Longrightarrow> expr_ty r' = Some ty \<Longrightarrow> wt T (rebuild l' r')"
    "\<And>env l' r'. eval env args (rebuild l' r') = lift2 sem (eval env args l') (eval env args r')"
    "\<And>a b. lit_op ty (sem a b) (op a b)"
  shows "folds T E args (binary_fold f g rebuild op) (rebuild l r)"
proof (rule operator_folds [OF _ assms(1-5) _ assms(6) assms(8-10) computes_binary])
  show "binary_fold f g rebuild op = (\<lambda>ns. f ns \<bind> (\<lambda>(x, ns). g ns \<bind> (\<lambda>(y, ns).
      case (number (fst x), number (fst y)) of (Some lv, Some rv) \<Rightarrow> op lv rv ns
      | _ \<Rightarrow> Some ((rebuild (fst x) (fst y), snd x \<and> snd y), ns))))"
    by (simp add: binary_fold_def fun_eq_iff)
  show "frame (\<lambda>ns. case (number (fst x), number (fst y)) of (Some lv, Some rv) \<Rightarrow> op lv rv ns
      | _ \<Rightarrow> Some ((rebuild (fst x) (fst y), snd x \<and> snd y), ns))" for x y
    using assms(7) by (auto simp: frame_def split: option.splits)
qed (use assms(11) in auto)

lemma shift_folds:
  assumes "folds T E args f l" "expr_ty l = Some ty" "folds T E args g r" "expr_ty r = Some ty"
    "frame g" "is_int ty" "\<And>a b. frame (op a b)"
    "\<And>l' r'. expr_ty (rebuild l' r') = Some ty"
    "\<And>l' r'. wt T l' \<Longrightarrow> wt T r' \<Longrightarrow> expr_ty l' = Some ty \<Longrightarrow> expr_ty r' = Some ty \<Longrightarrow> wt T (rebuild l' r')"
    "\<And>env l' r'. eval env args (rebuild l' r') = lift2 sem (eval env args l') (eval env args r')"
    and op: "\<And>a n. int n < width ty \<Longrightarrow> lit_op ty (sem a (int n)) (op a n)"
  shows "folds T E args (shift_fold s l loc rebuild op f g) (rebuild l r)"
proof (rule operator_folds [OF _ assms(1-5) _ assms(6) assms(8-10) 
    computes_shift [where sem = sem and op = op and rebuild = rebuild and loc = loc and s = s, OF assms(6,2)]])
  show "frame (\<lambda>ns. case (number (fst x), number (fst y)) of
      (Some lv, Some rv) \<Rightarrow> do {
          ty \<leftarrow> expr_ty l;
          w \<leftarrow> bits ns ty;
          if rv < 0 \<or> int w \<le> rv then
            Some ((rebuild (fst x) (fst y), snd x \<and> snd y),
                  push_ns ns (error_diagnostic loc (s @ '' shift by '' @ dec_int rv @ '' is not possible'')))
          else op lv (nat rv) ns }
    | _ \<Rightarrow> Some ((rebuild (fst x) (fst y), snd x \<and> snd y), ns))" for x y
    using assms(7) by (auto simp: frame_def Option.bind_eq_Some_conv extends_ns_push split: option.splits if_splits)
qed (use op in \<open>auto simp: shift_fold_def fun_eq_iff\<close>)

lemma power_folds:
  assumes "folds T E args f l" "expr_ty l = Some ty" "folds T E args g r" "expr_ty r = Some ty"
    "frame g" "is_int ty"
  shows "folds T E args (power_fold C loc ty overflowing f g) (Expression.Power loc ty overflowing l r)"
proof (rule operator_folds [OF _ assms(1-5) _ assms(6) _ _ _ computes_power [OF assms(6), of loc overflowing]])
  show "frame (\<lambda>ns. let kept = (Expression.Power loc ty overflowing (fst x) (fst y), snd x \<and> snd y) in
       case (number (fst x), number (fst y)) of
        (Some l, Some r) \<Rightarrow>
          (if r < 0 \<or> 65535 \<le> r then
             Some (kept, push_ns ns (error_diagnostic loc (''power '' @ dec_int r @ '' not possible'')))
           else bigint_to_expression C loc ty (l ^ nat r) overflowing ns)
      | _ \<Rightarrow> Some (kept, ns))" for x y
    using frame_bigint by (auto simp: frame_def Let_def extends_ns_push split: option.splits if_splits)
qed (simp_all add: power_fold_def fun_eq_iff assms(6))

lemma division_folds:
  assumes "folds T E args f l" "expr_ty l = Some ty" "folds T E args g r" "expr_ty r = Some ty"
    "frame g" "is_int ty"
    "\<And>l' r'. expr_ty (rebuild l' r') = Some ty"
    "\<And>l' r'. wt T l' \<Longrightarrow> wt T r' \<Longrightarrow> expr_ty l' = Some ty \<Longrightarrow> expr_ty r' = Some ty \<Longrightarrow> wt T (rebuild l' r')"
    "\<And>env l' r'. eval env args (rebuild l' r') =
      lift2 (\<lambda>a b. if b = 0 then None else Some (wrap ty (op a b))) (eval env args l') (eval env args r')"
  shows "folds T E args (division_fold C loc ty op rebuild f g) (rebuild l r)"
proof (rule operator_folds [OF _ assms(1-5) _ assms(6-9) computes_division [OF assms(6), of rebuild op loc]])
  show "frame (\<lambda>ns. let kept = (rebuild (fst x) (fst y), snd x \<and> snd y) in
       case number (fst y) of
        None \<Rightarrow> Some (kept, ns)
      | Some rv \<Rightarrow>
          (if rv = 0 then Some (kept, push_ns ns (error_diagnostic loc ''divide by zero''))
           else case number (fst x) of
             None \<Rightarrow> Some (kept, ns)
           | Some lv \<Rightarrow> bigint_to_expression C loc ty (op lv rv) False ns))" for x y
    using frame_bigint by (auto simp: frame_def Let_def extends_ns_push split: option.splits if_splits)
qed (auto simp: division_fold_def fun_eq_iff)

lemma ext_folds:
  assumes "folds T E args f x" "expr_ty x = Some t" "is_int ty"
    "\<And>x'. expr_ty (rebuild x') = Some ty"
    "\<And>x'. wt T x' \<Longrightarrow> expr_ty x' = Some t \<Longrightarrow> wt T (rebuild x')"
    "\<And>env x'. eval env args (rebuild x') = lift1 (\<lambda>a. Some (wrap ty a)) (eval env args x')"
    and ext: "extends sign (Some t) ty"
  shows "folds T E args (unary_fold f rebuild (\<lambda>v ns. Some ((Expression.NumberLiteral loc ty v, True), ns))) (rebuild x)"
proof (rule unary_folds [OF assms(1,2) _ assms(3-6)])
  show "lit_op ty (Some (wrap ty a)) (\<lambda>ns. Some ((Expression.NumberLiteral loc ty a, True), ns))" if "in_range t a" for a
    using extends_in_range [OF ext that assms(3)] by (auto simp: lit_op_def wrap_id)
qed (auto intro: frame_intros)

lemma unary_wrapping_folds:
  assumes "folds T E args f x" "expr_ty x = Some t" "is_int ty"
    "\<And>x'. expr_ty (rebuild x') = Some ty"
    "\<And>x'. wt T x' \<Longrightarrow> expr_ty x' = Some t \<Longrightarrow> wt T (rebuild x')"
    "\<And>env x'. eval env args (rebuild x') = lift1 (\<lambda>a. Some (wrap ty (op a))) (eval env args x')"
  shows "folds T E args (unary_fold f rebuild (\<lambda>v. bigint_to_expression C loc ty (op v) True)) (rebuild x)"
  by (rule unary_folds [OF assms(1,2) _ assms(3-6)]) (auto intro: frame_intros wrapping_op [OF assms(3)])

lemma compare_types:
  "(a = b \<and> (\<exists>t. a = Some t \<and> P t)) \<longleftrightarrow> (\<exists>t. a = Some t \<and> b = Some t \<and> P t)"
  by auto

lemma fold_sound: "wt D e \<Longrightarrow> folds T E args (expression_with C rv e) e"
proof (induction e)
  case (Add loc ty overflowing l r)
  then show ?case by (auto simp: fold_defs intro!: binary_folds frame_fold checked_op frame_intros)
next
  case (Subtract loc ty overflowing l r)
  then show ?case by (auto simp: fold_defs intro!: binary_folds frame_fold checked_op frame_intros)
next
  case (Multiply loc ty overflowing l r)
  then show ?case by (auto simp: fold_defs intro!: binary_folds frame_fold checked_op frame_intros)
next
  case (BitwiseAnd loc ty l r)
  then show ?case by (auto simp: fold_defs intro!: binary_folds frame_fold wrapping_op frame_intros)
next
  case (BitwiseOr loc ty l r)
  then show ?case by (auto simp: fold_defs intro!: binary_folds frame_fold wrapping_op frame_intros)
next
  case (BitwiseXor loc ty l r)
  then show ?case by (auto simp: fold_defs intro!: binary_folds frame_fold wrapping_op frame_intros)
next
  case (UnsignedDivide loc ty l r)
  then show ?case by (auto simp: fold_defs intro!: division_folds frame_fold)
next
  case (SignedDivide loc ty l r)
  then show ?case by (auto simp: fold_defs intro!: division_folds frame_fold)
next
  case (UnsignedModulo loc ty l r)
  then show ?case by (auto simp: fold_defs intro!: division_folds frame_fold)
next
  case (SignedModulo loc ty l r)
  then show ?case by (auto simp: fold_defs intro!: division_folds frame_fold)
next
  case (ShiftLeft loc ty l r)
  then show ?case by (auto simp: fold_defs intro!: shift_folds frame_fold wrapping_op frame_intros)
next
  case (ShiftRight loc ty l r is_signed)
  then show ?case by (auto simp: fold_defs intro!: shift_folds frame_fold wrapping_op frame_intros)
next
  case (Power loc ty overflowing l r)
  then show ?case by (auto intro!: power_folds frame_fold)
next
  case (ZeroExt loc ty x)
  then obtain t where "expr_ty x = Some t" by (auto simp: extends_def split: option.splits)
  then show ?case using ZeroExt by (auto simp: fold_defs intro!: ext_folds [where sign = False])
next
  case (SignExt loc ty x)
  then obtain t where "expr_ty x = Some t" by (auto simp: extends_def split: option.splits)
  then show ?case using SignExt by (auto simp: fold_defs intro!: ext_folds [where sign = True])
next
  case (Trunc loc ty x)
  then show ?case by (auto simp: fold_defs intro!: unary_wrapping_folds [where op = "\<lambda>v. v"])
next
  case (BitwiseNot loc ty x)
  then show ?case by (auto simp: fold_defs intro!: unary_wrapping_folds)
next
  case (Negate loc ty overflowing x)
  then show ?case by (auto simp: fold_defs intro!: unary_folds checked_op frame_intros)
next
  case (Cast loc ty x)
  then show ?case by (auto simp: fold_defs intro!: rebuild1_folds)
next
  case (Not loc x)
  then show ?case by (auto intro!: not_folds)
next
  case (Equal loc l r)
  then obtain t where "expr_ty l = Some t" "expr_ty r = Some t" "is_int t \<or> t = Type.Bool"
    unfolding wt.simps compare_types by blast
  then show ?case using Equal by (auto simp: fold_defs intro!: rebuild2_folds(2) frame_fold)
next
  case (NotEqual loc l r)
  then obtain t where "expr_ty l = Some t" "expr_ty r = Some t" "is_int t \<or> t = Type.Bool"
    unfolding wt.simps compare_types by blast
  then show ?case using NotEqual by (auto simp: fold_defs intro!: rebuild2_folds(2) frame_fold)
next
  case (Less loc is_signed l r)
  then obtain t where "expr_ty l = Some t" "expr_ty r = Some t" "is_int t" "is_signed = signed_ty t"
    unfolding wt.simps compare_types by blast
  then show ?case using Less by (auto simp: fold_defs intro!: rebuild2_folds(1) frame_fold)
next
  case (LessEqual loc is_signed l r)
  then obtain t where "expr_ty l = Some t" "expr_ty r = Some t" "is_int t" "is_signed = signed_ty t"
    unfolding wt.simps compare_types by blast
  then show ?case using LessEqual by (auto simp: fold_defs intro!: rebuild2_folds(1) frame_fold)
next
  case (More loc is_signed l r)
  then obtain t where "expr_ty l = Some t" "expr_ty r = Some t" "is_int t" "is_signed = signed_ty t"
    unfolding wt.simps compare_types by blast
  then show ?case using More by (auto simp: fold_defs intro!: rebuild2_folds(1) frame_fold)
next
  case (MoreEqual loc is_signed l r)
  then obtain t where "expr_ty l = Some t" "expr_ty r = Some t" "is_int t" "is_signed = signed_ty t"
    unfolding wt.simps compare_types by blast
  then show ?case using MoreEqual by (auto simp: fold_defs intro!: rebuild2_folds(1) frame_fold)
next
  case (Variable loc ty v)
  then show ?case using rv_folds [of loc ty v] by simp
qed (simp_all, auto simp: folds_def)

end

text \<open>Without definitions, variables stay as they are.\<close>

sublocale bigint_crate \<subseteq> no_vars: variable_folding C reference_variable_none T T E args for T E args
  by unfold_locales (auto simp: reference_variable_none_def frame_def folds_def)

interpretation impl_no_vars: variable_folding crates_impl reference_variable_none T T E args for T E args
  by unfold_locales

end
