(* ===== verification/ConstfoldVars.thy ===== *)
theory ConstfoldVars
  imports ConstfoldSound ReachingSound
begin

text \<open>
  Folding with the definitions that reach a point of the program: a variable is replaced by the
  constant that all its definitions fold to, and that constant is its value.
\<close>

section \<open>Diagnostics\<close>

lemma frame_same_constant: "frame (same_constant C cfg ds v)"
proof (induction ds arbitrary: v)
  case (Cons d ds)
  have none: "frame (\<lambda>ns. expression_none C x ns)" for x
    unfolding expression_none_def by (rule frame_expression_with) (simp add: reference_variable_none_def frame_def)
  have "frame (\<lambda>ns. expression_none C x ns \<bind> (\<lambda>(e, ns).
      if \<not> snd e then Some (None, ns)
      else if (case v of Some prev \<Rightarrow> \<not> constants_equal prev (fst e) | None \<Rightarrow> False) then Some (None, ns)
      else same_constant C cfg ds (Some (fst e)) ns))" for x
    by (rule frame_bind [OF none]) (intro frame_if frame_Some Cons.IH)
  then show ?case
    by (auto simp: frame_def split: option.splits bind_splits)
qed (simp add: frame_def)

lemma frame_reference_variable: "frame (reference_variable C cfg vars loc v ty e)"
proof -
  have "frame (\<lambda>ns. same_constant C cfg ds None ns \<bind> (\<lambda>(c, ns). case c of
        Some e \<Rightarrow> Some ((e, True),
          if loc \<noteq> Loc.Codegen then ns\<lparr>var_constants := (var_constants ns)(loc \<mapsto> e)\<rparr> else ns)
      | None \<Rightarrow> Some ((e, False), ns)))" for ds
    by (rule frame_bind [OF frame_same_constant])
       (auto simp: frame_def extends_ns_var_constants split: option.splits)
  then show ?thesis by (auto simp: frame_def reference_variable_def split: option.splits)
qed

lemma frame_expression: "frame (expression C cfg vars e)"
  unfolding expression_def by (rule frame_expression_with) (rule frame_reference_variable)

section \<open>The constant of a variable\<close>

text \<open>Expressions that are not folded to a constant.\<close>

definition opaque :: "Expression \<Rightarrow> bool" where
  "opaque e = (case e of Expression.Load _ _ _ \<Rightarrow> True | Expression.Subscript _ _ _ _ _ \<Rightarrow> True
     | Expression.StructMember _ _ _ _ \<Rightarrow> True | Expression.StorageArrayLength _ _ _ _ \<Rightarrow> True
     | Expression.Undefined _ \<Rightarrow> True | Expression.ReturnData _ \<Rightarrow> True
     | Expression.GetRef _ _ _ \<Rightarrow> True | Expression.StructLiteral _ _ _ \<Rightarrow> True
     | Expression.ArrayLiteral _ _ _ _ \<Rightarrow> True | _ \<Rightarrow> False)"

lemma opaque_not_constant: "opaque x \<Longrightarrow> expression_none C x ns = Some (e, ns') \<Longrightarrow> \<not> snd e"
  by (cases x) (auto simp: opaque_def expression_none_def fold_defs rebuild1_def rebuild2_def rebuild_list_def
      Option.bind_eq_Some_conv)

text \<open>A definition of a variable of type \<open>ty\<close> that folding understands.\<close>

definition known_def :: "(nat \<Rightarrow> Type) \<Rightarrow> Type \<Rightarrow> Expression \<Rightarrow> bool" where
  "known_def T ty x \<longleftrightarrow> opaque x \<or> wt T x \<and> expr_ty x = Some ty"

lemma constants_equal_eval:
  assumes "constants_equal p e" "wt T p"
  shows "eval env args p = eval env' args e"
proof -
  obtain loc ty v where p: "p = Expression.NumberLiteral loc ty v" "number e = Some v"
    using assms by (cases p) (auto simp: constants_equal_def)
  then show ?thesis using number_Some by force
qed

context bigint_crate
begin

lemma expression_none_constant:
  assumes "known_def T ty x" "expression_none C x ns = Some (e, ns')" "\<not> has_error (diagnostics ns')" "snd e"
  shows "wt T (fst e)" "expr_ty (fst e) = Some ty" "eval env args (fst e) = eval env' args x"
proof -
  have x: "wt T x" "expr_ty x = Some ty"
    using assms opaque_not_constant [OF _ assms(2)] by (auto simp: known_def_def)
  note F = foldsD [OF no_vars.fold_sound [OF x(1), of UNIV] assms(2) [unfolded expression_none_def] assms(3)]
  show "wt T (fst e)" "expr_ty (fst e) = Some ty" using F(1,2) x(2) by simp_all
  show "eval env args (fst e) = eval env' args x"
    using F(4) [OF assms(4), of env args env'] F(3) [of env' args] by simp
qed

lemma same_constant_value:
  assumes "\<forall>d \<in> set ds. \<forall>x. get_definition d cfg = Some (Some x) \<longrightarrow> known_def T ty x"
    and "same_constant C cfg ds v ns = Some (Some e, ns')" "\<not> has_error (diagnostics ns')"
    and "\<forall>p. v = Some p \<longrightarrow> wt T p \<and> expr_ty p = Some ty \<and> (\<forall>env. eval env args p = eval env0 args p)"
  shows "wt T e \<and> expr_ty e = Some ty \<and> (\<forall>env. eval env args e = eval env0 args e) \<and>
    (\<forall>p. v = Some p \<longrightarrow> eval env0 args e = eval env0 args p) \<and>
    (\<forall>d \<in> set ds. \<exists>x. get_definition d cfg = Some (Some x) \<and> \<not> opaque x \<and>
       (\<forall>env. eval env args x = eval env0 args e))"
  using assms
proof (induction ds arbitrary: v ns)
  case Nil
  then show ?case by simp
next
  case (Cons d ds)
  obtain x where x: "get_definition d cfg = Some (Some x)"
    using Cons.prems(2) by (auto split: option.splits bind_splits)
  then obtain r ns1 where r: "expression_none C x ns = Some (r, ns1)"
    using Cons.prems(2) by (auto split: bind_splits)
  have res: "snd r" "\<forall>p. v = Some p \<longrightarrow> constants_equal p (fst r)"
    "same_constant C cfg ds (Some (fst r)) ns1 = Some (Some e, ns')"
    using Cons.prems(2) by (auto simp: x r split: if_splits option.splits)
  have ne: "\<not> has_error (diagnostics ns1)" using frame_no_error [OF frame_same_constant res(3) Cons.prems(3)] .
  have "known_def T ty x" using Cons.prems(1) x by simp
  note R = expression_none_constant [OF this r ne res(1)]
  have const: "eval env args (fst r) = eval env0 args (fst r)" for env
    using R(3) [of env args env0] R(3) [of env0 args env0] by simp
  have pre: "\<forall>d \<in> set ds. \<forall>x. get_definition d cfg = Some (Some x) \<longrightarrow> known_def T ty x"
    using Cons.prems(1) by simp
  have prev: "\<forall>p. Some (fst r) = Some p \<longrightarrow>
      wt T p \<and> expr_ty p = Some ty \<and> (\<forall>env. eval env args p = eval env0 args p)"
    using R(1,2) const by blast
  have IH: "wt T e \<and> expr_ty e = Some ty \<and> (\<forall>env. eval env args e = eval env0 args e) \<and>
    eval env0 args e = eval env0 args (fst r) \<and>
    (\<forall>d \<in> set ds. \<exists>x. get_definition d cfg = Some (Some x) \<and> \<not> opaque x \<and>
       (\<forall>env. eval env args x = eval env0 args e))"
    using Cons.IH [OF pre res(3) Cons.prems(3) prev] by blast
  moreover have "eval env0 args e = eval env0 args p" if "v = Some p" for p
    using IH res(2) that Cons.prems(4) constants_equal_eval [of p "fst r" T env0 args env0] by simp
  moreover have "eval env args x = eval env0 args e" for env
    using IH R(3) [of env0 args env] by simp
  moreover have "\<not> opaque x" using opaque_not_constant [OF _ r] res(1) by blast
  ultimately show ?case using x by auto
qed

end

section \<open>Variables\<close>

text \<open>
  What the definitions that reach a point promise of the values there: a variable that is defined
  got its value from one of its definitions, when that is an assignment by evaluating its right
  hand side in some earlier environment. \<open>D\<close> is \<open>T\<close> on the variables that are
  defined and \<open>Void\<close> on the others.
\<close>

definition scalar :: "Type \<Rightarrow> bool" where
  "scalar ty \<longleftrightarrow> is_int ty \<or> ty = Type.Bool"

definition typed_defs :: "(nat \<Rightarrow> Type) \<Rightarrow> ControlFlowGraph \<Rightarrow> nat \<Rightarrow> Defs \<Rightarrow> bool" where
  "typed_defs T cfg v defs \<longleftrightarrow>
     (\<forall>d \<in> fst ` set defs. \<forall>x. get_definition d cfg = Some (Some x) \<longrightarrow> known_def T (T v) x)"

definition value_from :: "ControlFlowGraph \<Rightarrow> Defs \<Rightarrow> int \<Rightarrow> (nat \<Rightarrow> int) \<Rightarrow> bool" where
  "value_from cfg defs val args \<longleftrightarrow> (\<exists>d \<in> fst ` set defs. \<forall>x. get_definition d cfg = Some (Some x) \<longrightarrow>
     opaque x \<or> (\<exists>env0. eval env0 args x = Some val))"

definition consistent ::
  "(nat \<Rightarrow> Type) \<Rightarrow> (nat \<Rightarrow> Type) \<Rightarrow> ControlFlowGraph \<Rightarrow> VarDefs \<Rightarrow> (nat \<Rightarrow> int) set \<Rightarrow> (nat \<Rightarrow> int) \<Rightarrow> bool" where
  "consistent T D cfg vars E args \<longleftrightarrow> (\<forall>v defs. map_of vars v = Some defs \<longrightarrow> scalar (D v) \<longrightarrow>
     typed_defs T cfg v defs \<and> (\<forall>env \<in> E. value_from cfg defs (env v) args))"

definition restricts :: "(nat \<Rightarrow> Type) \<Rightarrow> (nat \<Rightarrow> Type) \<Rightarrow> bool" where
  "restricts D T \<longleftrightarrow> (\<forall>v. D v = Type.Void \<or> D v = T v)"

context bigint_crate
begin

lemma reference_variable_folds:
  assumes "consistent T D cfg vars E args" "restricts D T" and wt: "wt D (Expression.Variable loc ty v)"
  shows "folds T E args (reference_variable C cfg vars loc v ty (Expression.Variable loc ty v))
    (Expression.Variable loc ty v)"
proof (rule foldsI)
  fix ns e' c ns'
  let ?e = "Expression.Variable loc ty v"
  assume run: "reference_variable C cfg vars loc v ty ?e ns = Some ((e', c), ns')"
    and ne: "\<not> has_error (diagnostics ns')"
  have ty: "is_int ty \<or> ty = Type.Bool" "D v = ty" using wt by simp_all
  then have void: "D v \<noteq> Type.Void" by (auto simp: is_int_def)
  then have Tv: "T v = ty" using assms(2) ty(2) by (metis restricts_def)
  have ref: "\<not> is_ref_type ty" using ty(1) by (cases ty) (simp_all add: is_ref_type_def is_int_def)
  have sc: "scalar (D v)" using ty by (simp add: scalar_def)
  have kept: "wt T e' \<and> expr_ty e' = expr_ty ?e \<and> (\<forall>env \<in> E. eval env args e' = eval env args ?e) \<and>
      (c \<longrightarrow> (\<forall>env env'. eval env' args e' = eval env args e'))" if "e' = ?e" "\<not> c"
    using that ty Tv by simp
  show "wt T e' \<and> expr_ty e' = expr_ty ?e \<and> (\<forall>env \<in> E. eval env args e' = eval env args ?e) \<and>
      (c \<longrightarrow> (\<forall>env env'. eval env' args e' = eval env args e'))"
  proof (cases "map_of vars v")
    case None
    then show ?thesis using kept run by (auto simp: reference_variable_def split: if_splits)
  next
    case (Some defs)
    obtain k ns1 where k: "same_constant C cfg (map fst defs) None ns = Some (k, ns1)"
      using run Some ref by (auto simp: reference_variable_def split: bind_splits)
    show ?thesis
    proof (cases k)
      case None
      then have "e' = ?e" "\<not> c" using run Some ref k by (auto simp: reference_variable_def)
      then show ?thesis by (rule kept)
    next
      case (Some e)
      then have e': "e' = e" "ns' = ns1 \<or> ns' = ns1\<lparr>var_constants := (var_constants ns1)(loc \<mapsto> e)\<rparr>"
        using run \<open>map_of vars v = Some defs\<close> ref k by (auto simp: reference_variable_def split: if_splits)
      have ne1: "\<not> has_error (diagnostics ns1)" using ne e'(2) by auto
      have typed: "typed_defs T cfg v defs" and val: "\<And>env. env \<in> E \<Longrightarrow> value_from cfg defs (env v) args"
        using assms(1) \<open>map_of vars v = Some defs\<close> sc unfolding consistent_def by blast+
      have defs: "\<forall>d \<in> set (map fst defs). \<forall>x. get_definition d cfg = Some (Some x) \<longrightarrow> known_def T ty x"
        using typed by (simp add: typed_defs_def Tv)
      have S: "wt T e \<and> expr_ty e = Some ty \<and> (\<forall>env'. eval env' args e = eval env args e) \<and>
          (\<forall>d \<in> fst ` set defs. \<exists>x. get_definition d cfg = Some (Some x) \<and> \<not> opaque x \<and>
             (\<forall>env'. eval env' args x = eval env args e))" for env
        using same_constant_value [OF defs k [unfolded Some] ne1, of args env] by simp
      have val_e: "eval env args e = Some (env v)" if env: "env \<in> E" for env
      proof -
        obtain d where d: "d \<in> fst ` set defs" "\<And>x. get_definition d cfg = Some (Some x) \<Longrightarrow>
            opaque x \<or> (\<exists>env0. eval env0 args x = Some (env v))"
          using val [OF env] unfolding value_from_def by blast
        then obtain x where "get_definition d cfg = Some (Some x)" "\<not> opaque x" "\<forall>env'. eval env' args x = eval env args e"
          using S [of env] by fastforce
        then show ?thesis using d(2) by metis
      qed
      have "\<forall>env env'. eval env' args e = eval env args e" using S by blast
      then show ?thesis using S val_e e'(1) by simp
    qed
  qed
qed

lemma expression_folds:
  assumes "consistent T D cfg vars E args" "restricts D T" "wt D e"
  shows "folds T E args (expression C cfg vars e) e"
proof -
  have "variable_folding C (reference_variable C cfg vars) T D E args"
    by unfold_locales (auto intro: frame_reference_variable reference_variable_folds [OF assms(1,2)])
  then show ?thesis unfolding expression_def by (rule variable_folding.fold_sound) (rule assms(3))
qed

end

text \<open>
  C16: constant folding of an integer or boolean expression is correct. When the definitions
  recorded for a point of the program are consistent with the values there and folding reports no
  error, the folded expression has the type and the value of the original, a value that is absent
  (the program stops on overflow or division by zero) included; if it is flagged constant, its value
  does not depend on the variables. The namespace only gains diagnostics and recorded constants.
\<close>

theorem constant_folding_expression_sound:
  assumes "bigint_crate C" and "consistent T D cfg vars {env} args" "restricts D T" "wt D e"
    and "expression C cfg vars e ns = Some ((e', c), ns')" "\<not> has_error (diagnostics ns')"
  shows "wt T e' \<and> expr_ty e' = expr_ty e \<and> eval env args e' = eval env args e \<and>
    (c \<longrightarrow> (\<forall>env'. eval env' args e' = eval env args e')) \<and> extends_ns ns ns'"
proof -
  have "folds T {env} args (expression C cfg vars e) e"
    using bigint_crate.expression_folds [OF assms(1-4)] .
  then have "wt T e' \<and> expr_ty e' = expr_ty e \<and> eval env args e' = eval env args e \<and>
      (c \<longrightarrow> (\<forall>env'. eval env' args e' = eval env args e'))"
    using assms(5,6) unfolding folds_def by blast
  moreover have "extends_ns ns ns'" using frame_expression assms(5) unfolding frame_def by blast
  ultimately show ?thesis by blast
qed

text \<open>\<open>x := 2\<close> and then \<open>x + 3\<close>, which folds to 5.\<close>

definition assign_cfg :: ControlFlowGraph where
  "assign_cfg = placeholder\<lparr>cfg_blocks := [sample_block ''entry'' [Instr.Set Loc.Codegen 0 (int_lit 2)]]\<rparr>"

abbreviation assign_vars :: VarDefs where
  "assign_vars \<equiv> [(0, [(\<lparr>def_block_no = 0, def_instr_no = 0, def_assignment_no = 0\<rparr>, False)])]"

abbreviation sum_expr :: Expression where
  "sum_expr \<equiv> Expression.Add Loc.Codegen (Type.Int 64) False (int_var 0) (int_lit 3)"

definition fold_ns :: Namespace where
  "fold_ns = \<lparr>target = Solana, enums = [], structs = [], contracts = [], user_types = [],
     address_length = 32, value_length = 8, diagnostics = \<lparr>contents = [], has_error = False\<rparr>, next_id = 0,
     var_constants = Map.empty, hover_overrides = Map.empty, strict_soroban_types = False\<rparr>"

lemma assign_cfg_folds:
  "map_option (\<lambda>(r, ns). (r, has_error (diagnostics ns)))
     (expression crates_impl assign_cfg assign_vars sum_expr fold_ns) = Some ((int_lit 5, True), False)"
  by code_simp

lemma assign_cfg_consistent:
  "consistent (\<lambda>_. Type.Int 64) (\<lambda>_. Type.Int 64) assign_cfg assign_vars {\<lambda>_. 2} (\<lambda>_. 0)"
  by (simp add: consistent_def typed_defs_def value_from_def assign_cfg_def sample_block_def get_definition_def vec_get_def known_def_def
      is_int_def in_range_def signed_ty_def width_def)

theorem constant_folding_expression_sound_witness:
  "expr_ty (int_lit 5) = expr_ty sum_expr \<and> eval (\<lambda>_. 2) (\<lambda>_. 0) (int_lit 5) = eval (\<lambda>_. 2) (\<lambda>_. 0) sum_expr"
proof -
  obtain ns' where run: "expression crates_impl assign_cfg assign_vars sum_expr fold_ns = Some ((int_lit 5, True), ns')"
    "\<not> has_error (diagnostics ns')"
    using assign_cfg_folds by (auto split: prod.splits)
  have wt: "wt (\<lambda>_. Type.Int 64) sum_expr" by (simp add: is_int_def in_range_def signed_ty_def width_def)
  have "restricts (\<lambda>_. Type.Int 64) (\<lambda>_. Type.Int 64)" by (simp add: restricts_def)
  from constant_folding_expression_sound [OF impl.bigint_crate_axioms assign_cfg_consistent this wt run]
  show ?thesis by blast
qed

end
