(* ===== verification/ConstfoldPass.thy ===== *)
theory ConstfoldPass
  imports ConstfoldVars
begin

text \<open>
  The constant folding pass over a whole graph: what it does to the namespace, and the executions
  of a graph, which a later theory shows the pass to preserve.
\<close>

section \<open>Diagnostics of the pass\<close>

definition frame_instr :: "(Namespace \<Rightarrow> (Instr \<times> Namespace \<times> bool) option) \<Rightarrow> bool" where
  "frame_instr f \<longleftrightarrow> (\<forall>ns i ns' s. f ns = Some (i, ns', s) \<longrightarrow> extends_ns ns ns')"

lemma frame_instr_ret: "frame_instr (\<lambda>ns. Some (i, ns, s))"
  by (simp add: frame_instr_def)

lemma frame_instr_bind:
  assumes "frame f" "\<And>r. frame_instr (g r)"
  shows "frame_instr (\<lambda>ns. f ns \<bind> (\<lambda>(r, ns). g r ns))"
  unfolding frame_instr_def
proof (intro allI impI)
  fix ns i ns' s assume "(f ns \<bind> (\<lambda>(r, ns). g r ns)) = Some (i, ns', s)"
  then obtain r ns1 where "f ns = Some (r, ns1)" "g r ns1 = Some (i, ns', s)" unfolding bind_pair_Some by blast
  then show "extends_ns ns ns'" using assms extends_ns_trans unfolding frame_def frame_instr_def by blast
qed

lemma frame_instr_if: "frame_instr f \<Longrightarrow> frame_instr g \<Longrightarrow> frame_instr (\<lambda>ns. if c then f ns else g ns)"
  by (cases c) simp_all

lemma frame_instr_option:
  "frame_instr f \<Longrightarrow> (\<And>x. frame_instr (g x)) \<Longrightarrow> frame_instr (\<lambda>ns. case v of None \<Rightarrow> f ns | Some x \<Rightarrow> g x ns)"
  by (cases v) simp_all

lemma frame_fold_opt: "(\<And>e. frame (f e)) \<Longrightarrow> frame (fold_opt f oe)"
  using frame_map [of "f e" Some for e]
  by (cases oe) (simp_all add: fold_opt_def frame_def)

lemma frame_fold_accounts: "(\<And>e. frame (f e)) \<Longrightarrow> frame (fold_accounts f acc)"
  using frame_map [of "f e" Present for e]
  by (cases acc) (simp_all add: fold_accounts_def frame_def)

lemma frame_folder: "frame (\<lambda>ns. expression C cfg vars e ns \<bind> (\<lambda>(r, ns). Some (fst r, ns)))"
  by (rule frame_map [OF frame_expression])

lemma frame_cases:
  assumes "\<And>e. frame (f e)"
  shows "frame (seq_st (map (\<lambda>(e, goto) ns. f e ns \<bind> (\<lambda>(e, ns). Some ((e, goto), ns))) cases))"
proof (rule frame_seq_st)
  fix g assume "g \<in> set (map (\<lambda>(e, goto) ns. f e ns \<bind> (\<lambda>(e, ns). Some ((e, goto), ns))) cases)"
  then show "frame g" using frame_map [OF assms] by auto
qed

lemma frame_folders: "(\<And>e. frame (f e)) \<Longrightarrow> frame (seq_st (map f es))"
  by (rule frame_seq_st) auto

lemma frame_fold_instr: "frame_instr (fold_instr C cfg vars dry_run instr)"
proof -
  have set: "frame_instr (\<lambda>ns. expression C cfg vars e ns \<bind> (\<lambda>(r, ns). Some (k r,
      if snd r then ns\<lparr>var_constants := (var_constants ns)(loc \<mapsto> fst r)\<rparr> else ns, False)))" for e k loc
  proof (rule frame_instr_bind [OF frame_expression])
    show "frame_instr (\<lambda>ns. Some (k r, if snd r then ns\<lparr>var_constants := (var_constants ns)(loc \<mapsto> fst r)\<rparr> else ns, False))"
      for r by (simp add: frame_instr_def extends_ns_var_constants)
  qed
  note rules = frame_instr_bind frame_instr_ret frame_instr_if frame_instr_option frame_folder frame_folders
    frame_fold_opt frame_fold_accounts frame_cases
  show ?thesis
  proof (cases instr)
    case (Set loc res e)
    then show ?thesis using set [of e "\<lambda>r. if dry_run then Instr.Set loc res e else Instr.Set loc res (fst r)" loc]
      by (simp add: fold_instr_def [abs_def])
  next
    case (AssertFailure oe)
    then show ?thesis
      by (cases oe) (simp_all add: fold_instr_def [abs_def] Let_def del: Option.bind_assoc, auto intro!: rules simp del: Option.bind_assoc)
  qed (simp_all add: fold_instr_def [abs_def] Let_def del: Option.bind_assoc, auto intro!: rules simp del: Option.bind_assoc)
qed

lemma fold_block_frame:
  "fold_block C dry_run b is vars cfg ns = Some (cfg', ns') \<Longrightarrow> extends_ns ns ns' \<and> (dry_run \<longrightarrow> cfg' = cfg)"
proof (induction C dry_run b "is" vars cfg ns arbitrary: cfg' ns' rule: fold_block.induct)
  case (2 C dry_run b i rest vars cfg ns)
  obtain block instr instr' ns1 stop where
    *: "vec_get (cfg_blocks cfg) b = Some block" "vec_get (b_instr block) i = Some instr"
      "fold_instr C cfg vars dry_run instr ns = Some (instr', ns1, stop)"
    using "2.prems" by (auto split: bind_splits)
  let ?cfg = "if dry_run then cfg else set_instr b i instr' cfg"
  have e1: "extends_ns ns ns1" using frame_fold_instr *(3) unfolding frame_instr_def by blast
  show ?case
  proof (cases stop)
    case True
    then show ?thesis using "2.prems" * e1 by (simp add: Let_def split: if_splits)
  next
    case False
    then obtain ts where ts: "vec_get (b_transfers block) i = Some ts"
      "fold_block C dry_run b rest (apply_transfers ts vars) ?cfg ns1 = Some (cfg', ns')"
      using "2.prems" * by (auto simp: Let_def split: bind_splits)
    from "2.IH" [OF *(1,2,3) _ _ refl False ts] e1 show ?thesis
      by (auto dest: extends_ns_trans)
  qed
qed simp

lemma fold_blocks_frame:
  "fold_blocks C dry_run bs cfg ns = Some (cfg', ns') \<Longrightarrow> extends_ns ns ns' \<and> (dry_run \<longrightarrow> cfg' = cfg)"
proof (induction bs arbitrary: cfg ns)
  case (Cons b bs)
  then obtain block cfg1 ns1 where "vec_get (cfg_blocks cfg) b = Some block"
    "fold_block C dry_run b [0 ..< length (b_instr block)] (b_defs block) cfg ns = Some (cfg1, ns1)"
    "fold_blocks C dry_run bs cfg1 ns1 = Some (cfg', ns')"
    by (auto split: bind_splits)
  then show ?case using fold_block_frame Cons.IH extends_ns_trans by blast
qed simp


text \<open>\<open>x := 1 / 0\<close>, which folding reports.\<close>

definition divide_cfg :: ControlFlowGraph where
  "divide_cfg = placeholder\<lparr>cfg_blocks := [sample_block ''entry'' [Instr.Set Loc.Codegen 0
     (Expression.UnsignedDivide Loc.Codegen (Type.Uint 64) (Expression.NumberLiteral Loc.Codegen (Type.Uint 64) 1)
       (Expression.NumberLiteral Loc.Codegen (Type.Uint 64) 0))]\<lparr>b_transfers := [[]]\<rparr>]\<rparr>"

lemma divide_cfg_folds:
  "map_option (\<lambda>(cfg, ns). (length (contents (diagnostics ns)), has_error (diagnostics ns)))
     (constant_folding crates_impl divide_cfg True fold_ns) = Some (1, True)"
  by code_simp


section \<open>Executions\<close>

text \<open>
  An execution is followed through the values of the variables of integer and boolean type. An
  assignment of a well-typed expression evaluates it; every other write may store any value. A
  branch on a well-typed condition, and a switch on a well-typed value with literal cases, follows
  the value; on any other it may take any edge. An expression without a value stops the program.
\<close>

definition scalar_set :: "(nat \<Rightarrow> Type) \<Rightarrow> nat \<Rightarrow> Expression \<Rightarrow> bool" where
  "scalar_set T res e \<longleftrightarrow> scalar (T res) \<and> wt T e"

definition steps_to :: "(nat \<Rightarrow> Type) \<Rightarrow> (nat \<Rightarrow> int) \<Rightarrow> Instr \<Rightarrow> (nat \<Rightarrow> int) \<Rightarrow> (nat \<Rightarrow> int) \<Rightarrow> bool" where
  "steps_to T args i env env' \<longleftrightarrow> (\<forall>v. v \<notin> set (written i) \<longrightarrow> env' v = env v) \<and>
     (case i of Instr.Set _ res e \<Rightarrow> scalar_set T res e \<longrightarrow> eval env args e = Some (env' res) | _ \<Rightarrow> True)"

definition goes_to :: "(nat \<Rightarrow> Type) \<Rightarrow> (nat \<Rightarrow> int) \<Rightarrow> Instr \<Rightarrow> (nat \<Rightarrow> int) \<Rightarrow> nat \<Rightarrow> bool" where
  "goes_to T args i env b = (case i of
       Instr.Branch t \<Rightarrow> b = t
     | Instr.BranchCond c t e \<Rightarrow>
         (if wt T c then (\<exists>v. eval env args c = Some v \<and> b = (if v \<noteq> 0 then t else e)) else b = t \<or> b = e)
     | Instr.Switch c cases default_block \<Rightarrow>
         (if wt T c then (\<exists>v. eval env args c = Some v \<and>
            ((\<exists>(item, goto) \<in> set cases. number item = Some v \<and> b = goto) \<or>
             (\<forall>(item, goto) \<in> set cases. number item \<noteq> Some v) \<and> b = default_block))
          else b = default_block \<or> b \<in> snd ` set cases)
     | _ \<Rightarrow> False)"

inductive exec ::
  "(nat \<Rightarrow> Type) \<Rightarrow> (nat \<Rightarrow> int) \<Rightarrow> BasicBlock list \<Rightarrow> nat \<Rightarrow> nat \<Rightarrow> (nat \<Rightarrow> int) \<Rightarrow> bool"
  for T args blocks where
  start: "exec T args blocks 0 0 env"
| step: "exec T args blocks b i env \<Longrightarrow> b < length blocks \<Longrightarrow> i < length (b_instr (blocks ! b)) \<Longrightarrow>
    \<not> is_terminator (b_instr (blocks ! b) ! i) \<Longrightarrow> steps_to T args (b_instr (blocks ! b) ! i) env env' \<Longrightarrow>
    exec T args blocks b (Suc i) env'"
| jump: "exec T args blocks b i env \<Longrightarrow> b < length blocks \<Longrightarrow> i < length (b_instr (blocks ! b)) \<Longrightarrow>
    is_terminator (b_instr (blocks ! b) ! i) \<Longrightarrow> goes_to T args (b_instr (blocks ! b) ! i) env b' \<Longrightarrow>
    exec T args blocks b' 0 env"

text \<open>The same with the origin of every value.\<close>

inductive traced ::
  "(nat \<Rightarrow> Type) \<Rightarrow> (nat \<Rightarrow> int) \<Rightarrow> BasicBlock list \<Rightarrow> nat \<Rightarrow> nat \<Rightarrow> origin \<Rightarrow> (nat \<Rightarrow> int) \<Rightarrow> bool"
  for T args blocks where
  start: "traced T args blocks 0 0 Map.empty env"
| step: "traced T args blocks b i org env \<Longrightarrow> b < length blocks \<Longrightarrow> i < length (b_instr (blocks ! b)) \<Longrightarrow>
    \<not> is_terminator (b_instr (blocks ! b) ! i) \<Longrightarrow> steps_to T args (b_instr (blocks ! b) ! i) env env' \<Longrightarrow>
    traced T args blocks b (Suc i) (origin_instr b i (b_instr (blocks ! b) ! i) org) env'"
| jump: "traced T args blocks b i org env \<Longrightarrow> b < length blocks \<Longrightarrow> i < length (b_instr (blocks ! b)) \<Longrightarrow>
    is_terminator (b_instr (blocks ! b) ! i) \<Longrightarrow> goes_to T args (b_instr (blocks ! b) ! i) env b' \<Longrightarrow>
    traced T args blocks b' 0 org env"

lemma exec_traced: "exec T args blocks b i env \<Longrightarrow> \<exists>org. traced T args blocks b i org env"
  by (induction rule: exec.induct) (blast intro: traced.intros)+

lemma traced_exec: "traced T args blocks b i org env \<Longrightarrow> exec T args blocks b i env"
  by (induction rule: traced.induct) (blast intro: exec.intros)+

text \<open>Two graphs whose instructions have the same effects wherever the first gets have the same executions.\<close>

definition same_effect ::
  "(nat \<Rightarrow> Type) \<Rightarrow> (nat \<Rightarrow> int) \<Rightarrow> (nat \<Rightarrow> int) \<Rightarrow> Instr \<Rightarrow> Instr \<Rightarrow> bool" where
  "same_effect T args env i j \<longleftrightarrow> is_terminator i = is_terminator j \<and>
     steps_to T args i env = steps_to T args j env \<and> goes_to T args i env = goes_to T args j env"

lemma same_executions:
  assumes "length blocks' = length blocks" "\<And>b. b < length blocks \<Longrightarrow> length (b_instr (blocks' ! b)) = length (b_instr (blocks ! b))"
    and "\<And>b i env. exec T args blocks b i env \<Longrightarrow> b < length blocks \<Longrightarrow> i < length (b_instr (blocks ! b)) \<Longrightarrow>
      same_effect T args env (b_instr (blocks ! b) ! i) (b_instr (blocks' ! b) ! i)"
  shows "exec T args blocks' b i env \<longleftrightarrow> exec T args blocks b i env"
proof
  assume "exec T args blocks' b i env"
  then show "exec T args blocks b i env"
  proof (induction rule: exec.induct)
    case (step b i env env')
    then have "b < length blocks" "i < length (b_instr (blocks ! b))" using assms(1,2) by auto
    then show ?case using step assms(3) [OF step.IH] by (auto intro: exec.step simp: same_effect_def)
  next
    case (jump b i env b')
    then have "b < length blocks" "i < length (b_instr (blocks ! b))" using assms(1,2) by auto
    then show ?case using jump assms(3) [OF jump.IH] by (auto intro: exec.jump simp: same_effect_def)
  qed (rule exec.start)
next
  assume "exec T args blocks b i env"
  then show "exec T args blocks' b i env"
  proof (induction rule: exec.induct)
    case (step b i env env')
    then show ?case using assms(1,2) assms(3) [OF step.hyps(1)] by (intro exec.step) (auto simp: same_effect_def)
  next
    case (jump b i env b')
    then show ?case using assms(1,2) assms(3) [OF jump.hyps(1)] by (intro exec.jump) (auto simp: same_effect_def)
  qed (rule exec.start)
qed

end
