(* ===== verification/ConstfoldGraph.thy ===== *)
theory ConstfoldGraph
  imports ConstfoldPass
begin

text \<open>
  The constant folding pass keeps the executions of a graph: the definitions that reach a point are
  those that gave the variables their values, and they stay so while the pass rewrites the graph.
\<close>

section \<open>Properties of the recorded definitions\<close>

text \<open>A property of a variable and a definition that holds of all recorded pairs.\<close>

definition all_defs :: "(nat \<Rightarrow> Def \<Rightarrow> bool) \<Rightarrow> VarDefs \<Rightarrow> bool" where
  "all_defs R vars \<longleftrightarrow> (\<forall>v d. has vars v d \<longrightarrow> R v d)"

definition keeps :: "(nat \<Rightarrow> Def \<Rightarrow> bool) \<Rightarrow> Transfer list \<Rightarrow> bool" where
  "keeps R ts \<longleftrightarrow> (\<forall>vars. wf_defs vars \<longrightarrow> all_defs R vars \<longrightarrow> all_defs R (apply_transfers ts vars))"

lemma all_defs_fold:
  "\<forall>ts \<in> set tss. keeps R ts \<Longrightarrow> wf_defs vars \<Longrightarrow> all_defs R vars \<Longrightarrow> all_defs R (fold apply_transfers tss vars)"
  by (induction tss arbitrary: vars) (auto simp: keeps_def wf_apply_transfers)

lemma all_defs_merge_edges:
  assumes "merge_edges vars edges blocks todo = Some (blocks', todo')" "wf_defs vars" "all_defs R vars"
    and "\<forall>b \<in> set blocks. all_defs R (b_defs b)"
  shows "\<forall>b \<in> set blocks'. all_defs R (b_defs b)"
  using assms
proof (induction edges arbitrary: blocks todo)
  case (Cons e edges)
  then have e: "e < length blocks" by (cases "e < length blocks") (simp_all add: vec_get_def)
  show ?case
  proof (cases "var_defs_eq (b_defs (blocks ! e)) vars")
    case True
    then show ?thesis using Cons e by (simp add: vec_get_def)
  next
    case False
    obtain block changed where m: "merge_vars e vars (blocks ! e) False = (block, changed)" by fastforce
    have rest: "merge_edges vars edges (blocks[e := block]) (if changed then insert e todo else todo) = Some (blocks', todo')"
      using Cons.prems(1) e False m by (simp add: vec_get_def)
    have "all_defs R (b_defs block)"
      using merge_vars_effect [OF m Cons.prems(2)] Cons.prems(3,4) nth_mem [OF e] by (auto simp: all_defs_def)
    then have "\<forall>b \<in> set (blocks[e := block]). all_defs R (b_defs b)"
      using Cons.prems(4) set_update_subset_insert [of blocks e block] by blast
    from Cons.IH [OF rest Cons.prems(2,3) this] show ?thesis .
  qed
qed simp

lemma find_definitions_all:
  assumes "find_definitions pick cfg = Some cfg'"
    and "\<forall>block \<in> set (cfg_blocks cfg). b_defs block = []"
    and keep: "\<And>b ts. b < length (cfg_blocks cfg) \<Longrightarrow> ts \<in> set (instr_transfers b (cfg_blocks cfg ! b)) \<Longrightarrow> keeps R ts"
    and "block \<in> set (cfg_blocks cfg')"
  shows "all_defs R (b_defs block)"
proof -
  let ?bs = "with_transfers (cfg_blocks cfg)"
  from assms(1) obtain blocks where run: "find_loop pick (?bs, {0}) = Some blocks"
    and blocks: "cfg_blocks cfg' = blocks" by (auto simp: find_definitions_def)
  define P where "P = (\<lambda>st :: BasicBlock list \<times> nat set. worklist_inv st \<and> length (fst st) = length ?bs \<and>
    (\<forall>i < length ?bs. b_transfers (fst st ! i) = b_transfers (?bs ! i)) \<and>
    (\<forall>b \<in> set (fst st). all_defs R (b_defs b)))"
  have "P (blocks, {})"
  proof (rule find_loop_rule [OF run])
    have "b_defs b = []" if "b \<in> set ?bs" for b
      using that assms(2) nth_mem [of _ "cfg_blocks cfg"]
      by (fastforce simp: in_set_conv_nth [of b] nth_with_transfers)
    then show "P (?bs, {0})" by (auto simp: P_def worklist_inv_def all_defs_def)
  next
    fix b st st' assume P: "P st" and step: "find_block b st = Some st'"
    obtain bs todo bs' todo' where st: "st = (bs, todo)" "st' = (bs', todo')" by (cases st, cases st')
    note inv = find_block_inv [OF step [unfolded st]]
    have wi: "worklist_inv (bs, todo)" using P by (simp add: P_def st)
    obtain es where b: "b < length bs" and
      me: "merge_edges (block_out (bs ! b)) es bs (todo - {b}) = Some (bs', todo')"
      using step by (cases "b < length bs") (auto simp: find_block_def vec_get_def st split: bind_splits)
    have wf: "wf_defs (b_defs (bs ! b))" using wi b by (simp add: worklist_inv_def)
    have "b_transfers (bs ! b) = instr_transfers b (cfg_blocks cfg ! b)"
      using P b by (simp add: P_def st nth_with_transfers)
    then have "all_defs R (block_out (bs ! b))"
      unfolding block_out_def using keep [of b] P b nth_mem [OF b] wf
      by (intro all_defs_fold) (auto simp: P_def st)
    from all_defs_merge_edges [OF me wf_block_out [OF wf] this]
    show "P st'" using P inv [OF wi] by (simp add: P_def st)
  qed
  then show ?thesis using assms(4) by (simp add: P_def blocks)
qed

section \<open>Typed graphs\<close>

text \<open>
  A variable of integer or boolean type is assigned an expression of its type or one that folding
  leaves alone. A condition is an expression of boolean type or one that folding leaves alone; a
  switch has distinct literals.
\<close>

definition literal_cases :: "(Expression \<times> nat) list \<Rightarrow> bool" where
  "literal_cases cases \<longleftrightarrow> (\<forall>(item, _) \<in> set cases. \<exists>loc ty v. item = Expression.NumberLiteral loc ty v) \<and>
     distinct (map (number \<circ> fst) cases)"

definition typed_instr :: "(nat \<Rightarrow> Type) \<Rightarrow> Instr \<Rightarrow> bool" where
  "typed_instr T i = (case i of
       Instr.Set _ res e \<Rightarrow> scalar (T res) \<longrightarrow> known_def T (T res) e
     | Instr.BranchCond c _ _ \<Rightarrow> known_def T Type.Bool c
     | Instr.Switch c cases _ \<Rightarrow> (opaque c \<or> wt T c) \<and> literal_cases cases
     | _ \<Rightarrow> True)"

definition typed_def :: "(nat \<Rightarrow> Type) \<Rightarrow> ControlFlowGraph \<Rightarrow> nat \<Rightarrow> Def \<Rightarrow> bool" where
  "typed_def T cfg v d \<longleftrightarrow> (\<forall>x. scalar (T v) \<longrightarrow> get_definition d cfg = Some (Some x) \<longrightarrow> known_def T (T v) x)"

lemma known_variable: "scalar (T res) \<Longrightarrow> known_def T (T res) (Expression.Variable l t src) \<Longrightarrow> T src = T res"
  by (auto simp: known_def_def opaque_def)

lemma keeps_Mod: "keeps R [Mod x]"
  by (simp add: keeps_def all_defs_def apply_transfers_def has_Mod del: apply_transfer.simps)

lemma keeps_Nil: "keeps R []"
  by (simp add: keeps_def apply_transfers_def)

lemma keeps_mod_var: "keeps R (mod_var e)"
  by (auto simp: mod_var_def keeps_Mod keeps_Nil split: option.splits)

lemma keeps_append: "keeps R ts \<Longrightarrow> keeps R us \<Longrightarrow> keeps R (ts @ us)"
  by (simp add: keeps_def apply_transfers_append wf_apply_transfers)

lemma keeps_set_var:
  "\<forall>a < length vs. R (vs ! a) \<lparr>def_block_no = b, def_instr_no = i, def_assignment_no = a\<rparr> \<Longrightarrow> keeps R (set_var b i vs)"
  by (auto simp: keeps_def all_defs_def has_set_var)

lemma keeps_copy: "x \<noteq> y \<Longrightarrow> (\<And>d. R y d \<Longrightarrow> R x d) \<Longrightarrow> keeps R [Kill x, Copy x y]"
  by (auto simp: keeps_def all_defs_def has_Kill_Copy split: if_splits)

lemma keeps_instr:
  assumes "tracked ins" "typed_instr T ins"
    and at: "\<And>a. get_definition \<lparr>def_block_no = b, def_instr_no = i, def_assignment_no = a\<rparr> cfg =
      Some (case ins of Instr.Set _ _ e \<Rightarrow> Some e | _ \<Rightarrow> None)"
  shows "keeps (typed_def T cfg) (instr_transfer b i ins)"
proof (cases "\<exists>loc res e. ins = Instr.Set loc res e")
  case True
  then obtain loc res e where i: "ins = Instr.Set loc res e" by blast
  have set: "keeps (typed_def T cfg) (set_var b i [res])"
  proof (rule keeps_set_var, intro allI impI)
    fix a assume "a < length [res]"
    then show "typed_def T cfg ([res] ! a) \<lparr>def_block_no = b, def_instr_no = i, def_assignment_no = a\<rparr>"
      using assms(2) unfolding typed_def_def at by (simp add: typed_instr_def i)
  qed
  show ?thesis
  proof (cases "\<exists>l t src. e = Expression.Variable l t src")
    case True
    then obtain l t src where e: "e = Expression.Variable l t src" by blast
    have "typed_def T cfg src d \<Longrightarrow> typed_def T cfg res d" for d
    proof (cases "scalar (T res)")
      case True
      then have "T src = T res" using assms(2) by (intro known_variable) (simp_all add: typed_instr_def i e)
      then show "typed_def T cfg src d \<Longrightarrow> typed_def T cfg res d" by (simp add: typed_def_def)
    qed (simp add: typed_def_def)
    then show ?thesis using assms(1)
      by (simp add: i e instr_transfer_def tracked_def keeps_copy)
  next
    case False
    then show ?thesis using set by (cases e) (simp_all add: i instr_transfer_def)
  qed
next
  case False
  then have sv: "keeps (typed_def T cfg) (set_var b i vs)" for vs
    using at by (intro keeps_set_var) (cases ins; simp add: typed_def_def)
  note rules = sv keeps_Nil keeps_Mod keeps_mod_var keeps_append
  show ?thesis using False by (cases ins) (auto simp: instr_transfer_def rules split: option.split)
qed

lemma get_definition_at:
  "b < length (cfg_blocks cfg) \<Longrightarrow> i < length (b_instr (cfg_blocks cfg ! b)) \<Longrightarrow>
   get_definition \<lparr>def_block_no = b, def_instr_no = i, def_assignment_no = a\<rparr> cfg =
     Some (case b_instr (cfg_blocks cfg ! b) ! i of Instr.Set _ _ e \<Rightarrow> Some e | _ \<Rightarrow> None)"
  by (simp add: get_definition_def vec_get_def)

section \<open>Executions and the recorded definitions\<close>

text \<open>The expressions of an instruction that decide what it does with values.\<close>

definition decides :: "Instr \<Rightarrow> Expression list" where
  "decides i = (case i of Instr.Set _ _ e \<Rightarrow> [e] | Instr.BranchCond c _ _ \<Rightarrow> [c] | Instr.Switch c _ _ \<Rightarrow> [c] | _ \<Rightarrow> [])"

definition defined :: "(nat \<Rightarrow> Type) \<Rightarrow> origin \<Rightarrow> nat \<Rightarrow> Type" where
  "defined T org v = (if org v = None then Type.Void else T v)"

text \<open>
  The graphs the pass is correct for: the blocks end in their only terminator, the writes have
  transfers, every block but the entry is entered with some variable defined, the instructions are
  typed, and no execution reads a variable before it is assigned.
\<close>

definition foldable :: "(nat \<Rightarrow> Type) \<Rightarrow> (nat \<Rightarrow> int) \<Rightarrow> ControlFlowGraph \<Rightarrow> bool" where
  "foldable T args cfg \<longleftrightarrow>
     (\<forall>block \<in> set (cfg_blocks cfg). b_defs block = [] \<and> successors block \<noteq> None \<and>
        (\<forall>ins \<in> set (b_instr block). tracked ins \<and> typed_instr T ins)) \<and>
     (\<forall>b org. reaches (cfg_blocks cfg) b org \<longrightarrow> b \<noteq> 0 \<longrightarrow> org \<noteq> Map.empty) \<and>
     (\<forall>b i org env. traced T args (cfg_blocks cfg) b i org env \<longrightarrow> b < length (cfg_blocks cfg) \<longrightarrow>
        i < length (b_instr (cfg_blocks cfg ! b)) \<longrightarrow>
        (\<forall>e \<in> set (decides (b_instr (cfg_blocks cfg ! b) ! i)). wt T e \<longrightarrow> wt (defined T org) e))"

lemma goes_to_targets: "goes_to T args i env b \<Longrightarrow> b \<in> set (targets i)"
  by (cases i) (simp_all add: goes_to_def targets_def split: if_splits, auto intro: rev_image_eqI)

lemma origin_terminator: "is_terminator ins \<Longrightarrow> origin_instr b i ins org = org"
  by (cases ins) (auto simp: is_terminator_def origin_instr_def written_def)

lemma take_enumerate_Suc:
  "i < length xs \<Longrightarrow> take (Suc i) (enumerate 0 xs) = take i (enumerate 0 xs) @ [(i, xs ! i)]"
  by (simp add: take_Suc_conv_app_nth nth_enumerate_eq)

lemma traced_reaches:
  assumes "traced T args blocks b i org env"
    and "\<forall>block \<in> set blocks. successors block \<noteq> None"
  shows "\<exists>org0. reaches blocks b org0 \<and>
    org = fold (\<lambda>(k, ins). origin_instr b k ins) (take i (enumerate 0 (b_instr (blocks ! b)))) org0"
  using assms(1)
proof (induction rule: traced.induct)
  case (start env)
  then show ?case using reaches.entry by auto
next
  case (step b i org env env')
  then show ?case by (auto simp: take_enumerate_Suc)
next
  case (jump b i org env b')
  let ?xs = "b_instr (blocks ! b)"
  obtain es where es: "successors (blocks ! b) = Some es" using assms(2) jump.hyps(2) nth_mem by blast
  note last = successors_terminator [OF es jump.hyps(3,4)]
  obtain org0 where org0: "reaches blocks b org0"
    "org = fold (\<lambda>(k, ins). origin_instr b k ins) (take i (enumerate 0 ?xs)) org0" using jump.IH by blast
  have "enumerate 0 ?xs = take i (enumerate 0 ?xs) @ [(i, ?xs ! i)]"
    using take_enumerate_Suc [OF jump.hyps(3)] last(1) by simp
  then have "origin_block b (blocks ! b) org0 = origin_instr b i (?xs ! i) org"
    unfolding origin_block_def org0(2) by (metis (no_types, lifting) fold_append fold_simps case_prod_conv comp_apply)
  then have "origin_block b (blocks ! b) org0 = org" by (simp add: origin_terminator [OF jump.hyps(4)])
  moreover have "b' \<in> set es" using goes_to_targets [OF jump.hyps(5)] last(2) by simp
  ultimately have "reaches blocks b' org" using reaches.edge [OF org0(1) jump.hyps(2) es] by metis
  then show ?case by auto
qed

lemma traced_covers:
  assumes "find_definitions pick cfg = Some cfg1" "foldable T args cfg"
    and "traced T args (cfg_blocks cfg) b i org env" "b < length (cfg_blocks cfg)"
  shows "covers (defs_at (cfg_blocks cfg1 ! b) i) org"
proof -
  have ok: "\<forall>block \<in> set (cfg_blocks cfg). b_defs block = [] \<and> (\<forall>ins \<in> set (b_instr block). tracked ins)"
    "\<forall>block \<in> set (cfg_blocks cfg). b_defs block = []" "\<forall>block \<in> set (cfg_blocks cfg). successors block \<noteq> None"
    "\<forall>b org. reaches (cfg_blocks cfg) b org \<longrightarrow> b \<noteq> 0 \<longrightarrow> org \<noteq> Map.empty"
    using assms(2) unfolding foldable_def by blast+
  note fp = find_definitions_fixpoint [OF assms(1) ok(2)]
  obtain org0 where org0: "reaches (cfg_blocks cfg) b org0"
    "org = fold (\<lambda>(k, ins). origin_instr b k ins) (take i (enumerate 0 (b_instr (cfg_blocks cfg ! b)))) org0"
    using traced_reaches [OF assms(3) ok(3)] by blast
  have wf: "wf_defs (b_defs (cfg_blocks cfg1 ! b))" using fp(1,2) assms(4) by (simp add: worklist_inv_def)
  have "\<forall>(k, ins) \<in> set (take i (enumerate 0 (b_instr (cfg_blocks cfg ! b)))). tracked ins"
    using ok(1) nth_mem [OF assms(4)] by (auto dest!: in_set_takeD simp: in_set_enumerate_eq)
  from covers_instrs [OF this wf reaches_covers [OF assms(1) ok(1,4) org0(1)]]
  show ?thesis using fp(3) [OF assms(4)]
    by (simp add: defs_at_def instr_transfers_def take_map org0(2))
qed

text \<open>A variable has the value that the instruction it comes from stored.\<close>

lemma traced_value:
  assumes "traced T args (cfg_blocks cfg) b i org env"
    and "\<forall>block \<in> set (cfg_blocks cfg). \<forall>ins \<in> set (b_instr block). typed_instr T ins"
    and "org v = Some d" "scalar (T v)" "get_definition d cfg = Some (Some x)"
  shows "opaque x \<or> wt T x \<and> (\<exists>org0 env0. traced T args (cfg_blocks cfg) (def_block_no d) (def_instr_no d) org0 env0 \<and>
    eval env0 args x = Some (env v))"
  using assms(1,3-5)
proof (induction arbitrary: v d x rule: traced.induct)
  case (step b i org env env')
  let ?ins = "b_instr (cfg_blocks cfg ! b) ! i"
  have typed: "typed_instr T ?ins" using assms(2) step.hyps(2,3) by (meson nth_mem)
  have other: "opaque x \<or> wt T x \<and> (\<exists>org0 env0. traced T args (cfg_blocks cfg) (def_block_no d) (def_instr_no d) org0 env0 \<and>
    eval env0 args x = Some (env' v))" if "org v = Some d" "v \<notin> set (written ?ins)"
    using step.IH [OF that(1) step.prems(2,3)] step.hyps(5) that(2) by (simp add: steps_to_def)
  show ?case
  proof (cases "\<exists>loc res l t src. ?ins = Instr.Set loc res (Expression.Variable l t src)")
    case True
    then obtain loc res l t src where ins: "?ins = Instr.Set loc res (Expression.Variable l t src)" by blast
    show ?thesis
    proof (cases "v = res")
      case True
      then have sc: "scalar (T res)" using step.prems(2) by simp
      then have known: "known_def T (T res) (Expression.Variable l t src)" using typed by (simp add: typed_instr_def ins)
      then have src: "T src = T res" using known_variable [of T res] sc by blast
      have "wt T (Expression.Variable l t src)" using known by (auto simp: known_def_def opaque_def)
      then have "env' res = env src"
        using step.hyps(5) sc by (simp add: steps_to_def ins scalar_set_def)
      moreover have "org src = Some d" using step.prems(1) True by (simp add: origin_instr_def ins)
      ultimately show ?thesis using step.IH [of src d x] step.prems(3) sc src True by simp
    qed (use other step.prems(1) in \<open>simp add: origin_instr_def ins written_def\<close>)
  next
    case False
    then have "origin_instr b i ?ins org = assign b i (written ?ins) org"
      by (cases ?ins) (auto simp: origin_instr_def split: Expression.split)
    then have "(\<exists>a < length (written ?ins). written ?ins ! a = v \<and>
        d = \<lparr>def_block_no = b, def_instr_no = i, def_assignment_no = a\<rparr>) \<or> v \<notin> set (written ?ins) \<and> org v = Some d"
      using step.prems(1) assign_Some by metis
    then show ?thesis
    proof
      assume "\<exists>a < length (written ?ins). written ?ins ! a = v \<and> d = \<lparr>def_block_no = b, def_instr_no = i, def_assignment_no = a\<rparr>"
      then obtain a where a: "a < length (written ?ins)" "written ?ins ! a = v"
        "d = \<lparr>def_block_no = b, def_instr_no = i, def_assignment_no = a\<rparr>" by blast
      then have "Some (case ?ins of Instr.Set _ _ e \<Rightarrow> Some e | _ \<Rightarrow> None) = Some (Some x)"
        using step.prems(3) get_definition_at [OF step.hyps(2,3)] by simp
      then obtain loc res where ins: "?ins = Instr.Set loc res x" by (cases ?ins) simp_all
      then have v: "v = res" using a by (simp add: written_def)
      then have "known_def T (T res) x" using typed step.prems(2) by (simp add: typed_instr_def ins)
      then have "opaque x \<or> wt T x" by (auto simp: known_def_def)
      moreover have "eval env args x = Some (env' v)" if "wt T x"
        using step.hyps(5) step.prems(2) that by (simp add: steps_to_def ins scalar_set_def v)
      ultimately show ?thesis using step.hyps(1) a(3) by auto
    qed (use other in blast)
  qed
qed simp_all

section \<open>Folding one instruction\<close>

lemma opaque_not_wt: "opaque e \<Longrightarrow> \<not> wt T e"
  by (cases e) (simp_all add: opaque_def)

lemma opaque_folds: "opaque x \<Longrightarrow> expression C cfg vars x ns = Some (r, ns') \<Longrightarrow> opaque (fst r)"
  by (cases x) (auto simp: opaque_def expression_def fold_defs rebuild1_def rebuild2_def rebuild_list_def
      Option.bind_eq_Some_conv)

text \<open>
  \<open>P\<close> are the environments at a point. There the definitions are consistent with the values
  of the variables that the expression may read.
\<close>

definition point_ok ::
  "(nat \<Rightarrow> Type) \<Rightarrow> (nat \<Rightarrow> int) \<Rightarrow> ControlFlowGraph \<Rightarrow> VarDefs \<Rightarrow> (nat \<Rightarrow> int) set \<Rightarrow> Expression \<Rightarrow> bool" where
  "point_ok T args cfg vars P e \<longleftrightarrow> consistent T T cfg vars {} args \<and>
     (\<forall>env \<in> P. \<exists>D. consistent T D cfg vars {env} args \<and> restricts D T \<and> (wt T e \<longrightarrow> wt D e))"

definition expr_agree :: "(nat \<Rightarrow> Type) \<Rightarrow> (nat \<Rightarrow> int) \<Rightarrow> (nat \<Rightarrow> int) set \<Rightarrow> Expression \<Rightarrow> Expression \<Rightarrow> bool" where
  "expr_agree T args P e e' \<longleftrightarrow> (opaque e \<longrightarrow> opaque e') \<and>
     (wt T e \<longrightarrow> wt T e' \<and> expr_ty e' = expr_ty e \<and> (\<forall>env \<in> P. eval env args e' = eval env args e))"

context bigint_crate
begin

lemma expression_agrees:
  assumes "point_ok T args cfg vars P e" "expression C cfg vars e ns = Some (r, ns')" "\<not> has_error (diagnostics ns')"
  shows "expr_agree T args P e (fst r)"
proof -
  have "wt T (fst r) \<and> expr_ty (fst r) = expr_ty e \<and> (\<forall>env \<in> P. eval env args (fst r) = eval env args e)" if wt: "wt T e"
  proof (intro conjI ballI)
    have "folds T {} args (expression C cfg vars e) e"
      using assms(1) wt by (intro expression_folds [of T T]) (simp_all add: point_ok_def restricts_def)
    from foldsD [OF this assms(2,3)] show "wt T (fst r)" "expr_ty (fst r) = expr_ty e" by simp_all
    fix env assume env: "env \<in> P"
    obtain D where D: "consistent T D cfg vars {env} args" "restricts D T" "wt D e"
      using assms(1) env wt unfolding point_ok_def by blast
    from foldsD [OF expression_folds [OF D] assms(2,3)] show "eval env args (fst r) = eval env args e" by simp
  qed
  then show ?thesis using opaque_folds [OF _ assms(2)] by (simp add: expr_agree_def)
qed

end

definition agree :: "(nat \<Rightarrow> Type) \<Rightarrow> (nat \<Rightarrow> int) \<Rightarrow> (nat \<Rightarrow> int) set \<Rightarrow> Instr \<Rightarrow> Instr \<Rightarrow> bool" where
  "agree T args P i j \<longleftrightarrow> (\<forall>env \<in> P. same_effect T args env i j) \<and>
     (case i of
        Instr.Set loc res e \<Rightarrow> (\<exists>e'. j = Instr.Set loc res e' \<and> expr_agree T args P e e')
      | _ \<Rightarrow> (\<forall>loc res e. j \<noteq> Instr.Set loc res e))"

lemma agree_refl: "agree T args P i i"
  by (cases i) (auto simp: agree_def same_effect_def expr_agree_def)

lemma agree_set:
  assumes "typed_instr T (Instr.Set loc res e)" "expr_agree T args P e e'"
  shows "agree T args P (Instr.Set loc res e) (Instr.Set loc res e')"
proof -
  have "steps_to T args (Instr.Set loc res e) env = steps_to T args (Instr.Set loc res e') env" if env: "env \<in> P" for env
  proof (cases "scalar (T res)")
    case True
    then have "opaque e \<and> opaque e' \<or> wt T e \<and> wt T e' \<and> eval env args e' = eval env args e"
      using assms env by (auto simp: typed_instr_def known_def_def expr_agree_def)
    then show ?thesis
    proof
      assume "opaque e \<and> opaque e'"
      then show ?thesis by (simp add: steps_to_def fun_eq_iff scalar_set_def opaque_not_wt written_def)
    qed (simp add: steps_to_def fun_eq_iff scalar_set_def written_def)
  qed (simp add: steps_to_def fun_eq_iff scalar_set_def written_def)
  then show ?thesis using assms(2) by (simp add: agree_def same_effect_def is_terminator_def goes_to_def fun_eq_iff)
qed

lemma same_effect_jump:
  assumes "is_terminator i" "is_terminator j" "written i = []" "written j = []"
    and "\<And>b. goes_to T args i env b \<longleftrightarrow> goes_to T args j env b"
  shows "same_effect T args env i j"
proof -
  have "steps_to T args k env env' \<longleftrightarrow> env' = env" if "is_terminator k" "written k = []" for k env'
    using that by (cases k) (auto simp: steps_to_def fun_eq_iff is_terminator_def)
  then show ?thesis using assms by (simp add: same_effect_def fun_eq_iff)
qed

lemma agree_branch:
  assumes "typed_instr T (Instr.BranchCond c t f)" "expr_agree T args P c c'"
  shows "agree T args P (Instr.BranchCond c t f) (case c' of
      Expression.BoolLiteral _ b \<Rightarrow> Instr.Branch (if b then t else f) | _ \<Rightarrow> Instr.BranchCond c' t f)"
    (is "agree T args P ?i ?j")
proof -
  have j: "?j = Instr.BranchCond c' t f \<or> (\<exists>l b. c' = Expression.BoolLiteral l b \<and> ?j = Instr.Branch (if b then t else f))"
    by (cases c') simp_all
  have "goes_to T args ?i env b' \<longleftrightarrow> goes_to T args ?j env b'" if env: "env \<in> P" for env b'
  proof -
    consider (opaque) "opaque c" "opaque c'" | (wt) "wt T c" "wt T c'" "eval env args c' = eval env args c"
      using assms env by (auto simp: typed_instr_def known_def_def expr_agree_def)
    then show ?thesis
    proof cases
      case opaque
      then have "?j = Instr.BranchCond c' t f" by (cases c') (simp_all add: opaque_def)
      then show ?thesis using opaque by (simp add: goes_to_def opaque_not_wt)
    next
      case wt
      show ?thesis using j
      proof
        assume "\<exists>l b. c' = Expression.BoolLiteral l b \<and> ?j = Instr.Branch (if b then t else f)"
        then obtain l b where c': "c' = Expression.BoolLiteral l b" by blast
        then show ?thesis using wt(1) wt(3) [symmetric] by (auto simp: goes_to_def)
      qed (use wt in \<open>simp add: goes_to_def\<close>)
    qed
  qed
  moreover have "is_terminator ?j" "written ?j = []" using j by (auto simp: is_terminator_def written_def)
  ultimately have "\<forall>env \<in> P. same_effect T args env ?i ?j"
    by (intro ballI same_effect_jump) (simp_all add: is_terminator_def written_def)
  then show ?thesis using j by (auto simp: agree_def)
qed

lemma switch_target_cases:
  assumes "literal_cases cases"
  shows "b = switch_target num cases d \<longleftrightarrow> (\<exists>(item, goto) \<in> set cases. number item = Some num \<and> b = goto) \<or>
    (\<forall>(item, goto) \<in> set cases. number item \<noteq> Some num) \<and> b = d"
proof -
  have none: "switch_target num cs d = d" if "\<forall>(item, goto) \<in> set cs. number item \<noteq> Some num" for cs d
    using that by (induction cs) (auto simp: switch_target_def)
  have "distinct (map (number \<circ> fst) cases)" using assms by (simp add: literal_cases_def)
  then show ?thesis
  proof (induction cases arbitrary: d)
    case (Cons c cases)
    obtain item goto where c: "c = (item, goto)" by fastforce
    have step: "switch_target num (c # cases) d = switch_target num cases (if number item = Some num then goto else d)"
      by (simp add: switch_target_def c)
    show ?case
    proof (cases "number item = Some num")
      case True
      then have "\<forall>(item, goto) \<in> set cases. number item \<noteq> Some num" using Cons.prems by (force simp: c)
      then show ?thesis using True none [of cases goto] by (auto simp: step [unfolded c] c)
    qed (use Cons in \<open>simp add: step [unfolded c] c\<close>)
  qed (simp add: switch_target_def)
qed

lemma agree_switch:
  assumes "typed_instr T (Instr.Switch c cases d)" "expr_agree T args P c c'"
  shows "agree T args P (Instr.Switch c cases d) (case number c' of
      Some num \<Rightarrow> Instr.Branch (switch_target num cases d) | None \<Rightarrow> Instr.Switch c' cases d)"
    (is "agree T args P ?i ?j")
proof -
  have lit: "literal_cases cases" using assms(1) by (simp add: typed_instr_def)
  have "goes_to T args ?i env b' \<longleftrightarrow> goes_to T args ?j env b'" if env: "env \<in> P" for env b'
  proof -
    consider (opaque) "opaque c" "opaque c'" | (wt) "wt T c" "wt T c'" "eval env args c' = eval env args c"
      using assms env by (auto simp: typed_instr_def expr_agree_def)
    then show ?thesis
    proof cases
      case opaque
      then have "number c' = None" by (cases c') (simp_all add: opaque_def number_def)
      then show ?thesis using opaque by (simp add: goes_to_def opaque_not_wt)
    next
      case wt
      show ?thesis
      proof (cases "number c'")
        case (Some num)
        then have "eval env args c = Some num" using wt(3) by (cases c') (simp_all add: number_def)
        then show ?thesis using wt Some switch_target_cases [OF lit, of b' num d] by (simp add: goes_to_def)
      qed (use wt in \<open>simp add: goes_to_def\<close>)
    qed
  qed
  moreover have "is_terminator ?j" "written ?j = []" by (simp_all add: is_terminator_def written_def split: option.split)
  ultimately have "\<forall>env \<in> P. same_effect T args env ?i ?j"
    by (intro ballI same_effect_jump) (simp_all add: is_terminator_def written_def)
  then show ?thesis by (simp add: agree_def split: option.split)
qed

text \<open>The other instructions keep what they write and where they lead.\<close>

definition plain :: "Instr \<Rightarrow> bool" where
  "plain i = (case i of Instr.Set _ _ _ \<Rightarrow> False | Instr.BranchCond _ _ _ \<Rightarrow> False
     | Instr.Switch _ _ _ \<Rightarrow> False | _ \<Rightarrow> True)"

definition shape :: "Instr \<Rightarrow> nat list \<times> bool \<times> nat list" where
  "shape i = (written i, is_terminator i, targets i)"

lemma goes_to_plain: "plain i \<Longrightarrow> goes_to T args i env b \<longleftrightarrow> b \<in> set (targets i)"
  by (cases i) (simp_all add: plain_def goes_to_def targets_def)

lemma agree_plain:
  assumes "plain i" "plain j" "shape i = shape j"
  shows "agree T args P i j"
proof -
  have "steps_to T args k env env' \<longleftrightarrow> (\<forall>v. v \<notin> set (written k) \<longrightarrow> env' v = env v)" if "plain k" for k env env'
    using that by (cases k) (simp_all add: plain_def steps_to_def)
  then have "same_effect T args env i j" for env
    using assms by (simp add: same_effect_def goes_to_plain fun_eq_iff shape_def)
  then show ?thesis using assms(1,2) by (cases i) (auto simp: agree_def plain_def)
qed

lemma fold_plain:
  assumes "plain i" "fold_instr C cfg vars False i ns = Some (j, ns', stop)"
  shows "plain j \<and> shape i = shape j \<and> \<not> stop"
  using assms
  by (cases i) (auto simp: fold_instr_def plain_def shape_def written_def is_terminator_def targets_def Let_def
      Option.bind_eq_Some_conv split: option.splits)

lemma fold_literal_cases:
  assumes "\<forall>(item, _) \<in> set cases. \<exists>loc ty v. item = Expression.NumberLiteral loc ty v"
  shows "seq_st (map (\<lambda>(e, goto) ns. (expression C cfg vars e ns \<bind> (\<lambda>(r, ns). Some (fst r, ns))) \<bind>
    (\<lambda>(e, ns). Some ((e, goto), ns))) cases) ns = Some (cases, ns)"
  using assms by (induction cases) (auto simp: expression_def)

context bigint_crate
begin

lemma fold_instr_agrees:
  assumes "typed_instr T i" "\<forall>e \<in> set (decides i). point_ok T args cfg vars P e"
    and run: "fold_instr C cfg vars False i ns = Some (j, ns', stop)" and ne: "\<not> has_error (diagnostics ns')"
  shows "agree T args P i j"
proof -
  consider (set) loc res e where "i = Instr.Set loc res e" | (branch) c t f where "i = Instr.BranchCond c t f"
    | (switch) c cases d where "i = Instr.Switch c cases d" | (plain) "plain i"
    by (cases i) (simp_all add: plain_def)
  then show ?thesis
  proof cases
    case set
    obtain r ns1 where r: "expression C cfg vars e ns = Some (r, ns1)" "j = Instr.Set loc res (fst r)"
      "has_error (diagnostics ns') = has_error (diagnostics ns1)"
      using run by (auto simp: fold_instr_def set split: bind_splits)
    then have "expr_agree T args P e (fst r)" using assms(2) ne by (intro expression_agrees) (simp_all add: decides_def set)
    then show ?thesis using agree_set assms(1) by (simp add: set r(2))
  next
    case branch
    obtain r where r: "expression C cfg vars c ns = Some (r, ns')" "j = (case fst r of
        Expression.BoolLiteral _ b \<Rightarrow> Instr.Branch (if b then t else f) | _ \<Rightarrow> Instr.BranchCond (fst r) t f)"
      using run by (auto simp: fold_instr_def branch split: bind_splits)
    then have "expr_agree T args P c (fst r)" using assms(2) ne by (intro expression_agrees) (simp_all add: decides_def branch)
    then show ?thesis using agree_branch assms(1) by (simp add: branch r(2))
  next
    case switch
    have lit: "\<forall>(item, _) \<in> set cases. \<exists>loc ty v. item = Expression.NumberLiteral loc ty v"
      using assms(1) by (simp add: typed_instr_def switch literal_cases_def)
    obtain r where r: "expression C cfg vars c ns = Some (r, ns')" "j = (case number (fst r) of
        Some num \<Rightarrow> Instr.Branch (switch_target num cases d) | None \<Rightarrow> Instr.Switch (fst r) cases d)"
      using run by (auto simp: fold_instr_def switch Let_def fold_literal_cases [OF lit] simp del: Option.bind_assoc split: bind_splits option.splits)
    then have "expr_agree T args P c (fst r)" using assms(2) ne by (intro expression_agrees) (simp_all add: decides_def switch)
    then show ?thesis using agree_switch assms(1) by (simp add: switch r(2))
  next
    case plain
    then show ?thesis using agree_plain fold_plain [OF _ run] by blast
  qed
qed

end

section \<open>Folding the graph\<close>

text \<open>The environments in which an instruction of the original graph is executed.\<close>

definition envs :: "(nat \<Rightarrow> Type) \<Rightarrow> (nat \<Rightarrow> int) \<Rightarrow> ControlFlowGraph \<Rightarrow> nat \<Rightarrow> nat \<Rightarrow> (nat \<Rightarrow> int) set" where
  "envs T args cfg b i = {env. \<exists>org. traced T args (cfg_blocks cfg) b i org env}"

text \<open>A graph between the analysed one and the folded one.\<close>

definition similar ::
  "(nat \<Rightarrow> Type) \<Rightarrow> (nat \<Rightarrow> int) \<Rightarrow> ControlFlowGraph \<Rightarrow> ControlFlowGraph \<Rightarrow> ControlFlowGraph \<Rightarrow> bool" where
  "similar T args cfg cfg1 cfgk \<longleftrightarrow> length (cfg_blocks cfgk) = length (cfg_blocks cfg) \<and>
     (\<forall>b < length (cfg_blocks cfg).
        b_defs (cfg_blocks cfgk ! b) = b_defs (cfg_blocks cfg1 ! b) \<and>
        b_transfers (cfg_blocks cfgk ! b) = b_transfers (cfg_blocks cfg1 ! b) \<and>
        length (b_instr (cfg_blocks cfgk ! b)) = length (b_instr (cfg_blocks cfg ! b)) \<and>
        (\<forall>i < length (b_instr (cfg_blocks cfg ! b)).
           agree T args (envs T args cfg b i) (b_instr (cfg_blocks cfg ! b) ! i) (b_instr (cfg_blocks cfgk ! b) ! i)))"

lemma similarD:
  assumes "similar T args cfg cfg1 cfgk" "b < length (cfg_blocks cfg)"
  shows "b_defs (cfg_blocks cfgk ! b) = b_defs (cfg_blocks cfg1 ! b)"
    "b_transfers (cfg_blocks cfgk ! b) = b_transfers (cfg_blocks cfg1 ! b)"
    "length (b_instr (cfg_blocks cfgk ! b)) = length (b_instr (cfg_blocks cfg ! b))"
    "i < length (b_instr (cfg_blocks cfg ! b)) \<Longrightarrow>
       agree T args (envs T args cfg b i) (b_instr (cfg_blocks cfg ! b) ! i) (b_instr (cfg_blocks cfgk ! b) ! i)"
  using assms by (simp_all add: similar_def)

lemma similar_definition:
  assumes "similar T args cfg cfg1 cfgk" "get_definition d cfgk = Some (Some x)"
  obtains y where "get_definition d cfg = Some (Some y)"
    "expr_agree T args (envs T args cfg (def_block_no d) (def_instr_no d)) y x"
proof -
  let ?b = "def_block_no d" and ?i = "def_instr_no d"
  have lt: "?b < length (cfg_blocks cfgk)" "?i < length (b_instr (cfg_blocks cfgk ! ?b))"
    and k: "(case b_instr (cfg_blocks cfgk ! ?b) ! ?i of Instr.Set _ _ e \<Rightarrow> Some e | _ \<Rightarrow> None) = Some x"
    using assms(2) by (auto simp: get_definition_def vec_get_def split: if_splits)
  obtain loc res where k': "b_instr (cfg_blocks cfgk ! ?b) ! ?i = Instr.Set loc res x"
    using k by (cases "b_instr (cfg_blocks cfgk ! ?b) ! ?i") simp_all
  have lt0: "?b < length (cfg_blocks cfg)" using assms(1) lt(1) by (simp add: similar_def)
  note sim = similarD [OF assms(1) this]
  have lt1: "?i < length (b_instr (cfg_blocks cfg ! ?b))" using lt(2) sim(3) by simp
  have "agree T args (envs T args cfg ?b ?i) (b_instr (cfg_blocks cfg ! ?b) ! ?i) (Instr.Set loc res x)"
    using sim(4) [OF lt1] by (simp add: k')
  then obtain y where y: "b_instr (cfg_blocks cfg ! ?b) ! ?i = Instr.Set loc res y"
    "expr_agree T args (envs T args cfg ?b ?i) y x"
    by (cases "b_instr (cfg_blocks cfg ! ?b) ! ?i") (auto simp: agree_def)
  then have "get_definition d cfg = Some (Some y)" using lt0 lt1 by (simp add: get_definition_def vec_get_def)
  then show ?thesis using that y(2) by blast
qed

lemma defs_at_typed:
  assumes "find_definitions pick cfg = Some cfg1" "foldable T args cfg" "b < length (cfg_blocks cfg)"
  shows "all_defs (typed_def T cfg) (defs_at (cfg_blocks cfg1 ! b) i)"
proof -
  have ok: "\<forall>block \<in> set (cfg_blocks cfg). b_defs block = []"
    "\<And>block ins. block \<in> set (cfg_blocks cfg) \<Longrightarrow> ins \<in> set (b_instr block) \<Longrightarrow> tracked ins \<and> typed_instr T ins"
    using assms(2) unfolding foldable_def by blast+
  note fp = find_definitions_fixpoint [OF assms(1) ok(1)]
  have keep: "keeps (typed_def T cfg) ts"
    if b: "b < length (cfg_blocks cfg)" and ts: "ts \<in> set (instr_transfers b (cfg_blocks cfg ! b))" for b ts
  proof -
    obtain i where i: "i < length (b_instr (cfg_blocks cfg ! b))"
      "ts = instr_transfer b i (b_instr (cfg_blocks cfg ! b) ! i)"
      using ts by (auto simp: instr_transfers_def in_set_enumerate_eq)
    then show ?thesis using ok(2) [OF nth_mem [OF b] nth_mem [OF i(1)]]
      by (auto intro: keeps_instr simp: get_definition_at [OF b i(1)])
  qed
  have b1: "b < length (cfg_blocks cfg1)" using fp(2) assms(3) by simp
  have "wf_defs (b_defs (cfg_blocks cfg1 ! b))" using fp(1) b1 by (simp add: worklist_inv_def)
  moreover have "all_defs (typed_def T cfg) (b_defs (cfg_blocks cfg1 ! b))"
    by (rule find_definitions_all [OF assms(1) ok(1) _ nth_mem [OF b1]]) (rule keep)
  moreover have "\<forall>ts \<in> set (take i (b_transfers (cfg_blocks cfg1 ! b))). keeps (typed_def T cfg) ts"
    using fp(3) [OF assms(3)] keep [OF assms(3)] by (auto dest: in_set_takeD)
  ultimately show ?thesis unfolding defs_at_def by (intro all_defs_fold)
qed

lemma similar_point:
  assumes run: "find_definitions pick cfg = Some cfg1" and ok: "foldable T args cfg"
    and sim: "similar T args cfg cfg1 cfgk"
    and b: "b < length (cfg_blocks cfg)" and i: "i < length (b_instr (cfg_blocks cfg ! b))"
    and e: "e \<in> set (decides (b_instr (cfg_blocks cfg ! b) ! i))"
  shows "point_ok T args cfgk (defs_at (cfg_blocks cfg1 ! b) i) (envs T args cfg b i) e"
proof -
  let ?vars = "defs_at (cfg_blocks cfg1 ! b) i"
  have typed: "typed_defs T cfgk v defs" if v: "map_of ?vars v = Some defs" "scalar (T v)" for v defs
    unfolding typed_defs_def
  proof (intro ballI allI impI)
    fix d x assume d: "d \<in> fst ` set defs" "get_definition d cfgk = Some (Some x)"
    obtain y where y: "get_definition d cfg = Some (Some y)"
      "expr_agree T args (envs T args cfg (def_block_no d) (def_instr_no d)) y x"
      using similar_definition [OF sim d(2)] .
    have "has ?vars v d" using v(1) d(1) by (simp add: has_def)
    then have "known_def T (T v) y"
      using defs_at_typed [OF run ok b, of i] y(1) v(2) by (auto simp: all_defs_def typed_def_def)
    then show "known_def T (T v) x" using y(2) by (auto simp: known_def_def expr_agree_def)
  qed
  have valued: "value_from cfgk defs (env v) args"
    if tr: "traced T args (cfg_blocks cfg) b i org env" "map_of ?vars v = Some defs" "scalar (defined T org v)" for org env v defs
  proof -
    obtain d where d: "org v = Some d" "scalar (T v)"
      using tr(3) by (auto simp: defined_def scalar_def is_int_def split: if_splits)
    have "has ?vars v d" using traced_covers [OF run ok tr(1) b] d(1) by (simp add: covers_def)
    then have mem: "d \<in> fst ` set defs" using tr(2) by (simp add: has_def)
    have "opaque x \<or> (\<exists>env0. eval env0 args x = Some (env v))" if x: "get_definition d cfgk = Some (Some x)" for x
    proof -
      obtain y where y: "get_definition d cfg = Some (Some y)"
        "expr_agree T args (envs T args cfg (def_block_no d) (def_instr_no d)) y x"
        using similar_definition [OF sim x] .
      have "\<forall>block \<in> set (cfg_blocks cfg). \<forall>ins \<in> set (b_instr block). typed_instr T ins"
        using ok unfolding foldable_def by blast
      from traced_value [OF tr(1) this d y(1)] show ?thesis
        using y(2) unfolding expr_agree_def envs_def by fastforce
    qed
    then show ?thesis using mem unfolding value_from_def by blast
  qed
  have "consistent T (defined T org) cfgk ?vars {env} args" if "traced T args (cfg_blocks cfg) b i org env" for org env
    unfolding consistent_def
    using typed valued [OF that] by (auto simp: defined_def scalar_def is_int_def split: if_splits)
  moreover have "restricts (defined T org) T" for org by (simp add: restricts_def defined_def)
  moreover have "wt T e \<longrightarrow> wt (defined T org) e" if "traced T args (cfg_blocks cfg) b i org env" for org env
    using ok that b i e unfolding foldable_def by blast
  moreover have "consistent T T cfgk ?vars {} args" using typed by (simp add: consistent_def)
  ultimately show ?thesis unfolding point_ok_def envs_def by blast
qed

lemma similar_set_instr:
  assumes "similar T args cfg cfg1 cfgk" "b < length (cfg_blocks cfg)"
    and "i < length (b_instr (cfg_blocks cfg ! b)) \<Longrightarrow>
      agree T args (envs T args cfg b i) (b_instr (cfg_blocks cfg ! b) ! i) j"
  shows "similar T args cfg cfg1 (set_instr b i j cfgk)"
proof -
  note sim = similarD [OF assms(1,2)]
  have "agree T args (envs T args cfg b k) (b_instr (cfg_blocks cfg ! b) ! k) ((b_instr (cfg_blocks cfgk ! b))[i := j] ! k)"
    if k: "k < length (b_instr (cfg_blocks cfg ! b))" for k
    using sim(3) sim(4) [OF k] assms(3) k by (cases "k = i") simp_all
  then show ?thesis using assms(1,2) by (auto simp: similar_def set_instr_def nth_list_update)
qed

context bigint_crate
begin

lemma fold_block_similar:
  assumes run: "find_definitions pick cfg = Some cfg1" and ok: "foldable T args cfg"
    and b: "b < length (cfg_blocks cfg)"
  shows "fold_block C False b [i ..< length (b_instr (cfg_blocks cfg ! b))] (defs_at (cfg_blocks cfg1 ! b) i) cfgk ns = Some (cfg', ns') \<Longrightarrow>
    \<not> has_error (diagnostics ns') \<Longrightarrow> similar T args cfg cfg1 cfgk \<Longrightarrow>
    (\<And>k. i \<le> k \<Longrightarrow> b_instr (cfg_blocks cfgk ! b) ! k = b_instr (cfg_blocks cfg ! b) ! k) \<Longrightarrow>
    similar T args cfg cfg1 cfg' \<and> (\<forall>b'. b' \<noteq> b \<longrightarrow> cfg_blocks cfg' ! b' = cfg_blocks cfgk ! b')"
proof (induction "length (b_instr (cfg_blocks cfg ! b)) - i" arbitrary: i cfgk ns)
  case 0
  then show ?case by simp
next
  case (Suc n)
  let ?is = "b_instr (cfg_blocks cfg ! b)" and ?vars = "defs_at (cfg_blocks cfg1 ! b)"
  have i: "i < length ?is" using Suc.hyps(2) by simp
  have upt: "[i ..< length ?is] = i # [Suc i ..< length ?is]" using i by (simp add: upt_conv_Cons)
  note sim = similarD [OF Suc.prems(3) b]
  have get: "vec_get (cfg_blocks cfgk) b = Some (cfg_blocks cfgk ! b)"
    "vec_get (b_instr (cfg_blocks cfgk ! b)) i = Some (?is ! i)"
    using Suc.prems(3,4) b i sim(3) by (simp_all add: vec_get_def similar_def)
  obtain j ns1 stop where j: "fold_instr C cfgk (?vars i) False (?is ! i) ns = Some (j, ns1, stop)"
    using Suc.prems(1) by (auto simp: upt get split: bind_splits)
  let ?cfg = "set_instr b i j cfgk"
  have rest: "stop \<and> cfg' = ?cfg \<and> ns' = ns1 \<or> fold_block C False b [Suc i ..< length ?is] (?vars (Suc i)) ?cfg ns1 = Some (cfg', ns')"
  proof (cases stop)
    case False
    then obtain ts where ts: "vec_get (b_transfers (cfg_blocks cfg1 ! b)) i = Some ts"
      "fold_block C False b [Suc i ..< length ?is] (apply_transfers ts (?vars i)) ?cfg ns1 = Some (cfg', ns')"
      using Suc.prems(1) by (auto simp: upt get j sim(2) split: bind_splits)
    then have "?vars (Suc i) = apply_transfers ts (?vars i)"
      by (auto simp: defs_at_def vec_get_def take_Suc_conv_app_nth split: if_splits)
    then show ?thesis using ts(2) by simp
  qed (use Suc.prems(1) in \<open>simp add: upt get j\<close>)
  have "extends_ns ns1 ns'" using rest fold_block_frame by auto
  then have ne1: "\<not> has_error (diagnostics ns1)" using Suc.prems(2) extends_ns_error by blast
  have "typed_instr T (?is ! i)" using ok nth_mem [OF b] nth_mem [OF i] unfolding foldable_def by blast
  then have "agree T args (envs T args cfg b i) (?is ! i) j"
    using similar_point [OF run ok Suc.prems(3) b i] j ne1 by (intro fold_instr_agrees) auto
  then have sim': "similar T args cfg cfg1 ?cfg" by (rule similar_set_instr [OF Suc.prems(3) b])
  have other: "cfg_blocks ?cfg ! b' = cfg_blocks cfgk ! b'" if "b' \<noteq> b" for b' using that by (simp add: set_instr_def)
  have later: "b_instr (cfg_blocks ?cfg ! b) ! k = ?is ! k" if "Suc i \<le> k" for k
    using that Suc.prems(3,4) b by (simp add: set_instr_def similar_def)
  have n: "n = length ?is - Suc i" using Suc.hyps(2) by simp
  from rest show ?case
  proof
    assume "fold_block C False b [Suc i ..< length ?is] (?vars (Suc i)) ?cfg ns1 = Some (cfg', ns')"
    from Suc.hyps(1) [OF n this Suc.prems(2) sim' later] other show ?case by simp
  qed (use sim' other in simp)
qed

lemma fold_blocks_similar:
  assumes "find_definitions pick cfg = Some cfg1" and "foldable T args cfg"
  shows "fold_blocks C False bs cfgk ns = Some (cfg', ns') \<Longrightarrow> \<not> has_error (diagnostics ns') \<Longrightarrow> distinct bs \<Longrightarrow>
    \<forall>b \<in> set bs. b < length (cfg_blocks cfg) \<and> b_instr (cfg_blocks cfgk ! b) = b_instr (cfg_blocks cfg ! b) \<Longrightarrow>
    similar T args cfg cfg1 cfgk \<Longrightarrow> similar T args cfg cfg1 cfg'"
proof (induction bs arbitrary: cfgk ns)
  case (Cons b bs)
  then have b: "b < length (cfg_blocks cfg)" "b_instr (cfg_blocks cfgk ! b) = b_instr (cfg_blocks cfg ! b)" by simp_all
  have get: "vec_get (cfg_blocks cfgk) b = Some (cfg_blocks cfgk ! b)" using Cons.prems(5) b by (simp add: vec_get_def similar_def)
  have start: "b_defs (cfg_blocks cfgk ! b) = defs_at (cfg_blocks cfg1 ! b) 0"
    using similarD(1) [OF Cons.prems(5) b(1)] by (simp add: defs_at_def)
  obtain cfg2 ns2 where
    one: "fold_block C False b [0 ..< length (b_instr (cfg_blocks cfg ! b))] (defs_at (cfg_blocks cfg1 ! b) 0) cfgk ns = Some (cfg2, ns2)"
    and rest: "fold_blocks C False bs cfg2 ns2 = Some (cfg', ns')"
    using Cons.prems(1) by (auto simp: get b(2) start split: bind_splits)
  have "\<not> has_error (diagnostics ns2)"
    using fold_blocks_frame [OF rest] Cons.prems(2) extends_ns_error by blast
  from fold_block_similar [OF assms b(1) one this Cons.prems(5)] b(2)
  have two: "similar T args cfg cfg1 cfg2" "\<And>b'. b' \<noteq> b \<Longrightarrow> cfg_blocks cfg2 ! b' = cfg_blocks cfgk ! b'" by simp_all
  have "b' \<noteq> b" if "b' \<in> set bs" for b' using Cons.prems(3) that by auto
  then show ?case using Cons.IH [OF rest Cons.prems(2) _ _ two(1)] Cons.prems(3,4) two(2) by simp
qed simp

end

text \<open>
  C1: the constant folding pass keeps the executions of a graph. When the reaching definitions of
  a graph have been found and folding it reports no error, the folded graph has exactly the
  executions of the original: the same points are reached with the same values of the integer and
  boolean variables. It holds for graphs whose writes the analysis tracks, whose expressions are
  typed, and in which no variable is read before it is assigned.
\<close>

theorem constant_folding_preserves_executions:
  assumes "bigint_crate C" and "find_definitions pick cfg = Some cfg1" and "foldable T args cfg"
    and "constant_folding C cfg1 False ns = Some (cfg2, ns2)" and "\<not> has_error (diagnostics ns2)"
  shows "exec T args (cfg_blocks cfg2) b i env \<longleftrightarrow> exec T args (cfg_blocks cfg) b i env"
proof (rule same_executions)
  have "\<forall>block \<in> set (cfg_blocks cfg). b_defs block = []" using assms(3) unfolding foldable_def by blast
  note fp = find_definitions_fixpoint [OF assms(2) this]
  have "similar T args cfg cfg1 cfg1" using fp(2,3) by (simp add: similar_def agree_refl)
  then have sim: "similar T args cfg cfg1 cfg2"
    using bigint_crate.fold_blocks_similar [OF assms(1-3) assms(4) [unfolded constant_folding_def] assms(5)] fp(2,3) by simp
  then show "length (cfg_blocks cfg2) = length (cfg_blocks cfg)" by (simp add: similar_def)
  show "length (b_instr (cfg_blocks cfg2 ! b)) = length (b_instr (cfg_blocks cfg ! b))" if "b < length (cfg_blocks cfg)" for b
    using similarD(3) [OF sim that] .
  show "same_effect T args env (b_instr (cfg_blocks cfg ! b) ! i) (b_instr (cfg_blocks cfg2 ! b) ! i)"
    if ex: "exec T args (cfg_blocks cfg) b i env" and "b < length (cfg_blocks cfg)" "i < length (b_instr (cfg_blocks cfg ! b))" for b i env
  proof -
    have "env \<in> envs T args cfg b i" using exec_traced [OF ex] by (simp add: envs_def)
    then show ?thesis using similarD(4) [OF sim that(2,3)] unfolding agree_def by blast
  qed
qed

text \<open>\<open>x := 2; y := x + 3; switch y case 5: return y default: return x\<close>: the switch folds.\<close>

definition sum_cfg :: ControlFlowGraph where
  "sum_cfg = placeholder\<lparr>cfg_blocks := [
     sample_block ''entry'' [Instr.Set Loc.Codegen 0 (int_lit 2), Instr.Set Loc.Codegen 1 sum_expr,
       Instr.Switch (int_var 1) [(int_lit 5, 1)] 2],
     sample_block ''five'' [Instr.Return [int_var 1]],
     sample_block ''default'' [Instr.Return [int_var 0]]]\<rparr>"

abbreviation ints :: "nat \<Rightarrow> Type" where
  "ints \<equiv> \<lambda>_. Type.Int 64"

lemma sum_cfg_folds:
  "map_option (\<lambda>(cfg, ns). (map b_instr (cfg_blocks cfg), has_error (diagnostics ns)))
     (find_definitions Min sum_cfg \<bind> (\<lambda>cfg. constant_folding crates_impl cfg False fold_ns)) =
   Some ([[Instr.Set Loc.Codegen 0 (int_lit 2), Instr.Set Loc.Codegen 1 (int_lit 5), Instr.Branch 1],
          [Instr.Return [int_lit 5]], [Instr.Return [int_lit 2]]], False)"
  by code_simp

lemmas sum_cfg_simps = sum_cfg_def sample_block_def placeholder_def origin_block_def origin_instr_def
  assign_def written_def is_terminator_def targets_def successors_def

lemma sum_cfg_traced:
  "traced ints args (cfg_blocks sum_cfg) b i org env \<Longrightarrow> (0 < b \<or> 0 < i \<longrightarrow> org 0 \<noteq> None) \<and> (0 < b \<or> 1 < i \<longrightarrow> org 1 \<noteq> None)"
proof (induction rule: traced.induct)
  case (step b i org env env')
  then have "b = 0 \<and> (i = 0 \<or> i = 1)" by (auto simp: sum_cfg_simps less_Suc_eq nth_Cons' split: if_splits)
  then show ?case using step.IH by (elim conjE disjE) (simp_all add: sum_cfg_simps)
next
  case (jump b i org env b')
  then have "b = 0 \<and> i = 2" by (auto simp: sum_cfg_simps less_Suc_eq nth_Cons' goes_to_def split: if_splits)
  then show ?case using jump.IH by simp
qed simp

lemma sum_cfg_reaches: "reaches (cfg_blocks sum_cfg) b org \<Longrightarrow> b \<noteq> 0 \<Longrightarrow> org 0 \<noteq> None"
proof (induction rule: reaches.induct)
  case (edge b org es e)
  then have "b = 0 \<or> b = 1 \<or> b = 2" by (auto simp: sum_cfg_simps)
  then show ?case using edge.hyps edge.IH by (elim disjE) (auto simp: sum_cfg_simps)
qed simp

lemma sum_cfg_foldable: "foldable ints args sum_cfg"
proof -
  have "b_defs block = [] \<and> successors block \<noteq> None \<and> (\<forall>ins \<in> set (b_instr block). tracked ins \<and> typed_instr ints ins)"
    if "block \<in> set (cfg_blocks sum_cfg)" for block
    using that by (auto simp: sum_cfg_simps tracked_def typed_instr_def known_def_def literal_cases_def number_def
        is_int_def in_range_def signed_ty_def width_def)
  moreover have "wt (defined ints org) e"
    if tr: "traced ints args (cfg_blocks sum_cfg) b i org env" and lt: "b < length (cfg_blocks sum_cfg)" "i < length (b_instr (cfg_blocks sum_cfg ! b))"
      and e: "e \<in> set (decides (b_instr (cfg_blocks sum_cfg ! b) ! i))" "wt ints e" for b i org env e
  proof -
    have "b = 0 \<and> (i = 0 \<or> i = 1 \<or> i = 2) \<or> (b = 1 \<or> b = 2) \<and> i = 0"
      using lt by (auto simp: sum_cfg_simps less_Suc_eq nth_Cons' split: if_splits)
    then show ?thesis using sum_cfg_traced [OF tr] e
      by (elim disjE conjE) (auto simp: sum_cfg_simps decides_def defined_def)
  qed
  ultimately show ?thesis unfolding foldable_def using sum_cfg_reaches by fastforce
qed

theorem constant_folding_preserves_executions_witness:
  "\<exists>cfg1 cfg2 ns2. find_definitions Min sum_cfg = Some cfg1 \<and>
     constant_folding crates_impl cfg1 False fold_ns = Some (cfg2, ns2) \<and>
     b_instr (cfg_blocks cfg2 ! 0) ! 2 = Instr.Branch 1 \<and>
     (\<forall>b i env. exec ints (\<lambda>_. 0) (cfg_blocks cfg2) b i env \<longleftrightarrow> exec ints (\<lambda>_. 0) (cfg_blocks sum_cfg) b i env)"
proof -
  obtain cfg1 cfg2 ns2 where run: "find_definitions Min sum_cfg = Some cfg1"
    "constant_folding crates_impl cfg1 False fold_ns = Some (cfg2, ns2)" "\<not> has_error (diagnostics ns2)"
    and instrs: "map b_instr (cfg_blocks cfg2) =
      [[Instr.Set Loc.Codegen 0 (int_lit 2), Instr.Set Loc.Codegen 1 (int_lit 5), Instr.Branch 1],
       [Instr.Return [int_lit 5]], [Instr.Return [int_lit 2]]]"
    using sum_cfg_folds by (auto split: bind_splits prod.splits)
  then have "b_instr (cfg_blocks cfg2 ! 0) ! 2 = Instr.Branch 1" by auto
  then show ?thesis
    using constant_folding_preserves_executions [OF impl.bigint_crate_axioms run(1) sum_cfg_foldable run(2,3)] run by blast
qed

end
