(* ===== verification/ConstfoldErrors.thy ===== *)
theory ConstfoldErrors
  imports ConstfoldGraph
begin

text \<open>
  What constant folding reports: a literal that does not fit its type, and an operation on literals
  that would stop the program. The last section shows two graphs and expressions that it folds wrongly.
\<close>

section \<open>Literals\<close>

lemma wrap_cong: "is_int ty \<Longrightarrow> wrap ty v mod 2 ^ width ty = v mod 2 ^ width ty"
  by (elim is_int_cases)
     (simp_all add: wrap_def signed_ty_def width_def flip: take_bit_eq_mod, simp add: take_bit_signed_take_bit)

lemma overflow_level:
  assumes "bigint_crate C" "is_int ty" "\<not> in_range ty v"
  shows "d_level (the (overflow_diagnostic C v ty loc)) = Error"
proof -
  obtain d where "overflow_diagnostic C v ty loc = Some d"
    using bigint_crate.overflow_diagnostic_iff [OF assms(1,2), of v loc] assms(3) by auto
  then show ?thesis using bigint_crate.overflow_diagnostic_error [OF assms(1)] by fastforce
qed

text \<open>
  C28: a folded integer is a literal of the type. It is the value reduced to the width of the type,
  and an error is added exactly when the operation may not overflow and the value is outside the
  range of the type.
\<close>

theorem folded_integer_wraps:
  assumes "bigint_crate C" and "is_int ty"
  shows "\<exists>w ns'. bigint_to_expression C loc ty v overflowing ns = Some ((Expression.NumberLiteral loc ty w, True), ns') \<and>
    in_range ty w \<and> w mod 2 ^ width ty = v mod 2 ^ width ty \<and>
    (has_error (diagnostics ns') \<longleftrightarrow> has_error (diagnostics ns) \<or> \<not> overflowing \<and> \<not> in_range ty v)"
proof -
  show ?thesis
    using overflow_level [OF assms, of v loc] wrap_in_range [OF assms(2), of v] wrap_cong [OF assms(2), of v]
    by (auto simp: bigint_crate.bigint_to_expression_spec [OF assms])
qed

theorem folded_integer_wraps_witness:
  "\<exists>w ns'. bigint_to_expression crates_impl Loc.Codegen (Type.Uint 8) 300 False fold_ns =
     Some ((Expression.NumberLiteral Loc.Codegen (Type.Uint 8) w, True), ns') \<and>
   in_range (Type.Uint 8) w \<and> w mod 2 ^ width (Type.Uint 8) = 300 mod 2 ^ width (Type.Uint 8) \<and> has_error (diagnostics ns')"
proof -
  have "is_int (Type.Uint 8)" "\<not> in_range (Type.Uint 8) 300" by (simp_all add: is_int_def in_range_def signed_ty_def width_def)
  then show ?thesis using folded_integer_wraps [OF impl.bigint_crate_axioms, of "Type.Uint 8" Loc.Codegen 300 False fold_ns] by blast
qed

section \<open>Operations that stop the program\<close>

definition literal_operations :: "Loc \<Rightarrow> Type \<Rightarrow> bool \<Rightarrow> Expression \<Rightarrow> Expression \<Rightarrow> Expression set" where
  "literal_operations loc ty overflowing l r = {Expression.Add loc ty overflowing l r,
     Expression.Subtract loc ty overflowing l r, Expression.Multiply loc ty overflowing l r,
     Expression.Power loc ty overflowing l r, Expression.UnsignedDivide loc ty l r, Expression.SignedDivide loc ty l r,
     Expression.UnsignedModulo loc ty l r, Expression.SignedModulo loc ty l r,
     Expression.ShiftLeft loc ty l r, Expression.ShiftRight loc ty l r (signed_ty ty)}"

text \<open>
  C29: an operation on integer literals that would stop the program is reported. When an addition,
  subtraction, multiplication, power, division, remainder or shift of literals has no value (it
  overflows, divides by zero, or shifts or raises by an amount that is not possible), folding it
  adds an error.
\<close>

theorem stopping_operation_reported:
  assumes "bigint_crate C" and "is_int ty"
    and "e \<in> literal_operations loc ty overflowing (Expression.NumberLiteral l1 ty a) (Expression.NumberLiteral l2 ty b)"
    and "eval env args e = None"
  shows "\<exists>r ns'. expression C cfg vars e ns = Some (r, ns') \<and> has_error (diagnostics ns')"
proof -
  have bits: "bits ns ty = Some (width ty)" for ns
    using assms(2) by (cases rule: is_int_cases) (simp_all add: bits_def bits_fuel.simps width_def)
  note simps = expression_def fold_defs binary_fold_def power_fold_def division_fold_def shift_fold_def error_diagnostic_def
    number_def lift2_def checked_def Let_def bits overflow_level [OF assms(1,2)] bigint_crate.bigint_to_expression_spec [OF assms(1,2)]
  show ?thesis using assms(3,4) unfolding literal_operations_def
    by (elim insertE emptyE) (simp_all add: simps split: if_splits, auto)
qed

theorem stopping_operation_reported_witness:
  "\<exists>r ns'. expression crates_impl assign_cfg assign_vars
      (Expression.ShiftLeft Loc.Codegen (Type.Int 64) (int_lit 1) (int_lit 64)) fold_ns = Some (r, ns') \<and>
    has_error (diagnostics ns')"
proof (rule stopping_operation_reported [OF impl.bigint_crate_axioms])
  show "is_int (Type.Int 64)" by (simp add: is_int_def)
  show "Expression.ShiftLeft Loc.Codegen (Type.Int 64) (int_lit 1) (int_lit 64) \<in>
      literal_operations Loc.Codegen (Type.Int 64) False (int_lit 1) (int_lit 64)"
    by (simp add: literal_operations_def)
  show "eval (\<lambda>_. 0) (\<lambda>_. 0) (Expression.ShiftLeft Loc.Codegen (Type.Int 64) (int_lit 1) (int_lit 64)) = None"
    by (simp add: lift2_def width_def)
qed

section \<open>Where folding goes wrong\<close>

lemma self_copy_cfg_folds:
  "map_option (\<lambda>(cfg, ns). (map b_instr (drop 3 (cfg_blocks cfg)), has_error (diagnostics ns)))
     (find_definitions Min self_copy_cfg \<bind> (\<lambda>cfg. constant_folding crates_impl cfg False fold_ns)) =
   Some ([[Instr.Return [int_lit 1]]], False)"
  by code_simp

lemma self_copy_cfg_exec:
  "exec ints (\<lambda>_. 0) (cfg_blocks self_copy_cfg) 3 0 (\<lambda>_. 2)"
proof -
  let ?bs = "cfg_blocks self_copy_cfg"
  note simps = self_copy_cfg_def sample_block_def placeholder_def is_terminator_def steps_to_def goes_to_def written_def
    scalar_set_def is_int_def in_range_def signed_ty_def width_def
  have "exec ints (\<lambda>_. 0) ?bs 0 (Suc 0) (\<lambda>_. 2)" by (rule exec.step [OF exec.start [of _ _ _ "\<lambda>_. 2"]]) (simp_all add: simps)
  then have "exec ints (\<lambda>_. 0) ?bs 2 0 (\<lambda>_. 2)" by (rule exec.jump) (simp_all add: simps)
  then have "exec ints (\<lambda>_. 0) ?bs 2 (Suc 0) (\<lambda>_. 2)" by (rule exec.step) (simp_all add: simps)
  then show ?thesis by (rule exec.jump) (simp_all add: simps)
qed


lemma insert_zeros_diverges: "n < length bs \<Longrightarrow> insert_zeros n bs = None"
proof (rule ccontr)
  assume "n < length bs" "insert_zeros n bs \<noteq> None"
  then obtain r where r: "insert_zeros n bs = Some r" by auto
  have "length bs \<le> n" by (rule insert_zeros.raw_induct [OF _ r]) (fastforce split: if_splits)
  then show False using \<open>n < length bs\<close> by simp
qed

lemma insert_zeros_eq: "insert_zeros n bs = (if n < length bs then None else Some bs)"
  by (cases "n < length bs") (simp_all add: insert_zeros_diverges, subst insert_zeros.simps, simp)

text \<open>
  The hash of a short \<open>bytes\<close> literal is taken of too few bytes, and a literal that has
  more bytes than its type never finishes. The bytes of a literal of type \<open>bytesN\<close> are hashed as they
  are when there are at most \<open>N\<close> of them, without padding; otherwise the padding loop does not end.
\<close>

theorem keccak_bytes_literal_not_padded:
  "keccak_arg C ns (Expression.NumberLiteral loc (Type.Bytes n) v) =
     (if n < length (to_bytes_le C v) then None else Some (Some (to_bytes_le C v)))"
  by (simp add: keccak_arg_def Let_def insert_zeros_eq)

end
