(* ===== verification/TypeNames.thy ===== *)
theory TypeNames
  imports Types
begin

text \<open>
  The names of types: for messages (\<open>to_string\<close>), in signatures and function selectors
  (\<open>to_signature_string\<close>) and in mangled names (\<open>to_llvm_string\<close>) of
  \<open>src/sema/types.rs\<close>. A type that the source does not expect is a panic.
\<close>

section \<open>Declarations\<close>

definition qualified_name :: "string option \<Rightarrow> string \<Rightarrow> string" where
  "qualified_name contract name = (case contract of Some c \<Rightarrow> c @ ''.'' @ name | None \<Rightarrow> name)"

definition struct_name :: "StructDecl \<Rightarrow> string" where
  "struct_name d = qualified_name (s_contract d) (id_name (s_id d))"

definition enum_name :: "EnumDecl \<Rightarrow> string" where
  "enum_name d = qualified_name (e_contract d) (id_name (e_id d))"

definition user_type_name :: "UserTypeDecl \<Rightarrow> string" where
  "user_type_name d = qualified_name (u_contract d) (u_name d)"

definition is_default_mutability :: "Mutability \<Rightarrow> bool" where
  "is_default_mutability m = (case m of Nonpayable _ \<Rightarrow> True | _ \<Rightarrow> False)"

definition mutability_name :: "Mutability \<Rightarrow> string" where
  "mutability_name m = (case m of Pure _ \<Rightarrow> ''pure'' | View _ \<Rightarrow> ''view''
     | Nonpayable _ \<Rightarrow> ''nonpayable'' | Payable _ \<Rightarrow> ''payable'')"

fun join :: "string \<Rightarrow> string list \<Rightarrow> string" where
  "join sep [] = ''''"
| "join sep [s] = s"
| "join sep (s # ss) = s @ sep @ join sep ss"

section \<open>Messages\<close>

definition dims_string :: "ArrayLength list \<Rightarrow> string" where
  "dims_string dims = concat (map (\<lambda>d. case d of
       Fixed len \<Rightarrow> ''['' @ dec_int len @ '']'' | _ \<Rightarrow> ''[]'') dims)"

definition parameter_name :: "Identifier option \<Rightarrow> string" where
  "parameter_name n = (case n of Some i \<Rightarrow> '' '' @ id_name i | None \<Rightarrow> '''')"

definition function_string :: "bool \<Rightarrow> Mutability \<Rightarrow> string list \<Rightarrow> string list \<Rightarrow> string" where
  "function_string is_internal m params returns =
     ''function('' @ join '','' params @ '') '' @ (if is_internal then ''internal'' else ''external'') @
     (if is_default_mutability m then '''' else '' '' @ mutability_name m) @
     (if returns = [] then '''' else '' returns ('' @ join '','' returns @ '')'')"

primrec to_string :: "Namespace \<Rightarrow> Type \<Rightarrow> string option" where
  "to_string ns (Type.Address payable) = Some (if payable then ''address payable'' else ''address'')"
| "to_string ns Type.Bool = Some ''bool''"
| "to_string ns (Type.Int n) = Some (''int'' @ dec_nat n)"
| "to_string ns (Type.Uint n) = Some (''uint'' @ dec_nat n)"
| "to_string ns Type.Rational = Some ''rational''"
| "to_string ns (Type.Bytes n) = Some (''bytes'' @ dec_nat n)"
| "to_string ns Type.DynamicBytes = Some ''bytes''"
| "to_string ns Type.String = Some ''string''"
| "to_string ns (Type.Array ty len) = map_option (\<lambda>s. s @ dims_string len) (to_string ns ty)"
| "to_string ns (Type.Enum n) = map_option (\<lambda>d. ''enum '' @ enum_name d) (vec_get (enums ns) n)"
| "to_string ns (Type.Struct st) = map_option (\<lambda>d. ''struct '' @ struct_name d) (struct_definition st ns)"
| "to_string ns (Type.Mapping key key_name val val_name) = do {
     k \<leftarrow> to_string ns key; v \<leftarrow> to_string ns val;
     Some (''mapping('' @ k @ parameter_name key_name @ '' => '' @ v @ parameter_name val_name @ '')'') }"
| "to_string ns (Type.Contract n) = map_option (\<lambda>c. ''contract '' @ id_name (c_id c)) (vec_get (contracts ns) n)"
| "to_string ns (Type.Ref r) = to_string ns r"
| "to_string ns (Type.StorageRef b ty) = map_option (\<lambda>s. s @ '' storage'') (to_string ns ty)"
| "to_string ns (Type.InternalFunction m params returns) = do {
     ps \<leftarrow> seq_opt (map (to_string ns) params); rs \<leftarrow> seq_opt (map (to_string ns) returns);
     Some (function_string True m ps rs) }"
| "to_string ns (Type.ExternalFunction m params returns) = do {
     ps \<leftarrow> seq_opt (map (to_string ns) params); rs \<leftarrow> seq_opt (map (to_string ns) returns);
     Some (function_string False m ps rs) }"
| "to_string ns (Type.UserType n) = map_option (\<lambda>d. ''usertype '' @ user_type_name d) (vec_get (user_types ns) n)"
| "to_string ns Type.Value = Some (''uint'' @ dec_nat (value_length ns * 8))"
| "to_string ns Type.Void = Some ''void''"
| "to_string ns Type.Unreachable = Some ''unreachable''"
| "to_string ns (Type.Slice ty) = (if type_eq ty (Type.Bytes 1) then Some ''bytes''
     else map_option (\<lambda>s. s @ ''[]'') (to_string ns ty))"
| "to_string ns Type.Unresolved = Some ''unresolved''"
| "to_string ns Type.BufferPointer = Some ''buffer_pointer''"
| "to_string ns Type.FunctionSelector = Some ''function_selector''"

section \<open>Signatures\<close>

text \<open>
  Enums, structs and user types are replaced by what they stand for; a struct may only refer to
  itself through a field marked as recursive.
\<close>

fun to_signature_string_fuel :: "nat \<Rightarrow> bool \<Rightarrow> Namespace \<Rightarrow> Type \<Rightarrow> string option" where
  "to_signature_string_fuel k say_tuple ns ty = (case ty of
       Type.Bool \<Rightarrow> Some ''bool''
     | Type.Contract _ \<Rightarrow> Some ''address''
     | Type.Address _ \<Rightarrow> Some ''address''
     | Type.Int n \<Rightarrow> Some (''int'' @ dec_nat n)
     | Type.Uint n \<Rightarrow> Some (''uint'' @ dec_nat n)
     | Type.Rational \<Rightarrow> Some ''rational''
     | Type.Bytes n \<Rightarrow> Some (''bytes'' @ dec_nat n)
     | Type.DynamicBytes \<Rightarrow> Some ''bytes''
     | Type.String \<Rightarrow> Some ''string''
     | Type.Enum n \<Rightarrow> (case k of 0 \<Rightarrow> None
         | Suc k' \<Rightarrow> do { e \<leftarrow> vec_get (enums ns) n; to_signature_string_fuel k' say_tuple ns (e_ty e) })
     | Type.Array t len \<Rightarrow> map_option (\<lambda>s. s @ dims_string len) (to_signature_string_fuel k say_tuple ns t)
     | Type.Ref r \<Rightarrow> to_string ns r
     | Type.StorageRef _ r \<Rightarrow> to_string ns r
     | Type.Struct st \<Rightarrow> (if say_tuple then Some ''tuple'' else case k of 0 \<Rightarrow> None
         | Suc k' \<Rightarrow> do {
             d \<leftarrow> struct_definition st ns;
             fs \<leftarrow> seq_opt (map (\<lambda>f. if p_recursive f then Some ''#recursive''
               else to_signature_string_fuel k' say_tuple ns (p_ty f)) (s_fields d));
             Some (''('' @ join '','' fs @ '')'') })
     | Type.InternalFunction _ _ _ \<Rightarrow> Some ''function''
     | Type.ExternalFunction _ _ _ \<Rightarrow> Some ''function''
     | Type.UserType n \<Rightarrow> (case k of 0 \<Rightarrow> None
         | Suc k' \<Rightarrow> do { u \<leftarrow> vec_get (user_types ns) n; to_signature_string_fuel k' say_tuple ns (u_ty u) })
     | Type.Unresolved \<Rightarrow> Some ''unresolved''
     | Type.Slice t \<Rightarrow> map_option (\<lambda>s. s @ '' slice'') (to_string ns t)
     | _ \<Rightarrow> None)"

declare to_signature_string_fuel.simps [simp del]

definition to_signature_string :: "bool \<Rightarrow> Namespace \<Rightarrow> Type \<Rightarrow> string option" where
  "to_signature_string say_tuple ns ty = to_signature_string_fuel (type_fuel ns) say_tuple ns ty"

section \<open>Mangled names\<close>

definition llvm_dims :: "ArrayLength list \<Rightarrow> string" where
  "llvm_dims dims = concat (map (\<lambda>d. case d of Fixed r \<Rightarrow> '':'' @ dec_int r | _ \<Rightarrow> '':'') dims)"

fun to_llvm_string_fuel :: "nat \<Rightarrow> Namespace \<Rightarrow> Type \<Rightarrow> string option" where
  "to_llvm_string_fuel k ns ty = (case ty of
       Type.Bool \<Rightarrow> Some ''bool''
     | Type.Address _ \<Rightarrow> Some ''address''
     | Type.Int n \<Rightarrow> Some (''int'' @ dec_nat n)
     | Type.Uint n \<Rightarrow> Some (''uint'' @ dec_nat n)
     | Type.Bytes n \<Rightarrow> Some (''bytes'' @ dec_nat n)
     | Type.DynamicBytes \<Rightarrow> Some ''bytes''
     | Type.String \<Rightarrow> Some ''string''
     | Type.Enum i \<Rightarrow> map_option enum_name (vec_get (enums ns) i)
     | Type.Struct st \<Rightarrow> map_option struct_name (struct_definition st ns)
     | Type.Array t len \<Rightarrow> map_option (\<lambda>s. s @ llvm_dims len) (to_llvm_string_fuel k ns t)
     | Type.Mapping key _ val _ \<Rightarrow> do {
         k' \<leftarrow> to_llvm_string_fuel k ns key; v \<leftarrow> to_llvm_string_fuel k ns val;
         Some (''mapping:'' @ k' @ '':'' @ v) }
     | Type.Contract i \<Rightarrow> map_option (\<lambda>c. id_name (c_id c)) (vec_get (contracts ns) i)
     | Type.InternalFunction _ _ _ \<Rightarrow> Some ''function''
     | Type.ExternalFunction _ _ _ \<Rightarrow> Some ''function''
     | Type.Ref r \<Rightarrow> to_llvm_string_fuel k ns r
     | Type.StorageRef _ r \<Rightarrow> to_llvm_string_fuel k ns r
     | Type.UserType n \<Rightarrow> (case k of 0 \<Rightarrow> None
         | Suc k' \<Rightarrow> do { u \<leftarrow> vec_get (user_types ns) n; to_llvm_string_fuel k' ns (u_ty u) })
     | Type.Slice t \<Rightarrow> map_option (\<lambda>s. ''slice:'' @ s) (to_llvm_string_fuel k ns t)
     | _ \<Rightarrow> None)"

declare to_llvm_string_fuel.simps [simp del]

definition to_llvm_string :: "Namespace \<Rightarrow> Type \<Rightarrow> string option" where
  "to_llvm_string ns ty = to_llvm_string_fuel (type_fuel ns) ns ty"

section \<open>Names in signatures are unambiguous\<close>

definition digit_value :: "string \<Rightarrow> nat" where
  "digit_value s = foldl (\<lambda>n c. 10 * n + (of_char c - 48)) 0 s"

lemma digit_value_dec_nat: "digit_value (dec_nat n) = n"
proof (induction n rule: dec_nat.induct)
  case (1 n)
  then show ?case by (subst dec_nat.simps) (simp add: digit_value_def)
qed

lemma dec_nat_inject [simp]: "dec_nat m = dec_nat n \<longleftrightarrow> m = n"
  using digit_value_dec_nat by metis

lemma dec_nat_digits: "c \<in> set (dec_nat n) \<Longrightarrow> 48 \<le> (of_char c :: nat) \<and> (of_char c :: nat) < 58"
proof (induction n rule: dec_nat.induct)
  case (1 n)
  then show ?case by (cases "n < 10") (auto simp: dec_nat.simps [of n])
qed

lemma dec_nat_not_Nil [simp]: "dec_nat n \<noteq> []" "[] \<noteq> dec_nat n"
  by (simp_all add: dec_nat.simps [of n])

lemma dec_nat_no_bracket: "CHR ''['' \<notin> set (dec_nat n)" "CHR '']'' \<notin> set (dec_nat n)"
  using dec_nat_digits [of "CHR ''[''" n] dec_nat_digits [of "CHR '']''" n] by auto

text \<open>
  The types of a public interface, without structs, enums and user types: elementary types and
  arrays of them. A contract and a payable address are an address.
\<close>

definition elementary :: "Type \<Rightarrow> bool" where
  "elementary ty = (case ty of Type.Bool \<Rightarrow> True | Type.Address _ \<Rightarrow> True | Type.Contract _ \<Rightarrow> True
     | Type.Int _ \<Rightarrow> True | Type.Uint _ \<Rightarrow> True | Type.Bytes _ \<Rightarrow> True | Type.DynamicBytes \<Rightarrow> True
     | Type.String \<Rightarrow> True | _ \<Rightarrow> False)"

definition known_dims :: "ArrayLength list \<Rightarrow> bool" where
  "known_dims dims \<longleftrightarrow> (\<forall>d \<in> set dims. d \<noteq> AnyFixed \<and> (\<forall>n. d = Fixed n \<longrightarrow> 0 \<le> n))"

definition interface_type :: "Type \<Rightarrow> bool" where
  "interface_type ty = (case ty of Type.Array t dims \<Rightarrow> elementary t \<and> known_dims dims | _ \<Rightarrow> elementary ty)"

definition interface_base :: "Type \<Rightarrow> Type" where
  "interface_base ty = (case ty of Type.Contract _ \<Rightarrow> Type.Address False | Type.Address _ \<Rightarrow> Type.Address False | _ \<Rightarrow> ty)"

definition interface_form :: "Type \<Rightarrow> Type \<times> ArrayLength list" where
  "interface_form ty = (case ty of Type.Array t dims \<Rightarrow> (interface_base t, dims) | _ \<Rightarrow> (interface_base ty, []))"

definition base_string :: "Type \<Rightarrow> string" where
  "base_string ty = (case ty of Type.Bool \<Rightarrow> ''bool'' | Type.Int n \<Rightarrow> ''int'' @ dec_nat n
     | Type.Uint n \<Rightarrow> ''uint'' @ dec_nat n | Type.Bytes n \<Rightarrow> ''bytes'' @ dec_nat n
     | Type.DynamicBytes \<Rightarrow> ''bytes'' | Type.String \<Rightarrow> ''string'' | _ \<Rightarrow> ''address'')"

lemma signature_base:
  "elementary t \<Longrightarrow> to_signature_string_fuel k say_tuple ns t = Some (base_string (interface_base t))"
  by (cases t) (simp_all add: elementary_def interface_base_def base_string_def to_signature_string_fuel.simps)

lemma base_string_no_bracket: "CHR ''['' \<notin> set (base_string ty)"
  by (cases ty) (simp_all add: base_string_def dec_nat_no_bracket)

lemma base_string_inject:
  assumes "elementary s" "elementary t" "base_string (interface_base s) = base_string (interface_base t)"
  shows "interface_base s = interface_base t"
  using assms by (cases s; cases t) (simp_all add: elementary_def interface_base_def base_string_def)

lemma dims_string_Nil [simp]: "dims_string [] = []"
  by (simp add: dims_string_def)

lemma dims_string_Cons [simp]:
  "dims_string (d # ds) = CHR ''['' # (case d of Fixed n \<Rightarrow> dec_int n | _ \<Rightarrow> []) @ CHR '']'' # dims_string ds"
  by (simp add: dims_string_def split: ArrayLength.split)

lemma signature_form:
  "interface_type ty \<Longrightarrow> to_signature_string say_tuple ns ty =
     Some (base_string (fst (interface_form ty)) @ dims_string (snd (interface_form ty)))"
  by (cases ty) (simp_all add: interface_type_def interface_form_def to_signature_string_def signature_base
      to_signature_string_fuel.simps [of _ _ _ "Type.Array _ _"])

lemma take_until: "c \<notin> set xs \<Longrightarrow> takeWhile (\<lambda>x. x \<noteq> c) (xs @ c # ys) = xs"
  by (induction xs) auto

lemma split_unique:
  assumes "xs @ c # ys = xs' @ c # ys'" "c \<notin> set xs" "c \<notin> set xs'"
  shows "xs = xs'" "ys = ys'"
proof -
  have "xs = takeWhile (\<lambda>x. x \<noteq> c) (xs' @ c # ys')" using take_until [OF assms(2), of ys] assms(1) by simp
  then show "xs = xs'" using take_until [OF assms(3), of ys'] by simp
  then show "ys = ys'" using assms(1) by simp
qed

lemma dims_string_inject:
  "known_dims ds \<Longrightarrow> known_dims es \<Longrightarrow> dims_string ds = dims_string es \<Longrightarrow> ds = es"
proof (induction ds arbitrary: es)
  case Nil
  then show ?case by (cases es) simp_all
next
  case (Cons d ds)
  then obtain e es' where es: "es = e # es'" by (cases es) simp_all
  let ?s = "\<lambda>d. case d of Fixed n \<Rightarrow> dec_int n | _ \<Rightarrow> []"
  have ok: "d \<noteq> AnyFixed \<and> (\<forall>n. d = Fixed n \<longrightarrow> 0 \<le> n)" "e \<noteq> AnyFixed \<and> (\<forall>n. e = Fixed n \<longrightarrow> 0 \<le> n)"
    using Cons.prems(1,2) by (simp_all add: known_dims_def es)
  have "CHR '']'' \<notin> set (?s d)" "CHR '']'' \<notin> set (?s e)"
    using ok by (auto simp: dec_int_def dec_nat_no_bracket split: ArrayLength.split)
  from split_unique [OF _ this, of "dims_string ds" "dims_string es'"] Cons.prems(3)
  have "?s d = ?s e" "dims_string ds = dims_string es'" by (simp_all add: es)
  moreover from this(1) have "d = e" using ok by (cases d; cases e) (auto simp: dec_int_def)
  ultimately show ?case using Cons.IH [of es'] Cons.prems(1,2) by (simp add: es known_dims_def)
qed

text \<open>
  C27: the name of a type in a signature is unambiguous. Two types of a public interface that are
  elementary or arrays of elementary types have the same name only if they are the same type, up to
  contracts and payable addresses being addresses; so functions with different parameter types get
  different signatures.
\<close>

theorem signature_string_inject:
  assumes "interface_type s" and "interface_type t"
    and "to_signature_string say_tuple ns s = to_signature_string say_tuple ns t"
  shows "interface_form s = interface_form t"
proof -
  obtain b d b' d' where st: "interface_form s = (interface_base b, d)" "interface_form t = (interface_base b', d')"
    "elementary b" "elementary b'" "known_dims d" "known_dims d'"
  proof -
    have "\<exists>b d. interface_form ty = (interface_base b, d) \<and> elementary b \<and> known_dims d" if "interface_type ty" for ty
      using that by (cases ty) (auto simp: interface_type_def interface_form_def elementary_def known_dims_def)
    then show ?thesis using assms(1,2) that by meson
  qed
  have eq: "base_string (interface_base b) @ dims_string d = base_string (interface_base b') @ dims_string d'"
    using assms by (simp add: signature_form st)
  have split: "takeWhile (\<lambda>c. c \<noteq> CHR ''['') (base_string x @ dims_string d) = base_string x" for x d
    using base_string_no_bracket [of x] take_until by (cases d) (auto simp: takeWhile_eq_all_conv)
  have "base_string (interface_base b) = base_string (interface_base b')" using eq split by metis
  moreover from this eq have "dims_string d = dims_string d'" by simp
  ultimately show ?thesis using st base_string_inject dims_string_inject by auto
qed

definition names_ns :: Namespace where
  "names_ns = \<lparr>target = Solana, enums = [], structs = [], contracts = [], user_types = [],
     address_length = 32, value_length = 8, diagnostics = \<lparr>contents = [], has_error = False\<rparr>, next_id = 0,
     var_constants = Map.empty, hover_overrides = Map.empty, strict_soroban_types = False\<rparr>"

theorem signature_string_inject_witness:
  "to_signature_string False names_ns (Type.Array (Type.Contract 0) [Fixed 3, Dynamic]) =
     to_signature_string False names_ns (Type.Array (Type.Address True) [Fixed 3, Dynamic]) \<and>
   interface_form (Type.Array (Type.Contract 0) [Fixed 3, Dynamic]) =
     interface_form (Type.Array (Type.Address True) [Fixed 3, Dynamic])"
proof -
  have "to_signature_string False names_ns (Type.Array (Type.Contract 0) [Fixed 3, Dynamic]) =
     to_signature_string False names_ns (Type.Array (Type.Address True) [Fixed 3, Dynamic])"
    by (simp add: to_signature_string_def to_signature_string_fuel.simps)
  moreover have "interface_type (Type.Array (Type.Contract 0) [Fixed 3, Dynamic])"
    "interface_type (Type.Array (Type.Address True) [Fixed 3, Dynamic])"
    by (simp_all add: interface_type_def elementary_def known_dims_def)
  ultimately show ?thesis using signature_string_inject by blast
qed

end
