(* ===== verification/StrengthValue.thy ===== *)
theory StrengthValue
  imports TypeNames Cfg
begin

text \<open>
  The values that strength reduction tracks (\<open>src/codegen/strength_reduce/value.rs\<close> and
  \<open>expression_values.rs\<close>): of an integer some bits are known. A bit array of 32 bytes is a
  word of 256 bits. A set of values is the list of its elements in iteration order; how a hash set
  orders its elements is a parameter, the insertion \<open>ins\<close>. A range of bits outside the
  array, a missing type or width and a failed assertion are panics.
\<close>

section \<open>Bits\<close>

type_synonym Bits = "256 word"

definition bits_bytes :: "Bits \<Rightarrow> u8 list" where
  "bits_bytes w = map (\<lambda>i. ucast (drop_bit (8 * i) w)) [0 ..< 32]"

definition bytes_bits :: "u8 list \<Rightarrow> Bits option" where
  "bytes_bits bs = (if length bs = 32 then Some (word_of_int (le_val bs)) else None)"

definition fill :: "nat \<Rightarrow> nat \<Rightarrow> bool \<Rightarrow> Bits \<Rightarrow> Bits option" where
  "fill a b v w = (if a \<le> b \<and> b \<le> 256 then
     Some (if v then or w (push_bit a (mask (b - a))) else and w (not (push_bit a (mask (b - a))))) else None)"

definition get_bit :: "Bits \<Rightarrow> nat \<Rightarrow> bool option" where
  "get_bit w i = (if i < 256 then Some (bit w i) else None)"


definition leading_zeros :: "u8 \<Rightarrow> nat" where
  "leading_zeros b = 8 - bit_length (nat (uint b))"

definition highest_set_bit :: "u8 list \<Rightarrow> nat" where
  "highest_set_bit bs = (case find (\<lambda>i. bs ! i \<noteq> 0) (rev [0 ..< length bs]) of
       Some i \<Rightarrow> (i + 1) * 8 - leading_zeros (bs ! i) - 1
     | None \<Rightarrow> 0)"

text \<open>The byte that extends a two's complement number, and the array of 32 bytes.\<close>

definition sign_byte :: "u8 list \<Rightarrow> u8 option" where
  "sign_byte bs = (if bs = [] then None else Some (if and (last bs) 0x80 \<noteq> 0 then 255 else 0))"

definition signed_to_bits :: "crates \<Rightarrow> int \<Rightarrow> Bits option" where
  "signed_to_bits C v = do {
     (let bs = to_signed_bytes_le C v in do { s \<leftarrow> sign_byte bs; bytes_bits (vec_resize bs 32 s) }) }"

definition bigint_to_bitarr :: "crates \<Rightarrow> int \<Rightarrow> nat \<Rightarrow> Bits option" where
  "bigint_to_bitarr C v n = do {
     ba \<leftarrow> bytes_bits (vec_resize (to_signed_bytes_le C v) 32 (if v < 0 then 255 else 0));
     if n < 256 then fill n 256 False ba else Some ba }"

definition unsigned_int :: "crates \<Rightarrow> Bits \<Rightarrow> int" where
  "unsigned_int C w = from_bytes_le C (bits_bytes w)"

definition signed_int :: "crates \<Rightarrow> Bits \<Rightarrow> int" where
  "signed_int C w = from_signed_bytes_le C (bits_bytes w)"

section \<open>Values\<close>

record BitValue =
  known_bits :: Bits
  bits_value :: Bits
  bit_width :: nat

definition get_unsigned_min_value :: "BitValue \<Rightarrow> Bits" where
  "get_unsigned_min_value v = and (bits_value v) (known_bits v)"

definition get_unsigned_max_value :: "BitValue \<Rightarrow> Bits" where
  "get_unsigned_max_value v = or (and (- 1) (not (known_bits v))) (bits_value v)"

definition sign :: "BitValue \<Rightarrow> (bool \<times> bool) option" where
  "sign v = (if bit_width v = 0 then None else do {
     known \<leftarrow> get_bit (known_bits v) (bit_width v - 1);
     s \<leftarrow> get_bit (bits_value v) (bit_width v - 1);
     Some (known, s) })"

definition get_signed_max_value :: "BitValue \<Rightarrow> Bits option" where
  "get_signed_max_value v = do {
     (known, s) \<leftarrow> sign v;
     if \<not> (known \<and> s) then Some (get_unsigned_max_value v)
     else fill (bit_width v - 1) 256 True (get_unsigned_min_value v) }"

definition get_signed_min_value :: "BitValue \<Rightarrow> Bits option" where
  "get_signed_min_value v = do {
     (known, s) \<leftarrow> sign v;
     if \<not> (known \<longrightarrow> s) then Some (get_unsigned_min_value v)
     else fill (bit_width v - 1) 256 True (get_unsigned_max_value v) }"

definition low_bits :: "nat \<Rightarrow> Bits \<Rightarrow> Bits option" where
  "low_bits n w = (if n \<le> 256 then Some (take_bit n w) else None)"

definition all_known :: "BitValue \<Rightarrow> bool option" where
  "all_known v = map_option (\<lambda>w. w = mask (bit_width v)) (low_bits (bit_width v) (known_bits v))"

definition all_unknown :: "BitValue \<Rightarrow> bool option" where
  "all_unknown v = map_option (\<lambda>w. w = 0) (low_bits (bit_width v) (known_bits v))"

definition unknown :: "nat \<Rightarrow> BitValue" where
  "unknown n = \<lparr>known_bits = 0, bits_value = 0, bit_width = n\<rparr>"

section \<open>Sets of values\<close>

type_synonym ValueSet = "BitValue list"
type_synonym Variables = "(nat, ValueSet) index_map"
type_synonym insertion = "BitValue \<Rightarrow> ValueSet \<Rightarrow> ValueSet"

definition collect_set :: "insertion \<Rightarrow> BitValue list \<Rightarrow> ValueSet" where
  "collect_set ins vs = fold ins vs []"

definition is_single_constant :: "crates \<Rightarrow> ValueSet \<Rightarrow> int option option" where
  "is_single_constant C vs = (if length vs = 1 then
     (let v = hd vs in do {
        known \<leftarrow> all_known v;
        if known then do {
          w \<leftarrow> low_bits (bit_width v) (bits_value v);
          Some (Some (from_signed_bytes_le C (take ((bit_width v + 7) div 8) (bits_bytes w)))) }
        else Some None })
     else Some None)"

fun max_signed_loop :: "crates \<Rightarrow> ValueSet \<Rightarrow> int \<Rightarrow> int option option" where
  "max_signed_loop C [] m = Some (Some m)"
| "max_signed_loop C (v # vs) m = do {
     (sign_known, s) \<leftarrow> sign v;
     if \<not> sign_known then Some None
     else do {
       w \<leftarrow> (if s then get_signed_min_value v else get_signed_max_value v);
       (let n = signed_int C w in max_signed_loop C vs (if \<bar>m\<bar> < \<bar>n\<bar> then n else m)) } }"

definition get_max_signed :: "crates \<Rightarrow> ValueSet \<Rightarrow> int option option" where
  "get_max_signed C vs = max_signed_loop C vs 0"

definition get_max_unsigned :: "crates \<Rightarrow> ValueSet \<Rightarrow> int" where
  "get_max_unsigned C vs = fold (\<lambda>v m. max (unsigned_int C (get_unsigned_max_value v)) m) vs 0"

section \<open>Values of expressions\<close>

definition track :: "Type \<Rightarrow> bool" where
  "track ty = (case ty of Type.Uint _ \<Rightarrow> True | Type.Int _ \<Rightarrow> True | Type.Bool \<Rightarrow> True | Type.Value \<Rightarrow> True
     | Type.UserType _ \<Rightarrow> True | _ \<Rightarrow> False)"

definition number_literal_values :: "crates \<Rightarrow> Type \<Rightarrow> int \<Rightarrow> Namespace \<Rightarrow> ValueSet option" where
  "number_literal_values C ty v ns = do {
     n \<leftarrow> bits ns ty;
     ba \<leftarrow> bigint_to_bitarr C v n;
     Some [\<lparr>known_bits = - 1, bits_value = ba, bit_width = n\<rparr>] }"

definition bool_literal_values :: "bool \<Rightarrow> ValueSet" where
  "bool_literal_values v = [\<lparr>known_bits = 1, bits_value = of_bool v, bit_width = 1\<rparr>]"

definition map_values :: "insertion \<Rightarrow> (BitValue \<Rightarrow> BitValue option) \<Rightarrow> ValueSet \<Rightarrow> ValueSet option" where
  "map_values ins f vs = map_option (collect_set ins) (seq_opt (map f vs))"

definition pair_values ::
  "insertion \<Rightarrow> (BitValue \<Rightarrow> BitValue \<Rightarrow> BitValue option) \<Rightarrow> ValueSet \<Rightarrow> ValueSet \<Rightarrow> ValueSet option" where
  "pair_values ins f left right =
     map_option (collect_set ins) (seq_opt (map (\<lambda>(l, r). f l r) (List.product left right)))"

definition zero_ext_value :: "nat \<Rightarrow> BitValue \<Rightarrow> BitValue option" where
  "zero_ext_value bits_after v = do {
     known \<leftarrow> fill (bit_width v) bits_after True (known_bits v);
     Some (v\<lparr>known_bits := known, bit_width := bits_after\<rparr>) }"

definition sign_ext_value :: "nat \<Rightarrow> BitValue \<Rightarrow> BitValue option" where
  "sign_ext_value bits_after v = do {
     (sign_known, s) \<leftarrow> sign v;
     known \<leftarrow> fill (bit_width v) bits_after sign_known (known_bits v);
     val \<leftarrow> fill (bit_width v) bits_after s (bits_value v);
     Some \<lparr>known_bits = known, bits_value = val, bit_width = bits_after\<rparr> }"

definition trunc_value :: "nat \<Rightarrow> BitValue \<Rightarrow> BitValue option" where
  "trunc_value bits_after v = do {
     known \<leftarrow> fill bits_after (bit_width v) True (known_bits v);
     val \<leftarrow> fill bits_after (bit_width v) False (bits_value v);
     Some \<lparr>known_bits = known, bits_value = val, bit_width = bits_after\<rparr> }"

definition bitwise_or_value :: "BitValue \<Rightarrow> BitValue \<Rightarrow> BitValue option" where
  "bitwise_or_value l r = Some \<lparr>known_bits = or (known_bits l) (and (bits_value r) (known_bits r)),
     bits_value = or (bits_value l) (and (bits_value r) (known_bits r)), bit_width = bit_width l\<rparr>"

definition bitwise_and_value :: "BitValue \<Rightarrow> BitValue \<Rightarrow> BitValue option" where
  "bitwise_and_value l r = Some \<lparr>known_bits = or (known_bits l) (and (known_bits r) (not (bits_value r))),
     bits_value = and (bits_value l) (and (known_bits r) (not (bits_value r))), bit_width = bit_width l\<rparr>"

definition bitwise_xor_value :: "BitValue \<Rightarrow> BitValue \<Rightarrow> BitValue option" where
  "bitwise_xor_value l r = do {
     val \<leftarrow> fill (bit_width l) 256 False (xor (bits_value l) (bits_value r));
     Some \<lparr>known_bits = and (known_bits l) (known_bits r), bits_value = val, bit_width = bit_width l\<rparr> }"

text \<open>The least and greatest sum or difference, cut to the width of the type.\<close>

definition possible :: "crates \<Rightarrow> nat \<Rightarrow> (int \<Rightarrow> int \<Rightarrow> int) \<Rightarrow> Bits \<Rightarrow> Bits \<Rightarrow> Bits option" where
  "possible C n f a b = do { w \<leftarrow> signed_to_bits C (f (signed_int C a) (signed_int C b)); fill n 256 False w }"

definition add_value :: "crates \<Rightarrow> nat \<Rightarrow> BitValue \<Rightarrow> BitValue \<Rightarrow> BitValue option" where
  "add_value C n l r = do {
     min_possible \<leftarrow> possible C n (+) (get_unsigned_min_value l) (get_unsigned_min_value r);
     max_possible \<leftarrow> possible C n (+) (get_unsigned_max_value l) (get_unsigned_max_value r);
     (let known = and (and (not (xor min_possible max_possible)) (known_bits l)) (known_bits r) in
      if known = - 1 \<and> min_possible \<noteq> max_possible then None
      else Some \<lparr>known_bits = known, bits_value = min_possible, bit_width = bit_width l\<rparr>) }"

definition subtract_value :: "crates \<Rightarrow> nat \<Rightarrow> BitValue \<Rightarrow> BitValue \<Rightarrow> BitValue option" where
  "subtract_value C n l r = do {
     min_possible \<leftarrow> possible C n (-) (get_unsigned_min_value l) (get_unsigned_min_value r);
     max_possible \<leftarrow> possible C n (-) (get_unsigned_max_value l) (get_unsigned_max_value r);
     (let known = and (and (not (xor min_possible max_possible)) (known_bits l)) (known_bits r) in
      Some \<lparr>known_bits = known, bits_value = min_possible, bit_width = bit_width l\<rparr>) }"

definition multiply_signed_value :: "crates \<Rightarrow> BitValue \<Rightarrow> BitValue \<Rightarrow> BitValue option" where
  "multiply_signed_value C l r = do {
     (left_known, left_sign) \<leftarrow> sign l;
     (right_known, right_sign) \<leftarrow> sign r;
     if left_known \<and> right_known then do {
       left \<leftarrow> (if left_sign then get_signed_min_value l else get_signed_max_value l);
       right \<leftarrow> (if right_sign then get_signed_min_value r else get_signed_max_value r);
       (let max_possible = signed_int C left * signed_int C right;
            top_bit = highest_set_bit (to_bytes_le C max_possible) in do {
          val \<leftarrow> bytes_bits (vec_resize (to_signed_bytes_le C max_possible) 32 (if max_possible < 0 then 255 else 0));
          l_known \<leftarrow> all_known l;
          r_known \<leftarrow> (if l_known then all_known r else Some False);
          known \<leftarrow> (if r_known then Some (- 1) else fill (top_bit + 1) (bit_width l) True 0);
          Some \<lparr>known_bits = known, bits_value = val, bit_width = bit_width l\<rparr> }) }
     else Some \<lparr>known_bits = 0, bits_value = 0, bit_width = bit_width l\<rparr> }"

definition multiply_unsigned_value :: "crates \<Rightarrow> BitValue \<Rightarrow> BitValue \<Rightarrow> BitValue option" where
  "multiply_unsigned_value C l r =
     (let max_possible = to_signed_bytes_le C
            (unsigned_int C (get_unsigned_max_value l) * unsigned_int C (get_unsigned_max_value r)) in do {
       l_known \<leftarrow> all_known l;
       r_known \<leftarrow> (if l_known then all_known r else Some False);
       if r_known then do {
         val \<leftarrow> bytes_bits (vec_resize max_possible 32 0);
         Some \<lparr>known_bits = - 1, bits_value = val, bit_width = bit_width l\<rparr> }
       else do {
         known \<leftarrow> (if highest_set_bit max_possible < bit_width l
                  then fill (highest_set_bit max_possible + 1) (bit_width l) True 0 else Some 0);
         Some \<lparr>known_bits = known, bits_value = 0, bit_width = bit_width l\<rparr> } })"

definition multiply_value :: "crates \<Rightarrow> bool \<Rightarrow> BitValue \<Rightarrow> BitValue \<Rightarrow> BitValue option" where
  "multiply_value C is_signed l r =
     (if is_signed then multiply_signed_value C l r else multiply_unsigned_value C l r)"

text \<open>
  The four comparisons test the greatest left against the least right value to find that they are
  always true, and the least left against the greatest right value to find that they are always false.
\<close>

definition known_bool :: "bool \<Rightarrow> bool \<Rightarrow> BitValue" where
  "known_bool known v = \<lparr>known_bits = of_bool known, bits_value = of_bool v, bit_width = 1\<rparr>"

definition compare_value ::
  "crates \<Rightarrow> (int \<Rightarrow> int \<Rightarrow> bool) \<Rightarrow> (int \<Rightarrow> int \<Rightarrow> bool) \<Rightarrow> bool \<Rightarrow> BitValue \<Rightarrow> BitValue \<Rightarrow> BitValue option" where
  "compare_value C is_true is_false is_signed l r =
     (if is_signed then do {
        l_max \<leftarrow> get_signed_max_value l;
        r_min \<leftarrow> get_signed_min_value r;
        if is_true (signed_int C l_max) (signed_int C r_min) then Some (known_bool True True)
        else do {
          l_min \<leftarrow> get_signed_min_value l;
          r_max \<leftarrow> get_signed_max_value r;
          Some (known_bool (is_false (signed_int C l_min) (signed_int C r_max)) False) } }
      else
        if is_true (unsigned_int C (get_unsigned_max_value l)) (unsigned_int C (get_unsigned_min_value r))
        then Some (known_bool True True)
        else Some (known_bool (is_false (unsigned_int C (get_unsigned_min_value l))
               (unsigned_int C (get_unsigned_max_value r))) False))"

definition more_value where
  "more_value C = compare_value C (\<lambda>l r. l > r) (\<lambda>l r. l \<le> r)"

definition more_equal_value where
  "more_equal_value C = compare_value C (\<lambda>l r. l \<ge> r) (\<lambda>l r. l < r)"

definition less_value where
  "less_value C = compare_value C (\<lambda>l r. l < r) (\<lambda>l r. l \<ge> r)"

definition less_equal_value where
  "less_equal_value C = compare_value C (\<lambda>l r. l \<le> r) (\<lambda>l r. l > r)"

definition could_be_equal :: "crates \<Rightarrow> bool \<Rightarrow> BitValue \<Rightarrow> BitValue \<Rightarrow> bool option" where
  "could_be_equal C is_signed l r =
     (if is_signed then do {
        l_min \<leftarrow> get_signed_min_value l;
        r_max \<leftarrow> get_signed_max_value r;
        Some (signed_int C l_min \<ge> signed_int C r_max \<and> signed_int C l_min \<le> signed_int C r_max) }
      else Some (signed_int C (get_unsigned_min_value l) \<ge> signed_int C (get_unsigned_max_value r) \<and>
             signed_int C (get_unsigned_min_value l) \<le> signed_int C (get_unsigned_max_value r)))"

definition equal_value :: "crates \<Rightarrow> bool \<Rightarrow> BitValue \<Rightarrow> BitValue \<Rightarrow> BitValue option" where
  "equal_value C is_signed l r = do {
     eq \<leftarrow> could_be_equal C is_signed l r;
     l_known \<leftarrow> (if eq then all_known l else Some False);
     r_known \<leftarrow> (if l_known then all_known r else Some False);
     Some (if \<not> eq \<or> r_known then known_bool True eq else known_bool False False) }"

definition not_equal_value :: "crates \<Rightarrow> bool \<Rightarrow> BitValue \<Rightarrow> BitValue \<Rightarrow> BitValue option" where
  "not_equal_value C is_signed l r = do {
     eq \<leftarrow> could_be_equal C is_signed l r;
     l_known \<leftarrow> (if eq then all_known l else Some False);
     r_known \<leftarrow> (if l_known then all_known r else Some False);
     Some (if \<not> eq \<or> r_known then known_bool True (\<not> eq) else known_bool False False) }"

definition not_value :: "BitValue \<Rightarrow> BitValue option" where
  "not_value v = Some (if bit (known_bits v) 0 then v\<lparr>bits_value := flip_bit 0 (bits_value v)\<rparr> else v)"

definition complement_value :: "BitValue \<Rightarrow> BitValue option" where
  "complement_value v = (let cmpl = and (not (bits_value v)) (known_bits v) in
     Some (v\<lparr>bits_value := or (and (bits_value v) (known_bits v)) cmpl\<rparr>))"

definition variable_values :: "nat \<Rightarrow> Variables \<Rightarrow> ValueSet" where
  "variable_values var_no vars = (case map_of vars var_no of Some v \<Rightarrow> v | None \<Rightarrow> [])"

text \<open>Every other expression: all bits of a tracked type are unknown.\<close>

definition other_values :: "Expression \<Rightarrow> Namespace \<Rightarrow> ValueSet option" where
  "other_values e ns = do {
     ty \<leftarrow> expr_ty e;
     if track ty then do {
       n \<leftarrow> bits ns ty;
       known \<leftarrow> fill 0 n False (- 1);
       Some [\<lparr>known_bits = known, bits_value = 0, bit_width = n\<rparr>] }
     else Some [] }"

text \<open>A default value is a literal or an expression with unknown bits.\<close>

definition default_values :: "crates \<Rightarrow> Expression \<Rightarrow> Namespace \<Rightarrow> ValueSet option" where
  "default_values C e ns = (case e of
       Expression.NumberLiteral _ ty v \<Rightarrow> number_literal_values C ty v ns
     | Expression.BoolLiteral _ v \<Rightarrow> Some (bool_literal_values v)
     | _ \<Rightarrow> other_values e ns)"

definition signed_operand :: "Expression \<Rightarrow> Namespace \<Rightarrow> bool option" where
  "signed_operand e ns = do { ty \<leftarrow> expr_ty e; is_signed_int ns ty }"

definition both_values ::
  "insertion \<Rightarrow> ValueSet option \<Rightarrow> ValueSet option \<Rightarrow> (BitValue \<Rightarrow> BitValue \<Rightarrow> BitValue option) \<Rightarrow> ValueSet option" where
  "both_values ins left right f = do { l \<leftarrow> left; r \<leftarrow> right; pair_values ins f l r }"

definition conversion_values ::
  "insertion \<Rightarrow> Type \<Rightarrow> Namespace \<Rightarrow> ValueSet option \<Rightarrow> (nat \<Rightarrow> BitValue \<Rightarrow> BitValue option) \<Rightarrow> ValueSet option" where
  "conversion_values ins ty ns arg f = do { vs \<leftarrow> arg; n \<leftarrow> bits ns ty; map_values ins (f n) vs }"

text \<open>The possible values of an expression.\<close>

primrec expression_values :: "crates \<Rightarrow> insertion \<Rightarrow> Variables \<Rightarrow> Namespace \<Rightarrow> Expression \<Rightarrow> ValueSet option" where
  "expression_values C ins vars ns (Expression.Add loc ty overflowing left right) =
     both_values ins (expression_values C ins vars ns left) (expression_values C ins vars ns right) (\<lambda>l r. do { n \<leftarrow> bits ns ty; add_value C n l r })"
| "expression_values C ins vars ns (Expression.AllocDynamicBytes loc ty sz initializer) =
     other_values (Expression.AllocDynamicBytes loc ty sz initializer) ns"
| "expression_values C ins vars ns (Expression.ArrayLiteral loc ty dimensions values) =
     other_values (Expression.ArrayLiteral loc ty dimensions values) ns"
| "expression_values C ins vars ns (Expression.BitwiseAnd loc ty left right) =
     both_values ins (expression_values C ins vars ns left) (expression_values C ins vars ns right) bitwise_and_value"
| "expression_values C ins vars ns (Expression.BitwiseOr loc ty left right) =
     both_values ins (expression_values C ins vars ns left) (expression_values C ins vars ns right) bitwise_or_value"
| "expression_values C ins vars ns (Expression.BitwiseXor loc ty left right) =
     both_values ins (expression_values C ins vars ns left) (expression_values C ins vars ns right) bitwise_xor_value"
| "expression_values C ins vars ns (Expression.BoolLiteral loc value) =
     Some (bool_literal_values value)"
| "expression_values C ins vars ns (Expression.Builtin loc tys kind args) =
     other_values (Expression.Builtin loc tys kind args) ns"
| "expression_values C ins vars ns (Expression.BytesCast loc ty from expr) =
     other_values (Expression.BytesCast loc ty from expr) ns"
| "expression_values C ins vars ns (Expression.BytesLiteral loc ty value) =
     other_values (Expression.BytesLiteral loc ty value) ns"
| "expression_values C ins vars ns (Expression.Cast loc ty expr) =
     other_values (Expression.Cast loc ty expr) ns"
| "expression_values C ins vars ns (Expression.BitwiseNot loc ty expr) =
     (expression_values C ins vars ns expr) \<bind> map_values ins complement_value"
| "expression_values C ins vars ns (Expression.ConstArrayLiteral loc ty dimensions values) =
     other_values (Expression.ConstArrayLiteral loc ty dimensions values) ns"
| "expression_values C ins vars ns (Expression.UnsignedDivide loc ty left right) =
     other_values (Expression.UnsignedDivide loc ty left right) ns"
| "expression_values C ins vars ns (Expression.SignedDivide loc ty left right) =
     other_values (Expression.SignedDivide loc ty left right) ns"
| "expression_values C ins vars ns (Expression.Equal loc left right) =
     both_values ins (expression_values C ins vars ns left) (expression_values C ins vars ns right)
       (\<lambda>l r. do { s \<leftarrow> signed_operand left ns; equal_value C s l r })"
| "expression_values C ins vars ns (Expression.FormatString loc args) =
     other_values (Expression.FormatString loc args) ns"
| "expression_values C ins vars ns (Expression.FunctionArg loc ty arg_no) =
     other_values (Expression.FunctionArg loc ty arg_no) ns"
| "expression_values C ins vars ns (Expression.GetRef loc ty expr) =
     other_values (Expression.GetRef loc ty expr) ns"
| "expression_values C ins vars ns (Expression.InternalFunctionCfg ty cfg_no) =
     Some []"
| "expression_values C ins vars ns (Expression.Keccak256 loc ty exprs) =
     other_values (Expression.Keccak256 loc ty exprs) ns"
| "expression_values C ins vars ns (Expression.Less loc is_signed left right) =
     both_values ins (expression_values C ins vars ns left) (expression_values C ins vars ns right) (less_value C is_signed)"
| "expression_values C ins vars ns (Expression.LessEqual loc is_signed left right) =
     both_values ins (expression_values C ins vars ns left) (expression_values C ins vars ns right) (less_equal_value C is_signed)"
| "expression_values C ins vars ns (Expression.Load loc ty expr) =
     other_values (Expression.Load loc ty expr) ns"
| "expression_values C ins vars ns (Expression.UnsignedModulo loc ty left right) =
     other_values (Expression.UnsignedModulo loc ty left right) ns"
| "expression_values C ins vars ns (Expression.SignedModulo loc ty left right) =
     other_values (Expression.SignedModulo loc ty left right) ns"
| "expression_values C ins vars ns (Expression.More loc is_signed left right) =
     both_values ins (expression_values C ins vars ns left) (expression_values C ins vars ns right) (more_value C is_signed)"
| "expression_values C ins vars ns (Expression.MoreEqual loc is_signed left right) =
     both_values ins (expression_values C ins vars ns left) (expression_values C ins vars ns right) (more_equal_value C is_signed)"
| "expression_values C ins vars ns (Expression.Multiply loc ty overflowing left right) =
     both_values ins (expression_values C ins vars ns left) (expression_values C ins vars ns right)
       (\<lambda>l r. do { s \<leftarrow> is_signed_int ns ty; multiply_value C s l r })"
| "expression_values C ins vars ns (Expression.Not loc expr) =
     (expression_values C ins vars ns expr) \<bind> map_values ins not_value"
| "expression_values C ins vars ns (Expression.NotEqual loc left right) =
     both_values ins (expression_values C ins vars ns left) (expression_values C ins vars ns right)
       (\<lambda>l r. do { s \<leftarrow> signed_operand left ns; not_equal_value C s l r })"
| "expression_values C ins vars ns (Expression.NumberLiteral loc ty value) =
     number_literal_values C ty value ns"
| "expression_values C ins vars ns Expression.Poison =
     other_values Expression.Poison ns"
| "expression_values C ins vars ns (Expression.Power loc ty overflowing base expo) =
     other_values (Expression.Power loc ty overflowing base expo) ns"
| "expression_values C ins vars ns (Expression.RationalNumberLiteral loc ty rational) =
     other_values (Expression.RationalNumberLiteral loc ty rational) ns"
| "expression_values C ins vars ns (Expression.ReturnData loc) =
     other_values (Expression.ReturnData loc) ns"
| "expression_values C ins vars ns (Expression.SignExt loc ty expr) =
     conversion_values ins ty ns (expression_values C ins vars ns expr) sign_ext_value"
| "expression_values C ins vars ns (Expression.ShiftLeft loc ty left right) =
     other_values (Expression.ShiftLeft loc ty left right) ns"
| "expression_values C ins vars ns (Expression.ShiftRight loc ty left right is_signed) =
     other_values (Expression.ShiftRight loc ty left right is_signed) ns"
| "expression_values C ins vars ns (Expression.StorageArrayLength loc ty array elem) =
     other_values (Expression.StorageArrayLength loc ty array elem) ns"
| "expression_values C ins vars ns (Expression.StringCompare loc left right) =
     other_values (Expression.StringCompare loc left right) ns"
| "expression_values C ins vars ns (Expression.StructLiteral loc ty values) =
     other_values (Expression.StructLiteral loc ty values) ns"
| "expression_values C ins vars ns (Expression.StructMember loc ty expr member) =
     other_values (Expression.StructMember loc ty expr member) ns"
| "expression_values C ins vars ns (Expression.Subscript loc ty array_ty expr index) =
     other_values (Expression.Subscript loc ty array_ty expr index) ns"
| "expression_values C ins vars ns (Expression.Subtract loc ty overflowing left right) =
     both_values ins (expression_values C ins vars ns left) (expression_values C ins vars ns right) (\<lambda>l r. do { n \<leftarrow> bits ns ty; subtract_value C n l r })"
| "expression_values C ins vars ns (Expression.Trunc loc ty expr) =
     conversion_values ins ty ns (expression_values C ins vars ns expr) trunc_value"
| "expression_values C ins vars ns (Expression.Negate loc ty overflowing expr) =
     other_values (Expression.Negate loc ty overflowing expr) ns"
| "expression_values C ins vars ns (Expression.Undefined ty) =
     do { d \<leftarrow> default_value ns ty; (case d of Some e \<Rightarrow> default_values C e ns | None \<Rightarrow> Some []) }"
| "expression_values C ins vars ns (Expression.Variable loc ty var_no) =
     Some (variable_values var_no vars)"
| "expression_values C ins vars ns (Expression.ZeroExt loc ty expr) =
     conversion_values ins ty ns (expression_values C ins vars ns expr) zero_ext_value"
| "expression_values C ins vars ns (Expression.AdvancePointer pointer bytes_offset) =
     other_values (Expression.AdvancePointer pointer bytes_offset) ns"
| "expression_values C ins vars ns (Expression.VectorData pointer) =
     other_values (Expression.VectorData pointer) ns"

end
