(* ===== verification/StrengthReduce.thy ===== *)
theory StrengthReduce
  imports StrengthValue
begin

text \<open>
  The strength reduction pass (\<open>src/codegen/strength_reduce/mod.rs\<close> and
  \<open>reaching_values.rs\<close>): the values that reach every block, and the replacement of wide
  multiplications, divisions and remainders by cheaper operations.
\<close>

section \<open>Reaching values\<close>

definition MAX_VALUES :: nat where
  "MAX_VALUES = 100"

definition transfer_call :: "Namespace \<Rightarrow> Type list \<Rightarrow> nat \<times> nat \<Rightarrow> Variables \<Rightarrow> Variables option" where
  "transfer_call ns return_tys = (\<lambda>(i, var_no) vars. do {
     ty \<leftarrow> vec_get return_tys i;
     if track ty then do { n \<leftarrow> bits ns ty; Some (AList.update var_no [unknown n] vars) } else Some vars })"

fun transfer_results :: "Namespace \<Rightarrow> Type list \<Rightarrow> (nat \<times> nat) list \<Rightarrow> Variables \<Rightarrow> Variables option" where
  "transfer_results ns return_tys [] vars = Some vars"
| "transfer_results ns return_tys (r # rs) vars = do {
     vars \<leftarrow> transfer_call ns return_tys r vars; transfer_results ns return_tys rs vars }"

definition transfer :: "crates \<Rightarrow> insertion \<Rightarrow> Namespace \<Rightarrow> Instr \<Rightarrow> Variables \<Rightarrow> Variables option" where
  "transfer C ins ns instr vars = (case instr of
       Instr.Set _ res e \<Rightarrow> do { v \<leftarrow> expression_values C ins vars ns e; Some (AList.update res v vars) }
     | Instr.Call res return_tys _ _ \<Rightarrow> transfer_results ns return_tys (enumerate 0 res) vars
     | Instr.PopStorage (Some res) _ _ \<Rightarrow> Some (AList.update res [unknown 8] vars)
     | Instr.PopMemory res ty _ _ \<Rightarrow>
         (if track ty then do { n \<leftarrow> bits ns ty; Some (AList.update res [unknown n] vars) } else Some vars)
     | _ \<Rightarrow> Some vars)"

text \<open>Looking for an element with a test that may panic.\<close>

fun find_opt :: "('a \<Rightarrow> bool option) \<Rightarrow> 'a list \<Rightarrow> 'a option option" where
  "find_opt f [] = Some None"
| "find_opt f (x # xs) = do { b \<leftarrow> f x; if b then Some (Some x) else find_opt f xs }"

definition update_map ::
  "insertion \<Rightarrow> nat \<Rightarrow> ValueSet \<Rightarrow> Variables \<Rightarrow> (Variables \<times> bool) option" where
  "update_map ins var_no vs m = (case map_of m var_no of
       Some existing \<Rightarrow> do {
         is_unknown \<leftarrow> (case existing of v # _ \<Rightarrow> all_unknown v | [] \<Rightarrow> Some False);
         if is_unknown then Some (m, False)
         else do {
           found \<leftarrow> find_opt all_unknown vs;
           (case found of
              Some v \<Rightarrow> Some (AList.update var_no [v] m, True)
            | None \<Rightarrow>
                (let changes = (\<exists>v \<in> set vs. v \<notin> set existing);
                     merged = fold (\<lambda>v acc. if v \<in> set acc then acc else ins v acc) vs existing
                 in if MAX_VALUES < length merged
                    then Some (AList.update var_no [unknown (bit_width (hd merged))] m, True)
                    else Some (AList.update var_no merged m, changes))) } }
     | None \<Rightarrow>
         (if MAX_VALUES < length vs then Some (AList.update var_no [unknown (bit_width (hd vs))] m, True)
          else do {
            found \<leftarrow> find_opt all_unknown vs;
            Some (AList.update var_no (case found of Some _ \<Rightarrow> [unknown (bit_width (hd vs))] | None \<Rightarrow> vs) m, True) }))"

fun update_maps :: "insertion \<Rightarrow> Variables \<Rightarrow> Variables \<Rightarrow> bool \<Rightarrow> (Variables \<times> bool) option" where
  "update_maps ins [] m changes = Some (m, changes)"
| "update_maps ins ((var_no, vs) # vars) m changes = do {
     (m, c) \<leftarrow> update_map ins var_no vs m;
     update_maps ins vars m (changes \<or> c) }"

text \<open>The blocks to go on with after an instruction: one, or the true and the false block.\<close>

definition branch_targets :: "crates \<Rightarrow> insertion \<Rightarrow> Namespace \<Rightarrow> Instr \<Rightarrow> Variables \<Rightarrow> nat list option" where
  "branch_targets C ins ns instr vars = (case instr of
       Instr.Branch b \<Rightarrow> Some [b]
     | Instr.BranchCond cond true_block false_block \<Rightarrow> do {
         v \<leftarrow> expression_values C ins vars ns cond;
         Some (if length v = 1 \<and> bit (known_bits (hd v)) 0
               then [if bit (bits_value (hd v)) 0 then true_block else false_block]
               else [true_block, false_block]) }
     | _ \<Rightarrow> Some [])"

text \<open>
  The traversal calls itself for the targets of a branch from inside the loop over the instructions
  of a block: a task is a block to enter or the instructions that are left. \<open>visit\<close> does
  the part of a task before the next call: it merges the values into those of the block, or
  executes one instruction.
\<close>

datatype task = Enter nat | Run "Instr list"

type_synonym BlockVars = "(nat, Variables) index_map"

datatype action = Leave | Body "Instr list" | Follow "nat list" "Instr list"

type_synonym pass_context = "crates \<times> insertion \<times> ControlFlowGraph \<times> Namespace"

definition enter :: "insertion \<Rightarrow> ControlFlowGraph \<Rightarrow> nat \<Rightarrow> Variables \<Rightarrow> BlockVars \<Rightarrow> (action \<times> BlockVars) option" where
  "enter ins cfg block_no vars block_vars = (case map_of block_vars block_no of
       Some m \<Rightarrow> do {
         (m, changes) \<leftarrow> update_maps ins vars m False;
         (let block_vars = AList.update block_no m block_vars in
          if \<not> changes then Some (Leave, block_vars)
          else do { block \<leftarrow> vec_get (cfg_blocks cfg) block_no; Some (Body (b_instr block), block_vars) }) }
     | None \<Rightarrow> do {
         block \<leftarrow> vec_get (cfg_blocks cfg) block_no;
         Some (Body (b_instr block), AList.update block_no vars block_vars) })"

definition visit :: "pass_context \<Rightarrow> task \<times> Variables \<times> BlockVars \<Rightarrow> (action \<times> Variables \<times> BlockVars) option" where
  "visit = (\<lambda>(C, ins, cfg, ns) (task, vars, block_vars). case task of
       Enter block_no \<Rightarrow> do { (act, block_vars) \<leftarrow> enter ins cfg block_no vars block_vars; Some (act, vars, block_vars) }
     | Run [] \<Rightarrow> Some (Leave, vars, block_vars)
     | Run (instr # rest) \<Rightarrow> do {
         vars \<leftarrow> transfer C ins ns instr vars;
         follow \<leftarrow> branch_targets C ins ns instr vars;
         Some (Follow follow rest, vars, block_vars) })"

partial_function (option) reaching_values ::
  "pass_context \<Rightarrow> task \<times> Variables \<times> BlockVars \<Rightarrow> (Variables \<times> BlockVars) option" where
  "reaching_values cx st = do {
     (act, vars, block_vars) \<leftarrow> visit cx st;
     (case act of
        Leave \<Rightarrow> Some (vars, block_vars)
      | Body instrs \<Rightarrow> reaching_values cx (Run instrs, vars, block_vars)
      | Follow follow rest \<Rightarrow> do {
          (vars, block_vars) \<leftarrow> (case follow of
              [] \<Rightarrow> Some (vars, block_vars)
            | b # others \<Rightarrow> (case others of
                [] \<Rightarrow> reaching_values cx (Enter b, vars, block_vars)
              | false_block # _ \<Rightarrow> do {
                  (_, block_vars) \<leftarrow> reaching_values cx (Enter b, vars, block_vars);
                  reaching_values cx (Enter false_block, vars, block_vars) }));
          reaching_values cx (Run rest, vars, block_vars) }) }"

declare reaching_values.simps [code]

section \<open>Replacing operations\<close>

fun shift_loop :: "nat \<Rightarrow> int \<Rightarrow> int \<Rightarrow> int \<Rightarrow> int option" where
  "shift_loop 0 right cmp shift = None"
| "shift_loop (Suc n) right cmp shift =
     (if cmp = right then Some shift else shift_loop n right (cmp * 2) (shift + 1))"

fun power_loop :: "nat \<Rightarrow> int \<Rightarrow> int \<Rightarrow> int option" where
  "power_loop 0 right cmp = None"
| "power_loop (Suc n) right cmp = (if cmp = right then Some cmp else power_loop n right (cmp * 2))"

definition fits_i64 :: "int \<Rightarrow> bool" where
  "fits_i64 v \<longleftrightarrow> - (2 ^ 63) \<le> v \<and> v < 2 ^ 63"

definition fits_u64 :: "int \<Rightarrow> bool" where
  "fits_u64 v \<longleftrightarrow> 0 \<le> v \<and> v < 2 ^ 64"

definition hover :: "Loc \<Rightarrow> Type \<Rightarrow> string \<Rightarrow> Namespace \<Rightarrow> Namespace option" where
  "hover loc ty message ns = do {
     name \<leftarrow> to_string ns ty;
     Some (ns\<lparr>hover_overrides := (hover_overrides ns)(loc \<mapsto> name @ message)\<rparr>) }"

definition both_cast ::
  "crates \<Rightarrow> Type \<Rightarrow> (Expression \<Rightarrow> Expression \<Rightarrow> Expression) \<Rightarrow> Expression \<Rightarrow> Expression \<Rightarrow> Namespace \<Rightarrow>
   Expression option" where
  "both_cast C ty f left right ns = do { l \<leftarrow> cast C ns left ty; r \<leftarrow> cast C ns right ty; Some (f l r) }"

type_synonym reduction = "Namespace \<Rightarrow> (Expression \<times> Namespace) option"

definition reduce_multiply ::
  "crates \<Rightarrow> insertion \<Rightarrow> Variables \<Rightarrow> Loc \<Rightarrow> Type \<Rightarrow> bool \<Rightarrow> Expression \<Rightarrow> Expression \<Rightarrow> reduction" where
  "reduce_multiply C ins vars loc ty overflowing left right ns = (let
     kept = (Expression.Multiply loc ty overflowing left right, ns) in do {
     n \<leftarrow> bits ns ty;
     if n < 128 then Some kept
     else do {
       left_values \<leftarrow> expression_values C ins vars ns left;
       right_values \<leftarrow> expression_values C ins vars ns right;
       const \<leftarrow> is_single_constant C right_values;
       (case (case const of Some c \<Rightarrow> if overflowing then shift_loop (n - 1) c 2 1 else None | None \<Rightarrow> None) of
          Some shift \<Rightarrow> do {
            ns \<leftarrow> hover loc ty ('' multiply optimized to shift left '' @ dec_int shift) ns;
            Some (Expression.ShiftLeft loc ty left (Expression.NumberLiteral loc ty shift), ns) }
        | None \<Rightarrow> do {
            is_signed \<leftarrow> is_signed_int ns ty;
            if is_signed then do {
              left_max \<leftarrow> get_max_signed C left_values;
              right_max \<leftarrow> get_max_signed C right_values;
              (case (left_max, right_max) of
                 (Some l, Some r) \<Rightarrow>
                   (if fits_i64 (l * r) then do {
                      ns \<leftarrow> hover loc ty '' multiply optimized to int64 multiply'' ns;
                      e \<leftarrow> both_cast C (Type.Int 64) (Expression.Multiply loc (Type.Int 64) overflowing) left right ns;
                      Some (Expression.SignExt loc ty e, ns) }
                    else Some kept)
               | _ \<Rightarrow> Some kept) }
            else if get_max_unsigned C left_values * get_max_unsigned C right_values \<le> 2 ^ 64 - 1 then do {
              ns \<leftarrow> hover loc ty '' multiply optimized to uint64 multiply'' ns;
              e \<leftarrow> both_cast C (Type.Uint 64) (Expression.Multiply loc (Type.Uint 64) overflowing) left right ns;
              Some (Expression.ZeroExt loc ty e, ns) }
            else Some kept }) } })"

definition reduce_divide ::
  "crates \<Rightarrow> insertion \<Rightarrow> Variables \<Rightarrow> Loc \<Rightarrow> Type \<Rightarrow> Expression \<Rightarrow> Expression \<Rightarrow> Expression \<Rightarrow> reduction" where
  "reduce_divide C ins vars loc ty left right e ns = do {
     n \<leftarrow> bits ns ty;
     if n < 128 then Some (e, ns)
     else do {
       left_values \<leftarrow> expression_values C ins vars ns left;
       right_values \<leftarrow> expression_values C ins vars ns right;
       const \<leftarrow> is_single_constant C right_values;
       is_signed \<leftarrow> is_signed_int ns ty;
       (case (case const of Some c \<Rightarrow> shift_loop (n - 1) c 2 1 | None \<Rightarrow> None) of
          Some shift \<Rightarrow> do {
            ns \<leftarrow> hover loc ty ('' divide optimized to shift right '' @ dec_int shift) ns;
            Some (Expression.ShiftRight loc ty left (Expression.NumberLiteral loc ty shift) is_signed, ns) }
        | None \<Rightarrow>
            if is_signed then do {
              left_max \<leftarrow> get_max_signed C left_values;
              right_max \<leftarrow> get_max_signed C right_values;
              (case (left_max, right_max) of
                 (Some l, Some r) \<Rightarrow>
                   (if fits_i64 l \<and> fits_i64 r then do {
                      ns \<leftarrow> hover loc ty '' divide optimized to int64 divide'' ns;
                      e \<leftarrow> both_cast C (Type.Int 64) (Expression.UnsignedDivide loc (Type.Int 64)) left right ns;
                      Some (Expression.SignExt loc ty e, ns) }
                    else Some (e, ns))
               | _ \<Rightarrow> Some (e, ns)) }
            else if fits_u64 (get_max_unsigned C left_values) \<and> fits_u64 (get_max_unsigned C right_values) then do {
              ns \<leftarrow> hover loc ty '' divide optimized to uint64 divide'' ns;
              e \<leftarrow> both_cast C (Type.Uint 64) (Expression.UnsignedDivide loc (Type.Uint 64)) left right ns;
              Some (Expression.ZeroExt loc ty e, ns) }
            else Some (e, ns)) } }"

definition reduce_modulo ::
  "crates \<Rightarrow> insertion \<Rightarrow> Variables \<Rightarrow> Loc \<Rightarrow> Type \<Rightarrow> Expression \<Rightarrow> Expression \<Rightarrow> Expression \<Rightarrow> reduction" where
  "reduce_modulo C ins vars loc ty left right e ns = do {
     n \<leftarrow> bits ns ty;
     if n < 128 then Some (e, ns)
     else do {
       left_values \<leftarrow> expression_values C ins vars ns left;
       right_values \<leftarrow> expression_values C ins vars ns right;
       const \<leftarrow> is_single_constant C right_values;
       (case (case const of Some c \<Rightarrow> power_loop (n - 1) c 1 | None \<Rightarrow> None) of
          Some cmp \<Rightarrow> do {
            ns \<leftarrow> hover loc ty ('' modulo optimized to bitwise and '' @ dec_int (cmp - 1)) ns;
            Some (Expression.BitwiseAnd loc ty left (Expression.NumberLiteral loc ty (cmp - 1)), ns) }
        | None \<Rightarrow> do {
            is_signed \<leftarrow> is_signed_int ns ty;
            if is_signed then do {
              left_max \<leftarrow> get_max_signed C left_values;
              right_max \<leftarrow> get_max_signed C right_values;
              (case (left_max, right_max) of
                 (Some l, Some r) \<Rightarrow>
                   (if fits_i64 l \<and> fits_i64 r then do {
                      ns \<leftarrow> hover loc ty '' modulo optimized to int64 modulo'' ns;
                      e \<leftarrow> both_cast C (Type.Int 64) (Expression.SignedModulo loc (Type.Int 64)) left right ns;
                      Some (Expression.SignExt loc ty e, ns) }
                    else Some (e, ns))
               | _ \<Rightarrow> Some (e, ns)) }
            else if fits_u64 (get_max_unsigned C left_values) \<and> fits_u64 (get_max_unsigned C right_values) then do {
              ns \<leftarrow> hover loc ty '' modulo optimized to uint64 modulo'' ns;
              e \<leftarrow> both_cast C (Type.Uint 64) (Expression.UnsignedModulo loc (Type.Uint 64)) left right ns;
              Some (Expression.ZeroExt loc ty e, ns) }
            else Some (e, ns) }) } }"

definition reduce_filter :: "crates \<Rightarrow> insertion \<Rightarrow> Variables \<Rightarrow> Expression \<Rightarrow> reduction" where
  "reduce_filter C ins vars e ns = (case e of
       Expression.Multiply loc ty overflowing left right \<Rightarrow> reduce_multiply C ins vars loc ty overflowing left right ns
     | Expression.UnsignedDivide loc ty left right \<Rightarrow> reduce_divide C ins vars loc ty left right e ns
     | Expression.SignedDivide loc ty left right \<Rightarrow> reduce_divide C ins vars loc ty left right e ns
     | Expression.SignedModulo loc ty left right \<Rightarrow> reduce_modulo C ins vars loc ty left right e ns
     | Expression.UnsignedModulo loc ty left right \<Rightarrow> reduce_modulo C ins vars loc ty left right e ns
     | _ \<Rightarrow> Some (e, ns))"

text \<open>The state of the traversal is the namespace, or a panic.\<close>

definition expression_reduce :: "crates \<Rightarrow> insertion \<Rightarrow> Variables \<Rightarrow> Expression \<Rightarrow> reduction" where
  "expression_reduce C ins vars e ns = (case copy_filter
       (\<lambda>e st. case st \<bind> reduce_filter C ins vars e of Some (e', ns') \<Rightarrow> (e', Some ns') | None \<Rightarrow> (e, None))
       e (Some ns) of
     (e', Some ns') \<Rightarrow> Some (e', ns') | (_, None) \<Rightarrow> None)"

section \<open>The pass\<close>

definition reduce_opt :: "(Expression \<Rightarrow> reduction) \<Rightarrow> Expression option \<Rightarrow> Namespace \<Rightarrow> (Expression option \<times> Namespace) option" where
  "reduce_opt f oe ns = (case oe of None \<Rightarrow> Some (None, ns) | Some e \<Rightarrow> do { (e, ns) \<leftarrow> f e ns; Some (Some e, ns) })"

definition reduce_instr :: "crates \<Rightarrow> insertion \<Rightarrow> Variables \<Rightarrow> Instr \<Rightarrow> Namespace \<Rightarrow> (Instr \<times> Namespace) option" where
  "reduce_instr C ins vars instr ns = (let f = expression_reduce C ins vars in case instr of
       Instr.Set loc res e \<Rightarrow> do { (e, ns) \<leftarrow> f e ns; Some (Instr.Set loc res e, ns) }
     | Instr.Call res return_tys call args \<Rightarrow> do {
         (args, ns) \<leftarrow> seq_st (map f args) ns; Some (Instr.Call res return_tys call args, ns) }
     | Instr.Return values \<Rightarrow> do { (values, ns) \<leftarrow> seq_st (map f values) ns; Some (Instr.Return values, ns) }
     | Instr.Store dest data \<Rightarrow> do {
         (dest, ns) \<leftarrow> f dest ns; (data, ns) \<leftarrow> f data ns; Some (Instr.Store dest data, ns) }
     | Instr.AssertFailure (Some e) \<Rightarrow> do { (e, ns) \<leftarrow> f e ns; Some (Instr.AssertFailure (Some e), ns) }
     | Instr.Print e \<Rightarrow> do { (e, ns) \<leftarrow> f e ns; Some (Instr.Print e, ns) }
     | Instr.ClearStorage ty storage \<Rightarrow> do { (storage, ns) \<leftarrow> f storage ns; Some (Instr.ClearStorage ty storage, ns) }
     | Instr.SetStorage ty val storage stty \<Rightarrow> do {
         (val, ns) \<leftarrow> f val ns; (storage, ns) \<leftarrow> f storage ns; Some (Instr.SetStorage ty val storage stty, ns) }
     | Instr.SetStorageBytes val storage offset \<Rightarrow> do {
         (val, ns) \<leftarrow> f val ns; (storage, ns) \<leftarrow> f storage ns; (offset, ns) \<leftarrow> f offset ns;
         Some (Instr.SetStorageBytes val storage offset, ns) }
     | Instr.PushStorage res ty val storage \<Rightarrow> do {
         (val, ns) \<leftarrow> reduce_opt f val ns; (storage, ns) \<leftarrow> f storage ns;
         Some (Instr.PushStorage res ty val storage, ns) }
     | Instr.PopStorage res ty storage \<Rightarrow> do { (storage, ns) \<leftarrow> f storage ns; Some (Instr.PopStorage res ty storage, ns) }
     | Instr.PushMemory res ty array val \<Rightarrow> do { (val, ns) \<leftarrow> f val ns; Some (Instr.PushMemory res ty array val, ns) }
     | Instr.Constructor success res contract_no constructor_no encoded_args val gas salt address seeds accounts loc \<Rightarrow> do {
         (encoded_args, ns) \<leftarrow> f encoded_args ns;
         (val, ns) \<leftarrow> reduce_opt f val ns;
         (salt, ns) \<leftarrow> reduce_opt f salt ns;
         (accounts, ns) \<leftarrow> (case accounts of
             Present e \<Rightarrow> do { (e, ns) \<leftarrow> f e ns; Some (Present e, ns) } | _ \<Rightarrow> Some (accounts, ns));
         (gas, ns) \<leftarrow> f gas ns;
         Some (Instr.Constructor success res contract_no constructor_no encoded_args val gas salt address seeds accounts loc, ns) }
     | Instr.ExternalCall loc success address accounts seeds payload val gas callty contract_function_no flags \<Rightarrow> do {
         (val, ns) \<leftarrow> f val ns;
         (address, ns) \<leftarrow> reduce_opt f address ns;
         (payload, ns) \<leftarrow> f payload ns;
         (gas, ns) \<leftarrow> f gas ns;
         Some (Instr.ExternalCall loc success address accounts seeds payload val gas callty contract_function_no flags, ns) }
     | Instr.ValueTransfer success address val \<Rightarrow> do {
         (address, ns) \<leftarrow> f address ns; (val, ns) \<leftarrow> f val ns; Some (Instr.ValueTransfer success address val, ns) }
     | Instr.EmitEvent event_no data topics \<Rightarrow> do {
         (topics, ns) \<leftarrow> seq_st (map f topics) ns; (data, ns) \<leftarrow> f data ns; Some (Instr.EmitEvent event_no data topics, ns) }
     | Instr.WriteBuffer buf offset val \<Rightarrow> do { (offset, ns) \<leftarrow> f offset ns; Some (Instr.WriteBuffer buf offset val, ns) }
     | _ \<Rightarrow> Some (instr, ns))"

fun reduce_instrs :: "crates \<Rightarrow> insertion \<Rightarrow> Variables \<Rightarrow> Instr list \<Rightarrow> Namespace \<Rightarrow> (Instr list \<times> Namespace) option" where
  "reduce_instrs C ins vars [] ns = Some ([], ns)"
| "reduce_instrs C ins vars (instr # instrs) ns = do {
     (instr, ns) \<leftarrow> reduce_instr C ins vars instr ns;
     vars \<leftarrow> transfer C ins ns instr vars;
     (instrs, ns) \<leftarrow> reduce_instrs C ins vars instrs ns;
     Some (instr # instrs, ns) }"

definition block_reduce ::
  "crates \<Rightarrow> insertion \<Rightarrow> nat \<times> Variables \<Rightarrow> ControlFlowGraph \<times> Namespace \<Rightarrow> (ControlFlowGraph \<times> Namespace) option" where
  "block_reduce C ins = (\<lambda>(block_no, vars) (cfg, ns). do {
     block \<leftarrow> vec_get (cfg_blocks cfg) block_no;
     (instrs, ns) \<leftarrow> reduce_instrs C ins vars (b_instr block) ns;
     Some (cfg\<lparr>cfg_blocks := (cfg_blocks cfg)[block_no := block\<lparr>b_instr := instrs\<rparr>]\<rparr>, ns) })"

fun blocks_reduce ::
  "crates \<Rightarrow> insertion \<Rightarrow> BlockVars \<Rightarrow> ControlFlowGraph \<times> Namespace \<Rightarrow> (ControlFlowGraph \<times> Namespace) option" where
  "blocks_reduce C ins [] st = Some st"
| "blocks_reduce C ins (bv # bvs) st = do { st \<leftarrow> block_reduce C ins bv st; blocks_reduce C ins bvs st }"

text \<open>The order in which the hash map yields the blocks is the parameter \<open>order\<close>.\<close>

definition strength_reduce ::
  "crates \<Rightarrow> insertion \<Rightarrow> (BlockVars \<Rightarrow> BlockVars) \<Rightarrow> ControlFlowGraph \<Rightarrow> Namespace \<Rightarrow>
   (ControlFlowGraph \<times> Namespace) option" where
  "strength_reduce C ins order cfg ns = do {
     (_, block_vars) \<leftarrow> reaching_values (C, ins, cfg, ns) (Enter 0, [], []);
     blocks_reduce C ins (order block_vars) (cfg, ns) }"

end
