(* ===== verification/StrengthSound.thy ===== *)
theory StrengthSound
  imports StrengthReduce Semantics
begin

text \<open>
  What strength reduction gets right: for the unsigned operations that its analysis treats
  soundly, the tracked values describe the value of an expression, and the cheaper operation that
  replaces a wide one has the same value. What it gets wrong is shown on examples.
\<close>

section \<open>Bit arrays and numbers\<close>

lemma le_val_bits_bytes: "le_val (bits_bytes w) = uint w"
proof -
  have "le_val (map (\<lambda>i. ucast (drop_bit (8 * i) w)) [0 ..< n]) = uint w mod 256 ^ n" for n
  proof (induction n)
    case (Suc n)
    have "take_bit 256 (uint w) = uint w" using uint_bounded [of w] by (simp add: take_bit_int_eq_self_iff)
    then have "uint (ucast (drop_bit (8 * n) w) :: u8) = take_bit 8 (drop_bit (8 * n) (uint w))"
      by (simp add: unsigned_ucast_eq unsigned_drop_bit_eq)
    then have b: "uint (ucast (drop_bit (8 * n) w) :: u8) = uint w div 256 ^ n mod 256"
      by (simp add: take_bit_eq_mod drop_bit_eq_div power_mult)
    have "uint w mod (256 ^ n * 256) = 256 ^ n * (uint w div 256 ^ n mod 256) + uint w mod 256 ^ n"
      by (rule zmod_zmult2_eq) simp
    then show ?case using Suc by (simp add: le_val_append b power_Suc2 del: power_Suc)
  qed simp
  from this [of 32] show ?thesis using uint_bounded [of w] by (simp add: bits_bytes_def)
qed

lemma length_bits_bytes [simp]: "length (bits_bytes w) = 32"
  by (simp add: bits_bytes_def)

lemma bit_fill:
  assumes "fill a b v w = Some w'"
  shows "bit w' i \<longleftrightarrow> (if a \<le> i \<and> i < b then v \<and> i < 256 else bit w i)" "a \<le> b" "b \<le> 256"
proof -
  show ab: "a \<le> b" "b \<le> 256" using assms by (auto simp: fill_def split: if_splits)
  show "bit w' i \<longleftrightarrow> (if a \<le> i \<and> i < b then v \<and> i < 256 else bit w i)"
  proof (cases "i < 256")
    case True
    then show ?thesis using assms ab by (cases v) (auto simp: fill_def bit_simps)
  next
    case False
    then show ?thesis using ab bit_imp_le_length [of w i] bit_imp_le_length [of w' i] by auto
  qed
qed

lemma word_le_bits:
  fixes a b :: "'a::len word"
  assumes "\<And>i. bit a i \<Longrightarrow> bit b i"
  shows "a \<le> b"
proof -
  have "and a b = a" using assms by (auto intro!: bit_word_eqI simp: bit_simps)
  then show ?thesis by (metis word_and_le1)
qed

context bigint_crate
begin

lemma unsigned_int_eq: "unsigned_int C w = uint w"
  by (simp add: unsigned_int_def from_bytes_val le_val_bits_bytes)

lemma signed_int_eq: "signed_int C w = sint w"
proof -
  have "bits_bytes w \<noteq> []" by (metis length_bits_bytes list.size(3) zero_neq_numeral)
  from le_sval_signed [OF this] show ?thesis
    by (simp add: signed_int_def from_signed_bytes_val le_val_bits_bytes sint_uint)
qed

lemma resized_bits:
  "bytes_bits (vec_resize (to_signed_bytes_le C v) 32 (if v < 0 then 255 else 0)) = Some (word_of_int v)"
proof -
  have "(256 :: int) ^ 32 = 2 ^ 256" by simp
  then have "word_of_int (v mod 256 ^ 32) = (word_of_int v :: Bits)"
    by (intro word_uint_eqI) (simp add: uint_word_of_int)
  then show ?thesis using resize_signed_bytes [of v 32] by (simp add: bytes_bits_def)
qed

end

section \<open>Values describe numbers\<close>

text \<open>
  The known bits of a value of width \<open>n\<close> are those of the number. Above the width the value
  is 0, and if its lowest bit is known all bits above the width are known.
\<close>

definition describes :: "BitValue \<Rightarrow> nat \<Rightarrow> int \<Rightarrow> bool" where
  "describes v n x \<longleftrightarrow> bit_width v = n \<and> 0 < n \<and> n \<le> 256 \<and> 0 \<le> x \<and> x < 2 ^ n \<and>
     (\<forall>i. bit (bits_value v) i \<longrightarrow> i < n) \<and>
     (\<forall>i < n. bit (known_bits v) i \<longrightarrow> bit (bits_value v) i = bit x i) \<and>
     (bit (known_bits v) 0 \<longrightarrow> (\<forall>i. n \<le> i \<longrightarrow> i < 256 \<longrightarrow> bit (known_bits v) i))"

lemma describesD:
  assumes "describes v n x"
  shows "bit_width v = n" "0 < n" "n \<le> 256" "0 \<le> x" "x < 2 ^ n" "bit (bits_value v) i \<Longrightarrow> i < n"
    "bit (known_bits v) i \<Longrightarrow> i < n \<Longrightarrow> bit (bits_value v) i = bit x i"
    "bit (known_bits v) 0 \<Longrightarrow> n \<le> i \<Longrightarrow> i < 256 \<Longrightarrow> bit (known_bits v) i"
  using assms by (simp_all add: describes_def)

lemma bit_small: "0 \<le> x \<Longrightarrow> x < 2 ^ n \<Longrightarrow> bit x i \<Longrightarrow> i < n" for x :: int
  by (metis bit_take_bit_iff take_bit_int_eq_self_iff)

lemma describes_word:
  assumes "describes v n x"
  shows "uint (word_of_int x :: Bits) = x" "bit (word_of_int x :: Bits) i \<longleftrightarrow> bit x i"
proof -
  have x: "0 \<le> x" "x < 2 ^ n" "n \<le> 256" using assms by (auto simp: describes_def)
  then have "x < 2 ^ 256" using power_increasing [of n 256 "2 :: int"] by linarith
  then show "uint (word_of_int x :: Bits) = x" using x by (simp add: uint_word_of_int)
  show "bit (word_of_int x :: Bits) i \<longleftrightarrow> bit x i"
    using bit_small [OF x(1,2), of i] x(3) by (auto simp: bit_simps)
qed

lemma describes_min:
  assumes "describes v n x"
  shows "bit (get_unsigned_min_value v) i \<Longrightarrow> bit (word_of_int x :: Bits) i"
    and "bit (known_bits v) i \<Longrightarrow> i < n \<Longrightarrow> bit (get_unsigned_min_value v) i \<longleftrightarrow> bit x i"
  using assms by (auto simp: describes_word [OF assms] get_unsigned_min_value_def bit_simps describes_def)

lemma describes_max:
  assumes "describes v n x"
  shows "bit (word_of_int x :: Bits) i \<Longrightarrow> bit (get_unsigned_max_value v) i"
    and "bit (known_bits v) i \<Longrightarrow> i < n \<Longrightarrow> bit (get_unsigned_max_value v) i \<longleftrightarrow> bit x i"
proof -
  have "bit x i \<Longrightarrow> i < n" for i using assms bit_small by (auto simp: describes_def)
  then show "bit (word_of_int x :: Bits) i \<Longrightarrow> bit (get_unsigned_max_value v) i"
    using assms by (auto simp: describes_word [OF assms] get_unsigned_max_value_def bit_simps describes_def)
  show "bit (known_bits v) i \<Longrightarrow> i < n \<Longrightarrow> bit (get_unsigned_max_value v) i \<longleftrightarrow> bit x i"
    using assms by (auto simp: get_unsigned_max_value_def bit_simps describes_def)
qed

lemma describes_bounds:
  assumes "describes v n x"
  shows "uint (get_unsigned_min_value v) \<le> x" "x \<le> uint (get_unsigned_max_value v)"
  using word_le_bits [of "get_unsigned_min_value v" "word_of_int x"] describes_min(1) [OF assms]
    word_le_bits [of "word_of_int x" "get_unsigned_max_value v"] describes_max(1) [OF assms]
  unfolding word_le_def describes_word(1) [OF assms] by blast+

lemma describes_constant:
  assumes "describes v n x" "all_known v = Some True"
  shows "known_bits v = - 1" "bits_value v = word_of_int x"
proof -
  have n: "bit_width v = n" "0 < n" "n \<le> 256" using assms(1) by (auto simp: describes_def)
  have "take_bit n (known_bits v) = mask n" using assms(2) n by (simp add: all_known_def low_bits_def)
  then have low: "bit (known_bits v) i" if "i < n" for i
    using that n(3) bit_take_bit_iff [of n "known_bits v" i] by (simp add: bit_mask_iff)
  then have all: "bit (known_bits v) i" if "i < 256" for i
    using assms(1) n(2) that by (cases "i < n") (auto simp: describes_def)
  then show "known_bits v = - 1" by (intro bit_word_eqI) simp
  show "bits_value v = word_of_int x"
  proof (rule bit_word_eqI)
    fix i assume "i < LENGTH(256)"
    have "bit x i \<Longrightarrow> i < n" using assms(1) bit_small by (auto simp: describes_def)
    then show "bit (bits_value v) i = bit (word_of_int x :: Bits) i"
      using assms(1) low by (auto simp: describes_word [OF assms(1)] describes_def)
  qed
qed

section \<open>The operations\<close>

lemma describes_zero_ext:
  assumes "describes v n x" "zero_ext_value m v = Some v'"
  shows "describes v' m x"
proof -
  have n: "bit_width v = n" "0 \<le> x" "x < 2 ^ n" using assms(1) by (auto simp: describes_def)
  obtain k where k: "fill n m True (known_bits v) = Some k" "v' = v\<lparr>known_bits := k, bit_width := m\<rparr>"
    using assms(2) n by (auto simp: zero_ext_value_def split: bind_splits)
  note f = bit_fill [OF k(1)]
  have "x < 2 ^ m" using n(3) power_increasing [of n m "2 :: int"] f(2) by linarith
  moreover have "\<not> bit x i" if "n \<le> i" for i using bit_small [OF n(2,3), of i] that by auto
  moreover have "\<not> bit (bits_value v) i" if "n \<le> i" for i using assms(1) that by (auto simp: describes_def)
  ultimately show ?thesis using assms(1) f by (auto simp: describes_def k(2))
qed

lemma describes_trunc:
  assumes "describes v n x" "trunc_value m v = Some v'" "0 < m"
  shows "describes v' m (take_bit m x)"
proof -
  have n: "bit_width v = n" using assms(1) by (auto simp: describes_def)
  obtain k w where k: "fill m n True (known_bits v) = Some k" "fill m n False (bits_value v) = Some w"
    "v' = \<lparr>known_bits = k, bits_value = w, bit_width = m\<rparr>"
    using assms(2) n by (auto simp: trunc_value_def split: bind_splits)
  note f = bit_fill [OF k(1)] bit_fill(1) [OF k(2)]
  have "\<not> bit (bits_value v) i" if "n \<le> i" for i using assms(1) that by (auto simp: describes_def)
  then show ?thesis using assms(1,3) f by (auto simp: describes_def k(3) bit_take_bit_iff)
qed

lemma describes_xor:
  assumes "describes l n x" "describes r n y" "bitwise_xor_value l r = Some v"
  shows "describes v n (take_bit n (xor x y))"
proof -
  have n: "bit_width l = n" using assms(1) by (auto simp: describes_def)
  obtain w where w: "fill n 256 False (xor (bits_value l) (bits_value r)) = Some w"
    "v = \<lparr>known_bits = and (known_bits l) (known_bits r), bits_value = w, bit_width = n\<rparr>"
    using assms(3) n by (auto simp: bitwise_xor_value_def split: bind_splits)
  note L = describesD [OF assms(1)] and R = describesD [OF assms(2)]
  have val: "bit w i \<longleftrightarrow> i < n \<and> (bit (bits_value l) i \<noteq> bit (bits_value r) i)" for i
    using bit_fill(1) [OF w(1), of i] L(6) [of i] R(6) [of i] by (simp add: bit_xor_iff) blast
  have "bit w i = bit (take_bit n (xor x y)) i" if "i < n" "bit (known_bits l) i" "bit (known_bits r) i" for i
    using val L(7) [of i] R(7) [of i] that by (simp add: bit_take_bit_iff bit_xor_iff)
  moreover have "0 \<le> take_bit n (xor x y)" "take_bit n (xor x y) < 2 ^ n" by (simp, rule take_bit_int_less_exp)
  ultimately show ?thesis using L(2,3,8) R(8) val by (simp add: describes_def w(2) bit_and_iff)
qed

lemma describes_other:
  assumes "fill 0 n False (- 1) = Some k" "0 < n" "0 \<le> x" "x < 2 ^ n"
  shows "describes \<lparr>known_bits = k, bits_value = 0, bit_width = n\<rparr> n x"
  using assms(2-4) bit_fill [OF assms(1)] by (auto simp: describes_def)

text \<open>A bit of a sum is decided by the bits of the operands and the carry, which grows with them.\<close>

lemma bit_add_carry:
  fixes a b :: int
  assumes "0 \<le> a" "0 \<le> b"
  shows "bit (a + b) i \<longleftrightarrow> (bit a i \<noteq> bit b i) \<noteq> (2 ^ i \<le> take_bit i a + take_bit i b)"
proof -
  let ?c = "take_bit i a + take_bit i b"
  have lt: "0 \<le> ?c" "?c < 2 * 2 ^ i"
    using take_bit_int_less_exp [of i a] take_bit_int_less_exp [of i b] by (simp, linarith)
  have "a + b = 2 ^ i * (a div 2 ^ i + b div 2 ^ i) + ?c"
    by (simp add: take_bit_eq_mod distrib_left)
  then have "(a + b) div 2 ^ i = a div 2 ^ i + b div 2 ^ i + ?c div 2 ^ i" by simp
  moreover have "?c div 2 ^ i = (if 2 ^ i \<le> ?c then 1 else 0)"
    using lt by (auto simp: div_pos_pos_trivial int_div_pos_eq [of _ _ 1 "?c - 2 ^ i"])
  ultimately show ?thesis by (simp add: bit_iff_odd)
qed

lemma take_bit_mono_bits:
  fixes a b :: int
  assumes "\<And>i. bit a i \<Longrightarrow> bit b i"
  shows "take_bit n a \<le> take_bit n b"
proof -
  have "and (take_bit n a) (take_bit n b) = take_bit n a"
    using assms by (intro bit_eqI) (auto simp: bit_and_iff bit_take_bit_iff)
  then show ?thesis by (metis AND_upper2 take_bit_nonnegative)
qed

lemma sum_bit:
  fixes a x a' b y b' :: int
  assumes "0 \<le> a" "0 \<le> x" "0 \<le> a'" "0 \<le> b" "0 \<le> y" "0 \<le> b'"
    and low: "\<And>j. bit a j \<Longrightarrow> bit x j" "\<And>j. bit b j \<Longrightarrow> bit y j"
    and high: "\<And>j. bit x j \<Longrightarrow> bit a' j" "\<And>j. bit y j \<Longrightarrow> bit b' j"
    and at: "bit a i = bit x i" "bit a' i = bit x i" "bit b i = bit y i" "bit b' i = bit y i"
    and same: "bit (a + b) i = bit (a' + b') i"
  shows "bit (x + y) i = bit (a + b) i"
proof -
  let ?c = "\<lambda>a b. (2 :: int) ^ i \<le> take_bit i a + take_bit i b"
  have "take_bit i a \<le> take_bit i x" "take_bit i b \<le> take_bit i y" "take_bit i x \<le> take_bit i a'" "take_bit i y \<le> take_bit i b'"
    by (rule take_bit_mono_bits, erule low(1) low(2) high(1) high(2))+
  then have mono: "?c a b \<Longrightarrow> ?c x y" "?c x y \<Longrightarrow> ?c a' b'" by linarith+
  have "?c a b = ?c a' b'"
    using same at unfolding bit_add_carry [OF assms(1,4)] bit_add_carry [OF assms(3,6)] by auto
  then have "?c x y = ?c a b" using mono by blast
  then show ?thesis using at unfolding bit_add_carry [OF assms(1,4)] bit_add_carry [OF assms(2,5)] by simp
qed

context bigint_crate
begin

lemma sign_byte_eq: "sign_byte (to_signed_bytes_le C v) = Some (if v < 0 then 255 else 0)"
proof -
  let ?bs = "to_signed_bytes_le C v"
  have "and b 0x80 \<noteq> 0 \<longleftrightarrow> 128 \<le> uint b" for b :: u8
  proof -
    have "and b 0x80 \<noteq> 0 \<longleftrightarrow> bit b 7"
    proof -
      have "(0x80 :: u8) = push_bit 7 1" by simp
      then show ?thesis by (metis and_exp_eq_0_iff_not_bit push_bit_of_1)
    qed
    also have "\<dots> \<longleftrightarrow> 128 \<le> uint b"
    proof -
      have "odd (x div 128) \<longleftrightarrow> 128 \<le> x" if "0 \<le> x" "x < 256" for x :: int using that
        by (cases "x < 128") (simp_all add: int_div_pos_eq [of _ _ 1 "x - 128"])
      moreover have "bit b 7 \<longleftrightarrow> odd (uint b div 128)" using bit_uint_iff [of b 7] by (simp add: bit_iff_odd [of "uint b"])
      ultimately show ?thesis using uint_bounded [of b] by simp
    qed
    finally show ?thesis .
  qed
  then show ?thesis using le_sval_neg [of ?bs] to_signed_bytes_ne [of v]
    by (simp add: sign_byte_def le_sval_to_signed_bytes)
qed

lemma possible_sum:
  assumes "n \<le> 256" "possible C n (+) a b = Some w"
  shows "bit w i \<longleftrightarrow> i < n \<and> bit (uint a + uint b) i"
proof -
  have "fill n 256 False (word_of_int (sint a + sint b)) = Some w"
    using assms(2) resized_bits by (simp add: possible_def signed_to_bits_def sign_byte_eq signed_int_eq Let_def)
  moreover have "(word_of_int (sint a + sint b) :: Bits) = word_of_int (uint a + uint b)"
    by (simp add: wi_hom_add [symmetric])
  ultimately have "fill n 256 False (word_of_int (uint a + uint b)) = Some w" by (simp only:)
  from bit_fill(1) [OF this, of i] have "bit w i \<longleftrightarrow> i < n \<and> bit (word_of_int (uint a + uint b) :: Bits) i"
    using bit_imp_le_length [of "word_of_int (uint a + uint b) :: Bits" i] assms(1) by auto
  then show ?thesis unfolding bit_word_of_int_iff using assms(1) by auto
qed

end

section \<open>Sums and products\<close>

lemma highest_set_bit_less: "le_val bs < 2 ^ (highest_set_bit bs + 1)"
proof (cases "find (\<lambda>i. bs ! i \<noteq> 0) (rev [0 ..< length bs])")
  case None
  then have "\<forall>i < length bs. bs ! i = 0" by (auto simp: find_None_iff)
  then have "bs = replicate (length bs) 0" by (intro nth_equalityI) auto
  then have "le_val bs = 0" using le_val_zeros by metis
  then show ?thesis by simp
next
  case (Some i)
  then obtain k where k: "k < length bs" "i = rev [0 ..< length bs] ! k" "bs ! i \<noteq> 0"
    "\<And>j. j < k \<Longrightarrow> bs ! (rev [0 ..< length bs] ! j) = 0"
    by (auto simp: find_Some_iff)
  then have i: "i = length bs - Suc k" "i < length bs" by (auto simp: rev_nth)
  have zero: "bs ! j = 0" if "i < j" "j < length bs" for j
    using k(4) [of "length bs - Suc j"] that i by (simp add: rev_nth)
  have "drop (Suc i) bs = replicate (length bs - Suc i) 0"
    using zero by (intro nth_equalityI) auto
  then have "le_val (drop (Suc i) bs) = 0" using le_val_zeros by metis
  moreover have "bs = take i bs @ bs ! i # drop (Suc i) bs" using i(2) by (rule id_take_nth_drop)
  ultimately have "le_val bs = le_val (take i bs) + 256 ^ i * uint (bs ! i)"
    using le_val_append [of "take i bs" "bs ! i # drop (Suc i) bs"] i(2) by simp
  moreover have "le_val (take i bs) < 256 ^ i"
    using le_val_less [of "take i bs"] i(2) by (simp add: min_absorb2 del: le_val_less)
  ultimately have lt: "le_val bs < 256 ^ i * (uint (bs ! i) + 1)" by (simp add: distrib_left)
  let ?l = "bit_length (nat (uint (bs ! i)))"
  have "nat (uint (bs ! i)) < 2 ^ ?l" using bit_length_le_iff [of "nat (uint (bs ! i))" ?l] by simp
  then have "uint (bs ! i) + 1 \<le> 2 ^ ?l" by (metis nat_less_numeral_power_cancel_iff add1_zle_eq)
  then have "256 ^ i * (uint (bs ! i) + 1) \<le> 256 ^ i * 2 ^ ?l" by (intro mult_left_mono) auto
  with lt have "le_val bs < 256 ^ i * 2 ^ ?l" by (rule less_le_trans)
  then have "le_val bs < 2 ^ (8 * i + ?l)" by (simp add: power_add power_mult)
  moreover have "0 < ?l"
    using bit_length_le_iff [of "nat (uint (bs ! i))" 0] k(3) by (cases "?l = 0") (auto simp: unat_eq_zero)
  moreover have "?l \<le> 8" using bit_length_le_iff [of "nat (uint (bs ! i))" 8] unsigned_less [of "bs ! i", where ?'a = nat] by simp
  ultimately show ?thesis using Some by (simp add: highest_set_bit_def leading_zeros_def mult.commute)
qed

lemma describes_known:
  assumes "describes v n x"
  shows "bit (uint (get_unsigned_min_value v)) i \<Longrightarrow> bit x i" "bit x i \<Longrightarrow> bit (uint (get_unsigned_max_value v)) i"
    "bit (known_bits v) i \<Longrightarrow> i < n \<Longrightarrow> bit (uint (get_unsigned_min_value v)) i = bit x i"
    "bit (known_bits v) i \<Longrightarrow> i < n \<Longrightarrow> bit (uint (get_unsigned_max_value v)) i = bit x i"
  using describes_min [OF assms, of i] describes_max [OF assms, of i] describesD(3) [OF assms]
    describes_word(2) [OF assms, of i] bit_small [OF describesD(4,5) [OF assms], of i]
  by (auto simp: bit_uint_iff)

context bigint_crate
begin

lemma describes_add:
  assumes l: "describes l n x" and r: "describes r n y" and "add_value C n l r = Some v"
  shows "describes v n (take_bit n (x + y))"
proof -
  note L = describesD [OF l] and R = describesD [OF r]
  obtain mn mx where m: "possible C n (+) (get_unsigned_min_value l) (get_unsigned_min_value r) = Some mn"
    "possible C n (+) (get_unsigned_max_value l) (get_unsigned_max_value r) = Some mx"
    and v: "v = \<lparr>known_bits = and (and (not (xor mn mx)) (known_bits l)) (known_bits r), bits_value = mn, bit_width = n\<rparr>"
    using assms(3) L(1) by (auto simp: add_value_def Let_def split: bind_splits if_splits)
  note mn = possible_sum [OF L(3) m(1)] and mx = possible_sum [OF L(3) m(2)]
  have bits: "bit mn i = bit (take_bit n (x + y)) i"
    if i: "i < n" "bit mn i = bit mx i" "bit (known_bits l) i" "bit (known_bits r) i" for i
  proof -
    have "bit (x + y) i = bit (uint (get_unsigned_min_value l) + uint (get_unsigned_min_value r)) i"
    proof (rule sum_bit [where a' = "uint (get_unsigned_max_value l)" and b' = "uint (get_unsigned_max_value r)"])
      show "bit (uint (get_unsigned_min_value l) + uint (get_unsigned_min_value r)) i =
          bit (uint (get_unsigned_max_value l) + uint (get_unsigned_max_value r)) i" using i(1,2) mn mx by simp
    qed (use L(4) R(4) describes_known(1,2) [OF l] describes_known(1,2) [OF r]
          describes_known(3,4) [OF l i(3,1)] describes_known(3,4) [OF r i(4,1)] in simp_all)
    then show ?thesis using i(1) mn by (simp add: bit_take_bit_iff)
  qed
  have k: "bit (known_bits v) i \<longleftrightarrow> i < 256 \<and> bit mn i = bit mx i \<and> bit (known_bits l) i \<and> bit (known_bits r) i" for i
    using bit_imp_le_length [of "known_bits l" i] by (auto simp: v bit_and_iff bit_not_iff bit_xor_iff)
  have "bit (known_bits v) i" if "bit (known_bits v) 0" "n \<le> i" "i < 256" for i
    using that L(8) [of i] R(8) [of i] mn mx by (simp add: k)
  moreover have "bit (bits_value v) i = bit (take_bit n (x + y)) i" if "i < n" "bit (known_bits v) i" for i
    using bits [of i] that k [of i] by (simp add: v)
  moreover have "take_bit n (x + y) < 2 ^ n" by (rule take_bit_int_less_exp)
  ultimately show ?thesis using L(2,3) mn by (simp add: describes_def v)
qed

lemma nonneg_bytes: "0 \<le> v \<Longrightarrow> le_val (to_signed_bytes_le C v) = v"
  using le_sval_to_signed_bytes [of v] le_sval_neg [of "to_signed_bytes_le C v"] by (auto simp: le_sval_def)

lemma describes_multiply:
  assumes l: "describes l n x" and r: "describes r n y" and "multiply_unsigned_value C l r = Some v"
    and small: "x * y < 2 ^ n"
  shows "describes v n (x * y)"
proof -
  note L = describesD [OF l] and R = describesD [OF r]
  let ?m = "uint (get_unsigned_max_value l) * uint (get_unsigned_max_value r)"
  have nn: "0 \<le> x * y" "0 \<le> ?m" using L(4) R(4) by simp_all
  have le: "x * y \<le> ?m" using describes_bounds(2) [OF l] describes_bounds(2) [OF r] L(4) R(4) by (intro mult_mono) auto
  obtain lk where lk: "all_known l = Some lk" using assms(3) by (auto simp: multiply_unsigned_value_def Let_def split: bind_splits)
  obtain rk where rk: "(if lk then all_known r else Some False) = Some rk"
    using assms(3) lk by (auto simp: multiply_unsigned_value_def Let_def split: bind_splits)
  show ?thesis
  proof (cases rk)
    case True
    then have known: "all_known l = Some True" "all_known r = Some True" using lk rk by (auto split: if_splits)
    have max: "uint (get_unsigned_max_value l) = x" "uint (get_unsigned_max_value r) = y"
      using describes_constant [OF l known(1)] describes_constant [OF r known(2)] describes_word(1) [OF l] describes_word(1) [OF r]
      by (simp_all add: get_unsigned_max_value_def)
    have "bytes_bits (vec_resize (to_signed_bytes_le C (x * y)) 32 0) = Some (word_of_int (x * y))"
      using resized_bits [of "x * y"] nn(1) by simp
    then have v: "v = \<lparr>known_bits = - 1, bits_value = word_of_int (x * y), bit_width = n\<rparr>"
      using assms(3) known L(1) max by (simp add: multiply_unsigned_value_def Let_def unsigned_int_eq)
    have bit: "bit (word_of_int (x * y) :: Bits) i \<longleftrightarrow> i < n \<and> bit (x * y) i" for i
      unfolding bit_word_of_int_iff using bit_small [OF nn(1) small, of i] L(3) by auto
    show ?thesis using L(2,3) nn(1) small bit unfolding describes_def v by simp
  next
    case False
    let ?h = "highest_set_bit (to_signed_bytes_le C ?m)"
    obtain k where k: "(if ?h < n then fill (?h + 1) n True 0 else Some 0) = Some k"
      "v = \<lparr>known_bits = k, bits_value = 0, bit_width = n\<rparr>"
      using assms(3) lk rk False L(1)
      by (auto simp: multiply_unsigned_value_def Let_def unsigned_int_eq split: bind_splits if_splits)
    have "x * y < 2 ^ (?h + 1)" using le highest_set_bit_less [of "to_signed_bytes_le C ?m"] nonneg_bytes [OF nn(2)] by simp
    then have top: "bit (x * y) i \<Longrightarrow> i \<le> ?h" for i using bit_small [OF nn(1), of "?h + 1" i] by simp
    have kb: "bit k i \<Longrightarrow> ?h < i" for i
      using k(1) bit_fill(1) [of "?h + 1" n True 0 k i] by (auto split: if_splits)
    have "\<not> bit k 0" "\<not> (bit k i \<and> bit (x * y) i)" for i using kb [of 0] kb [of i] top [of i] by auto
    then show ?thesis using L(2,3) nn(1) small unfolding describes_def k(2) by auto
  qed
qed

end

section \<open>Expressions\<close>

text \<open>
  The unsigned expressions whose values the analysis describes: literals, variables, arguments,
  sums, exclusive ors, checked products and conversions of such, and operations that it does not
  look into.
\<close>

definition uint_ty :: "Type \<Rightarrow> bool" where
  "uint_ty ty \<longleftrightarrow> is_int ty \<and> \<not> signed_ty ty \<and> width ty \<le> 256"

primrec analysed :: "(nat \<Rightarrow> int) \<Rightarrow> Expression \<Rightarrow> bool" where
  "analysed args (Expression.Add loc ty overflowing left right) \<longleftrightarrow> uint_ty ty \<and> analysed args left \<and> analysed args right"
| "analysed args (Expression.AllocDynamicBytes loc ty sz initializer) \<longleftrightarrow> False"
| "analysed args (Expression.ArrayLiteral loc ty dimensions values) \<longleftrightarrow> False"
| "analysed args (Expression.BitwiseAnd loc ty left right) \<longleftrightarrow> False"
| "analysed args (Expression.BitwiseOr loc ty left right) \<longleftrightarrow> False"
| "analysed args (Expression.BitwiseXor loc ty left right) \<longleftrightarrow> uint_ty ty \<and> analysed args left \<and> analysed args right"
| "analysed args (Expression.BoolLiteral loc value) \<longleftrightarrow> False"
| "analysed args (Expression.Builtin loc tys kind exprs) \<longleftrightarrow> False"
| "analysed args (Expression.BytesCast loc ty from expr) \<longleftrightarrow> False"
| "analysed args (Expression.BytesLiteral loc ty value) \<longleftrightarrow> False"
| "analysed args (Expression.Cast loc ty expr) \<longleftrightarrow> False"
| "analysed args (Expression.BitwiseNot loc ty expr) \<longleftrightarrow> False"
| "analysed args (Expression.ConstArrayLiteral loc ty dimensions values) \<longleftrightarrow> False"
| "analysed args (Expression.UnsignedDivide loc ty left right) \<longleftrightarrow> uint_ty ty"
| "analysed args (Expression.SignedDivide loc ty left right) \<longleftrightarrow> False"
| "analysed args (Expression.Equal loc left right) \<longleftrightarrow> False"
| "analysed args (Expression.FormatString loc exprs) \<longleftrightarrow> False"
| "analysed args (Expression.FunctionArg loc ty arg_no) \<longleftrightarrow> uint_ty ty \<and> in_range ty (args arg_no)"
| "analysed args (Expression.GetRef loc ty expr) \<longleftrightarrow> False"
| "analysed args (Expression.InternalFunctionCfg ty cfg_no) \<longleftrightarrow> False"
| "analysed args (Expression.Keccak256 loc ty exprs) \<longleftrightarrow> False"
| "analysed args (Expression.Less loc is_signed left right) \<longleftrightarrow> False"
| "analysed args (Expression.LessEqual loc is_signed left right) \<longleftrightarrow> False"
| "analysed args (Expression.Load loc ty expr) \<longleftrightarrow> False"
| "analysed args (Expression.UnsignedModulo loc ty left right) \<longleftrightarrow> uint_ty ty"
| "analysed args (Expression.SignedModulo loc ty left right) \<longleftrightarrow> False"
| "analysed args (Expression.More loc is_signed left right) \<longleftrightarrow> False"
| "analysed args (Expression.MoreEqual loc is_signed left right) \<longleftrightarrow> False"
| "analysed args (Expression.Multiply loc ty overflowing left right) \<longleftrightarrow> uint_ty ty \<and> \<not> overflowing \<and> analysed args left \<and> analysed args right"
| "analysed args (Expression.Not loc expr) \<longleftrightarrow> False"
| "analysed args (Expression.NotEqual loc left right) \<longleftrightarrow> False"
| "analysed args (Expression.NumberLiteral loc ty value) \<longleftrightarrow> uint_ty ty"
| "analysed args Expression.Poison \<longleftrightarrow> False"
| "analysed args (Expression.Power loc ty overflowing base expo) \<longleftrightarrow> uint_ty ty"
| "analysed args (Expression.RationalNumberLiteral loc ty rational) \<longleftrightarrow> False"
| "analysed args (Expression.ReturnData loc) \<longleftrightarrow> False"
| "analysed args (Expression.SignExt loc ty expr) \<longleftrightarrow> False"
| "analysed args (Expression.ShiftLeft loc ty left right) \<longleftrightarrow> uint_ty ty"
| "analysed args (Expression.ShiftRight loc ty left right is_signed) \<longleftrightarrow> uint_ty ty"
| "analysed args (Expression.StorageArrayLength loc ty array elem) \<longleftrightarrow> False"
| "analysed args (Expression.StringCompare loc left right) \<longleftrightarrow> False"
| "analysed args (Expression.StructLiteral loc ty values) \<longleftrightarrow> False"
| "analysed args (Expression.StructMember loc ty expr member) \<longleftrightarrow> False"
| "analysed args (Expression.Subscript loc ty array_ty expr index) \<longleftrightarrow> False"
| "analysed args (Expression.Subtract loc ty overflowing left right) \<longleftrightarrow> False"
| "analysed args (Expression.Trunc loc ty expr) \<longleftrightarrow> uint_ty ty \<and> analysed args expr"
| "analysed args (Expression.Negate loc ty overflowing expr) \<longleftrightarrow> False"
| "analysed args (Expression.Undefined ty) \<longleftrightarrow> False"
| "analysed args (Expression.Variable loc ty var_no) \<longleftrightarrow> uint_ty ty"
| "analysed args (Expression.ZeroExt loc ty expr) \<longleftrightarrow> uint_ty ty \<and> analysed args expr"
| "analysed args (Expression.AdvancePointer pointer bytes_offset) \<longleftrightarrow> False"
| "analysed args (Expression.VectorData pointer) \<longleftrightarrow> False"

text \<open>What a hash set promises of an insertion.\<close>

lemma seq_opt_mem: "seq_opt (map f xs) = Some ys \<Longrightarrow> x \<in> set xs \<Longrightarrow> \<exists>y \<in> set ys. f x = Some y"
proof -
  assume "seq_opt (map f xs) = Some ys" "x \<in> set xs"
  then have "f x \<in> set (map Some ys)" unfolding seq_opt_eq_Some by (metis image_eqI list.set_map)
  then show ?thesis by auto
qed

locale hash_set =
  fixes ins :: insertion
  assumes set_ins: "set (ins v vs) = insert v (set vs)"
    and distinct_ins: "distinct vs \<Longrightarrow> distinct (ins v vs)"
begin

lemma set_collect: "set (collect_set ins vs) = set vs"
proof -
  have "set (fold ins vs acc) = set acc \<union> set vs" for acc
    by (induction vs arbitrary: acc) (auto simp: set_ins)
  then show ?thesis by (simp add: collect_set_def)
qed

lemma distinct_collect: "distinct (collect_set ins vs)"
proof -
  have "distinct acc \<Longrightarrow> distinct (fold ins vs acc)" for acc
    by (induction vs arbitrary: acc) (auto simp: distinct_ins)
  then show ?thesis by (simp add: collect_set_def)
qed

lemma map_values_mem:
  assumes "map_values ins f vs = Some ws" "v \<in> set vs"
  shows "\<exists>w \<in> set ws. f v = Some w"
  using assms by (auto simp: map_values_def set_collect dest: seq_opt_mem)

lemma pair_values_mem:
  assumes "pair_values ins f ls rs = Some ws" "l \<in> set ls" "r \<in> set rs"
  shows "\<exists>w \<in> set ws. f l r = Some w"
proof -
  obtain us where us: "seq_opt (map (\<lambda>(l, r). f l r) (List.product ls rs)) = Some us" "ws = collect_set ins us"
    using assms(1) by (auto simp: pair_values_def)
  have "(l, r) \<in> set (List.product ls rs)" using assms(2,3) by simp
  then have "\<exists>w \<in> set us. (\<lambda>(l, r). f l r) (l, r) = Some w"
    by (rule seq_opt_mem [OF us(1)])
  then show ?thesis by (simp add: us(2) set_collect)
qed

end

interpretation list_set: hash_set List.insert
  by unfold_locales auto

text \<open>The variables of unsigned type have a value that describes them.\<close>

definition vars_describe :: "(nat \<Rightarrow> Type) \<Rightarrow> Variables \<Rightarrow> (nat \<Rightarrow> int) \<Rightarrow> bool" where
  "vars_describe T vars env \<longleftrightarrow> (\<forall>v. uint_ty (T v) \<longrightarrow>
     (\<exists>vs. map_of vars v = Some vs \<and> (\<exists>b \<in> set vs. describes b (width (T v)) (env v))))"

locale value_analysis = bigint_crate + hash_set
begin

lemma analysed_ty: "analysed args e \<Longrightarrow> expr_ty e = Some ty \<Longrightarrow> uint_ty ty"
  by (cases e) auto

lemma uint_bits: "uint_ty ty \<Longrightarrow> bits ns ty = Some (width ty)"
  by (auto simp: uint_ty_def signed_ty_def width_def elim!: is_int_cases)

lemma uint_width: "uint_ty ty \<Longrightarrow> 0 < width ty \<and> width ty \<le> 256"
  by (auto simp: uint_ty_def signed_ty_def width_def elim!: is_int_cases)

lemma uint_wrap: "uint_ty ty \<Longrightarrow> wrap ty v = take_bit (width ty) v"
  by (simp add: uint_ty_def wrap_def)

lemma uint_range: "uint_ty ty \<Longrightarrow> in_range ty v \<longleftrightarrow> 0 \<le> v \<and> v < 2 ^ width ty"
  by (simp add: uint_ty_def in_range_def)

lemma uint_checked: "uint_ty ty \<Longrightarrow> checked ty overflowing v = Some x \<Longrightarrow> x = take_bit (width ty) v"
  by (auto simp: checked_def uint_wrap uint_range take_bit_int_eq_self split: if_splits)

lemma other_describes:
  assumes "uint_ty ty" "expr_ty e = Some ty" "other_values e ns = Some vs" "in_range ty x"
  shows "\<exists>b \<in> set vs. describes b (width ty) x"
proof -
  have "track ty" using assms(1) by (auto simp: uint_ty_def signed_ty_def track_def elim!: is_int_cases)
  then obtain k where k: "fill 0 (width ty) False (- 1) = Some k" "vs = [\<lparr>known_bits = k, bits_value = 0, bit_width = width ty\<rparr>]"
    using assms(2,3) uint_bits [OF assms(1)] by (auto simp: other_values_def split: bind_splits)
  then show ?thesis using describes_other [OF k(1)] uint_width [OF assms(1)] assms(4) by (simp add: uint_range [OF assms(1)])
qed

lemma literal_describes:
  assumes "uint_ty ty" "number_literal_values C ty v ns = Some vs" "in_range ty v"
  shows "\<exists>b \<in> set vs. describes b (width ty) v"
proof -
  let ?n = "width ty"
  have n: "0 < ?n" "?n \<le> 256" "0 \<le> v" "v < 2 ^ ?n" using uint_width [OF assms(1)] assms(3) by (simp_all add: uint_range [OF assms(1)])
  obtain w where w: "bigint_to_bitarr C v ?n = Some w" "vs = [\<lparr>known_bits = - 1, bits_value = w, bit_width = ?n\<rparr>]"
    using assms(2) uint_bits [OF assms(1)] by (auto simp: number_literal_values_def split: bind_splits)
  have small: "bit v i \<Longrightarrow> i < ?n" for i using bit_small [OF n(3,4)] .
  have bw: "bit (word_of_int v :: Bits) i \<longleftrightarrow> bit v i" for i
    unfolding bit_word_of_int_iff using small [of i] n(2) by auto
  have "bit w i \<longleftrightarrow> bit v i" for i
  proof (cases "?n < 256")
    case True
    then have "fill ?n 256 False (word_of_int v) = Some w" using w(1) resized_bits by (simp add: bigint_to_bitarr_def)
    from bit_fill(1) [OF this, of i] show ?thesis using small [of i] bw by auto
  next
    case False
    then show ?thesis using w(1) resized_bits bw by (simp add: bigint_to_bitarr_def)
  qed
  then show ?thesis using n small by (simp add: w(2) describes_def)
qed

lemma both_describes:
  assumes "both_values ins lv rv f = Some vs" and "lv = Some ls" "rv = Some rs"
    and "\<exists>b \<in> set ls. describes b n x" "\<exists>b \<in> set rs. describes b n y"
    and "\<And>l r v. describes l n x \<Longrightarrow> describes r n y \<Longrightarrow> f l r = Some v \<Longrightarrow> describes v n z"
  shows "\<exists>b \<in> set vs. describes b n z"
  using assms pair_values_mem by (fastforce simp: both_values_def)

end

interpretation impl_values: value_analysis crates_impl List.insert
  by unfold_locales

context value_analysis
begin

lemma expression_values_describe:
  assumes vars: "vars_describe T vars env"
  shows "analysed args e \<Longrightarrow> wt T e \<Longrightarrow> expr_ty e = Some ty \<Longrightarrow> eval env args e = Some x \<Longrightarrow>
    expression_values C ins vars ns e = Some vs \<Longrightarrow> \<exists>b \<in> set vs. describes b (width ty) x"
proof (induction e arbitrary: ty x vs)
  case (Add loc t overflowing left right)
  then have t: "t = ty" "uint_ty ty" by simp_all
  obtain a b where ab: "eval env args left = Some a" "eval env args right = Some b" "checked ty overflowing (a + b) = Some x"
    using Add.prems(4) t(1) by (cases "eval env args left"; cases "eval env args right") auto
  obtain ls rs where lr: "expression_values C ins vars ns left = Some ls" "expression_values C ins vars ns right = Some rs"
    using Add.prems(5) by (auto simp: both_values_def split: bind_splits)
  have l: "\<exists>b \<in> set ls. describes b (width ty) a" using Add.IH(1) [of ty a ls] Add.prems ab(1) lr(1) t by simp
  have r: "\<exists>c \<in> set rs. describes c (width ty) b" using Add.IH(2) [of ty b rs] Add.prems ab(2) lr(2) t by simp
  show ?case
    using Add.prems(5) describes_add uint_checked [OF t(2) ab(3)] uint_bits [OF t(2)]
    by (intro both_describes [OF _ lr l r]) (auto simp: t(1))
next
  case (BitwiseXor loc t left right)
  then have t: "t = ty" "uint_ty ty" by simp_all
  obtain a b where ab: "eval env args left = Some a" "eval env args right = Some b" "x = wrap ty (xor a b)"
    using BitwiseXor.prems(4) t(1) by (cases "eval env args left"; cases "eval env args right") auto
  obtain ls rs where lr: "expression_values C ins vars ns left = Some ls" "expression_values C ins vars ns right = Some rs"
    using BitwiseXor.prems(5) by (auto simp: both_values_def split: bind_splits)
  have l: "\<exists>b \<in> set ls. describes b (width ty) a" using BitwiseXor.IH(1) [of ty a ls] BitwiseXor.prems ab(1) lr(1) t by simp
  have r: "\<exists>c \<in> set rs. describes c (width ty) b" using BitwiseXor.IH(2) [of ty b rs] BitwiseXor.prems ab(2) lr(2) t by simp
  show ?case
    using BitwiseXor.prems(5) describes_xor ab(3) uint_wrap [OF t(2)]
    by (intro both_describes [OF _ lr l r]) auto
next
  case (Multiply loc t overflowing left right)
  then have t: "t = ty" "uint_ty ty" "\<not> overflowing" by simp_all
  obtain a b where ab: "eval env args left = Some a" "eval env args right = Some b" "checked ty False (a * b) = Some x"
    using Multiply.prems(4) t(1,3) by (cases "eval env args left"; cases "eval env args right") auto
  then have x: "x = a * b" "a * b < 2 ^ width ty" using uint_range [OF t(2)] by (auto simp: checked_def split: if_splits)
  obtain ls rs where lr: "expression_values C ins vars ns left = Some ls" "expression_values C ins vars ns right = Some rs"
    using Multiply.prems(5) by (auto simp: both_values_def split: bind_splits)
  have l: "\<exists>b \<in> set ls. describes b (width ty) a" using Multiply.IH(1) [of ty a ls] Multiply.prems ab(1) lr(1) t by simp
  have r: "\<exists>c \<in> set rs. describes c (width ty) b" using Multiply.IH(2) [of ty b rs] Multiply.prems ab(2) lr(2) t by simp
  have "is_signed_int ns ty = Some False"
    using t(2) by (auto simp: uint_ty_def signed_ty_def is_signed_int_def is_signed_int_fuel.simps elim!: is_int_cases)
  then show ?case
    using Multiply.prems(5) describes_multiply x
    by (intro both_describes [OF _ lr l r]) (auto simp: t(1) multiply_value_def)
next
  case (ZeroExt loc t e)
  then have t: "t = ty" "uint_ty ty" by simp_all
  obtain u where u: "expr_ty e = Some u" using ZeroExt.prems(2) by (auto simp: extends_def split: option.splits)
  obtain a where a: "eval env args e = Some a" "x = wrap ty a" using ZeroExt.prems(4) t(1) by (cases "eval env args e") auto
  obtain es where es: "expression_values C ins vars ns e = Some es" "map_values ins (zero_ext_value (width ty)) es = Some vs"
    using ZeroExt.prems(5) uint_bits [OF t(2)] t(1) by (auto simp: conversion_values_def split: bind_splits)
  obtain b where b: "b \<in> set es" "describes b (width u) a" using ZeroExt.IH [OF _ _ u a(1) es(1)] ZeroExt.prems by auto
  obtain w where w: "w \<in> set vs" "zero_ext_value (width ty) b = Some w" using map_values_mem [OF es(2) b(1)] by blast
  have "describes w (width ty) a" using describes_zero_ext [OF b(2) w(2)] .
  moreover from this have "x = a" using a(2) describesD(4,5) by (simp add: uint_wrap [OF t(2)] take_bit_int_eq_self)
  ultimately show ?case using w(1) by blast
next
  case (Trunc loc t e)
  then have t: "t = ty" "uint_ty ty" by simp_all
  obtain u where u: "expr_ty e = Some u" using Trunc.prems(2) by auto
  obtain a where a: "eval env args e = Some a" "x = wrap ty a" using Trunc.prems(4) t(1) by (cases "eval env args e") auto
  obtain es where es: "expression_values C ins vars ns e = Some es" "map_values ins (trunc_value (width ty)) es = Some vs"
    using Trunc.prems(5) uint_bits [OF t(2)] t(1) by (auto simp: conversion_values_def split: bind_splits)
  obtain b where b: "b \<in> set es" "describes b (width u) a" using Trunc.IH [OF _ _ u a(1) es(1)] Trunc.prems by auto
  obtain w where w: "w \<in> set vs" "trunc_value (width ty) b = Some w" using map_values_mem [OF es(2) b(1)] by blast
  have "describes w (width ty) (take_bit (width ty) a)" using describes_trunc [OF b(2) w(2)] uint_width [OF t(2)] by simp
  then show ?case using w(1) a(2) uint_wrap [OF t(2)] by auto
next
  case (Variable loc t v)
  then have t: "T v = ty" "uint_ty (T v)" by auto
  then obtain ws where "map_of vars v = Some ws" "\<exists>b \<in> set ws. describes b (width (T v)) (env v)"
    using vars unfolding vars_describe_def by blast
  then show ?case using Variable.prems(4,5) t by (simp add: variable_values_def)
next
  case (NumberLiteral loc t v)
  then show ?case using literal_describes [of ty v ns vs] by simp
next
  case (UnsignedDivide loc t left right)
  then show ?case by (intro other_describes [of ty "Expression.UnsignedDivide loc t left right" ns vs]) (auto simp: uint_ty_def lift2_def checked_in_range wrap_in_range split: bind_splits if_splits)
next
  case (UnsignedModulo loc t left right)
  then show ?case by (intro other_describes [of ty "Expression.UnsignedModulo loc t left right" ns vs]) (auto simp: uint_ty_def lift2_def checked_in_range wrap_in_range split: bind_splits if_splits)
next
  case (Power loc t overflowing base expo)
  then show ?case by (intro other_describes [of ty "Expression.Power loc t overflowing base expo" ns vs]) (auto simp: uint_ty_def lift2_def checked_in_range wrap_in_range split: bind_splits if_splits)
next
  case (ShiftLeft loc t left right)
  then show ?case by (intro other_describes [of ty "Expression.ShiftLeft loc t left right" ns vs]) (auto simp: uint_ty_def lift2_def checked_in_range wrap_in_range split: bind_splits if_splits)
next
  case (ShiftRight loc t left right is_signed)
  then show ?case by (intro other_describes [of ty "Expression.ShiftRight loc t left right is_signed" ns vs]) (auto simp: uint_ty_def lift2_def checked_in_range wrap_in_range split: bind_splits if_splits)
next
  case (FunctionArg loc t arg_no)
  then show ?case by (intro other_describes [of ty "Expression.FunctionArg loc t arg_no" ns vs]) (auto simp: uint_ty_def lift2_def checked_in_range wrap_in_range split: bind_splits if_splits)
qed simp_all

end

end
