(* ===== verification/StrengthOps.thy ===== *)
theory StrengthOps
  imports StrengthSound
begin

text \<open>
  The operations that strength reduction puts in place of a wide multiplication, division or
  remainder: with operands that the analysis describes they have the same value.
\<close>

section \<open>Replaced operations\<close>

context value_analysis
begin

lemma max_unsigned: "describes b n x \<Longrightarrow> b \<in> set vs \<Longrightarrow> x \<le> get_max_unsigned C vs"
proof -
  have mono: "m \<le> fold (\<lambda>v m. max (unsigned_int C (get_unsigned_max_value v)) m) vs m" for m vs
    by (induction vs arbitrary: m) (auto intro: order_trans [OF max.cobounded2])
  assume b: "describes b n x" "b \<in> set vs"
  have "unsigned_int C (get_unsigned_max_value b) \<le> fold (\<lambda>v m. max (unsigned_int C (get_unsigned_max_value v)) m) vs m" for m
    using b(2)
  proof (induction vs arbitrary: m)
    case (Cons v vs)
    show ?case
    proof (cases "b = v")
      case True
      then show ?thesis using order_trans [OF max.cobounded1 mono] by simp
    qed (use Cons in simp)
  qed simp
  then show ?thesis using describes_bounds(2) [OF b(1)] unfolding get_max_unsigned_def
    by (metis unsigned_int_eq order_trans)
qed

lemma max_unsigned_nonneg: "0 \<le> get_max_unsigned C vs"
proof -
  have "0 \<le> m \<Longrightarrow> 0 \<le> fold (\<lambda>v m. max (unsigned_int C (get_unsigned_max_value v)) m) vs m" for m
    by (induction vs arbitrary: m) auto
  then show ?thesis by (simp add: get_max_unsigned_def)
qed

lemma shift_loop_Some: "shift_loop k c cmp s = Some s' \<Longrightarrow> \<exists>j < k. c = cmp * 2 ^ j \<and> s' = s + int j"
proof (induction k c cmp s rule: shift_loop.induct)
  case (2 k c cmp s)
  show ?case
  proof (cases "cmp = c")
    case True
    then show ?thesis using 2 by (intro exI [of _ 0]) auto
  next
    case False
    then obtain j where "j < k" "c = cmp * 2 * 2 ^ j" "s' = s + 1 + int j" using 2 by auto
    then show ?thesis by (intro exI [of _ "Suc j"]) auto
  qed
qed simp

lemma power_loop_Some: "power_loop k c cmp = Some p \<Longrightarrow> p = c \<and> (\<exists>j < k. c = cmp * 2 ^ j)"
proof (induction k c cmp rule: power_loop.induct)
  case (2 k c cmp)
  show ?case
  proof (cases "cmp = c")
    case True
    then show ?thesis using 2 by (auto intro!: exI [of _ 0])
  next
    case False
    then obtain j where "p = c" "j < k" "c = cmp * 2 * 2 ^ j" using 2 by auto
    then show ?thesis by (auto intro!: exI [of _ "Suc j"])
  qed
qed simp

text \<open>A positive constant is the only value.\<close>

lemma single_constant:
  assumes "is_single_constant C vs = Some (Some c)" "\<exists>b \<in> set vs. describes b n x" "n mod 8 = 0" "0 < c"
  shows "x = c"
proof -
  obtain b where vs: "vs = [b]" using assms(1) by (cases vs) (auto simp: is_single_constant_def split: if_splits)
  then have d: "describes b n x" using assms(2) by simp
  note D = describesD [OF d]
  have known: "all_known b = Some True"
    using assms(1) by (auto simp: is_single_constant_def vs Let_def split: bind_splits if_splits)
  have low: "take_bit n (word_of_int x :: Bits) = word_of_int x"
    using bit_small [OF D(4,5)] by (intro bit_word_eqI) (auto simp: bit_take_bit_iff describes_word [OF d])
  let ?bs = "take (n div 8) (bits_bytes (word_of_int x))"
  have n: "8 * (n div 8) = n" "(n + 7) div 8 = n div 8" "n div 8 \<le> 32" using assms(3) D(3) by presburger+
  have c: "c = le_sval ?bs"
    using assms(1) known describes_constant(2) [OF d known] D(1,3) n(2) low
    by (simp add: is_single_constant_def vs Let_def low_bits_def from_signed_bytes_val)
  have "le_val ?bs = x mod 256 ^ (n div 8)" by (simp add: le_val_take le_val_bits_bytes describes_word(1) [OF d])
  also have "(256 :: int) ^ (n div 8) = 2 ^ (8 * (n div 8))" by (simp add: power_mult)
  also have "\<dots> = 2 ^ n" by (simp only: n(1))
  finally have "le_val ?bs = x" using D(4,5) by simp
  then show ?thesis using c assms(4) le_sval_neg [of ?bs] by (auto simp: le_sval_def split: if_splits)
qed

end

text \<open>Casting to 64 bits keeps a value that fits.\<close>

lemma cast_u64:
  assumes "uint_ty ty" "expr_ty e = Some ty" "128 \<le> width ty" "eval env args e = Some a" "0 \<le> a"
    and "cast C ns e (Type.Uint 64) = Some e'"
  shows "expr_ty e' = Some (Type.Uint 64) \<and> (\<exists>a'. eval env args e' = Some a' \<and> 0 \<le> a' \<and> (a < 2 ^ 64 \<longrightarrow> a' = a))"
proof -
  obtain n where ty: "ty = Type.Uint n" "64 < n"
    using assms(1,3) by (auto simp: uint_ty_def signed_ty_def width_def elim!: is_int_cases)
  have ne: "\<not> type_eq ty (Type.Uint 64)" using ty by (simp add: type_eq_def)
  show ?thesis
  proof (cases "\<exists>loc t v. e = Expression.NumberLiteral loc t v")
    case True
    then obtain loc t v where e: "e = Expression.NumberLiteral loc t v" by blast
    then have "cast C ns e (Type.Uint 64) = Some (Expression.NumberLiteral loc (Type.Uint 64) v)"
      using assms(2,4,5) ne ty(1) by (simp add: cast.simps cast_literal_def)
    then show ?thesis using assms(4,5,6) by (simp add: e)
  next
    case False
    have lit: "cast_literal C e ty (Type.Uint 64) = None"
      using False ty(1) by (cases e) (simp_all add: cast_literal_def)
    have "cast C ns e (Type.Uint 64) = Some (Expression.Trunc (expr_loc e) (Type.Uint 64) e)"
      using assms(2) ne lit ty by (simp add: cast.simps cast_from_def cast_scalar_def cast_width_def)
    then have "e' = Expression.Trunc (expr_loc e) (Type.Uint 64) e" using assms(6) by simp
    then show ?thesis using assms(4,5)
      by (simp add: wrap_def signed_ty_def width_def take_bit_int_eq_self)
  qed
qed

text \<open>The replacement in 64 bits of an operation on operands that fit.\<close>

lemma uint64 [simp]: "width (Type.Uint 64) = 64" "is_int (Type.Uint 64)" "\<not> signed_ty (Type.Uint 64)"
  by (simp_all add: width_def is_int_def signed_ty_def)

lemma wide_range:
  assumes "uint_ty ty" "128 \<le> width ty" "0 \<le> v" "v < 2 ^ 64"
  shows "in_range ty v" "wrap ty v = v" "in_range (Type.Uint 64) v" "wrap (Type.Uint 64) v = v"
proof -
  have "(2 :: int) ^ 64 \<le> 2 ^ width ty" using assms(2) by (intro power_increasing) auto
  then show r: "in_range ty v" "in_range (Type.Uint 64) v" using assms(1,3,4) by (simp_all add: uint_ty_def in_range_def)
  show "wrap ty v = v" "wrap (Type.Uint 64) v = v" using r assms(1) by (simp_all add: uint_ty_def wrap_id)
qed

lemma both_cast_u64:
  assumes "uint_ty ty" "128 \<le> width ty" "expr_ty l = Some ty" "expr_ty r = Some ty"
    and "eval env args l = Some a" "eval env args r = Some b" "0 \<le> a" "0 \<le> b"
    and "both_cast C (Type.Uint 64) f l r ns = Some e"
  obtains l' r' a' b' where "e = f l' r'" "eval env args l' = Some a'" "eval env args r' = Some b'"
    "0 \<le> a'" "0 \<le> b'" "a < 2 ^ 64 \<longrightarrow> a' = a" "b < 2 ^ 64 \<longrightarrow> b' = b"
proof -
  obtain l' r' where c: "cast C ns l (Type.Uint 64) = Some l'" "cast C ns r (Type.Uint 64) = Some r'" "e = f l' r'"
    using assms(9) by (auto simp: both_cast_def split: bind_splits)
  show ?thesis
    using cast_u64 [OF assms(1,3,2,5,7) c(1)] cast_u64 [OF assms(1,4,2,6,8) c(2)] that c(3) by blast
qed

lemma product_fits:
  fixes a b m n :: int
  assumes "0 \<le> a" "0 \<le> b" "a \<le> m" "b \<le> n" "m * n < k" and "0 \<le> a'" "0 \<le> b'" "a < k \<longrightarrow> a' = a" "b < k \<longrightarrow> b' = b"
  shows "a * b < k" "a' * b' = a * b"
proof -
  have "a * b \<le> m * n" using assms by (intro mult_mono) auto
  then show k: "a * b < k" using assms(5) by simp
  show "a' * b' = a * b"
  proof (cases "a = 0 \<or> b = 0")
    case True
    then show ?thesis using k assms(8,9) by auto
  next
    case False
    then have "a \<le> a * b" "b \<le> a * b" using assms(1,2) by (simp_all add: mult_le_cancel_left1 mult_le_cancel_right1)
    then show ?thesis using k assms(8,9) by simp
  qed
qed

lemma uint_unsigned: "uint_ty ty \<Longrightarrow> is_signed_int ns ty = Some False"
  by (auto simp: uint_ty_def signed_ty_def is_signed_int_def is_signed_int_fuel.simps elim!: is_int_cases)

lemma uint_width_bytes: "uint_ty ty \<Longrightarrow> width ty mod 8 = 0"
  by (auto simp: uint_ty_def signed_ty_def width_def elim!: is_int_cases)

context value_analysis
begin

text \<open>What the analysis knows of an operand.\<close>

lemma operand:
  assumes "vars_describe T vars env" "analysed args e" "wt T e" "expr_ty e = Some ty" "eval env args e = Some a"
    and "expression_values C ins vars ns e = Some vs"
  shows "0 \<le> a" "a < 2 ^ width ty" "a \<le> get_max_unsigned C vs"
    and "is_single_constant C vs = Some (Some c) \<Longrightarrow> 0 < c \<Longrightarrow> a = c"
proof -
  obtain b where b: "b \<in> set vs" "describes b (width ty) a" using expression_values_describe [OF assms] by blast
  show "0 \<le> a" "a < 2 ^ width ty" using describesD(4,5) [OF b(2)] by simp_all
  show "a \<le> get_max_unsigned C vs" using max_unsigned [OF b(2,1)] .
  have w: "width ty mod 8 = 0" by (rule uint_width_bytes [OF analysed_ty [OF assms(2,4)]])
  have ex: "\<exists>b \<in> set vs. describes b (width ty) a" using b by (rule bexI [rotated])
  show "a = c" if "is_single_constant C vs = Some (Some c)" "0 < c" by (rule single_constant [OF that(1) ex w that(2)])
qed

end

context value_analysis
begin

lemma reduce_multiply_sound:
  assumes vars: "vars_describe T vars env"
    and l: "analysed args l" "wt T l" "expr_ty l = Some ty" "eval env args l = Some a"
    and r: "analysed args r" "wt T r" "expr_ty r = Some ty" "eval env args r = Some b"
    and res: "reduce_multiply C ins vars loc ty overflowing l r ns = Some (e', ns')"
  shows "expr_ty e' = Some ty \<and> eval env args e' = checked ty overflowing (a * b)"
proof (cases "width ty < 128")
  case True
  then show ?thesis
    using res l r uint_bits [OF analysed_ty [OF l(1,3)]] by (auto simp: reduce_multiply_def Let_def)
next
  case False
  note ty = analysed_ty [OF l(1,3)]
  obtain ls rs c where v: "expression_values C ins vars ns l = Some ls" "expression_values C ins vars ns r = Some rs"
    "is_single_constant C rs = Some c"
    using res False uint_bits [OF ty] by (auto simp: reduce_multiply_def Let_def Option.bind_eq_Some_conv)
  note L = operand [OF vars l v(1)] and R = operand [OF vars r v(2)]
  show ?thesis
  proof (cases "\<exists>c' s. c = Some c' \<and> overflowing \<and> shift_loop (width ty - 1) c' 2 1 = Some s")
    case True
    then obtain c' s where s: "c = Some c'" "overflowing" "shift_loop (width ty - 1) c' 2 1 = Some s" by blast
    obtain j where j: "j < width ty - 1" "c' = 2 * 2 ^ j" "s = 1 + int j" using shift_loop_Some [OF s(3)] by blast
    have e': "e' = Expression.ShiftLeft loc ty l (Expression.NumberLiteral loc ty s)"
      using res False uint_bits [OF ty] v s by (auto simp: reduce_multiply_def Let_def Option.bind_eq_Some_conv)
    have "b = 2 ^ Suc j" using R(4) [of c'] v(3) s(1) j(2) by simp
    moreover have "nat s = Suc j" "0 \<le> s" "s < int (width ty)" using j by auto
    ultimately show ?thesis using l(4) s(2) by (simp add: e' checked_True)
  next
    case no_shift: False
    then have none: "(case c of Some c \<Rightarrow> if overflowing then shift_loop (width ty - 1) c 2 1 else None | None \<Rightarrow> None) = None"
      by (auto split: option.splits)
    show ?thesis
    proof (cases "get_max_unsigned C ls * get_max_unsigned C rs \<le> 2 ^ 64 - 1")
      case True
      then obtain ns0 e where e: "both_cast C (Type.Uint 64) (Expression.Multiply loc (Type.Uint 64) overflowing) l r ns0 = Some e"
        "e' = Expression.ZeroExt loc ty e"
        using res False uint_bits [OF ty] uint_unsigned [OF ty] v none
        by (auto simp: reduce_multiply_def Let_def Option.bind_eq_Some_conv)
      have w: "128 \<le> width ty" using False by simp
      obtain l' r' a' b' where c: "e = Expression.Multiply loc (Type.Uint 64) overflowing l' r'"
        "eval env args l' = Some a'" "eval env args r' = Some b'" "0 \<le> a'" "0 \<le> b'" "a < 2 ^ 64 \<longrightarrow> a' = a" "b < 2 ^ 64 \<longrightarrow> b' = b"
        by (rule both_cast_u64 [OF ty w l(3) r(3) l(4) r(4) L(1) R(1) e(1)])
      have k: "get_max_unsigned C ls * get_max_unsigned C rs < 2 ^ 64" using True by simp
      have p: "a * b < 2 ^ 64" "a' * b' = a * b" using product_fits [OF L(1) R(1) L(3) R(3) k c(4-7)] by simp_all
      have "0 \<le> a * b" using L(1) R(1) by simp
      then show ?thesis using c(1,2,3) p(2) wide_range [OF ty w _ p(1)] by (simp add: e(2) checked_def)
    next
      case wide: False
      then have "e' = Expression.Multiply loc ty overflowing l r"
        using res False uint_bits [OF ty] uint_unsigned [OF ty] v none
        by (auto simp: reduce_multiply_def Let_def Option.bind_eq_Some_conv)
      then show ?thesis using l r by simp
    qed
  qed
qed

end

lemma sdiv_div: "0 \<le> a \<Longrightarrow> 0 \<le> b \<Longrightarrow> a sdiv b = a div b" for a b :: int
  by (cases "a = 0"; cases "b = 0") (auto simp: signed_divide_int_def sgn_if)

lemma smod_mod: "0 \<le> a \<Longrightarrow> 0 \<le> b \<Longrightarrow> a smod b = a mod b" for a b :: int
  by (cases "a = 0") (auto simp: signed_modulo_int_def sdiv_div minus_div_mult_eq_mod sgn_if)

lemma and_power: "and a (2 ^ j - 1) = a mod 2 ^ j" for a :: int
  by (metis and_exp_eq_0_iff_not_bit mask_eq_exp_minus_1 take_bit_eq_mask take_bit_eq_mod)

context value_analysis
begin

text \<open>Both operands fit in 64 bits.\<close>

lemma operands_u64:
  assumes vars: "vars_describe T vars env" and ty: "128 \<le> width ty"
    and l: "analysed args l" "wt T l" "expr_ty l = Some ty" "eval env args l = Some a"
    and r: "analysed args r" "wt T r" "expr_ty r = Some ty" "eval env args r = Some b"
    and v: "expression_values C ins vars ns l = Some ls" "expression_values C ins vars ns r = Some rs"
    and "fits_u64 (get_max_unsigned C ls)" "fits_u64 (get_max_unsigned C rs)"
    and "both_cast C (Type.Uint 64) f l r ns0 = Some e"
  obtains l' r' where "e = f l' r'" "eval env args l' = Some a" "eval env args r' = Some b"
    "a < 2 ^ 64" "b < 2 ^ 64"
proof -
  note L = operand [OF vars l v(1)] and R = operand [OF vars r v(2)]
  have "a < 2 ^ 64" "b < 2 ^ 64" using L(3) R(3) assms(13,14) by (simp_all add: fits_u64_def)
  with both_cast_u64 [OF analysed_ty [OF l(1,3)] ty l(3) r(3) l(4) r(4) L(1) R(1) assms(15)] that show ?thesis by metis
qed

lemma reduce_divide_sound:
  assumes vars: "vars_describe T vars env"
    and l: "analysed args l" "wt T l" "expr_ty l = Some ty" "eval env args l = Some a"
    and r: "analysed args r" "wt T r" "expr_ty r = Some ty" "eval env args r = Some b"
    and res: "reduce_divide C ins vars loc ty l r (Expression.UnsignedDivide loc ty l r) ns = Some (e', ns')"
  shows "expr_ty e' = Some ty \<and> eval env args e' = (if b = 0 then None else Some (wrap ty (a sdiv b)))"
proof (cases "e' = Expression.UnsignedDivide loc ty l r")
  case True
  then show ?thesis using l(4) r(4) by simp
next
  case False
  note ty = analysed_ty [OF l(1,3)]
  then have w: "128 \<le> width ty" using res False uint_bits [OF ty] by (auto simp: reduce_divide_def split: if_splits)
  obtain ls rs c where v: "expression_values C ins vars ns l = Some ls" "expression_values C ins vars ns r = Some rs"
    "is_single_constant C rs = Some c"
    using res w uint_bits [OF ty] by (auto simp: reduce_divide_def Option.bind_eq_Some_conv)
  note L = operand [OF vars l v(1)] and R = operand [OF vars r v(2)]
  show ?thesis
  proof (cases "case c of Some c \<Rightarrow> shift_loop (width ty - 1) c 2 1 | None \<Rightarrow> None")
    case (Some s)
    then obtain c' where s: "c = Some c'" "shift_loop (width ty - 1) c' 2 1 = Some s" by (auto split: option.splits)
    obtain j where j: "j < width ty - 1" "c' = 2 * 2 ^ j" "s = 1 + int j" using shift_loop_Some [OF s(2)] by blast
    have e': "e' = Expression.ShiftRight loc ty l (Expression.NumberLiteral loc ty s) False"
      using res w uint_bits [OF ty] uint_unsigned [OF ty] v s by (auto simp: reduce_divide_def Option.bind_eq_Some_conv)
    have "b = 2 ^ Suc j" using R(4) [of c'] v(3) s(1) j(2) by simp
    moreover have "nat s = Suc j" "0 \<le> s" "s < int (width ty)" using j by auto
    ultimately show ?thesis using l(4) L(1) by (simp add: e' sdiv_div)
  next
    case None
    then obtain ns0 e where e: "both_cast C (Type.Uint 64) (Expression.UnsignedDivide loc (Type.Uint 64)) l r ns0 = Some e"
      "e' = Expression.ZeroExt loc ty e" and fits: "fits_u64 (get_max_unsigned C ls)" "fits_u64 (get_max_unsigned C rs)"
      using res False w uint_bits [OF ty] uint_unsigned [OF ty] v
      by (auto simp: reduce_divide_def Option.bind_eq_Some_conv split: if_splits)
    obtain l' r' where c: "e = Expression.UnsignedDivide loc (Type.Uint 64) l' r'" "eval env args l' = Some a"
      "eval env args r' = Some b" "a < 2 ^ 64" "b < 2 ^ 64"
      by (rule operands_u64 [OF vars w l r v(1,2) fits e(1)])
    have "0 \<le> a div b" "a div b < 2 ^ 64"
      using L(1) R(1) c(4) zdiv_mono2 [of a 1 b] by (cases "b = 0"; simp add: div_int_pos_iff)+
    then show ?thesis using c wide_range [OF ty w] L(1) R(1) by (simp add: e(2) sdiv_div)
  qed
qed

lemma reduce_modulo_sound:
  assumes vars: "vars_describe T vars env"
    and l: "analysed args l" "wt T l" "expr_ty l = Some ty" "eval env args l = Some a"
    and r: "analysed args r" "wt T r" "expr_ty r = Some ty" "eval env args r = Some b"
    and res: "reduce_modulo C ins vars loc ty l r (Expression.UnsignedModulo loc ty l r) ns = Some (e', ns')"
  shows "expr_ty e' = Some ty \<and> eval env args e' = (if b = 0 then None else Some (wrap ty (a smod b)))"
proof (cases "e' = Expression.UnsignedModulo loc ty l r")
  case True
  then show ?thesis using l(4) r(4) by simp
next
  case False
  note ty = analysed_ty [OF l(1,3)]
  then have w: "128 \<le> width ty" using res False uint_bits [OF ty] by (auto simp: reduce_modulo_def split: if_splits)
  obtain ls rs c where v: "expression_values C ins vars ns l = Some ls" "expression_values C ins vars ns r = Some rs"
    "is_single_constant C rs = Some c"
    using res w uint_bits [OF ty] by (auto simp: reduce_modulo_def Option.bind_eq_Some_conv)
  note L = operand [OF vars l v(1)] and R = operand [OF vars r v(2)]
  show ?thesis
  proof (cases "case c of Some c \<Rightarrow> power_loop (width ty - 1) c 1 | None \<Rightarrow> None")
    case (Some p)
    then obtain c' where s: "c = Some c'" "power_loop (width ty - 1) c' 1 = Some p" by (auto split: option.splits)
    obtain j where j: "p = c'" "c' = 2 ^ j" using power_loop_Some [OF s(2)] by auto
    have e': "e' = Expression.BitwiseAnd loc ty l (Expression.NumberLiteral loc ty (p - 1))"
      using res w uint_bits [OF ty] v s by (auto simp: reduce_modulo_def Option.bind_eq_Some_conv)
    have "b = 2 ^ j" using R(4) [of c'] v(3) s(1) j(2) by simp
    then show ?thesis using l(4) L(1) j by (simp add: e' smod_mod and_power)
  next
    case None
    then obtain ns0 e where e: "both_cast C (Type.Uint 64) (Expression.UnsignedModulo loc (Type.Uint 64)) l r ns0 = Some e"
      "e' = Expression.ZeroExt loc ty e" and fits: "fits_u64 (get_max_unsigned C ls)" "fits_u64 (get_max_unsigned C rs)"
      using res False w uint_bits [OF ty] uint_unsigned [OF ty] v
      by (auto simp: reduce_modulo_def Option.bind_eq_Some_conv split: if_splits)
    obtain l' r' where c: "e = Expression.UnsignedModulo loc (Type.Uint 64) l' r'" "eval env args l' = Some a"
      "eval env args r' = Some b" "a < 2 ^ 64" "b < 2 ^ 64"
      by (rule operands_u64 [OF vars w l r v(1,2) fits e(1)])
    have "0 \<le> a mod b" "a mod b < 2 ^ 64" if "b \<noteq> 0"
      using that L(1) R(1) c(5) pos_mod_sign [of b a] pos_mod_bound [of b a] by linarith+
    then show ?thesis using c wide_range [OF ty w] L(1) R(1) by (simp add: e(2) smod_mod)
  qed
qed

end

text \<open>
  C13: the values that strength reduction tracks for an expression cover its value. For every
  unsigned expression of the kinds the analysis treats soundly (literals, variables, arguments,
  sums, exclusive ors, checked products, widening and narrowing conversions, and operations that it
  does not look into), when the variables are covered, one of the tracked values has the
  expression's width, agrees with its value on all known bits, and its smallest and largest
  numbers enclose it.
\<close>

theorem expression_values_sound:
  assumes "bigint_crate C" "hash_set ins" and "vars_describe T vars env" "analysed args e" "wt T e"
    and "expr_ty e = Some ty" "eval env args e = Some x" and "expression_values C ins vars ns e = Some vs"
  shows "\<exists>v \<in> set vs. bit_width v = width ty \<and>
    (\<forall>i < width ty. bit (known_bits v) i \<longrightarrow> bit (bits_value v) i = bit x i) \<and>
    uint (get_unsigned_min_value v) \<le> x \<and> x \<le> uint (get_unsigned_max_value v)"
proof -
  have "value_analysis C ins" using assms(1,2) by (simp add: value_analysis_def)
  from value_analysis.expression_values_describe [OF this assms(3-8)]
  obtain v where v: "v \<in> set vs" "describes v (width ty) x" by blast
  then show ?thesis using describesD [OF v(2)] describes_bounds [OF v(2)] by blast
qed

text \<open>A variable that holds 2, and a 32 bit argument.\<close>

definition reduce_ns :: Namespace where
  "reduce_ns = \<lparr>target = Solana, enums = [], structs = [], contracts = [], user_types = [],
     address_length = 32, value_length = 8, diagnostics = \<lparr>contents = [], has_error = False\<rparr>, next_id = 0,
     var_constants = Map.empty, hover_overrides = Map.empty, strict_soroban_types = False\<rparr>"

abbreviation "wide \<equiv> Type.Uint 256"

abbreviation "two_vars \<equiv> [(0 :: nat, [\<lparr>known_bits = - 1, bits_value = 2, bit_width = 256\<rparr> :: BitValue])]"

abbreviation "two_ty \<equiv> (\<lambda>v :: nat. if v = 0 then wide else Type.Bool)"

abbreviation "flip_expr \<equiv> Expression.BitwiseXor Loc.Codegen wide
  (Expression.Variable Loc.Codegen wide 0)
  (Expression.ZeroExt Loc.Codegen wide (Expression.FunctionArg Loc.Codegen (Type.Uint 32) 0))"

abbreviation "double_expr \<equiv> Expression.Multiply Loc.Codegen wide False
  (Expression.Variable Loc.Codegen wide 0)
  (Expression.ZeroExt Loc.Codegen wide (Expression.FunctionArg Loc.Codegen (Type.Uint 32) 0))"

lemma two_describes: "vars_describe two_ty two_vars (\<lambda>_. 2)"
proof -
  have "describes \<lparr>known_bits = - 1, bits_value = 2, bit_width = 256\<rparr> 256 2"
    by (simp add: describes_def bit_numeral_iff numeral_2_eq_2 bit_simps)
  then show ?thesis by (auto simp: vars_describe_def uint_ty_def is_int_def width_def)
qed

lemma flip_premises:
  "analysed (\<lambda>_. 7) flip_expr" "wt two_ty flip_expr" "eval (\<lambda>_. 2) (\<lambda>_. 7) flip_expr = Some 5"
  by (simp_all add: uint_ty_def is_int_def in_range_def signed_ty_def width_def extends_def checked_def wrap_def
      take_bit_int_eq_self)

lemma flip_values: "\<exists>vs. expression_values crates_impl List.insert two_vars reduce_ns flip_expr = Some vs"
proof -
  have "map_option length (expression_values crates_impl List.insert two_vars reduce_ns flip_expr) = Some 1" by code_simp
  then show ?thesis by auto
qed

theorem expression_values_sound_witness:
  "\<exists>vs. expression_values crates_impl List.insert two_vars reduce_ns flip_expr = Some vs \<and>
     (\<exists>v \<in> set vs. bit_width v = 256 \<and> uint (get_unsigned_min_value v) \<le> 5 \<and> 5 \<le> uint (get_unsigned_max_value v))"
proof -
  obtain vs where vs: "expression_values crates_impl List.insert two_vars reduce_ns flip_expr = Some vs"
    using flip_values by blast
  have "expr_ty flip_expr = Some wide" by simp
  from expression_values_sound [OF impl.bigint_crate_axioms list_set.hash_set_axioms two_describes flip_premises(1,2) this
      flip_premises(3) vs]
  show ?thesis using vs by (auto simp: width_def)
qed

text \<open>
  C12: replacing a wide multiplication, division or remainder by a cheaper operation is correct for
  unsigned operands that the analysis covers. The replacement (a shift by a constant, a mask, or the
  same operation in 64 bits on truncated operands) has the type of the original expression and the
  same value, an absent value (the program stops on overflow or division by zero) included.
\<close>

theorem reduce_filter_sound:
  assumes "bigint_crate C" "hash_set ins" and "vars_describe T vars env"
    and "e \<in> {Expression.Multiply loc ty overflowing left right, Expression.UnsignedDivide loc ty left right,
      Expression.UnsignedModulo loc ty left right}"
    and "wt T e" "analysed args left" "analysed args right"
    and "eval env args left = Some a" "eval env args right = Some b"
    and "reduce_filter C ins vars e ns = Some (e', ns')"
  shows "expr_ty e' = Some ty \<and> eval env args e' = eval env args e"
proof -
  have v: "value_analysis C ins" using assms(1,2) by (simp add: value_analysis_def)
  have t: "wt T left" "wt T right" "expr_ty left = Some ty" "expr_ty right = Some ty" using assms(4,5) by auto
  note ops = assms(3,6) t(1,3) assms(8,7) t(2,4) assms(9)
  show ?thesis
    using assms(4,8,9,10) value_analysis.reduce_multiply_sound [OF v ops] value_analysis.reduce_divide_sound [OF v ops]
      value_analysis.reduce_modulo_sound [OF v ops]
    by (auto simp: reduce_filter_def)
qed

abbreviation "double_reduced \<equiv> Expression.ZeroExt Loc.Codegen wide
  (Expression.Multiply Loc.Codegen (Type.Uint 64) False
    (Expression.Trunc Loc.Codegen (Type.Uint 64) (Expression.Variable Loc.Codegen wide 0))
    (Expression.Trunc Loc.Codegen (Type.Uint 64)
      (Expression.ZeroExt Loc.Codegen wide (Expression.FunctionArg Loc.Codegen (Type.Uint 32) 0))))"

theorem reduce_filter_sound_witness:
  "\<exists>ns'. reduce_filter crates_impl List.insert two_vars double_expr reduce_ns = Some (double_reduced, ns') \<and>
     eval (\<lambda>_. 2) (\<lambda>_. 7) double_reduced = eval (\<lambda>_. 2) (\<lambda>_. 7) double_expr"
proof -
  have "map_option fst (reduce_filter crates_impl List.insert two_vars double_expr reduce_ns) = Some double_reduced" by code_simp
  then obtain ns' where run: "reduce_filter crates_impl List.insert two_vars double_expr reduce_ns = Some (double_reduced, ns')" by auto
  let ?l = "Expression.Variable Loc.Codegen wide 0"
  let ?r = "Expression.ZeroExt Loc.Codegen wide (Expression.FunctionArg Loc.Codegen (Type.Uint 32) 0)"
  have wt: "wt two_ty double_expr" using flip_premises(2) by simp
  have "analysed (\<lambda>_. 7) ?l" "analysed (\<lambda>_. 7) ?r" "eval (\<lambda>_. 2) (\<lambda>_. 7) ?l = Some 2" "eval (\<lambda>_. 2) (\<lambda>_. 7) ?r = Some 7"
    using flip_premises(1) by (auto simp: wrap_def signed_ty_def width_def take_bit_int_eq_self)
  from reduce_filter_sound [OF impl.bigint_crate_axioms list_set.hash_set_axioms two_describes _ wt this run, of Loc.Codegen wide False]
  show ?thesis using run by simp
qed

end
