(* ===== verification/StrengthErrors.thy ===== *)
theory StrengthErrors
  imports StrengthOps
begin

text \<open>
  Inputs on which strength reduction changes the value of an expression or misjudges a condition.
\<close>

section \<open>Values loaded from storage\<close>

text \<open>
  A block that loads a 256 bit number from storage, multiplies it by an argument and returns the
  product.
\<close>

abbreviation "scaled_expr \<equiv> Expression.Multiply Loc.Codegen wide True
  (Expression.Variable Loc.Codegen wide 0) (Expression.FunctionArg Loc.Codegen wide 0)"

definition scaled_cfg :: ControlFlowGraph where
  "scaled_cfg = placeholder\<lparr>cfg_blocks := [\<lparr>b_phis = None, b_name = ''entry'', b_instr =
     [Instr.LoadStorage 0 wide (Expression.NumberLiteral Loc.Codegen wide 0) None,
      Instr.Return [scaled_expr]],
     b_defs = [], b_loop_reaching_variables = {}, b_transfers = []\<rparr>]\<rparr>"

abbreviation "scaled_reduced \<equiv> Expression.ZeroExt Loc.Codegen wide
  (Expression.Multiply Loc.Codegen (Type.Uint 64) True
    (Expression.Trunc Loc.Codegen (Type.Uint 64) (Expression.Variable Loc.Codegen wide 0))
    (Expression.Trunc Loc.Codegen (Type.Uint 64) (Expression.FunctionArg Loc.Codegen wide 0)))"


section \<open>Signed division\<close>

abbreviation "half_expr \<equiv> Expression.SignedDivide Loc.Codegen (Type.Int 256)
  (Expression.FunctionArg Loc.Codegen (Type.Int 256) 0) (Expression.NumberLiteral Loc.Codegen (Type.Int 256) 2)"

abbreviation "half_reduced \<equiv> Expression.ShiftRight Loc.Codegen (Type.Int 256)
  (Expression.FunctionArg Loc.Codegen (Type.Int 256) 0) (Expression.NumberLiteral Loc.Codegen (Type.Int 256) 1) True"


section \<open>Conditions\<close>

abbreviation "more_expr \<equiv> Expression.More Loc.Codegen False
  (Expression.FunctionArg Loc.Codegen (Type.Uint 8) 0) (Expression.NumberLiteral Loc.Codegen (Type.Uint 8) 7)"

text \<open>
  The pass takes a comparison for true that may be false. The values of \<open>x > 7\<close> are the
  single known value true although the argument x is not known, because the largest value of x is
  compared with the smallest of 7; for x = 3 the condition is false, and the false branch is not
  visited.
\<close>

theorem comparison_misjudged:
  "expression_values crates_impl List.insert [] reduce_ns more_expr = Some [known_bool True True] \<and>
   eval (\<lambda>_. 0) (\<lambda>_. 3) more_expr = Some 0"
proof (intro conjI)
  show "expression_values crates_impl List.insert [] reduce_ns more_expr = Some [known_bool True True]" by code_simp
qed simp

end
