(* ===== verification/VectorSlice.thy ===== *)
theory VectorSlice
  imports ReachingSound Symtable
begin

text \<open>
  The vector to slice pass (\<open>src/codegen/vector_to_slice.rs\<close>): a byte string that is
  initialised from a constant and never written becomes a read-only slice. The pass runs on a graph
  with reaching definitions, collects the definitions whose referent may be written, and changes the
  type of the other allocations.

  A hash set of definitions is a list without duplicates; the order in which it is iterated is the
  parameter \<open>order\<close>. The symbol tables of the functions of the namespace are an argument.
\<close>

section \<open>The pass\<close>

type_synonym writable_state = "VarDefs \<times> Def set"

primrec slice_transfer :: "Transfer \<Rightarrow> writable_state \<Rightarrow> writable_state" where
  "slice_transfer (Kill var_no) st = (swap_remove var_no (fst st), snd st)"
| "slice_transfer (Mod var_no) st = (case map_of (fst st) var_no of
       Some entry \<Rightarrow> (AList.update var_no (map (\<lambda>(d, _). (d, True)) entry) (fst st), snd st \<union> fst ` set entry)
     | None \<Rightarrow> st)"
| "slice_transfer (Copy var_no src) st = (case map_of (fst st) src of
       Some defs \<Rightarrow> (AList.update var_no defs (fst st), snd st)
     | None \<Rightarrow> st)"
| "slice_transfer (Gen d var_no) st = (case map_of (fst st) var_no of
       Some entry \<Rightarrow> (AList.update var_no (AList.update d False entry) (fst st), snd st)
     | None \<Rightarrow> (AList.update var_no [(d, False)] (fst st), snd st))"

definition slice_transfers :: "Transfer list \<Rightarrow> writable_state \<Rightarrow> writable_state" where
  "slice_transfers transfers st = fold slice_transfer transfers st"

text \<open>An expression that is a variable makes the definitions of the variable writable.\<close>

definition extend_writable :: "Expression \<Rightarrow> writable_state \<Rightarrow> writable_state" where
  "extend_writable e st = (case e of
       Expression.Variable _ _ var_no \<Rightarrow> (case map_of (fst st) var_no of
           Some entry \<Rightarrow> (fst st, snd st \<union> fst ` set entry)
         | None \<Rightarrow> st)
     | _ \<Rightarrow> st)"

definition writable_instr :: "Instr \<Rightarrow> Transfer list \<Rightarrow> writable_state \<Rightarrow> writable_state" where
  "writable_instr instr transfers st = (case instr of
       Instr.Set _ res (Expression.Variable _ _ var_no) \<Rightarrow> (case map_of (fst st) var_no of
           Some defs \<Rightarrow>
             (let st = slice_transfers transfers st in (AList.update res defs (fst st), snd st))
         | None \<Rightarrow> slice_transfers transfers st)
     | Instr.Return args \<Rightarrow> slice_transfers transfers (fold extend_writable args st)
     | Instr.Call _ _ _ args \<Rightarrow> slice_transfers transfers (fold extend_writable args st)
     | Instr.PushMemory _ _ _ value \<Rightarrow> slice_transfers transfers (extend_writable value st)
     | Instr.Store _ data \<Rightarrow> slice_transfers transfers (extend_writable data st)
     | Instr.MemCopy _ destination _ \<Rightarrow> slice_transfers transfers (extend_writable destination st)
     | Instr.WriteBuffer buf _ _ \<Rightarrow> slice_transfers transfers (extend_writable buf st)
     | _ \<Rightarrow> slice_transfers transfers st)"

fun find_writable_vectors :: "BasicBlock \<Rightarrow> nat list \<Rightarrow> writable_state \<Rightarrow> writable_state option" where
  "find_writable_vectors block [] st = Some st"
| "find_writable_vectors block (instr_no # rest) st = do {
     instr \<leftarrow> vec_get (b_instr block) instr_no;
     transfers \<leftarrow> vec_get (b_transfers block) instr_no;
     find_writable_vectors block rest (writable_instr instr transfers st) }"

fun find_writable :: "BasicBlock list \<Rightarrow> Def set \<Rightarrow> Def set option" where
  "find_writable [] writable = Some writable"
| "find_writable (block # blocks) writable = do {
     (_, writable) \<leftarrow> find_writable_vectors block [0 ..< length (b_instr block)] (b_defs block, writable);
     find_writable blocks writable }"

definition instr_def :: "nat \<Rightarrow> nat \<Rightarrow> Def" where
  "instr_def block_no instr_no = \<lparr>def_block_no = block_no, def_instr_no = instr_no, def_assignment_no = 0\<rparr>"

definition is_alloc :: "Instr \<Rightarrow> bool" where
  "is_alloc instr = (case instr of Instr.Set _ _ (Expression.AllocDynamicBytes _ _ _ _) \<Rightarrow> True | _ \<Rightarrow> False)"

definition slice_candidates :: "Def set \<Rightarrow> BasicBlock list \<Rightarrow> Def list" where
  "slice_candidates writable blocks = concat (map (\<lambda>(block_no, block).
     map (\<lambda>(instr_no, _). instr_def block_no instr_no)
       (filter (\<lambda>(instr_no, instr). is_alloc instr \<and> instr_def block_no instr_no \<notin> writable)
         (enumerate 0 (b_instr block)))) (enumerate 0 blocks))"

definition phi_update :: "VarDefs \<Rightarrow> nat \<Rightarrow> Def list \<Rightarrow> Def list" where
  "phi_update defs phi updated = (case map_of defs phi of
       Some ds \<Rightarrow>
         if \<exists>(d, _) \<in> set ds. d \<notin> set updated then filter (\<lambda>d. d \<notin> fst ` set ds) updated else updated
     | None \<Rightarrow> updated)"

definition block_phis :: "BasicBlock \<Rightarrow> Def list \<Rightarrow> Def list" where
  "block_phis block updated = (case b_phis block of
       Some phis \<Rightarrow> fold (phi_update (b_defs block)) (sorted_list_of_set phis) updated
     | None \<Rightarrow> updated)"

type_synonym function_vars = "(nat, SymVariable) index_map list"

definition mark_slice :: "ASTFunction \<Rightarrow> nat \<Rightarrow> function_vars \<Rightarrow> function_vars option" where
  "mark_slice function_no res functions = (case function_no of
       SolidityFunction n \<Rightarrow> do {
         vars \<leftarrow> vec_get functions n;
         Some (functions[n := (case map_of vars res of
             Some var \<Rightarrow> AList.update res (var\<lparr>sv_slice := True\<rparr>) vars
           | None \<Rightarrow> vars)]) }
     | _ \<Rightarrow> Some functions)"

definition to_slice :: "Instr \<Rightarrow> (nat \<times> Instr) option" where
  "to_slice instr = (case instr of
       Instr.Set loc res (Expression.AllocDynamicBytes _ _ len (Some bs)) \<Rightarrow>
         Some (res, Instr.Set loc res (Expression.AllocDynamicBytes loc (Type.Slice (Type.Bytes 1)) len (Some bs)))
     | _ \<Rightarrow> None)"

fun retype_defs :: "Def list \<Rightarrow> ControlFlowGraph \<times> function_vars \<Rightarrow> (ControlFlowGraph \<times> function_vars) option" where
  "retype_defs [] st = Some st"
| "retype_defs (d # ds) (cfg, functions) = do {
     block \<leftarrow> vec_get (cfg_blocks cfg) (def_block_no d);
     instr \<leftarrow> vec_get (b_instr block) (def_instr_no d);
     (case to_slice instr of
        Some (res, instr') \<Rightarrow> do {
          functions \<leftarrow> mark_slice (cfg_function_no cfg) res functions;
          retype_defs ds
            (cfg\<lparr>cfg_blocks := (cfg_blocks cfg)[def_block_no d := block\<lparr>b_instr := (b_instr block)[def_instr_no d := instr']\<rparr>]\<rparr>,
             functions) }
      | None \<Rightarrow> retype_defs ds (cfg, functions)) }"

definition update_vectors_to_slice ::
  "(Def list \<Rightarrow> Def list) \<Rightarrow> Def set \<Rightarrow> ControlFlowGraph \<Rightarrow> function_vars \<Rightarrow> (ControlFlowGraph \<times> function_vars) option" where
  "update_vectors_to_slice order writable cfg functions =
     retype_defs (order (fold block_phis (cfg_blocks cfg) (slice_candidates writable (cfg_blocks cfg)))) (cfg, functions)"

definition vector_to_slice ::
  "(Def list \<Rightarrow> Def list) \<Rightarrow> ControlFlowGraph \<Rightarrow> function_vars \<Rightarrow> (ControlFlowGraph \<times> function_vars) option" where
  "vector_to_slice order cfg functions = do {
     writable \<leftarrow> find_writable (cfg_blocks cfg) {};
     update_vectors_to_slice order writable cfg functions }"

section \<open>What the pass takes for writable\<close>

lemma fst_slice_transfer: "fst (slice_transfer t st) = apply_transfer t (fst st)"
  by (cases t) (auto split: option.splits)

lemma fst_slice_transfers [simp]: "fst (slice_transfers ts st) = apply_transfers ts (fst st)"
  unfolding slice_transfers_def apply_transfers_def by (induction ts arbitrary: st) (simp_all add: fst_slice_transfer)

lemma slice_transfer_mono: "snd st \<subseteq> snd (slice_transfer t st)"
  by (cases t) (auto split: option.splits)

lemma slice_transfers_mono: "snd st \<subseteq> snd (slice_transfers ts st)"
  unfolding slice_transfers_def
proof (induction ts arbitrary: st)
  case (Cons t ts)
  show ?case using subset_trans [OF slice_transfer_mono [of st t] Cons [of "slice_transfer t st"]] by (simp only: fold.simps comp_apply)
qed simp

lemma slice_transfers_append: "slice_transfers (ts @ us) st = slice_transfers us (slice_transfers ts st)"
  by (simp add: slice_transfers_def)

lemma slice_Mod: "has (fst st) v d \<Longrightarrow> d \<in> snd (slice_transfers [Mod v] st)"
  by (auto simp: slice_transfers_def has_def split: option.splits)

lemma fst_extend_writable [simp]: "fst (extend_writable e st) = fst st"
  by (cases e) (simp_all add: extend_writable_def split: option.splits)

lemma extend_writable_mono: "snd st \<subseteq> snd (extend_writable e st)"
  by (cases e) (auto simp: extend_writable_def split: option.splits)

lemma extend_writable_all: "fst (fold extend_writable es st) = fst st \<and> snd st \<subseteq> snd (fold extend_writable es st)"
proof (induction es arbitrary: st)
  case (Cons e es)
  have "snd (extend_writable e st) \<subseteq> snd (fold extend_writable es (extend_writable e st))" using Cons by blast
  with extend_writable_mono [of st e] have "snd st \<subseteq> snd (fold extend_writable es (extend_writable e st))" by (rule subset_trans)
  then show ?case using Cons by simp
qed simp

lemmas extend_writable_fst = conjunct1 [OF extend_writable_all] and extend_writable_snd = conjunct2 [OF extend_writable_all]

text \<open>The variable an expression stands for.\<close>

definition var_of :: "Expression \<Rightarrow> nat set" where
  "var_of e = (case e of Expression.Variable _ _ v \<Rightarrow> {v} | _ \<Rightarrow> {})"

lemma extend_writable_has: "v \<in> var_of e \<Longrightarrow> has (fst st) v d \<Longrightarrow> d \<in> snd (extend_writable e st)"
  by (cases e) (auto simp: var_of_def extend_writable_def has_def split: option.splits)

lemma extend_writable_all_has:
  "e \<in> set es \<Longrightarrow> v \<in> var_of e \<Longrightarrow> has (fst st) v d \<Longrightarrow> d \<in> snd (fold extend_writable es st)"
proof (induction es arbitrary: st)
  case (Cons x es)
  show ?case
  proof (cases "e = x")
    case True
    then show ?thesis using extend_writable_has [OF Cons.prems(2,3)] extend_writable_snd [of "extend_writable x st" es]
      by (simp add: subset_iff)
  next
    case False
    then show ?thesis using Cons.IH [of "extend_writable x st"] Cons.prems by simp
  qed
qed simp

text \<open>
  The variables through which an instruction writes memory, or that it hands to code that may write
  (other functions, the caller, other objects).
\<close>

definition written_through :: "Instr \<Rightarrow> nat set" where
  "written_through instr = (case instr of
       Instr.Store dest data \<Rightarrow> set_option (array_var dest) \<union> var_of data
     | Instr.PushMemory res _ array value \<Rightarrow> ({array} - {res}) \<union> var_of value
     | Instr.PopMemory _ _ array _ \<Rightarrow> {array}
     | Instr.Return args \<Rightarrow> \<Union> (var_of ` set args)
     | Instr.Call _ _ _ args \<Rightarrow> \<Union> (var_of ` set args)
     | Instr.MemCopy _ destination _ \<Rightarrow> var_of destination
     | Instr.WriteBuffer buf _ _ \<Rightarrow> var_of buf
     | _ \<Rightarrow> {})"

lemma writable_instr_mono: "snd st \<subseteq> snd (writable_instr instr ts st)"
proof -
  note m = slice_transfers_mono [of st ts] subset_trans [OF extend_writable_mono slice_transfers_mono]
    subset_trans [OF extend_writable_snd slice_transfers_mono]
  show ?thesis
  proof (cases instr)
    case (Set loc res e)
    then show ?thesis using m(1) by (cases e) (simp_all add: writable_instr_def Let_def split: option.splits)
  qed (use m in \<open>simp_all add: writable_instr_def\<close>)
qed

lemma writable_instr_vars:
  assumes "wf_defs (fst st)"
  shows "wf_defs (fst (writable_instr instr ts st))"
proof -
  note w = wf_apply_transfers [OF assms, of ts]
  show ?thesis
  proof (cases instr)
    case (Set loc res e)
    then show ?thesis using w wf_defs_update [OF w] wf_defs_lookup [OF assms]
      by (cases e) (auto simp: writable_instr_def Let_def split: option.splits)
  qed (use w in \<open>simp_all add: writable_instr_def extend_writable_fst\<close>)
qed

lemma writable_instr_covers:
  assumes "tracked instr" "wf_defs (fst st)" "covers (fst st) org"
  shows "covers (fst (writable_instr instr (instr_transfer b i instr) st)) (origin_instr b i instr org)"
proof -
  note c = covers_instr [OF assms, of b i]
  show ?thesis
  proof (cases instr)
    case (Set loc res e)
    show ?thesis
    proof (cases e)
      case (Variable l t src)
      show ?thesis
      proof (cases "map_of (fst st) src")
        case None
        then show ?thesis using c Set Variable by (simp add: writable_instr_def)
      next
        case (Some defs)
        then have "org src = Some d \<Longrightarrow> d \<in> fst ` set defs" for d using assms(3) by (fastforce simp: covers_def has_def)
        then show ?thesis using c Set Variable Some
          by (auto simp: writable_instr_def Let_def covers_def has_update origin_instr_def)
      qed
    qed (use c Set in \<open>simp_all add: writable_instr_def\<close>)
  qed (use c in \<open>simp_all add: writable_instr_def extend_writable_fst\<close>)
qed

lemma writable_instr_written:
  assumes "wf_defs (fst st)" "v \<in> written_through instr" "has (fst st) v d"
  shows "d \<in> snd (writable_instr instr (instr_transfer b i instr) st)"
proof -
  have later: "d \<in> snd s \<Longrightarrow> d \<in> snd (slice_transfers ts s)" for s ts using slice_transfers_mono by blast
  have arr: "d \<in> snd (slice_transfers [Mod v] s)" if "fst s = fst st" for s using slice_Mod [of s v d] assms(3) that by simp
  show ?thesis
  proof (cases instr)
    case (Store dest data)
    then show ?thesis using assms(2) later [OF extend_writable_has [OF _ assms(3)], of data] arr [of "extend_writable data st"]
      by (auto simp: written_through_def writable_instr_def instr_transfer_def mod_var_def)
  next
    case (PushMemory res ty array val)
    consider "v \<in> var_of val" | "v = array" "array \<noteq> res" using assms(2) PushMemory by (auto simp: written_through_def)
    then show ?thesis
    proof cases
      case 1
      then show ?thesis using PushMemory later [OF extend_writable_has [OF 1 assms(3)]] by (simp add: writable_instr_def)
    next
      case 2
      have "has (apply_transfers (set_var b i [res]) (fst st)) v d" using 2 assms(3) has_set_var [OF assms(1)] by simp
      then show ?thesis using PushMemory slice_Mod [of "slice_transfers (set_var b i [res]) (extend_writable val st)" v d] 2
        by (simp add: writable_instr_def instr_transfer_def slice_transfers_append)
    qed
  next
    case (Return args)
    then show ?thesis using assms(2) later [OF extend_writable_all_has [of _ args, OF _ _ assms(3)]]
      by (auto simp: written_through_def writable_instr_def)
  next
    case (Call res tys call args)
    then show ?thesis using assms(2) later [OF extend_writable_all_has [of _ args, OF _ _ assms(3)]]
      by (auto simp: written_through_def writable_instr_def)
  qed (use assms(2) later extend_writable_has [OF _ assms(3)] arr [of st] in
      \<open>auto simp: written_through_def writable_instr_def instr_transfer_def\<close>)
qed

section \<open>Whole blocks\<close>

lemma find_writable_vectors_eq:
  "list_all (\<lambda>i. i < length (b_instr block) \<and> i < length (b_transfers block)) is \<Longrightarrow>
   find_writable_vectors block is st =
     Some (fold (\<lambda>i. writable_instr (b_instr block ! i) (b_transfers block ! i)) is st)"
  by (induction "is" arbitrary: st) (simp_all add: vec_get_def)

lemma fold_writable_mono:
  "snd st \<subseteq> snd (fold (\<lambda>i. writable_instr (f i) (g i)) is st)"
proof (induction "is" arbitrary: st)
  case (Cons i "is")
  show ?case using subset_trans [OF writable_instr_mono [of st "f i" "g i"] Cons [of "writable_instr (f i) (g i) st"]] by simp
qed simp

text \<open>The origins before the instruction \<open>i\<close> of a block.\<close>

definition origin_at :: "nat \<Rightarrow> BasicBlock \<Rightarrow> nat \<Rightarrow> origin \<Rightarrow> origin" where
  "origin_at b block i org = fold (\<lambda>i. origin_instr b i (b_instr block ! i)) [0 ..< i] org"

lemma writable_block:
  assumes "\<forall>ins \<in> set (b_instr block). tracked ins" "wf_defs (fst st)" "covers (fst st) org"
    and "b_transfers block = instr_transfers b block" "n \<le> length (b_instr block)"
  shows "covers (fst (fold (\<lambda>i. writable_instr (b_instr block ! i) (b_transfers block ! i)) [0 ..< n] st)) (origin_at b block n org) \<and>
    wf_defs (fst (fold (\<lambda>i. writable_instr (b_instr block ! i) (b_transfers block ! i)) [0 ..< n] st))"
  using assms(5)
proof (induction n)
  case 0
  then show ?case using assms(2,3) by (simp add: origin_at_def)
next
  case (Suc n)
  have "b_transfers block ! n = instr_transfer b n (b_instr block ! n)"
    using Suc.prems by (simp add: assms(4) instr_transfers_def nth_enumerate_eq)
  then show ?case using Suc writable_instr_covers [of "b_instr block ! n"] writable_instr_vars assms(1)
    by (simp add: origin_at_def)
qed

lemma writable_block_written:
  assumes "\<forall>ins \<in> set (b_instr block). tracked ins" "wf_defs (b_defs block)" "covers (b_defs block) org"
    and "b_transfers block = instr_transfers b block" "i < length (b_instr block)"
    and "v \<in> written_through (b_instr block ! i)" "origin_at b block i org v = Some d"
    and run: "find_writable_vectors block [0 ..< length (b_instr block)] (b_defs block, W) = Some (vars, W')"
  shows "d \<in> W'"
proof -
  let ?f = "\<lambda>i. writable_instr (b_instr block ! i) (b_transfers block ! i)"
  let ?st = "fold ?f [0 ..< i] (b_defs block, W)"
  have len: "length (b_transfers block) = length (b_instr block)" by (simp add: assms(4) instr_transfers_def)
  have "[0 ..< length (b_instr block)] = [0 ..< i] @ i # [Suc i ..< length (b_instr block)]"
    using assms(5) by (metis upt_add_eq_append upt_conv_Cons less_imp_add_positive less_imp_le_nat le_add_diff_inverse zero_le)
  moreover have "fold ?f [0 ..< length (b_instr block)] (b_defs block, W) = (vars, W')"
    using run find_writable_vectors_eq [of block "[0 ..< length (b_instr block)]"] len by (simp add: list_all_iff)
  ultimately have run': "(vars, W') = fold ?f [Suc i ..< length (b_instr block)] (?f i ?st)"
    by (simp only: fold_append fold.simps comp_apply)
  have c: "covers (fst ?st) (origin_at b block i org)" "wf_defs (fst ?st)"
    using writable_block [OF assms(1) _ _ assms(4), of "(b_defs block, W)" org i] assms(2,3,5) by simp_all
  have "b_transfers block ! i = instr_transfer b i (b_instr block ! i)"
    using assms(5) by (simp add: assms(4) instr_transfers_def nth_enumerate_eq)
  then have "d \<in> snd (?f i ?st)"
    using writable_instr_written [of ?st v "b_instr block ! i" d b i] assms(6,7) c by (simp add: covers_def)
  then show ?thesis
    using fold_writable_mono [of "?f i ?st" "\<lambda>i. b_instr block ! i" "\<lambda>i. b_transfers block ! i" "[Suc i ..< length (b_instr block)]"]
    unfolding run' [symmetric] by auto
qed

lemma find_writable_vectors_grows:
  assumes "find_writable_vectors block is (vars, W) = Some (vars', W')"
  shows "W \<subseteq> W'"
  using assms
proof (induction "is" arbitrary: vars W)
  case (Cons i "is")
  then obtain ins ts where "find_writable_vectors block is (writable_instr ins ts (vars, W)) = Some (vars', W')"
    by (auto simp: Option.bind_eq_Some_conv)
  then show ?case using Cons.IH [of "fst (writable_instr ins ts (vars, W))" "snd (writable_instr ins ts (vars, W))"]
      writable_instr_mono [of "(vars, W)" ins ts] by auto
qed simp

lemma find_writable_grows: "find_writable blocks W = Some W' \<Longrightarrow> W \<subseteq> W'"
  by (induction blocks arbitrary: W) (auto simp: Option.bind_eq_Some_conv dest!: find_writable_vectors_grows)

lemma find_writable_block:
  assumes "find_writable blocks W = Some W'" "b < length blocks"
  shows "\<exists>W1 vars W2. find_writable_vectors (blocks ! b) [0 ..< length (b_instr (blocks ! b))] (b_defs (blocks ! b), W1) = Some (vars, W2) \<and> W2 \<subseteq> W'"
  using assms
proof (induction blocks arbitrary: W b)
  case (Cons block blocks)
  then obtain vars W2 where r: "find_writable_vectors block [0 ..< length (b_instr block)] (b_defs block, W) = Some (vars, W2)"
    "find_writable blocks W2 = Some W'" by (auto simp: Option.bind_eq_Some_conv)
  show ?case
  proof (cases b)
    case 0
    then show ?thesis using r find_writable_grows [OF r(2)] by auto
  next
    case (Suc n)
    then show ?thesis using Cons.IH [OF r(2)] Cons.prems(2) by simp
  qed
qed simp

section \<open>The instructions that change\<close>

lemma block_candidates_iff:
  "d \<in> set (map (\<lambda>(i, _). instr_def b i) (filter (\<lambda>(i, instr). P i instr) (enumerate 0 xs))) \<longleftrightarrow>
    (\<exists>i < length xs. P i (xs ! i) \<and> d = instr_def b i)"
proof
  assume "\<exists>i < length xs. P i (xs ! i) \<and> d = instr_def b i"
  then obtain i where i: "i < length xs" "P i (xs ! i)" "d = instr_def b i" by blast
  then have "(i, xs ! i) \<in> set (filter (\<lambda>(i, instr). P i instr) (enumerate 0 xs))" by (simp add: in_set_enumerate_eq)
  from imageI [OF this, of "\<lambda>(i, _). instr_def b i"] i(3)
  show "d \<in> set (map (\<lambda>(i, _). instr_def b i) (filter (\<lambda>(i, instr). P i instr) (enumerate 0 xs)))" by simp
qed (auto simp: in_set_enumerate_eq)

lemma slice_candidates_iff:
  "d \<in> set (slice_candidates W blocks) \<longleftrightarrow>
    (\<exists>b < length blocks. \<exists>i < length (b_instr (blocks ! b)). (is_alloc (b_instr (blocks ! b) ! i) \<and> instr_def b i \<notin> W) \<and> d = instr_def b i)"
  unfolding slice_candidates_def set_concat set_map [of _ "enumerate 0 blocks"] set_enumerate image_image UN_iff
    prod.case block_candidates_iff Bex_def lessThan_iff by blast

lemma phi_update_subset: "set (phi_update defs phi upd) \<subseteq> set upd"
  by (auto simp: phi_update_def split: option.splits)

lemma fold_phi_update_subset: "set (fold (phi_update defs) phis upd) \<subseteq> set upd"
  by (induction phis arbitrary: upd) (use phi_update_subset in \<open>fastforce+\<close>)

lemma block_phis_subset: "set (block_phis block upd) \<subseteq> set upd"
  using fold_phi_update_subset by (simp add: block_phis_def split: option.splits)

lemma fold_block_phis_subset: "set (fold block_phis blocks upd) \<subseteq> set upd"
  by (induction blocks arbitrary: upd) (use block_phis_subset in \<open>fastforce+\<close>)

definition slice_of :: "Instr \<Rightarrow> Instr" where
  "slice_of instr = (case to_slice instr of Some (_, instr') \<Rightarrow> instr' | None \<Rightarrow> instr)"

lemma to_slice_Some:
  "to_slice instr = Some (res, instr') \<longleftrightarrow> (\<exists>loc l ty len bs. instr = Instr.Set loc res (Expression.AllocDynamicBytes l ty len (Some bs)) \<and>
     instr' = Instr.Set loc res (Expression.AllocDynamicBytes loc (Type.Slice (Type.Bytes 1)) len (Some bs)))"
proof (cases instr)
  case (Set loc r e)
  then show ?thesis by (cases e) (auto simp: to_slice_def split: option.splits)
qed (simp_all add: to_slice_def)

lemma is_alloc_iff: "is_alloc instr \<longleftrightarrow> (\<exists>loc res l ty len bs. instr = Instr.Set loc res (Expression.AllocDynamicBytes l ty len bs))"
proof (cases instr)
  case (Set loc r e)
  then show ?thesis by (cases e) (simp_all add: is_alloc_def)
qed (simp_all add: is_alloc_def)

lemma slice_of_idem [simp]: "slice_of (slice_of instr) = slice_of instr"
proof (cases "to_slice instr")
  case (Some p)
  then show ?thesis by (cases p) (auto simp: slice_of_def to_slice_Some, simp add: to_slice_def)
qed (simp add: slice_of_def)

definition retyped :: "(nat \<Rightarrow> nat \<Rightarrow> bool) \<Rightarrow> BasicBlock list \<Rightarrow> BasicBlock list" where
  "retyped P blocks = map (\<lambda>(b, block). block\<lparr>b_instr :=
     map (\<lambda>(i, instr). if P b i then slice_of instr else instr) (enumerate 0 (b_instr block))\<rparr>) (enumerate 0 blocks)"

lemma length_retyped [simp]: "length (retyped P blocks) = length blocks"
  by (simp add: retyped_def)

lemma nth_retyped: "b < length blocks \<Longrightarrow> retyped P blocks ! b =
   (blocks ! b)\<lparr>b_instr := map (\<lambda>(i, instr). if P b i then slice_of instr else instr) (enumerate 0 (b_instr (blocks ! b)))\<rparr>"
  by (simp add: retyped_def nth_enumerate_eq)

lemma retyped_instr:
  "b < length blocks \<Longrightarrow> i < length (b_instr (blocks ! b)) \<Longrightarrow>
   b_instr (retyped P blocks ! b) ! i = (if P b i then slice_of (b_instr (blocks ! b) ! i) else b_instr (blocks ! b) ! i)"
  by (simp add: nth_retyped nth_enumerate_eq)

lemma retyped_none: "retyped (\<lambda>_ _. False) blocks = blocks"
  by (rule nth_equalityI) (simp_all add: nth_retyped case_prod_unfold)

lemma retyped_twice: "retyped P (retyped Q blocks) = retyped (\<lambda>b i. P b i \<or> Q b i) blocks"
proof (rule nth_equalityI)
  fix b assume "b < length (retyped P (retyped Q blocks))"
  then have b: "b < length blocks" by simp
  have "map (\<lambda>(i, instr). if P b i then slice_of instr else instr)
      (enumerate 0 (map (\<lambda>(i, instr). if Q b i then slice_of instr else instr) (enumerate 0 (b_instr (blocks ! b))))) =
    map (\<lambda>(i, instr). if P b i \<or> Q b i then slice_of instr else instr) (enumerate 0 (b_instr (blocks ! b)))"
    by (auto simp: nth_enumerate_eq intro!: nth_equalityI)
  then show "retyped P (retyped Q blocks) ! b = retyped (\<lambda>b i. P b i \<or> Q b i) blocks ! b" using b by (simp add: nth_retyped)
qed simp

lemma retyped_once:
  assumes "b < length blocks" "i < length (b_instr (blocks ! b))"
  shows "blocks[b := (blocks ! b)\<lparr>b_instr := (b_instr (blocks ! b))[i := slice_of (b_instr (blocks ! b) ! i)]\<rparr>] =
    retyped (\<lambda>b' i'. b' = b \<and> i' = i) blocks"
proof (rule nth_equalityI)
  fix b' assume "b' < length (blocks[b := (blocks ! b)\<lparr>b_instr := (b_instr (blocks ! b))[i := slice_of (b_instr (blocks ! b) ! i)]\<rparr>])"
  then have b': "b' < length blocks" by simp
  have "(b_instr (blocks ! b))[i := slice_of (b_instr (blocks ! b) ! i)] =
      map (\<lambda>(j, instr). if j = i then slice_of instr else instr) (enumerate 0 (b_instr (blocks ! b)))"
    using assms(2) by (auto intro!: nth_equalityI simp: nth_enumerate_eq nth_list_update)
  then show "blocks[b := (blocks ! b)\<lparr>b_instr := (b_instr (blocks ! b))[i := slice_of (b_instr (blocks ! b) ! i)]\<rparr>] ! b' =
      retyped (\<lambda>b' i'. b' = b \<and> i' = i) blocks ! b'"
    using b' by (cases "b' = b") (simp_all add: nth_retyped case_prod_unfold)
qed simp

lemma retype_defs_eq:
  assumes "retype_defs ds (cfg, fns) = Some (cfg', fns')"
  shows "cfg' = cfg\<lparr>cfg_blocks := retyped (\<lambda>b i. \<exists>d \<in> set ds. def_block_no d = b \<and> def_instr_no d = i) (cfg_blocks cfg)\<rparr>"
  using assms
proof (induction ds arbitrary: cfg fns)
  case Nil
  then show ?case by (simp add: retyped_none)
next
  case (Cons d ds)
  let ?b = "def_block_no d" and ?i = "def_instr_no d"
  let ?cfg = "cfg\<lparr>cfg_blocks := retyped (\<lambda>b i. b = ?b \<and> i = ?i) (cfg_blocks cfg)\<rparr>"
  have len: "?b < length (cfg_blocks cfg)" "?i < length (b_instr (cfg_blocks cfg ! ?b))"
    using Cons.prems by (auto simp: Option.bind_eq_Some_conv vec_get_Some)
  have "\<exists>fns. retype_defs ds (?cfg, fns) = Some (cfg', fns')"
  proof (cases "to_slice (b_instr (cfg_blocks cfg ! ?b) ! ?i)")
    case None
    then have "slice_of (b_instr (cfg_blocks cfg ! ?b) ! ?i) = b_instr (cfg_blocks cfg ! ?b) ! ?i" by (simp add: slice_of_def)
    then have "?cfg = cfg" using retyped_once [OF len] by simp
    then show ?thesis using Cons.prems None len by (auto simp: Option.bind_eq_Some_conv vec_get_Some)
  next
    case (Some p)
    obtain res ins where p: "p = (res, ins)" by fastforce
    have "slice_of (b_instr (cfg_blocks cfg ! ?b) ! ?i) = ins" by (simp add: slice_of_def Some p)
    then show ?thesis using Cons.prems Some p retyped_once [OF len] len
      by (auto simp: Option.bind_eq_Some_conv vec_get_Some)
  qed
  then obtain fs where "retype_defs ds (?cfg, fs) = Some (cfg', fns')" by blast
  from Cons.IH [OF this] show ?case
    by (simp add: retyped_twice disj_commute eq_commute [of "def_block_no d"] eq_commute [of "def_instr_no d"])
qed

section \<open>Safety\<close>

text \<open>An origin names an instruction of the graph that writes the variable.\<close>

definition writes_at :: "BasicBlock list \<Rightarrow> Def \<Rightarrow> bool" where
  "writes_at blocks d \<longleftrightarrow> def_block_no d < length blocks \<and> def_instr_no d < length (b_instr (blocks ! def_block_no d)) \<and>
     def_assignment_no d < length (written (b_instr (blocks ! def_block_no d) ! def_instr_no d))"

lemma origin_instr_cases:
  assumes "origin_instr b i ins org v = Some d"
  shows "(\<exists>v'. org v' = Some d) \<or> assign b i (written ins) org v = Some d"
proof (cases ins)
  case (Set loc res e)
  then show ?thesis using assms by (cases e) (auto simp: origin_instr_def split: if_splits)
qed (use assms in \<open>simp_all add: origin_instr_def\<close>)

lemma origin_instr_writes:
  assumes "\<forall>v d. org v = Some d \<longrightarrow> writes_at blocks d" "b < length blocks" "i < length (b_instr (blocks ! b))"
    and "origin_instr b i (b_instr (blocks ! b) ! i) org v = Some d"
  shows "writes_at blocks d"
proof -
  consider v' where "org v' = Some d" | "assign b i (written (b_instr (blocks ! b) ! i)) org v = Some d"
    using origin_instr_cases [OF assms(4)] by blast
  then show ?thesis
  proof cases
    case 2
    from assign_Some [OF this] show ?thesis using assms(1-3) by (auto simp: writes_at_def)
  qed (use assms(1) in blast)
qed

lemma origin_at_writes:
  assumes "\<forall>v d. org v = Some d \<longrightarrow> writes_at blocks d" "b < length blocks" "n \<le> length (b_instr (blocks ! b))"
    and "origin_at b (blocks ! b) n org v = Some d"
  shows "writes_at blocks d"
  using assms(3,4)
proof (induction n arbitrary: v d)
  case (Suc n)
  then show ?case using origin_instr_writes [of "origin_at b (blocks ! b) n org" blocks b n v d] assms(2)
    by (simp add: origin_at_def)
qed (use assms(1) in \<open>simp add: origin_at_def\<close>)

lemma origin_at_end: "origin_at b block (length (b_instr block)) org = origin_block b block org"
proof -
  have e: "enumerate 0 (b_instr block) = map (\<lambda>i. (i, b_instr block ! i)) [0 ..< length (b_instr block)]"
    by (rule nth_equalityI) (simp_all add: nth_enumerate_eq)
  show ?thesis unfolding origin_at_def origin_block_def e by (simp add: fold_map comp_def)
qed

lemma reaches_writes: "reaches blocks b org \<Longrightarrow> org v = Some d \<Longrightarrow> writes_at blocks d"
proof (induction arbitrary: v d rule: reaches.induct)
  case (edge b org es e)
  then show ?case using origin_at_writes [of org blocks b "length (b_instr (blocks ! b))" v d] by (simp add: origin_at_end)
qed simp

lemma slice_of_unchanged: "\<not> is_alloc instr \<Longrightarrow> slice_of instr = instr"
  by (auto simp: slice_of_def is_alloc_iff to_slice_Some split: option.splits)

text \<open>The definitions the pass updates.\<close>

lemma vector_to_slice_updates:
  assumes "vector_to_slice order cfg fns = Some (cfg', fns')"
  shows "\<exists>W. find_writable (cfg_blocks cfg) {} = Some W \<and>
    cfg' = cfg\<lparr>cfg_blocks := retyped (\<lambda>b i. \<exists>d \<in> set (order (fold block_phis (cfg_blocks cfg) (slice_candidates W (cfg_blocks cfg)))).
      def_block_no d = b \<and> def_instr_no d = i) (cfg_blocks cfg)\<rparr>"
  using assms by (auto simp: vector_to_slice_def update_vectors_to_slice_def Option.bind_eq_Some_conv dest: retype_defs_eq)

lemma not_updated:
  assumes "vector_to_slice order cfg fns = Some (cfg', fns')" "\<forall>ds. set (order ds) = set ds"
    and "find_writable (cfg_blocks cfg) {} = Some W"
    and "d \<notin> set (fold block_phis (cfg_blocks cfg) (slice_candidates W (cfg_blocks cfg)))" "def_assignment_no d = 0"
    and "def_block_no d < length (cfg_blocks cfg)" "def_instr_no d < length (b_instr (cfg_blocks cfg ! def_block_no d))"
  shows "b_instr (cfg_blocks cfg' ! def_block_no d) ! def_instr_no d = b_instr (cfg_blocks cfg ! def_block_no d) ! def_instr_no d"
proof -
  have d: "d = instr_def (def_block_no d) (def_instr_no d)" using assms(5) by (simp add: instr_def_def)
  have "d' = d" if "d' \<in> set (slice_candidates W (cfg_blocks cfg))" "def_block_no d' = def_block_no d" "def_instr_no d' = def_instr_no d" for d'
    using that d by (auto simp: slice_candidates_iff instr_def_def)
  then have "\<not> (\<exists>d' \<in> set (order (fold block_phis (cfg_blocks cfg) (slice_candidates W (cfg_blocks cfg)))).
      def_block_no d' = def_block_no d \<and> def_instr_no d' = def_instr_no d)"
    using assms(2,4) subsetD [OF fold_block_phis_subset] by metis
  then show ?thesis using vector_to_slice_updates [OF assms(1)] assms(3,6,7) by (auto simp: retyped_instr)
qed

text \<open>
  C6: nothing writes through a slice. When a path reaches an instruction that writes memory through a
  variable, or hands the variable to code that may write, the instruction that allocated the value of
  the variable keeps its type. It holds for graphs whose writes have transfers, as for the reaching
  definitions the pass rests on.
\<close>

theorem vector_to_slice_safe:
  assumes "find_definitions pick cfg = Some cfg'"
    and "\<forall>block \<in> set (cfg_blocks cfg). b_defs block = [] \<and> (\<forall>ins \<in> set (b_instr block). tracked ins)"
    and "\<forall>b org. reaches (cfg_blocks cfg) b org \<longrightarrow> b \<noteq> 0 \<longrightarrow> org \<noteq> Map.empty"
    and "vector_to_slice order cfg' fns = Some (cfg'', fns')" and "\<forall>ds. set (order ds) = set ds"
    and "reaches (cfg_blocks cfg) b org" "b < length (cfg_blocks cfg)" "i < length (b_instr (cfg_blocks cfg ! b))"
    and "v \<in> written_through (b_instr (cfg_blocks cfg ! b) ! i)" "origin_at b (cfg_blocks cfg ! b) i org v = Some d"
  shows "b_instr (cfg_blocks cfg'' ! def_block_no d) ! def_instr_no d = b_instr (cfg_blocks cfg ! def_block_no d) ! def_instr_no d"
proof -
  have "\<forall>block \<in> set (cfg_blocks cfg). b_defs block = []" using assms(2) by blast
  note fp = find_definitions_fixpoint [OF assms(1) this]
  have code: "j < length (cfg_blocks cfg) \<Longrightarrow> b_instr (cfg_blocks cfg' ! j) = b_instr (cfg_blocks cfg ! j)" for j using fp(3) by blast
  have w: "writes_at (cfg_blocks cfg) d"
    using origin_at_writes [OF _ assms(7) _ assms(10)] reaches_writes [OF assms(6)] assms(8) by simp
  then have len: "def_block_no d < length (cfg_blocks cfg')" "def_instr_no d < length (b_instr (cfg_blocks cfg' ! def_block_no d))"
    using fp(2) code by (simp_all add: writes_at_def)
  obtain W where W: "find_writable (cfg_blocks cfg') {} = Some W" "cfg'' = cfg'\<lparr>cfg_blocks :=
      retyped (\<lambda>b i. \<exists>d \<in> set (order (fold block_phis (cfg_blocks cfg') (slice_candidates W (cfg_blocks cfg')))).
        def_block_no d = b \<and> def_instr_no d = i) (cfg_blocks cfg')\<rparr>"
    using vector_to_slice_updates [OF assms(4)] by blast
  let ?blk = "cfg_blocks cfg' ! b"
  have cov: "covers (b_defs ?blk) org" using reaches_covers [OF assms(1-3,6)] .
  have "b = 0 \<or> b_defs ?blk \<noteq> []" using assms(3,6) cov by (fastforce simp: covers_def)
  then have wf: "wf_defs (b_defs ?blk)" using fp(1,2) assms(7) by (auto simp: worklist_inv_def)
  have instr: "b_instr ?blk = b_instr (cfg_blocks cfg ! b)" "b_transfers ?blk = instr_transfers b ?blk"
    using fp(3) [OF assms(7)] by (simp_all add: instr_transfers_def)
  obtain W1 vars W2 where run: "find_writable_vectors ?blk [0 ..< length (b_instr ?blk)] (b_defs ?blk, W1) = Some (vars, W2)" "W2 \<subseteq> W"
    using find_writable_block [OF W(1)] assms(7) fp(2) by metis
  have "\<forall>ins \<in> set (b_instr ?blk). tracked ins" using assms(2) nth_mem [OF assms(7)] instr(1) by metis
  from writable_block_written [OF this wf cov instr(2) _ _ _ run(1)] have "d \<in> W2"
    using assms(8-10) instr(1) by (simp add: origin_at_def)
  then have notin: "d \<notin> set (fold block_phis (cfg_blocks cfg') (slice_candidates W (cfg_blocks cfg')))"
    using run(2) subsetD [OF fold_block_phis_subset] by (fastforce simp: slice_candidates_iff)
  show ?thesis
  proof (cases "def_assignment_no d = 0")
    case True
    then show ?thesis using not_updated [OF assms(4,5) W(1) notin True len] code w by (simp add: writes_at_def)
  next
    case False
    have "\<not> is_alloc (b_instr (cfg_blocks cfg ! def_block_no d) ! def_instr_no d)"
      using w False by (auto simp: writes_at_def is_alloc_iff written_def)
    then show ?thesis using w code len fp(2) by (simp add: W(2) retyped_instr slice_of_unchanged writes_at_def)
  qed
qed

text \<open>An instruction as the pass may leave it.\<close>

definition sliced :: "Instr \<Rightarrow> Instr \<Rightarrow> bool" where
  "sliced instr instr' \<longleftrightarrow> instr' = instr \<or> (\<exists>loc res l ty len bs.
     instr = Instr.Set loc res (Expression.AllocDynamicBytes l ty len (Some bs)) \<and>
     instr' = Instr.Set loc res (Expression.AllocDynamicBytes loc (Type.Slice (Type.Bytes 1)) len (Some bs)))"

lemma sliced_slice_of: "sliced instr (slice_of instr)" "sliced instr instr"
  by (cases "to_slice instr") (auto simp: slice_of_def to_slice_Some sliced_def)

lemma retyped_sliced:
  "list_all2 (\<lambda>old new. new = old\<lparr>b_instr := b_instr new\<rparr> \<and> list_all2 sliced (b_instr old) (b_instr new)) blocks (retyped P blocks)"
  by (simp add: list_all2_conv_all_nth nth_retyped nth_enumerate_eq sliced_slice_of)

text \<open>
  C33: what the pass changes. Every instruction of the graph stays as it is, or it is an allocation of
  bytes with a constant content whose type becomes a slice; definitions, transfers and the rest of the
  graph are kept.
\<close>

theorem vector_to_slice_exact:
  assumes "vector_to_slice order cfg fns = Some (cfg', fns')"
  shows "\<exists>blocks. cfg' = cfg\<lparr>cfg_blocks := blocks\<rparr> \<and> list_all2 (\<lambda>old new. new = old\<lparr>b_instr := b_instr new\<rparr> \<and>
    list_all2 sliced (b_instr old) (b_instr new)) (cfg_blocks cfg) blocks"
  using vector_to_slice_updates [OF assms] retyped_sliced by blast

lemma fold_keeps_out:
  assumes "\<And>x ys. set (f x ys) \<subseteq> set ys" "d \<notin> set ys"
  shows "d \<notin> set (fold f xs ys)"
  using assms(2)
proof (induction xs arbitrary: ys)
  case (Cons x xs)
  then show ?case using assms(1) [of x ys] by auto
qed simp

lemma phi_blocks:
  assumes "phi \<in> set phis" "map_of defs phi = Some ds" "d \<in> fst ` set ds" "d \<notin> set upd" "d' \<in> fst ` set ds"
  shows "d' \<notin> set (fold (phi_update defs) phis upd)"
  using assms(1,4)
proof (induction phis arbitrary: upd)
  case (Cons p phis)
  show ?case
  proof (cases "p = phi")
    case True
    have "d' \<notin> set (phi_update defs p upd)"
      using assms(2,3,5) Cons.prems(2) True by (auto simp: phi_update_def)
    from fold_keeps_out [of "phi_update defs", OF phi_update_subset this] show ?thesis by simp
  next
    case False
    have "d \<notin> set (phi_update defs p upd)" using Cons.prems(2) phi_update_subset by blast
    then show ?thesis using Cons.IH [of "phi_update defs p upd"] Cons.prems(1) False by simp
  qed
qed simp

lemma phi_block:
  assumes "block \<in> set blocks" "b_phis block = Some phis" "finite phis" "phi \<in> phis" "map_of (b_defs block) phi = Some ds"
    and "d \<in> fst ` set ds" "d \<notin> set upd" "d' \<in> fst ` set ds"
  shows "d' \<notin> set (fold block_phis blocks upd)"
  using assms(1,7)
proof (induction blocks arbitrary: upd)
  case (Cons b blocks)
  show ?case
  proof (cases "b = block")
    case True
    have "d' \<notin> set (block_phis block upd)"
      using phi_blocks [of phi "sorted_list_of_set phis", OF _ assms(5,6) _ assms(8)] assms(2-4) Cons.prems(2) by (simp add: block_phis_def)
    from fold_keeps_out [of block_phis, OF block_phis_subset this] show ?thesis using True by simp
  next
    case False
    have "d \<notin> set (block_phis b upd)" using Cons.prems(2) block_phis_subset by blast
    then show ?thesis using Cons.IH [of "block_phis b upd"] Cons.prems(1) False by simp
  qed
qed simp

text \<open>
  C34: a phi that another value reaches keeps its vectors. When a definition that is no allocation of
  bytes reaches the phi of a variable, none of the allocations that reach it becomes a slice.
\<close>

theorem phi_keeps_vectors:
  assumes "vector_to_slice order cfg fns = Some (cfg', fns')" "\<forall>ds. set (order ds) = set ds"
    and "block \<in> set (cfg_blocks cfg)" "b_phis block = Some phis" "finite phis" "phi \<in> phis" "map_of (b_defs block) phi = Some ds"
    and "d \<in> fst ` set ds" "\<not> is_alloc (b_instr (cfg_blocks cfg ! def_block_no d) ! def_instr_no d)"
    and "d' \<in> fst ` set ds" "def_assignment_no d' = 0"
    and "def_block_no d' < length (cfg_blocks cfg)" "def_instr_no d' < length (b_instr (cfg_blocks cfg ! def_block_no d'))"
  shows "b_instr (cfg_blocks cfg' ! def_block_no d') ! def_instr_no d' = b_instr (cfg_blocks cfg ! def_block_no d') ! def_instr_no d'"
proof -
  obtain W where W: "find_writable (cfg_blocks cfg) {} = Some W" using vector_to_slice_updates [OF assms(1)] by blast
  have "d \<notin> set (slice_candidates W (cfg_blocks cfg))" using assms(9) by (auto simp: slice_candidates_iff instr_def_def)
  from phi_block [OF assms(3-8) this assms(10)] show ?thesis using not_updated [OF assms(1,2) W _ assms(11-13)] by blast
qed

section \<open>Examples\<close>

abbreviation alloc :: "nat \<Rightarrow> u8 \<Rightarrow> Instr" where
  "alloc res c \<equiv> Instr.Set Loc.Codegen res (Expression.AllocDynamicBytes Loc.Codegen Type.DynamicBytes (int_lit 1) (Some [c]))"

abbreviation alloc_slice :: "nat \<Rightarrow> u8 \<Rightarrow> Instr" where
  "alloc_slice res c \<equiv> Instr.Set Loc.Codegen res
     (Expression.AllocDynamicBytes Loc.Codegen (Type.Slice (Type.Bytes 1)) (int_lit 1) (Some [c]))"

abbreviation bytes_var :: "nat \<Rightarrow> Expression" where
  "bytes_var v \<equiv> Expression.Variable Loc.Codegen Type.DynamicBytes v"

text \<open>\<open>x := "A"; y := "B"; x[0] := 1; print y\<close>.\<close>

definition write_cfg :: ControlFlowGraph where
  "write_cfg = placeholder\<lparr>cfg_blocks := [sample_block ''entry'' [alloc 0 65, alloc 1 66,
     Instr.Store (Expression.Subscript Loc.Codegen (Type.Bytes 1) Type.DynamicBytes (bytes_var 0) (int_lit 0)) (int_lit 1),
     Instr.Print (bytes_var 1), Instr.Return []]]\<rparr>"

lemma write_cfg_run:
  "Option.bind (find_definitions Min write_cfg) (\<lambda>cfg. map_option (\<lambda>(cfg, _). map b_instr (cfg_blocks cfg)) (vector_to_slice id cfg [])) =
   Some [[alloc 0 65, alloc_slice 1 66,
     Instr.Store (Expression.Subscript Loc.Codegen (Type.Bytes 1) Type.DynamicBytes (bytes_var 0) (int_lit 0)) (int_lit 1),
     Instr.Print (bytes_var 1), Instr.Return []]]"
  by code_simp

lemma write_cfg_reaches: "reaches (cfg_blocks write_cfg) b org \<Longrightarrow> b = 0"
proof (induction rule: reaches.induct)
  case (edge b org es e)
  then show ?case by (simp add: write_cfg_def sample_simps)
qed simp

theorem vector_to_slice_safe_witness:
  "\<exists>cfg' cfg''. find_definitions Min write_cfg = Some cfg' \<and> vector_to_slice id cfg' [] = Some (cfg'', []) \<and>
    b_instr (cfg_blocks cfg'' ! 0) ! 0 = alloc 0 65"
proof -
  obtain cfg' cfg'' fns where run: "find_definitions Min write_cfg = Some cfg'" "vector_to_slice id cfg' [] = Some (cfg'', fns)"
    using write_cfg_run by (auto simp: Option.bind_eq_Some_conv)
  have fns: "fns = []"
  proof -
    have "map_option (\<lambda>cfg. map_option snd (vector_to_slice id cfg [])) (find_definitions Min write_cfg) = Some (Some [])" by code_simp
    then show ?thesis using run by simp
  qed
  have ok: "\<forall>block \<in> set (cfg_blocks write_cfg). b_defs block = [] \<and> (\<forall>ins \<in> set (b_instr block). tracked ins)"
    by (simp add: write_cfg_def sample_simps)
  have path: "\<forall>b org. reaches (cfg_blocks write_cfg) b org \<longrightarrow> b \<noteq> 0 \<longrightarrow> org \<noteq> Map.empty" using write_cfg_reaches by blast
  have w: "0 \<in> written_through (b_instr (cfg_blocks write_cfg ! 0) ! 2)"
    "origin_at 0 (cfg_blocks write_cfg ! 0) 2 Map.empty 0 = Some (instr_def 0 0)"
    "0 < length (cfg_blocks write_cfg)" "2 < length (b_instr (cfg_blocks write_cfg ! 0))"
    by (simp_all add: write_cfg_def sample_simps written_through_def origin_at_def instr_def_def upt_rec)
  have "b_instr (cfg_blocks cfg'' ! def_block_no (instr_def 0 0)) ! def_instr_no (instr_def 0 0) =
      b_instr (cfg_blocks write_cfg ! def_block_no (instr_def 0 0)) ! def_instr_no (instr_def 0 0)"
    by (rule vector_to_slice_safe [OF run(1) ok path run(2) _ reaches.entry w(3,4,1,2)]) simp
  then show ?thesis using run fns by (simp add: instr_def_def write_cfg_def sample_simps)
qed

theorem vector_to_slice_exact_witness:
  "\<exists>cfg' cfg'' blocks. find_definitions Min write_cfg = Some cfg' \<and> cfg'' = cfg'\<lparr>cfg_blocks := blocks\<rparr> \<and>
    vector_to_slice id cfg' [] = Some (cfg'', []) \<and>
    list_all2 (\<lambda>old new. new = old\<lparr>b_instr := b_instr new\<rparr> \<and> list_all2 sliced (b_instr old) (b_instr new)) (cfg_blocks cfg') blocks"
proof -
  have "map_option (\<lambda>cfg. map_option snd (vector_to_slice id cfg [])) (find_definitions Min write_cfg) = Some (Some [])" by code_simp
  then obtain cfg' cfg'' where run: "find_definitions Min write_cfg = Some cfg'" "vector_to_slice id cfg' [] = Some (cfg'', [])" by auto
  from vector_to_slice_exact [OF run(2)] run show ?thesis by blast
qed

text \<open>\<open>if c then x := "B"; y := x else x := "A"; y := arg\<close>, with a phi for both variables.\<close>

definition phi_cfg :: ControlFlowGraph where
  "phi_cfg = placeholder\<lparr>cfg_blocks := [
     sample_block ''entry'' [Instr.Set Loc.Codegen 2 (int_lit 1), Instr.BranchCond (Expression.FunctionArg Loc.Codegen Type.Bool 0) 1 2],
     sample_block ''then'' [alloc 0 66, Instr.Set Loc.Codegen 1 (bytes_var 0), Instr.Branch 3],
     sample_block ''else'' [alloc 0 65, Instr.Set Loc.Codegen 1 (Expression.FunctionArg Loc.Codegen Type.DynamicBytes 1), Instr.Branch 3],
     (sample_block ''endif'' [Instr.Print (bytes_var 0), Instr.Print (bytes_var 1), Instr.Return []])\<lparr>b_phis := Some {0, 1}\<rparr>]\<rparr>"

lemma phi_cfg_run:
  "map_option (\<lambda>cfg. (map_of (b_defs (cfg_blocks cfg ! 3)) 0, map_of (b_defs (cfg_blocks cfg ! 3)) 1, b_phis (cfg_blocks cfg ! 3),
      map b_instr (cfg_blocks cfg), map_option (\<lambda>(cfg, fns). (map b_instr (cfg_blocks cfg), fns)) (vector_to_slice id cfg [])))
    (find_definitions Min phi_cfg) =
   Some (Some [(instr_def 1 0, False), (instr_def 2 0, False)], Some [(instr_def 1 0, False), (instr_def 2 1, False)], Some {0, 1},
     map b_instr (cfg_blocks phi_cfg),
     Some ([b_instr (cfg_blocks phi_cfg ! 0), b_instr (cfg_blocks phi_cfg ! 1),
       [alloc_slice 0 65, Instr.Set Loc.Codegen 1 (Expression.FunctionArg Loc.Codegen Type.DynamicBytes 1), Instr.Branch 3],
       b_instr (cfg_blocks phi_cfg ! 3)], []))"
  by code_simp

theorem phi_keeps_vectors_witness:
  "\<exists>cfg' cfg''. find_definitions Min phi_cfg = Some cfg' \<and> vector_to_slice id cfg' [] = Some (cfg'', []) \<and>
    b_instr (cfg_blocks cfg'' ! 1) ! 0 = alloc 0 66"
proof -
  obtain cfg' cfg'' where run: "find_definitions Min phi_cfg = Some cfg'" "vector_to_slice id cfg' [] = Some (cfg'', [])"
    and defs: "map_of (b_defs (cfg_blocks cfg' ! 3)) 1 = Some [(instr_def 1 0, False), (instr_def 2 1, False)]"
    and phis: "b_phis (cfg_blocks cfg' ! 3) = Some {0, 1}" and code: "map b_instr (cfg_blocks cfg') = map b_instr (cfg_blocks phi_cfg)"
    using phi_cfg_run by auto
  have len': "length (cfg_blocks phi_cfg) = 4" by (simp add: phi_cfg_def)
  have len: "length (cfg_blocks cfg') = 4" using arg_cong [OF code, of length] len' by simp
  have ins: "b_instr (cfg_blocks cfg' ! j) = b_instr (cfg_blocks phi_cfg ! j)" if "j < 4" for j
    using arg_cong [OF code, of "\<lambda>xs. xs ! j"] that len len' by simp
  have "b_instr (cfg_blocks cfg'' ! def_block_no (instr_def 1 0)) ! def_instr_no (instr_def 1 0) =
      b_instr (cfg_blocks cfg' ! def_block_no (instr_def 1 0)) ! def_instr_no (instr_def 1 0)"
    by (rule phi_keeps_vectors [OF run(2) _ nth_mem phis _ _ defs, of "instr_def 2 1"])
      (simp_all add: len ins instr_def_def is_alloc_def phi_cfg_def sample_block_def)
  then show ?thesis using run ins [of 1] by (simp add: instr_def_def phi_cfg_def sample_block_def)
qed


end
