(* ===== verification/DeadStorage.thy ===== *)
theory DeadStorage
  imports ReachingSound
begin

text \<open>
  Dead storage elimination (\<open>src/codegen/dead_storage.rs\<close>): a reaching definitions analysis of
  its own, which also follows the stores to contract storage, then a pass that replaces a load of a
  slot whose value a variable still holds, and removes the stores that it takes for redundant.

  A hash map is an association list. The order in which its keys are visited matters in one place, the
  search for a variable that holds a slot: the parameter \<open>order\<close>. The block taken next from the
  worklist is chosen by \<open>pick\<close>. The comparison of expressions follows definitions, which may be
  circular: it takes fuel, and \<open>None\<close> stands for a panic or for running out of fuel.
\<close>

section \<open>Data\<close>

datatype Definition = DefUndefined | DefInstr nat nat nat

datatype StorageTransfer =
    SGen Definition nat
  | SCopy nat nat
  | SKill nat
  | SStore Definition "Expression option"

type_synonym StorageDefs = "(Definition, Expression option) index_map"

record ReachingDefs =
  rd_vars :: "(nat, StorageDefs) index_map"
  rd_stores :: "(Definition \<times> Expression) list"

type_synonym BlockVars = "(nat, ReachingDefs list) index_map"

datatype ExpressionCmp = CmpEqual | CmpNotEqual | CmpUnknown

section \<open>Transfers\<close>

definition storage_set_var :: "nat \<Rightarrow> nat \<Rightarrow> nat list \<Rightarrow> StorageTransfer list" where
  "storage_set_var block_no instr_no var_nos = foldl (\<lambda>transfer (assignment_no, var_no).
     (SKill var_no # transfer) @ [SGen (DefInstr block_no instr_no assignment_no) var_no]) [] (enumerate 0 var_nos)"

definition storage_transfer :: "nat \<Rightarrow> nat \<Rightarrow> Instr \<Rightarrow> StorageTransfer list" where
  "storage_transfer block_no instr_no instr = (let d = DefInstr block_no instr_no 0 in case instr of
       Instr.Set _ res expr \<Rightarrow> (case expr of
           Expression.Variable _ _ src \<Rightarrow> [SKill res, SCopy res src]
         | _ \<Rightarrow> storage_set_var block_no instr_no [res])
     | Instr.Call res _ _ _ \<Rightarrow> storage_set_var block_no instr_no res @ [SStore d None]
     | Instr.LoadStorage res _ _ _ \<Rightarrow> storage_set_var block_no instr_no [res]
     | Instr.PushMemory res _ array _ \<Rightarrow> storage_set_var block_no instr_no [res] @ [SKill array]
     | Instr.PopMemory _ _ array _ \<Rightarrow> [SKill array]
     | Instr.ExternalCall _ (Some res) _ _ _ _ _ _ _ _ _ \<Rightarrow> [SKill res, SStore d None]
     | Instr.ValueTransfer (Some res) _ _ \<Rightarrow> [SKill res, SStore d None]
     | Instr.Constructor success res _ _ _ _ _ _ _ _ _ _ \<Rightarrow> (case success of
           None \<Rightarrow> [SKill res, SStore d None]
         | Some success \<Rightarrow> [SKill res, SKill success, SStore d None])
     | Instr.Store dest _ \<Rightarrow> (case array_var dest of Some var_no \<Rightarrow> [SKill var_no] | None \<Rightarrow> [])
     | Instr.SetStorageBytes _ storage _ \<Rightarrow> [SStore d (Some storage)]
     | Instr.ClearStorage _ storage \<Rightarrow> [SStore d (Some storage)]
     | Instr.SetStorage _ _ storage _ \<Rightarrow> [SStore d (Some storage)]
     | Instr.PopStorage (Some res) _ storage \<Rightarrow> [SKill res, SGen d res, SStore d (Some storage)]
     | Instr.PushStorage res _ _ storage \<Rightarrow> [SKill res, SGen d res, SStore d (Some storage)]
     | Instr.Return _ \<Rightarrow> [SStore d None]
     | _ \<Rightarrow> [])"

definition storage_transfers :: "nat \<Rightarrow> BasicBlock \<Rightarrow> StorageTransfer list list" where
  "storage_transfers block_no block =
     map (\<lambda>(instr_no, instr). storage_transfer block_no instr_no instr) (enumerate 0 (b_instr block))"

section \<open>Comparing storage locations\<close>

definition instr_at :: "BasicBlock list \<Rightarrow> nat \<Rightarrow> nat \<Rightarrow> Instr option" where
  "instr_at blocks block_no instr_no = do { block \<leftarrow> vec_get blocks block_no; vec_get (b_instr block) instr_no }"

text \<open>The outer option is a panic, the inner one the result.\<close>

definition get_storage_definition :: "Definition \<Rightarrow> BasicBlock list \<Rightarrow> (nat \<times> Expression \<times> Type) option option" where
  "get_storage_definition d blocks = (case d of
       DefInstr block_no instr_no _ \<Rightarrow> do {
         instr \<leftarrow> instr_at blocks block_no instr_no;
         Some (case instr of Instr.LoadStorage res ty storage _ \<Rightarrow> Some (res, storage, ty) | _ \<Rightarrow> None) }
     | DefUndefined \<Rightarrow> Some None)"

definition get_definition :: "Definition \<Rightarrow> BasicBlock list \<Rightarrow> (Expression \<times> Type) option option" where
  "get_definition d blocks = (case d of
       DefInstr block_no instr_no _ \<Rightarrow> do {
         instr \<leftarrow> instr_at blocks block_no instr_no;
         (case instr of
            Instr.LoadStorage _ ty storage _ \<Rightarrow> Some (Some (storage, ty))
          | Instr.Set _ _ expr \<Rightarrow> do { ty \<leftarrow> expr_ty expr; Some (Some (expr, ty)) }
          | _ \<Rightarrow> Some None) }
     | DefUndefined \<Rightarrow> Some None)"

definition get_vars_at :: "Definition \<Rightarrow> BlockVars \<Rightarrow> ReachingDefs option" where
  "get_vars_at d block_vars = (case d of
       DefInstr block_no instr_no _ \<Rightarrow> (case map_of block_vars block_no of
           Some vars \<Rightarrow> vec_get vars instr_no
         | None \<Rightarrow> Some \<lparr>rd_vars = [], rd_stores = []\<rparr>)
     | DefUndefined \<Rightarrow> None)"

definition all_same :: "ExpressionCmp list \<Rightarrow> ExpressionCmp option" where
  "all_same cmps = (case cmps of
       [] \<Rightarrow> None
     | first # _ \<Rightarrow> Some (if \<exists>c \<in> set cmps. c \<noteq> first then CmpUnknown else first))"

definition both_cmp :: "ExpressionCmp \<Rightarrow> ExpressionCmp \<Rightarrow> ExpressionCmp" where
  "both_cmp l r = (if l = r then l
     else if l = CmpEqual \<and> r = CmpNotEqual \<or> l = CmpNotEqual \<and> r = CmpEqual then CmpNotEqual
     else CmpUnknown)"

definition compare_vars ::
  "(Expression \<Rightarrow> ReachingDefs \<Rightarrow> Expression \<Rightarrow> ReachingDefs \<Rightarrow> ExpressionCmp option) \<Rightarrow> BasicBlock list \<Rightarrow> BlockVars \<Rightarrow>
   StorageDefs option \<Rightarrow> StorageDefs option \<Rightarrow> ExpressionCmp option" where
  "compare_vars cmp blocks block_vars left_defs right_defs = (case (left_defs, right_defs) of
       (Some left, Some right) \<Rightarrow>
         if index_map_eq (=) left right then Some CmpEqual
         else if length left = 1 \<and> length right = 1 then do {
           l \<leftarrow> get_definition (fst (hd left)) blocks;
           r \<leftarrow> get_definition (fst (hd right)) blocks;
           (case (l, r) of
              (Some (left_expr, left_ty), Some (right_expr, right_ty)) \<Rightarrow> do {
                left_vars \<leftarrow> get_vars_at (fst (hd left)) block_vars;
                right_vars \<leftarrow> get_vars_at (fst (hd right)) block_vars;
                c \<leftarrow> cmp left_expr left_vars right_expr right_vars;
                Some (if c = CmpEqual \<and> left_ty \<noteq> right_ty then CmpUnknown else c) }
            | _ \<Rightarrow> Some CmpUnknown) }
         else Some CmpUnknown
     | _ \<Rightarrow> Some CmpUnknown)"

text \<open>The two operands of the operations that are compared by their operands.\<close>

definition pair_operands :: "Expression \<Rightarrow> Expression \<Rightarrow> ((Expression \<times> Expression) \<times> Expression \<times> Expression) option" where
  "pair_operands left right = (case left of
       Expression.Add _ _ _ l1 r1 \<Rightarrow> (case right of Expression.Add _ _ _ l2 r2 \<Rightarrow> Some ((l1, r1), l2, r2) | _ \<Rightarrow> None)
     | Expression.Multiply _ _ _ l1 r1 \<Rightarrow> (case right of Expression.Multiply _ _ _ l2 r2 \<Rightarrow> Some ((l1, r1), l2, r2) | _ \<Rightarrow> None)
     | Expression.Subtract _ _ _ l1 r1 \<Rightarrow> (case right of Expression.Subtract _ _ _ l2 r2 \<Rightarrow> Some ((l1, r1), l2, r2) | _ \<Rightarrow> None)
     | Expression.Subscript _ _ _ l1 r1 \<Rightarrow> (case right of Expression.Subscript _ _ _ l2 r2 \<Rightarrow> Some ((l1, r1), l2, r2) | _ \<Rightarrow> None)
     | _ \<Rightarrow> None)"

primrec expression_compare ::
  "nat \<Rightarrow> BasicBlock list \<Rightarrow> BlockVars \<Rightarrow> Expression \<Rightarrow> ReachingDefs \<Rightarrow> Expression \<Rightarrow> ReachingDefs \<Rightarrow> ExpressionCmp option" where
  "expression_compare 0 blocks block_vars left left_vars right right_vars = None"
| "expression_compare (Suc fuel) blocks block_vars left left_vars right right_vars =
     (case left of
        Expression.NumberLiteral _ _ l \<Rightarrow> (case right of
            Expression.NumberLiteral _ _ r \<Rightarrow> Some (if l = r then CmpEqual else CmpNotEqual)
          | _ \<Rightarrow> Some CmpUnknown)
      | Expression.Keccak256 _ _ ls \<Rightarrow> (case right of
            Expression.Keccak256 _ _ rs \<Rightarrow> do {
              cmps \<leftarrow> those (map (\<lambda>(l, r). expression_compare fuel blocks block_vars l left_vars r right_vars) (zip ls rs));
              all_same cmps }
          | _ \<Rightarrow> Some CmpUnknown)
      | Expression.ZeroExt _ _ l \<Rightarrow> (case right of
            Expression.ZeroExt _ _ r \<Rightarrow> expression_compare fuel blocks block_vars l left_vars r right_vars
          | _ \<Rightarrow> Some CmpUnknown)
      | Expression.Trunc _ _ l \<Rightarrow> (case right of
            Expression.Trunc _ _ r \<Rightarrow> expression_compare fuel blocks block_vars l left_vars r right_vars
          | _ \<Rightarrow> Some CmpUnknown)
      | Expression.FunctionArg _ _ l \<Rightarrow> (case right of
            Expression.FunctionArg _ _ r \<Rightarrow> Some (if l = r then CmpEqual else CmpUnknown)
          | _ \<Rightarrow> Some CmpUnknown)
      | Expression.Variable _ _ l \<Rightarrow> (case right of
            Expression.Variable _ _ r \<Rightarrow>
              compare_vars (expression_compare fuel blocks block_vars) blocks block_vars
                (map_of (rd_vars left_vars) l) (map_of (rd_vars right_vars) r)
          | _ \<Rightarrow> Some CmpUnknown)
      | _ \<Rightarrow> (case pair_operands left right of
            Some ((l1, r1), l2, r2) \<Rightarrow> do {
              l \<leftarrow> expression_compare fuel blocks block_vars l1 left_vars l2 right_vars;
              r \<leftarrow> expression_compare fuel blocks block_vars r1 left_vars r2 right_vars;
              Some (both_cmp l r) }
          | None \<Rightarrow> Some CmpUnknown))"


section \<open>The analysis\<close>

definition var_transfer :: "StorageTransfer \<Rightarrow> ReachingDefs \<Rightarrow> ReachingDefs" where
  "var_transfer t vars = (case t of
       SKill var_no \<Rightarrow> vars\<lparr>rd_vars := AList.delete var_no (rd_vars vars)\<rparr>
     | SCopy var_no src \<Rightarrow> (case map_of (rd_vars vars) src of
           Some defs \<Rightarrow> vars\<lparr>rd_vars := AList.update var_no defs (rd_vars vars)\<rparr>
         | None \<Rightarrow> vars)
     | SGen d var_no \<Rightarrow> (case map_of (rd_vars vars) var_no of
           Some entry \<Rightarrow> vars\<lparr>rd_vars := AList.update var_no (AList.update d None entry) (rd_vars vars)\<rparr>
         | None \<Rightarrow> vars\<lparr>rd_vars := AList.update var_no [(d, None)] (rd_vars vars)\<rparr>)
     | SStore _ _ \<Rightarrow> vars)"

text \<open>The first pass: the states before each instruction.\<close>

fun first_pass :: "StorageTransfer list list \<Rightarrow> ReachingDefs \<Rightarrow> ReachingDefs list" where
  "first_pass [] vars = []"
| "first_pass (ts # tss) vars = vars # first_pass tss (fold var_transfer ts vars)"

text \<open>The variables that hold a slot a store may write.\<close>

definition holds_clobbered ::
  "nat \<Rightarrow> BasicBlock list \<Rightarrow> BlockVars \<Rightarrow> ReachingDefs \<Rightarrow> Expression option \<Rightarrow> Definition \<Rightarrow> bool option" where
  "holds_clobbered fuel blocks block_vars vars expr d = do {
     storage_def \<leftarrow> get_storage_definition d blocks;
     (case storage_def of
        Some (_, slot, _) \<Rightarrow> (case expr of
            Some expr \<Rightarrow> do {
              storage_vars \<leftarrow> get_vars_at d block_vars;
              c \<leftarrow> expression_compare fuel blocks block_vars expr vars slot storage_vars;
              Some (c \<noteq> CmpNotEqual) }
          | None \<Rightarrow> Some True)
      | None \<Rightarrow> Some False) }"

definition eliminated_vars ::
  "nat \<Rightarrow> BasicBlock list \<Rightarrow> BlockVars \<Rightarrow> ReachingDefs \<Rightarrow> Expression option \<Rightarrow> nat list option" where
  "eliminated_vars fuel blocks block_vars vars expr =
     map_option (\<lambda>found. map fst (filter snd found))
       (those (concat (map (\<lambda>(var_no, defs).
          map (\<lambda>(d, _). map_option (Pair var_no) (holds_clobbered fuel blocks block_vars vars expr d)) defs) (rd_vars vars))))"

text \<open>The stores that a store to the same slot does not overwrite.\<close>

fun surviving_stores ::
  "nat \<Rightarrow> BasicBlock list \<Rightarrow> BlockVars \<Rightarrow> ReachingDefs \<Rightarrow> Expression \<Rightarrow> (Definition \<times> Expression) list \<Rightarrow>
   (Definition \<times> Expression) list option" where
  "surviving_stores fuel blocks block_vars vars expr [] = Some []"
| "surviving_stores fuel blocks block_vars vars expr ((d, storage) # stores) = do {
     storage_vars \<leftarrow> get_vars_at d block_vars;
     c \<leftarrow> expression_compare fuel blocks block_vars expr vars storage storage_vars;
     rest \<leftarrow> surviving_stores fuel blocks block_vars vars expr stores;
     Some (if c = CmpEqual then rest else (d, storage) # rest) }"

definition store_transfer ::
  "nat \<Rightarrow> BasicBlock list \<Rightarrow> BlockVars \<Rightarrow> Definition \<Rightarrow> Expression option \<Rightarrow> ReachingDefs \<Rightarrow> ReachingDefs option" where
  "store_transfer fuel blocks block_vars d expr vars = do {
     eliminated \<leftarrow> eliminated_vars fuel blocks block_vars vars expr;
     (let vars = vars\<lparr>rd_vars := fold AList.delete eliminated (rd_vars vars)\<rparr> in
      case expr of
        Some expr \<Rightarrow> do {
          stores \<leftarrow> surviving_stores fuel blocks block_vars vars expr (rd_stores vars);
          Some (vars\<lparr>rd_stores := stores @ [(d, expr)]\<rparr>) }
      | None \<Rightarrow> Some (vars\<lparr>rd_stores := []\<rparr>)) }"

definition full_transfer ::
  "nat \<Rightarrow> BasicBlock list \<Rightarrow> BlockVars \<Rightarrow> StorageTransfer \<Rightarrow> ReachingDefs \<Rightarrow> ReachingDefs option" where
  "full_transfer fuel blocks block_vars t vars = (case t of
       SStore d expr \<Rightarrow> store_transfer fuel blocks block_vars d expr vars
     | _ \<Rightarrow> Some (var_transfer t vars))"

fun full_transfers ::
  "nat \<Rightarrow> BasicBlock list \<Rightarrow> BlockVars \<Rightarrow> StorageTransfer list \<Rightarrow> ReachingDefs \<Rightarrow> ReachingDefs option" where
  "full_transfers fuel blocks block_vars [] vars = Some vars"
| "full_transfers fuel blocks block_vars (t # ts) vars = do {
     vars \<leftarrow> full_transfer fuel blocks block_vars t vars;
     full_transfers fuel blocks block_vars ts vars }"

text \<open>The second pass: the states before each instruction, and the state at the end.\<close>

fun second_pass ::
  "nat \<Rightarrow> BasicBlock list \<Rightarrow> BlockVars \<Rightarrow> StorageTransfer list list \<Rightarrow> ReachingDefs \<Rightarrow> (ReachingDefs list \<times> ReachingDefs) option" where
  "second_pass fuel blocks block_vars [] vars = Some ([], vars)"
| "second_pass fuel blocks block_vars (ts # tss) vars = do {
     next_vars \<leftarrow> full_transfers fuel blocks block_vars ts vars;
     (res, out) \<leftarrow> second_pass fuel blocks block_vars tss next_vars;
     Some (vars # res, out) }"

definition apply_storage_transfers ::
  "nat \<Rightarrow> BasicBlock list \<Rightarrow> StorageTransfer list list \<Rightarrow> nat \<Rightarrow> ReachingDefs \<Rightarrow> BlockVars \<Rightarrow> (ReachingDefs \<times> BlockVars) option" where
  "apply_storage_transfers fuel blocks transfers block_no vars block_vars =
     (let res = first_pass transfers vars; block_vars = AList.update block_no res block_vars in do {
        vars \<leftarrow> vec_get res 0;
        (res, out) \<leftarrow> second_pass fuel blocks block_vars transfers vars;
        Some (out, AList.update block_no res block_vars) })"

fun merge_storage_defs :: "StorageDefs \<Rightarrow> StorageDefs \<Rightarrow> bool \<Rightarrow> StorageDefs \<times> bool" where
  "merge_storage_defs [] entry changed = (entry, changed)"
| "merge_storage_defs ((d, storage) # defs) entry changed =
     (if map_of entry d = None then merge_storage_defs defs (AList.update d storage entry) True
      else merge_storage_defs defs entry changed)"

fun merge_storage_vars ::
  "(nat, StorageDefs) index_map \<Rightarrow> (nat, StorageDefs) index_map \<Rightarrow> bool \<Rightarrow> (nat, StorageDefs) index_map \<times> bool" where
  "merge_storage_vars [] vars changed = (vars, changed)"
| "merge_storage_vars ((var_no, defs) # incoming) vars changed =
     (case map_of vars var_no of
        Some entry \<Rightarrow> (let (entry, changed) = merge_storage_defs defs entry changed in
          merge_storage_vars incoming (AList.update var_no entry vars) changed)
      | None \<Rightarrow> merge_storage_vars incoming (AList.update var_no defs vars) True)"

fun merge_stores ::
  "(Definition \<times> Expression) list \<Rightarrow> (Definition \<times> Expression) list \<Rightarrow> bool \<Rightarrow> (Definition \<times> Expression) list \<times> bool" where
  "merge_stores [] stores changed = (stores, changed)"
| "merge_stores (s # incoming) stores changed =
     (if \<exists>(d, _) \<in> set stores. d = fst s then merge_stores incoming stores changed
      else merge_stores incoming (stores @ [s]) True)"

definition reaching_defs_eq :: "ReachingDefs \<Rightarrow> ReachingDefs \<Rightarrow> bool" where
  "reaching_defs_eq a b \<longleftrightarrow> index_map_eq (index_map_eq (=)) (rd_vars a) (rd_vars b) \<and> rd_stores a = rd_stores b"

definition merge_reaching :: "ReachingDefs \<Rightarrow> ReachingDefs \<Rightarrow> ReachingDefs \<times> bool" where
  "merge_reaching vars entry =
     (let (vs, changed) = merge_storage_vars (rd_vars vars) (rd_vars entry) False;
          (stores, changed) = merge_stores (rd_stores vars) (rd_stores entry) changed
      in (\<lparr>rd_vars = vs, rd_stores = stores\<rparr>, changed))"

definition merge_storage_edge :: "ReachingDefs \<Rightarrow> nat \<Rightarrow> BlockVars \<times> nat set \<Rightarrow> (BlockVars \<times> nat set) option" where
  "merge_storage_edge vars edge = (\<lambda>(block_vars, todo). case map_of block_vars edge of
       None \<Rightarrow> Some (AList.update edge [vars] block_vars, insert edge todo)
     | Some entries \<Rightarrow> do {
         entry \<leftarrow> vec_get entries 0;
         if reaching_defs_eq entry vars then Some (block_vars, todo)
         else (let (entry, changed) = merge_reaching vars entry in
           Some (AList.update edge (entries[0 := entry]) block_vars, if changed then insert edge todo else todo)) })"

fun merge_storage_edges :: "ReachingDefs \<Rightarrow> nat list \<Rightarrow> BlockVars \<times> nat set \<Rightarrow> (BlockVars \<times> nat set) option" where
  "merge_storage_edges vars [] st = Some st"
| "merge_storage_edges vars (edge # edges) st = do {
     st \<leftarrow> merge_storage_edge vars edge st;
     merge_storage_edges vars edges st }"

definition undefined_entry :: "ControlFlowGraph \<Rightarrow> ReachingDefs" where
  "undefined_entry cfg = \<lparr>rd_vars = map (\<lambda>(var_no, _). (var_no, [(DefUndefined, None)])) (cfg_vars cfg), rd_stores = []\<rparr>"

definition visit_block :: "nat \<Rightarrow> ControlFlowGraph \<Rightarrow> nat \<Rightarrow> BlockVars \<times> nat set \<Rightarrow> (BlockVars \<times> nat set) option" where
  "visit_block fuel cfg block_no = (\<lambda>(block_vars, todo). do {
     vars \<leftarrow> (case map_of block_vars block_no of
         Some vars \<Rightarrow> vec_get vars 0
       | None \<Rightarrow> Some (undefined_entry cfg));
     block \<leftarrow> vec_get (cfg_blocks cfg) block_no;
     (vars, block_vars) \<leftarrow> apply_storage_transfers fuel (cfg_blocks cfg) (storage_transfers block_no block) block_no vars block_vars;
     edges \<leftarrow> successors block;
     merge_storage_edges vars edges (block_vars, todo - {block_no}) })"

partial_function (option) visit_loop ::
  "nat \<Rightarrow> (nat set \<Rightarrow> nat) \<Rightarrow> ControlFlowGraph \<Rightarrow> BlockVars \<times> nat set \<Rightarrow> BlockVars option" where
  "visit_loop fuel pick cfg st =
     (if snd st = {} then Some (fst st)
      else do { st \<leftarrow> visit_block fuel cfg (pick (snd st)) st; visit_loop fuel pick cfg st })"

declare visit_loop.simps [code]

definition storage_reaching_definitions :: "nat \<Rightarrow> (nat set \<Rightarrow> nat) \<Rightarrow> ControlFlowGraph \<Rightarrow> BlockVars option" where
  "storage_reaching_definitions fuel pick cfg = visit_loop fuel pick cfg ([], {0})"

section \<open>The pass\<close>

type_synonym redundant = "(Definition, bool) index_map"

text \<open>The first variable that holds the slot of a load.\<close>

definition holds_slot ::
  "nat \<Rightarrow> BasicBlock list \<Rightarrow> BlockVars \<Rightarrow> ReachingDefs \<Rightarrow> nat \<Rightarrow> Type \<Rightarrow> Expression \<Rightarrow> nat \<Rightarrow> bool option" where
  "holds_slot fuel blocks block_vars vars res ty storage var_no = (case map_of (rd_vars vars) var_no of
       Some [(d, _)] \<Rightarrow> do {
         storage_def \<leftarrow> get_storage_definition d blocks;
         (case storage_def of
            Some (def_var, slot, def_ty) \<Rightarrow> do {
              def_vars \<leftarrow> get_vars_at d block_vars;
              c \<leftarrow> expression_compare fuel blocks block_vars storage vars slot def_vars;
              Some (c = CmpEqual \<and> def_var \<noteq> res \<and> ty = def_ty) }
          | None \<Rightarrow> Some False) }
     | _ \<Rightarrow> Some False)"

fun find_holder :: "(nat \<Rightarrow> bool option) \<Rightarrow> nat list \<Rightarrow> nat option option" where
  "find_holder holds [] = Some None"
| "find_holder holds (var_no # var_nos) = do {
     h \<leftarrow> holds var_no;
     if h then Some (Some var_no) else find_holder holds var_nos }"

text \<open>The stores that a read may see are not redundant.\<close>

fun mark_read ::
  "nat \<Rightarrow> BasicBlock list \<Rightarrow> BlockVars \<Rightarrow> ReachingDefs \<Rightarrow> Expression \<Rightarrow> (Definition \<times> Expression) list \<Rightarrow> redundant \<Rightarrow> redundant option" where
  "mark_read fuel blocks block_vars vars storage [] redundant = Some redundant"
| "mark_read fuel blocks block_vars vars storage ((d, expr) # stores) redundant = do {
     def_vars \<leftarrow> get_vars_at d block_vars;
     c \<leftarrow> expression_compare fuel blocks block_vars storage vars expr def_vars;
     mark_read fuel blocks block_vars vars storage stores
       (if c \<noteq> CmpNotEqual \<and> map_of redundant d \<noteq> None then AList.update d False redundant else redundant) }"

definition set_instr :: "nat \<Rightarrow> nat \<Rightarrow> Instr \<Rightarrow> BasicBlock list \<Rightarrow> BasicBlock list" where
  "set_instr block_no instr_no instr blocks =
     blocks[block_no := (blocks ! block_no)\<lparr>b_instr := (b_instr (blocks ! block_no))[instr_no := instr]\<rparr>]"

definition visit_instr ::
  "nat \<Rightarrow> (nat list \<Rightarrow> nat list) \<Rightarrow> BlockVars \<Rightarrow> nat \<Rightarrow> nat \<Rightarrow> ReachingDefs \<Rightarrow> Instr \<Rightarrow>
   BasicBlock list \<times> redundant \<Rightarrow> (BasicBlock list \<times> redundant) option" where
  "visit_instr fuel order block_vars block_no instr_no vars instr = (\<lambda>(blocks, redundant).
     case instr of
       Instr.LoadStorage res ty storage _ \<Rightarrow> do {
         found \<leftarrow> find_holder (holds_slot fuel blocks block_vars vars res ty storage) (order (map fst (rd_vars vars)));
         (case found of
            Some var_no \<Rightarrow> Some (set_instr block_no instr_no
              (Instr.Set Loc.Codegen res (Expression.Variable Loc.Codegen ty var_no)) blocks, redundant)
          | None \<Rightarrow> map_option (Pair blocks) (mark_read fuel blocks block_vars vars storage (rd_stores vars) redundant)) }
     | Instr.PushStorage _ _ _ storage \<Rightarrow>
         map_option (Pair blocks) (mark_read fuel blocks block_vars vars storage (rd_stores vars) redundant)
     | Instr.PopStorage _ _ storage \<Rightarrow>
         map_option (Pair blocks) (mark_read fuel blocks block_vars vars storage (rd_stores vars) redundant)
     | Instr.SetStorage _ _ _ _ \<Rightarrow> Some (blocks, AList.map_default (DefInstr block_no instr_no 0) True id redundant)
     | Instr.SetStorageBytes _ _ _ \<Rightarrow> Some (blocks, AList.map_default (DefInstr block_no instr_no 0) True id redundant)
     | Instr.ClearStorage _ _ \<Rightarrow> Some (blocks, AList.map_default (DefInstr block_no instr_no 0) True id redundant)
     | _ \<Rightarrow> Some (blocks, redundant))"

definition flushes :: "StorageTransfer list \<Rightarrow> bool" where
  "flushes transfers \<longleftrightarrow> (\<exists>t \<in> set transfers. case t of SStore _ None \<Rightarrow> True | _ \<Rightarrow> False)"

definition mark_flushed :: "StorageTransfer list \<Rightarrow> ReachingDefs \<Rightarrow> redundant \<Rightarrow> redundant" where
  "mark_flushed transfers vars redundant =
     (if flushes transfers then fold (\<lambda>(d, _). AList.update d False) (rd_stores vars) redundant else redundant)"

definition dead_storage_instr ::
  "nat \<Rightarrow> (nat list \<Rightarrow> nat list) \<Rightarrow> BlockVars \<Rightarrow> StorageTransfer list list list \<Rightarrow> nat \<times> nat \<Rightarrow>
   BasicBlock list \<times> redundant \<Rightarrow> (BasicBlock list \<times> redundant) option" where
  "dead_storage_instr fuel order block_vars transfers = (\<lambda>(block_no, instr_no) (blocks, redundant).
     case map_of block_vars block_no of
       None \<Rightarrow> Some (blocks, redundant)
     | Some entries \<Rightarrow> do {
         vars \<leftarrow> vec_get entries instr_no;
         instr \<leftarrow> instr_at blocks block_no instr_no;
         (blocks, redundant) \<leftarrow> visit_instr fuel order block_vars block_no instr_no vars instr (blocks, redundant);
         Some (blocks, mark_flushed (transfers ! block_no ! instr_no) vars redundant) })"

fun dead_storage_instrs ::
  "nat \<Rightarrow> (nat list \<Rightarrow> nat list) \<Rightarrow> BlockVars \<Rightarrow> StorageTransfer list list list \<Rightarrow> (nat \<times> nat) list \<Rightarrow>
   BasicBlock list \<times> redundant \<Rightarrow> (BasicBlock list \<times> redundant) option" where
  "dead_storage_instrs fuel order block_vars transfers [] st = Some st"
| "dead_storage_instrs fuel order block_vars transfers (p # ps) st = do {
     st \<leftarrow> dead_storage_instr fuel order block_vars transfers p st;
     dead_storage_instrs fuel order block_vars transfers ps st }"

fun remove_redundant :: "redundant \<Rightarrow> BasicBlock list \<Rightarrow> BasicBlock list option" where
  "remove_redundant [] blocks = Some blocks"
| "remove_redundant ((d, redundant) # rest) blocks =
     (case d of
        DefInstr block_no instr_no _ \<Rightarrow>
          if redundant then do {
            instr \<leftarrow> instr_at blocks block_no instr_no;
            remove_redundant rest
              (case instr of Instr.Call _ _ _ _ \<Rightarrow> blocks | _ \<Rightarrow> set_instr block_no instr_no Instr.Nop blocks) }
          else remove_redundant rest blocks
      | DefUndefined \<Rightarrow> remove_redundant rest blocks)"

definition positions :: "BasicBlock list \<Rightarrow> (nat \<times> nat) list" where
  "positions blocks = concat (map (\<lambda>(block_no, block). map (Pair block_no) [0 ..< length (b_instr block)]) (enumerate 0 blocks))"

definition dead_storage ::
  "nat \<Rightarrow> (nat set \<Rightarrow> nat) \<Rightarrow> (nat list \<Rightarrow> nat list) \<Rightarrow> ControlFlowGraph \<Rightarrow> ControlFlowGraph option" where
  "dead_storage fuel pick order cfg = do {
     block_vars \<leftarrow> storage_reaching_definitions fuel pick cfg;
     (blocks, redundant) \<leftarrow> dead_storage_instrs fuel order block_vars
       (map (\<lambda>(block_no, block). storage_transfers block_no block) (enumerate 0 (cfg_blocks cfg)))
       (positions (cfg_blocks cfg)) (cfg_blocks cfg, []);
     blocks \<leftarrow> remove_redundant redundant blocks;
     Some (cfg\<lparr>cfg_blocks := blocks\<rparr>) }"


section \<open>What the pass changes\<close>

definition is_storage_write :: "Instr \<Rightarrow> bool" where
  "is_storage_write instr = (case instr of
       Instr.SetStorage _ _ _ _ \<Rightarrow> True | Instr.SetStorageBytes _ _ _ \<Rightarrow> True | Instr.ClearStorage _ _ \<Rightarrow> True | _ \<Rightarrow> False)"

text \<open>A load becomes a copy of a variable, or a store is removed.\<close>

definition replaced :: "Instr \<Rightarrow> Instr \<Rightarrow> bool" where
  "replaced instr instr' \<longleftrightarrow> instr' = instr \<or>
     (\<exists>res ty storage st var_no. instr = Instr.LoadStorage res ty storage st \<and>
        instr' = Instr.Set Loc.Codegen res (Expression.Variable Loc.Codegen ty var_no)) \<or>
     is_storage_write instr \<and> instr' = Instr.Nop"

definition rewritten :: "BasicBlock list \<Rightarrow> BasicBlock list \<Rightarrow> bool" where
  "rewritten = list_all2 (\<lambda>block block'. \<exists>instrs. block' = block\<lparr>b_instr := instrs\<rparr> \<and> list_all2 replaced (b_instr block) instrs)"

lemma rewritten_refl: "rewritten blocks blocks"
  unfolding rewritten_def by (rule list_all2_refl) (auto simp: replaced_def intro!: exI [of _ "b_instr _"] list_all2_refl)

lemma instr_at_Some: "instr_at blocks b i = Some ins \<longleftrightarrow> b < length blocks \<and> i < length (b_instr (blocks ! b)) \<and> b_instr (blocks ! b) ! i = ins"
  by (auto simp: instr_at_def vec_get_def split: if_splits)

lemma rewritten_instr:
  assumes "rewritten blocks blocks'" "instr_at blocks' b i = Some ins'"
  shows "\<exists>ins. instr_at blocks b i = Some ins \<and> replaced ins ins'"
proof -
  have b: "b < length blocks'" "i < length (b_instr (blocks' ! b))" "b_instr (blocks' ! b) ! i = ins'"
    using assms(2) by (simp_all add: instr_at_Some)
  obtain instrs where "blocks' ! b = (blocks ! b)\<lparr>b_instr := instrs\<rparr>" "list_all2 replaced (b_instr (blocks ! b)) instrs" "b < length blocks"
    using assms(1) b(1) by (auto simp: rewritten_def list_all2_conv_all_nth)
  then show ?thesis using b by (auto simp: instr_at_Some list_all2_conv_all_nth)
qed

lemma rewritten_set_instr:
  assumes "rewritten blocks blocks'" "instr_at blocks b i = Some ins" "replaced ins new"
  shows "rewritten blocks (set_instr b i new blocks')"
proof -
  have b: "b < length blocks" "i < length (b_instr (blocks ! b))" "b_instr (blocks ! b) ! i = ins"
    using assms(2) by (simp_all add: instr_at_Some)
  have all: "list_all2 (\<lambda>block block'. \<exists>instrs. block' = block\<lparr>b_instr := instrs\<rparr> \<and> list_all2 replaced (b_instr block) instrs) blocks blocks'"
    using assms(1) by (simp add: rewritten_def)
  then obtain instrs where i: "blocks' ! b = (blocks ! b)\<lparr>b_instr := instrs\<rparr>" "list_all2 replaced (b_instr (blocks ! b)) instrs"
    using b(1) by (auto simp: list_all2_conv_all_nth)
  have "list_all2 replaced ((b_instr (blocks ! b))[i := ins]) (instrs[i := new])"
    using i(2) assms(3) by (rule list_all2_update_cong)
  then have "list_all2 replaced (b_instr (blocks ! b)) (instrs[i := new])" unfolding b(3) [symmetric] by simp
  then have "list_all2 (\<lambda>block block'. \<exists>instrs. block' = block\<lparr>b_instr := instrs\<rparr> \<and> list_all2 replaced (b_instr block) instrs)
      (blocks[b := blocks ! b]) (blocks'[b := (blocks' ! b)\<lparr>b_instr := (b_instr (blocks' ! b))[i := new]\<rparr>])"
    by (intro list_all2_update_cong [OF all]) (auto simp: i(1))
  then show ?thesis by (simp add: rewritten_def set_instr_def)
qed

lemma instr_at_set_instr:
  "instr_at blocks b i = Some ins \<Longrightarrow> instr_at (set_instr b i new blocks) b' i' = (if b' = b \<and> i' = i then Some new else instr_at blocks b' i')"
  by (auto simp: instr_at_def set_instr_def vec_get_def nth_list_update split: if_splits)

text \<open>The state of the pass: loads replaced so far, and the stores that may go.\<close>

definition pass_inv :: "BasicBlock list \<Rightarrow> BasicBlock list \<times> redundant \<Rightarrow> bool" where
  "pass_inv blocks0 = (\<lambda>(blocks, redundant). rewritten blocks0 blocks \<and> distinct (map fst redundant) \<and>
     (\<forall>b i ins. instr_at blocks0 b i = Some ins \<longrightarrow> is_storage_write ins \<longrightarrow> instr_at blocks b i = Some ins) \<and>
     (\<forall>d. (d, True) \<in> set redundant \<longrightarrow>
        (\<exists>b i ins. d = DefInstr b i 0 \<and> instr_at blocks0 b i = Some ins \<and> is_storage_write ins)))"

definition not_redundant :: "Definition \<Rightarrow> redundant \<Rightarrow> bool" where
  "not_redundant d redundant \<longleftrightarrow> map_of redundant d = Some False"

text \<open>Updates of the table that add no redundant store.\<close>

definition only_clears :: "redundant \<Rightarrow> redundant \<Rightarrow> bool" where
  "only_clears r r' \<longleftrightarrow> (distinct (map fst r) \<longrightarrow> distinct (map fst r')) \<and>
     (\<forall>d. (d, True) \<in> set r' \<longrightarrow> (d, True) \<in> set r) \<and> (\<forall>d. not_redundant d r \<longrightarrow> not_redundant d r')"

lemma set_update: "x \<in> set (AList.update k v xs) \<Longrightarrow> x = (k, v) \<or> x \<in> set xs"
  by (induction xs) (auto split: if_splits)

lemma only_clears_refl [simp]: "only_clears r r"
  by (simp add: only_clears_def)

lemma only_clears_trans: "only_clears a b \<Longrightarrow> only_clears b c \<Longrightarrow> only_clears a c"
  by (simp add: only_clears_def)

lemma only_clears_update: "only_clears r (AList.update d False r)"
  by (auto simp: only_clears_def not_redundant_def distinct_update update_conv' dest: set_update)

lemma only_clears_mark_read:
  "mark_read fuel blocks block_vars vars storage stores r = Some r' \<Longrightarrow> only_clears r r'"
proof (induction stores arbitrary: r)
  case (Cons s stores)
  obtain d e where s: "s = (d, e)" by fastforce
  obtain mid where "mark_read fuel blocks block_vars vars storage stores mid = Some r'" "mid = r \<or> mid = AList.update d False r"
    using Cons.prems by (auto simp: s Option.bind_eq_Some_conv split: if_splits)
  then show ?case using Cons.IH only_clears_trans only_clears_update by blast
qed simp

lemma mark_flushed_eq: "only_clears r (fold (\<lambda>(d, _). AList.update d False) stores r)"
proof (induction stores arbitrary: r)
  case (Cons s stores)
  then show ?case using only_clears_trans [OF only_clears_update Cons.IH] by (simp add: case_prod_unfold)
qed simp

lemma only_clears_mark_flushed: "only_clears r (mark_flushed ts vars r)"
  by (simp add: mark_flushed_def mark_flushed_eq)

lemma not_redundant_fold: "not_redundant d r \<or> d \<in> fst ` set stores \<Longrightarrow> not_redundant d (fold (\<lambda>(d, _). AList.update d False) stores r)"
proof (induction stores arbitrary: r)
  case (Cons s stores)
  have "not_redundant d (AList.update (fst s) False r) \<or> d \<in> fst ` set stores"
    using Cons.prems by (auto simp: not_redundant_def update_conv')
  from Cons.IH [OF this] show ?case by (simp add: case_prod_unfold)
qed simp

lemma mark_flushed_not_redundant: "flushes ts \<Longrightarrow> d \<in> fst ` set (rd_stores vars) \<Longrightarrow> not_redundant d (mark_flushed ts vars r)"
  by (simp add: mark_flushed_def not_redundant_fold)

lemma pass_inv_clears: "pass_inv blocks0 (blocks, r) \<Longrightarrow> only_clears r r' \<Longrightarrow> pass_inv blocks0 (blocks, r')"
  by (auto simp: pass_inv_def only_clears_def)


lemma pass_inv_write:
  assumes "pass_inv blocks0 (blocks, r)" "instr_at blocks b i = Some ins" "is_storage_write ins"
  shows "pass_inv blocks0 (blocks, AList.map_default (DefInstr b i 0) True id r)"
    and "not_redundant d r \<Longrightarrow> not_redundant d (AList.map_default (DefInstr b i 0) True id r)"
proof -
  have set: "x \<in> set (AList.map_default k v id r) \<Longrightarrow> x = (k, v) \<or> x \<in> set r" for x :: "Definition \<times> bool" and k v
    by (induction r) (auto split: if_splits)
  obtain ins0 where "instr_at blocks0 b i = Some ins0" "replaced ins0 ins"
    using rewritten_instr [OF _ assms(2), of blocks0] assms(1) by (auto simp: pass_inv_def)
  moreover have "ins0 = ins" using calculation(2) assms(3) by (auto simp: replaced_def is_storage_write_def)
  ultimately show "pass_inv blocks0 (blocks, AList.map_default (DefInstr b i 0) True id r)"
    using assms(1,3) by (auto simp: pass_inv_def distinct_map_default dest!: set)
  show "not_redundant d (AList.map_default (DefInstr b i 0) True id r)" if "not_redundant d r"
    using that unfolding not_redundant_def by (induction r) auto
qed

lemma pass_inv_load:
  assumes "pass_inv blocks0 (blocks, r)" "instr_at blocks b i = Some (Instr.LoadStorage res ty storage st)"
  shows "pass_inv blocks0 (set_instr b i (Instr.Set Loc.Codegen res (Expression.Variable Loc.Codegen ty v)) blocks, r)"
proof -
  obtain ins0 where at: "instr_at blocks0 b i = Some ins0" "replaced ins0 (Instr.LoadStorage res ty storage st)"
    using rewritten_instr [OF _ assms(2), of blocks0] assms(1) by (auto simp: pass_inv_def)
  then have "ins0 = Instr.LoadStorage res ty storage st" by (auto simp: replaced_def)
  then have "replaced ins0 (Instr.Set Loc.Codegen res (Expression.Variable Loc.Codegen ty v))" "\<not> is_storage_write ins0"
    by (auto simp: replaced_def is_storage_write_def)
  then show ?thesis using assms(1) rewritten_set_instr [OF _ at(1)] at(1) instr_at_set_instr [OF assms(2)]
    by (auto simp: pass_inv_def)
qed

lemma visit_instr_inv:
  assumes "visit_instr fuel order block_vars b i vars ins (blocks, r) = Some st'" "pass_inv blocks0 (blocks, r)" "instr_at blocks b i = Some ins"
  shows "pass_inv blocks0 st' \<and> (\<forall>d. not_redundant d r \<longrightarrow> not_redundant d (snd st'))"
proof (cases "is_storage_write ins")
  case True
  then have "st' = (blocks, AList.map_default (DefInstr b i 0) True id r)"
    using assms(1) by (cases ins) (auto simp: visit_instr_def is_storage_write_def)
  then show ?thesis using pass_inv_write [OF assms(2,3) True] by simp
next
  case False
  have read: "pass_inv blocks0 st' \<and> (\<forall>d. not_redundant d r \<longrightarrow> not_redundant d (snd st'))"
    if "map_option (Pair blocks) (mark_read fuel blocks block_vars vars storage (rd_stores vars) r) = Some st'" for storage
    using that only_clears_mark_read pass_inv_clears [OF assms(2)] by (fastforce simp: only_clears_def)
  show ?thesis
  proof (cases ins)
    case (LoadStorage res ty storage st)
    then show ?thesis using assms(1) read pass_inv_load [OF assms(2) assms(3) [unfolded LoadStorage]]
      by (auto simp: visit_instr_def Option.bind_eq_Some_conv split: option.splits)
  next
    case (PushStorage res ty v storage)
    then show ?thesis using assms(1) read by (simp add: visit_instr_def)
  next
    case (PopStorage res ty storage)
    then show ?thesis using assms(1) read by (simp add: visit_instr_def)
  qed (use False assms(1,2) in \<open>auto simp: visit_instr_def is_storage_write_def\<close>)
qed

lemma dead_storage_instr_inv:
  assumes "dead_storage_instr fuel order block_vars transfers (b, i) (blocks, r) = Some st'" "pass_inv blocks0 (blocks, r)"
  shows "pass_inv blocks0 st' \<and> (\<forall>d. not_redundant d r \<longrightarrow> not_redundant d (snd st')) \<and>
    (\<forall>entries d. map_of block_vars b = Some entries \<longrightarrow> flushes (transfers ! b ! i) \<longrightarrow>
       d \<in> fst ` set (rd_stores (entries ! i)) \<longrightarrow> not_redundant d (snd st'))"
proof (cases "map_of block_vars b")
  case None
  then show ?thesis using assms by (auto simp: dead_storage_instr_def)
next
  case (Some entries)
  then obtain ins blocks1 r1 where v: "i < length entries" "instr_at blocks b i = Some ins"
    "visit_instr fuel order block_vars b i (entries ! i) ins (blocks, r) = Some (blocks1, r1)"
    "st' = (blocks1, mark_flushed (transfers ! b ! i) (entries ! i) r1)"
    using assms(1) by (auto simp: dead_storage_instr_def Option.bind_eq_Some_conv vec_simps)
  have "only_clears r1 (snd st')" using v(4) only_clears_mark_flushed by simp
  then show ?thesis using visit_instr_inv [OF v(3) assms(2) v(2)] pass_inv_clears v(4) Some mark_flushed_not_redundant
    by (auto simp: only_clears_def)
qed

lemma dead_storage_instrs_inv:
  assumes "dead_storage_instrs fuel order block_vars transfers ps st = Some st'" "pass_inv blocks0 st"
  shows "pass_inv blocks0 st' \<and> (\<forall>d. not_redundant d (snd st) \<longrightarrow> not_redundant d (snd st')) \<and>
    (\<forall>(b, i) \<in> set ps. \<forall>entries d. map_of block_vars b = Some entries \<longrightarrow> flushes (transfers ! b ! i) \<longrightarrow>
       d \<in> fst ` set (rd_stores (entries ! i)) \<longrightarrow> not_redundant d (snd st'))"
  using assms
proof (induction ps arbitrary: st)
  case (Cons p ps)
  obtain mid where mid: "dead_storage_instr fuel order block_vars transfers p st = Some mid"
    "dead_storage_instrs fuel order block_vars transfers ps mid = Some st'"
    using Cons.prems(1) by (auto simp: Option.bind_eq_Some_conv)
  obtain b i where p: "p = (b, i)" by fastforce
  note one = dead_storage_instr_inv [of fuel order block_vars transfers b i "fst st" "snd st" mid blocks0]
  from one mid(1) Cons.prems(2) have "pass_inv blocks0 mid" by (simp add: p)
  from Cons.IH [OF mid(2) this] one mid(1) Cons.prems(2) show ?case by (auto simp: p)
qed simp

lemma remove_redundant_inv:
  assumes "remove_redundant r blocks = Some blocks'" "rewritten blocks0 blocks"
    and "\<forall>d. (d, True) \<in> set r \<longrightarrow> (\<exists>b i ins. d = DefInstr b i 0 \<and> instr_at blocks0 b i = Some ins \<and> is_storage_write ins)"
  shows "rewritten blocks0 blocks' \<and>
    (\<forall>b i. (DefInstr b i 0, True) \<notin> set r \<longrightarrow> instr_at blocks' b i = instr_at blocks b i)"
  using assms
proof (induction r arbitrary: blocks)
  case (Cons x r)
  obtain d k where x: "x = (d, k)" by fastforce
  show ?case
  proof (cases k)
    case False
    then have "remove_redundant r blocks = Some blocks'" using Cons.prems(1) x by (cases d) auto
    then show ?thesis using Cons.IH [OF _ Cons.prems(2)] Cons.prems(3) x by simp
  next
    case True
    then obtain b i ins where d: "d = DefInstr b i 0" "instr_at blocks0 b i = Some ins" "is_storage_write ins"
      using Cons.prems(3) x by auto
    obtain ins' where ins': "instr_at blocks b i = Some ins'" using Cons.prems(1) x d(1) True by (auto simp: Option.bind_eq_Some_conv)
    have w: "replaced ins Instr.Nop" "rewritten blocks0 (set_instr b i Instr.Nop blocks)"
      using d(3) rewritten_set_instr [OF Cons.prems(2) d(2)] by (simp_all add: replaced_def)
    have "\<exists>mid. (mid = blocks \<or> mid = set_instr b i Instr.Nop blocks) \<and> remove_redundant r mid = Some blocks'"
      using Cons.prems(1) x d(1) True ins' by (cases ins') auto
    then obtain mid where mid: "mid = blocks \<or> mid = set_instr b i Instr.Nop blocks" "remove_redundant r mid = Some blocks'" by blast
    then have "rewritten blocks0 mid" using w(2) Cons.prems(2) by auto
    then have IH: "rewritten blocks0 blocks' \<and> (\<forall>b i. (DefInstr b i 0, True) \<notin> set r \<longrightarrow> instr_at blocks' b i = instr_at mid b i)"
      using Cons.IH [OF mid(2)] Cons.prems(3) by simp
    have "(DefInstr b' i' 0, True) \<notin> set (x # r) \<Longrightarrow> instr_at mid b' i' = instr_at blocks b' i'" for b' i'
      using mid(1) instr_at_set_instr [OF ins'] x d(1) True by auto
    then show ?thesis using IH by simp
  qed
qed simp


lemma dead_storage_unfold:
  assumes "dead_storage fuel pick order cfg = Some cfg'"
  obtains block_vars blocks r blocks' where "storage_reaching_definitions fuel pick cfg = Some block_vars"
    "dead_storage_instrs fuel order block_vars
       (map (\<lambda>(block_no, block). storage_transfers block_no block) (enumerate 0 (cfg_blocks cfg)))
       (positions (cfg_blocks cfg)) (cfg_blocks cfg, []) = Some (blocks, r)"
    "remove_redundant r blocks = Some blocks'" "cfg' = cfg\<lparr>cfg_blocks := blocks'\<rparr>"
  using assms by (auto simp: dead_storage_def Option.bind_eq_Some_conv)

lemma pass_inv_start: "pass_inv blocks (blocks, [])"
  by (simp add: pass_inv_def rewritten_refl)


section \<open>The stores that reach\<close>

definition stores_of :: "ReachingDefs \<Rightarrow> Definition set" where
  "stores_of vars = fst ` set (rd_stores vars)"

definition is_store :: "StorageTransfer \<Rightarrow> bool" where
  "is_store t = (case t of SStore _ _ \<Rightarrow> True | _ \<Rightarrow> False)"

text \<open>Transfers without a store keep the stores that reach; a store is among them after it.\<close>

definition stores_step :: "StorageTransfer list \<Rightarrow> Definition set \<Rightarrow> Definition set \<Rightarrow> bool" where
  "stores_step ts S S' \<longleftrightarrow> ((\<forall>t \<in> set ts. \<not> is_store t) \<longrightarrow> S \<subseteq> S') \<and> (\<forall>d e. ts = [SStore d (Some e)] \<longrightarrow> d \<in> S')"

lemma full_transfers_step:
  assumes "full_transfers fuel blocks block_vars ts vars = Some vars'"
  shows "stores_step ts (stores_of vars) (stores_of vars')"
proof -
  have "(\<forall>t \<in> set ts. \<not> is_store t) \<longrightarrow> stores_of vars' = stores_of vars" using assms
  proof (induction ts arbitrary: vars)
    case (Cons t ts)
    have "rd_stores (var_transfer t vars) = rd_stores vars" by (cases t) (auto simp: var_transfer_def split: option.splits)
    then show ?case using Cons by (cases t) (auto simp: full_transfer_def is_store_def stores_of_def)
  qed simp
  moreover have "d \<in> stores_of vars'" if "ts = [SStore d (Some e)]" for d e
    using assms that by (auto simp: full_transfer_def store_transfer_def stores_of_def Let_def Option.bind_eq_Some_conv)
  ultimately show ?thesis by (simp add: stores_step_def)
qed

definition stores_chain :: "StorageTransfer list list \<Rightarrow> ReachingDefs list \<Rightarrow> bool" where
  "stores_chain tss vs \<longleftrightarrow> length vs = Suc (length tss) \<and>
     (\<forall>k < length tss. stores_step (tss ! k) (stores_of (vs ! k)) (stores_of (vs ! Suc k)))"

lemma second_pass_chain:
  "second_pass fuel blocks block_vars tss vars = Some (res, out) \<Longrightarrow>
   stores_chain tss (res @ [out]) \<and> (res @ [out]) ! 0 = vars"
proof (induction tss arbitrary: vars res)
  case (Cons ts tss)
  obtain next_vars res' where r: "full_transfers fuel blocks block_vars ts vars = Some next_vars"
    "second_pass fuel blocks block_vars tss next_vars = Some (res', out)" "res = vars # res'"
    using Cons.prems by (auto simp: Option.bind_eq_Some_conv)
  then show ?case using Cons.IH [OF r(2)] full_transfers_step [OF r(1)]
    by (auto simp: stores_chain_def nth_Cons' less_Suc_eq_0_disj)
qed (simp add: stores_chain_def)


section \<open>The worklist\<close>

text \<open>The stores \<open>S\<close> are recorded at the entry of a block.\<close>

definition entered :: "BlockVars \<Rightarrow> nat \<Rightarrow> Definition set \<Rightarrow> bool" where
  "entered block_vars e S \<longleftrightarrow> (\<exists>vs. map_of block_vars e = Some vs \<and> vs \<noteq> [] \<and> S \<subseteq> stores_of (vs ! 0))"

definition block_settled :: "BasicBlock list \<Rightarrow> BlockVars \<Rightarrow> nat \<Rightarrow> bool" where
  "block_settled blocks block_vars b \<longleftrightarrow> (\<exists>vs out es. b < length blocks \<and> map_of block_vars b = Some vs \<and>
     stores_chain (storage_transfers b (blocks ! b)) (vs @ [out]) \<and> successors (blocks ! b) = Some es \<and>
     (\<forall>e \<in> set es. entered block_vars e (stores_of out)))"

text \<open>One step of merging: entries only grow, and a block whose entry changes is put on the worklist.\<close>

definition merged :: "BlockVars \<times> nat set \<Rightarrow> BlockVars \<times> nat set \<Rightarrow> bool" where
  "merged = (\<lambda>(bv, todo) (bv', todo'). todo \<subseteq> todo' \<and> (\<forall>b. b \<in> todo' \<or> map_of bv' b = map_of bv b) \<and>
     (\<forall>b S. entered bv b S \<longrightarrow> entered bv' b S))"

lemma merged_refl [simp]: "merged st st"
  by (auto simp: merged_def)

lemma merged_trans: "merged a b \<Longrightarrow> merged b c \<Longrightarrow> merged a c"
  unfolding merged_def by (auto split: prod.splits) (metis subsetD)

lemma merge_storage_defs_same: "merge_storage_defs defs entry c = (entry', False) \<Longrightarrow> entry' = entry \<and> \<not> c"
  by (induction defs entry c rule: merge_storage_defs.induct) (auto split: if_splits)

lemma merge_storage_vars_same: "merge_storage_vars incoming vars c = (vars', False) \<Longrightarrow> vars' = vars \<and> \<not> c"
proof (induction incoming vars c rule: merge_storage_vars.induct)
  case (2 var_no defs incoming vars c)
  show ?case
  proof (cases "map_of vars var_no")
    case (Some entry)
    obtain entry1 c1 where m: "merge_storage_defs defs entry c = (entry1, c1)" by fastforce
    then have "AList.update var_no entry1 vars = vars' \<and> \<not> c1" using "2.IH"(2) [OF Some m [symmetric] refl] "2.prems" Some by auto
    then show ?thesis using merge_storage_defs_same [of defs entry c entry1] m Some by (auto simp: update_triv)
  qed (use "2.IH"(1) "2.prems" in auto)
qed simp

lemma merge_stores_effect:
  "merge_stores incoming stores c = (stores', c') \<Longrightarrow>
   fst ` set stores' = fst ` set incoming \<union> fst ` set stores \<and> (\<not> c' \<longrightarrow> stores' = stores \<and> \<not> c)"
proof (induction incoming stores c rule: merge_stores.induct)
  case (2 s incoming stores c)
  show ?case
  proof (cases "fst s \<in> fst ` set stores")
    case True
    then have n: "\<exists>(d, _) \<in> set stores. d = fst s" by force
    then have "merge_stores incoming stores c = (stores', c')" using "2.prems" by (simp only: merge_stores.simps if_True)
    from "2.IH"(1) [OF n this] show ?thesis using True by auto
  next
    case False
    then have n: "\<not> (\<exists>(d, _) \<in> set stores. d = fst s)" by (auto simp: image_iff)
    then have "merge_stores incoming (stores @ [s]) True = (stores', c')" using "2.prems" by (simp only: merge_stores.simps if_False)
    from "2.IH"(2) [OF n this] show ?thesis by auto
  qed
qed simp

lemma merge_reaching_effect:
  assumes "merge_reaching vars entry = (entry', changed)"
  shows "stores_of entry' = stores_of vars \<union> stores_of entry" "\<not> changed \<Longrightarrow> entry' = entry"
proof -
  obtain vs c1 where v: "merge_storage_vars (rd_vars vars) (rd_vars entry) False = (vs, c1)" by fastforce
  obtain stores c2 where s: "merge_stores (rd_stores vars) (rd_stores entry) c1 = (stores, c2)" by fastforce
  have e: "entry' = \<lparr>rd_vars = vs, rd_stores = stores\<rparr>" "changed = c2" using assms v s by (simp_all add: merge_reaching_def)
  show "stores_of entry' = stores_of vars \<union> stores_of entry" using merge_stores_effect [OF s] e by (simp add: stores_of_def)
  show "entry' = entry" if "\<not> changed"
    using that merge_stores_effect [OF s] merge_storage_vars_same [of _ _ False vs] v e by (cases c1) simp_all
qed

lemma merge_storage_edge_merged:
  assumes "merge_storage_edge vars edge (bv, todo) = Some (bv', todo')"
  shows "merged (bv, todo) (bv', todo') \<and> entered bv' edge (stores_of vars)"
proof (cases "map_of bv edge")
  case None
  then show ?thesis using assms by (auto simp: merge_storage_edge_def merged_def entered_def update_conv')
next
  case (Some entries)
  then obtain e where e: "entries \<noteq> []" "e = entries ! 0" using assms
    by (cases entries) (auto simp: merge_storage_edge_def vec_get_def)
  show ?thesis
  proof (cases "reaching_defs_eq e vars")
    case True
    then have "bv' = bv" "todo' = todo" "stores_of vars = stores_of e"
      using assms Some e by (simp_all add: merge_storage_edge_def vec_get_def reaching_defs_eq_def stores_of_def)
    then show ?thesis using Some e by (auto simp: entered_def)
  next
    case False
    obtain e' c where m: "merge_reaching vars e = (e', c)" by fastforce
    note eff = merge_reaching_effect [OF m]
    have b: "bv' = AList.update edge (entries[0 := e']) bv" "todo' = (if c then insert edge todo else todo)"
      using assms Some e False m by (simp_all add: merge_storage_edge_def vec_get_def)
    have "\<not> c \<Longrightarrow> bv' = bv" using b(1) eff(2) e(2) Some by (simp add: update_triv)
    moreover have "entered bv' edge (stores_of vars)" using b(1) eff(1) e(1) by (auto simp: entered_def update_conv')
    moreover have "entered bv b S \<longrightarrow> entered bv' b S" for b S
      using b(1) eff(1) e Some by (auto simp: entered_def update_conv')
    moreover have "c \<Longrightarrow> x \<in> todo' \<or> map_of bv' x = map_of bv x" for x using b by (simp add: update_conv')
    ultimately show ?thesis using b(2) by (cases c) (auto simp: merged_def)
  qed
qed

lemma merge_storage_edges_merged:
  "merge_storage_edges vars edges st = Some st' \<Longrightarrow> merged st st' \<and> (\<forall>e \<in> set edges. entered (fst st') e (stores_of vars))"
proof (induction edges arbitrary: st)
  case (Cons edge edges)
  obtain mid where mid: "merge_storage_edge vars edge st = Some mid" "merge_storage_edges vars edges mid = Some st'"
    using Cons.prems by (auto simp: Option.bind_eq_Some_conv)
  have "merged st mid" "entered (fst mid) edge (stores_of vars)"
    using merge_storage_edge_merged [of vars edge "fst st" "snd st" "fst mid" "snd mid"] mid(1) by simp_all
  then show ?case using Cons.IH [OF mid(2)] merged_trans [of st mid st'] by (auto simp: merged_def split: prod.splits)
qed simp

definition storage_inv :: "BasicBlock list \<Rightarrow> BlockVars \<times> nat set \<Rightarrow> bool" where
  "storage_inv blocks = (\<lambda>(bv, todo). (0 \<in> todo \<or> map_of bv 0 \<noteq> None) \<and>
     (\<forall>b. map_of bv b \<noteq> None \<longrightarrow> b \<in> todo \<or> block_settled blocks bv b))"

lemma block_settled_mono:
  "block_settled blocks bv b \<Longrightarrow> map_of bv' b = map_of bv b \<Longrightarrow> (\<And>e S. entered bv e S \<Longrightarrow> entered bv' e S) \<Longrightarrow>
   block_settled blocks bv' b"
  unfolding block_settled_def by metis

lemma first_pass_0: "tss \<noteq> [] \<Longrightarrow> first_pass tss vars ! 0 = vars"
  by (cases tss) simp_all

lemma apply_storage_transfers_effect:
  assumes "apply_storage_transfers fuel blocks tss b vars bv = Some (out, bv')"
  shows "\<exists>res. map_of bv' = (map_of bv)(b \<mapsto> res) \<and> res \<noteq> [] \<and> res ! 0 = vars \<and> stores_chain tss (res @ [out])"
proof -
  let ?bv = "AList.update b (first_pass tss vars) bv"
  obtain res where tss: "tss \<noteq> []" and r: "second_pass fuel blocks ?bv tss vars = Some (res, out)" "bv' = AList.update b res ?bv"
    using assms by (cases tss) (auto simp: apply_storage_transfers_def Let_def vec_get_def Option.bind_eq_Some_conv)
  note chain = second_pass_chain [OF r(1)]
  then have "res \<noteq> []" using tss by (auto simp: stores_chain_def)
  then show ?thesis using chain r(2) by (auto simp: update_conv' nth_append intro!: exI [of _ res])
qed

lemma visit_block_inv:
  assumes "visit_block fuel cfg b (bv, todo) = Some (bv', todo')" "storage_inv (cfg_blocks cfg) (bv, todo)"
  shows "storage_inv (cfg_blocks cfg) (bv', todo')"
proof -
  let ?blocks = "cfg_blocks cfg"
  obtain vars block out bv1 es where v: "(case map_of bv b of Some vars \<Rightarrow> vec_get vars 0 | None \<Rightarrow> Some (undefined_entry cfg)) = Some vars"
    "b < length ?blocks" "apply_storage_transfers fuel ?blocks (storage_transfers b (?blocks ! b)) b vars bv = Some (out, bv1)"
    "successors (?blocks ! b) = Some es" "merge_storage_edges out es (bv1, todo - {b}) = Some (bv', todo')"
    using assms(1) by (auto simp: visit_block_def Option.bind_eq_Some_conv vec_simps)
  obtain res where res: "map_of bv1 = (map_of bv)(b \<mapsto> res)" "res \<noteq> []" "res ! 0 = vars"
    "stores_chain (storage_transfers b (?blocks ! b)) (res @ [out])"
    using apply_storage_transfers_effect [OF v(3)] by blast
  have m: "merged (bv1, todo - {b}) (bv', todo')" "\<forall>e \<in> set es. entered bv' e (stores_of out)"
    using merge_storage_edges_merged [OF v(5)] by simp_all
  have entered1: "entered bv1 e S" if "entered bv e S" for e S
    using that res v(1) by (auto simp: entered_def vec_get_def split: if_splits)
  then have mono: "entered bv' e S" if "entered bv e S" for e S using that m(1) by (simp add: merged_def)
  have "entered bv1 b {}" using res(1,2) by (simp add: entered_def)
  then have "entered bv' b {}" using m(1) by (simp add: merged_def)
  then have b: "map_of bv' b \<noteq> None" by (auto simp: entered_def)
  have same: "map_of bv' x = map_of bv1 x" if "x \<notin> todo'" for x using m(1) that by (auto simp: merged_def)
  have "block_settled ?blocks bv' x" if x: "map_of bv' x \<noteq> None" "x \<notin> todo'" for x
  proof (cases "x = b")
    case True
    then show ?thesis using same [OF x(2)] res v(2,4) m(2) by (auto simp: block_settled_def)
  next
    case False
    then have "map_of bv' x = map_of bv x" "x \<notin> todo" using same [OF x(2)] res(1) m(1) x(2) by (auto simp: merged_def)
    then show ?thesis using assms(2) x(1) block_settled_mono [of ?blocks bv x bv'] mono by (auto simp: storage_inv_def)
  qed
  moreover have "0 \<in> todo' \<or> map_of bv' 0 \<noteq> None"
  proof (cases "0 \<in> todo'")
    case False
    then have "0 \<notin> todo - {b}" using m(1) by (auto simp: merged_def)
    then show ?thesis using assms(2) same [OF False] res(1) b by (auto simp: storage_inv_def)
  qed simp
  ultimately show ?thesis by (auto simp: storage_inv_def)
qed


lemma visit_loop_rule:
  assumes "visit_loop fuel pick cfg st = Some bv'" and "P st"
    and step: "\<And>b st st'. P st \<Longrightarrow> visit_block fuel cfg b st = Some st' \<Longrightarrow> P st'"
  shows "P (bv', {})"
proof -
  have "cfg' = cfg \<longrightarrow> fuel' = fuel \<longrightarrow> P st \<longrightarrow> P (bv', {})" if "visit_loop fuel' pick' cfg' st = Some bv'" for fuel' pick' cfg' st bv'
  proof (rule visit_loop.raw_induct [OF _ that])
    fix rec :: "nat \<Rightarrow> (nat set \<Rightarrow> nat) \<Rightarrow> ControlFlowGraph \<Rightarrow> BlockVars \<times> nat set \<Rightarrow> BlockVars option"
      and fuel' pick' cfg' st bv'
    assume IH: "\<And>fuel' pick' cfg' st bv'. rec fuel' pick' cfg' st = Some bv' \<Longrightarrow> cfg' = cfg \<longrightarrow> fuel' = fuel \<longrightarrow> P st \<longrightarrow> P (bv', {})"
      and eq: "(if snd st = {} then Some (fst st)
        else visit_block fuel' cfg' (pick' (snd st)) st \<bind> rec fuel' pick' cfg') = Some bv'"
    show "cfg' = cfg \<longrightarrow> fuel' = fuel \<longrightarrow> P st \<longrightarrow> P (bv', {})"
    proof (cases "snd st = {}")
      case True
      then show ?thesis using eq by (cases st) simp
    next
      case False
      then obtain mid where "visit_block fuel' cfg' (pick' (snd st)) st = Some mid" "rec fuel' pick' cfg' mid = Some bv'"
        using eq by (auto simp: Option.bind_eq_Some_conv)
      then show ?thesis using IH step by blast
    qed
  qed
  then show ?thesis using assms(1,2) by blast
qed

lemma storage_reaching_settled:
  assumes "storage_reaching_definitions fuel pick cfg = Some bv"
  shows "map_of bv 0 \<noteq> None" "map_of bv b \<noteq> None \<Longrightarrow> block_settled (cfg_blocks cfg) bv b"
proof -
  have "storage_inv (cfg_blocks cfg) (bv, {})"
  proof (rule visit_loop_rule [OF assms [unfolded storage_reaching_definitions_def]])
    show "storage_inv (cfg_blocks cfg) ([], {0})" by (simp add: storage_inv_def)
    fix b st st' assume "storage_inv (cfg_blocks cfg) st" "visit_block fuel cfg b st = Some st'"
    then show "storage_inv (cfg_blocks cfg) st'" using visit_block_inv [of fuel cfg b "fst st" "snd st" "fst st'" "snd st'"] by simp
  qed
  then show "map_of bv 0 \<noteq> None" "map_of bv b \<noteq> None \<Longrightarrow> block_settled (cfg_blocks cfg) bv b" by (simp_all add: storage_inv_def)
qed

section \<open>A store that is seen is kept\<close>

text \<open>The blocks that the entry leads to.\<close>

inductive reachable :: "BasicBlock list \<Rightarrow> nat \<Rightarrow> bool" for blocks where
  entry: "reachable blocks 0"
| edge: "reachable blocks b \<Longrightarrow> b < length blocks \<Longrightarrow> successors (blocks ! b) = Some es \<Longrightarrow> e \<in> set es \<Longrightarrow> reachable blocks e"

text \<open>
  The positions that control reaches from behind an instruction before another instruction stores to
  storage or hands control to code that may.
\<close>

inductive undisturbed :: "BasicBlock list \<Rightarrow> nat \<Rightarrow> nat \<Rightarrow> nat \<Rightarrow> nat \<Rightarrow> bool" for blocks b0 i0 where
  start: "undisturbed blocks b0 i0 b0 (Suc i0)"
| instr: "undisturbed blocks b0 i0 b k \<Longrightarrow> instr_at blocks b k = Some ins \<Longrightarrow>
    \<forall>t \<in> set (storage_transfer b k ins). \<not> is_store t \<Longrightarrow> undisturbed blocks b0 i0 b (Suc k)"
| jump: "undisturbed blocks b0 i0 b k \<Longrightarrow> b < length blocks \<Longrightarrow> k = length (b_instr (blocks ! b)) \<Longrightarrow>
    successors (blocks ! b) = Some es \<Longrightarrow> e \<in> set es \<Longrightarrow> undisturbed blocks b0 i0 e 0"

lemma reachable_visited:
  assumes "storage_reaching_definitions fuel pick cfg = Some bv" "reachable (cfg_blocks cfg) b"
  shows "map_of bv b \<noteq> None"
  using assms(2)
proof (induction rule: reachable.induct)
  case (edge b es e)
  then show ?case using storage_reaching_settled(2) [OF assms(1), of b] by (auto simp: block_settled_def entered_def)
qed (rule storage_reaching_settled(1) [OF assms(1)])

text \<open>The stores recorded before the instruction \<open>k\<close> of a block.\<close>

definition recorded :: "BasicBlock list \<Rightarrow> BlockVars \<Rightarrow> nat \<Rightarrow> nat \<Rightarrow> Definition \<Rightarrow> bool" where
  "recorded blocks bv b k d \<longleftrightarrow> (\<exists>vs out es. b < length blocks \<and> map_of bv b = Some vs \<and> k < length (vs @ [out]) \<and>
     stores_chain (storage_transfers b (blocks ! b)) (vs @ [out]) \<and> successors (blocks ! b) = Some es \<and>
     (\<forall>e \<in> set es. entered bv e (stores_of out)) \<and> d \<in> stores_of ((vs @ [out]) ! k))"

lemma length_storage_transfers [simp]: "length (storage_transfers b block) = length (b_instr block)"
  by (simp add: storage_transfers_def)

lemma nth_storage_transfers: "k < length (b_instr block) \<Longrightarrow> storage_transfers b block ! k = storage_transfer b k (b_instr block ! k)"
  by (simp add: storage_transfers_def nth_enumerate_eq)

lemma write_transfer:
  "is_storage_write ins \<Longrightarrow> \<exists>e. storage_transfer b i ins = [SStore (DefInstr b i 0) (Some e)]"
  by (cases ins) (auto simp: is_storage_write_def storage_transfer_def)

lemma undisturbed_recorded:
  assumes run: "storage_reaching_definitions fuel pick cfg = Some bv" and "reachable (cfg_blocks cfg) b0"
    and at: "instr_at (cfg_blocks cfg) b0 i0 = Some ins" "is_storage_write ins" and "undisturbed (cfg_blocks cfg) b0 i0 b k"
  shows "recorded (cfg_blocks cfg) bv b k (DefInstr b0 i0 0)"
  using assms(5)
proof (induction rule: undisturbed.induct)
  case start
  have i: "b0 < length (cfg_blocks cfg)" "i0 < length (b_instr (cfg_blocks cfg ! b0))" "b_instr (cfg_blocks cfg ! b0) ! i0 = ins"
    using at(1) by (simp_all add: instr_at_Some)
  obtain e where e: "storage_transfers b0 (cfg_blocks cfg ! b0) ! i0 = [SStore (DefInstr b0 i0 0) (Some e)]"
    using write_transfer [OF at(2)] i by (auto simp: nth_storage_transfers)
  have "block_settled (cfg_blocks cfg) bv b0" using storage_reaching_settled(2) [OF run] reachable_visited [OF run assms(2)] by blast
  then obtain vs out es where "map_of bv b0 = Some vs" "stores_chain (storage_transfers b0 (cfg_blocks cfg ! b0)) (vs @ [out])"
    "successors (cfg_blocks cfg ! b0) = Some es" "\<forall>e \<in> set es. entered bv e (stores_of out)" by (auto simp: block_settled_def)
  moreover from this(2) have "DefInstr b0 i0 0 \<in> stores_of ((vs @ [out]) ! Suc i0)" "Suc i0 < length (vs @ [out])"
    using i(2) e by (auto simp: stores_chain_def stores_step_def)
  ultimately show ?case using i(1) unfolding recorded_def by blast
next
  case (instr b k ins')
  then obtain vs out es where r: "b < length (cfg_blocks cfg)" "map_of bv b = Some vs"
    "stores_chain (storage_transfers b (cfg_blocks cfg ! b)) (vs @ [out])"
    "successors (cfg_blocks cfg ! b) = Some es" "\<forall>e \<in> set es. entered bv e (stores_of out)"
    "DefInstr b0 i0 0 \<in> stores_of ((vs @ [out]) ! k)" unfolding recorded_def by blast
  have k: "k < length (b_instr (cfg_blocks cfg ! b))" "b_instr (cfg_blocks cfg ! b) ! k = ins'"
    using instr.hyps(2) by (simp_all add: instr_at_Some)
  then have "stores_of ((vs @ [out]) ! k) \<subseteq> stores_of ((vs @ [out]) ! Suc k)" "Suc k < length (vs @ [out])"
    using r(3) instr.hyps(3) by (auto simp: stores_chain_def stores_step_def nth_storage_transfers)
  then show ?case using r unfolding recorded_def by blast
next
  case (jump b k es e)
  then obtain vs out where r: "stores_chain (storage_transfers b (cfg_blocks cfg ! b)) (vs @ [out])"
    "\<forall>e \<in> set es. entered bv e (stores_of out)" "DefInstr b0 i0 0 \<in> stores_of ((vs @ [out]) ! k)" unfolding recorded_def by auto
  have "length vs = k" using r(1) jump.hyps(3) by (simp add: stores_chain_def)
  then have "DefInstr b0 i0 0 \<in> stores_of out" "entered bv e (stores_of out)" using r(2,3) jump.hyps(5) by auto
  then obtain ws where ws: "map_of bv e = Some ws" "ws \<noteq> []" "DefInstr b0 i0 0 \<in> stores_of (ws ! 0)" by (auto simp: entered_def)
  then have "block_settled (cfg_blocks cfg) bv e" using storage_reaching_settled(2) [OF run, of e] by simp
  then show ?case using ws by (fastforce simp: block_settled_def recorded_def nth_append)
qed


lemma positions_iff: "(b, i) \<in> set (positions blocks) \<longleftrightarrow> b < length blocks \<and> i < length (b_instr (blocks ! b))"
  by (force simp: positions_def in_set_enumerate_eq)



section \<open>Examples\<close>

text \<open>\<open>while (x < 10) x = x + 1; x = 0;\<close> for a variable \<open>x\<close> in storage.\<close>

definition counter_cfg :: ControlFlowGraph where
  "counter_cfg = placeholder\<lparr>cfg_blocks := [
     sample_block ''entry'' [Instr.Branch 1],
     sample_block ''cond'' [Instr.LoadStorage 0 (Type.Int 64) (int_lit 0) None,
       Instr.BranchCond (Expression.Less Loc.Codegen True (int_var 0) (int_lit 10)) 2 3],
     sample_block ''body'' [Instr.LoadStorage 1 (Type.Int 64) (int_lit 0) None,
       Instr.SetStorage (Type.Int 64) (Expression.Add Loc.Codegen (Type.Int 64) True (int_var 1) (int_lit 1)) (int_lit 0) None,
       Instr.Branch 1],
     sample_block ''endwhile'' [Instr.SetStorage (Type.Int 64) (int_lit 0) (int_lit 0) None, Instr.Return []]]\<rparr>"

lemma counter_cfg_run:
  "map_option (\<lambda>cfg. map b_instr (cfg_blocks cfg)) (dead_storage 3 Min id counter_cfg) = Some [
     [Instr.Branch 1],
     [Instr.LoadStorage 0 (Type.Int 64) (int_lit 0) None,
       Instr.BranchCond (Expression.Less Loc.Codegen True (int_var 0) (int_lit 10)) 2 3],
     [Instr.Set Loc.Codegen 1 (int_var 0), Instr.Nop, Instr.Branch 1],
     [Instr.SetStorage (Type.Int 64) (int_lit 0) (int_lit 0) None, Instr.Return []]]"
  by code_simp

lemma instr_at_map: "instr_at blocks b i = do { is \<leftarrow> vec_get (map b_instr blocks) b; vec_get is i }"
  by (simp add: instr_at_def vec_get_def)

lemma counter_reachable: "reachable (cfg_blocks counter_cfg) 1" "reachable (cfg_blocks counter_cfg) 2" "reachable (cfg_blocks counter_cfg) 3"
proof -
  show 1: "reachable (cfg_blocks counter_cfg) 1"
    by (rule reachable.edge [OF reachable.entry, of _ "[1]"]) (simp_all add: counter_cfg_def sample_block_def placeholder_def successors_def)
  show "reachable (cfg_blocks counter_cfg) 2" "reachable (cfg_blocks counter_cfg) 3"
    by (rule reachable.edge [OF 1, of "[2, 3]"]; simp add: counter_cfg_def sample_block_def placeholder_def successors_def)+
qed

lemmas counter_simps = counter_cfg_def sample_block_def placeholder_def successors_def instr_at_def vec_get_def
  is_storage_write_def storage_transfer_def is_store_def flushes_def




end
