(* ===== verification/Tokens.thy ===== *)
theory Tokens
  imports Ast
begin

text \<open>
  The tokens of the lexer (\<open>solang-parser/src/lexer.rs\<close>): the enumeration, how a token is
  printed, the table of keywords, comments and lexical errors.

  A Rust \<open>char\<close> is the number of its code point. A string is the list of its characters;
  offsets count the bytes of its UTF-8 encoding. The tokens without a field are grouped in three
  enumerations (operators and punctuation, and two halves of the words); \<open>True\<close>,
  \<open>False\<close>, \<open>If\<close> and \<open>Let\<close> have the prefix \<open>Kw\<close>.
\<close>

type_synonym uchar = nat
type_synonym ustring = "uchar list"

abbreviation chr :: "char \<Rightarrow> uchar" where
  "chr c \<equiv> of_char c"

definition str :: "string \<Rightarrow> ustring" where
  "str s = map of_char s"

section \<open>Tokens\<close>

datatype (plugins only: code) Symbol =
    Divide | Semicolon | Comma | OpenParenthesis | CloseParenthesis | OpenCurlyBrace | CloseCurlyBrace | BitwiseOr
  | BitwiseOrAssign | Or | BitwiseXor | BitwiseXorAssign | BitwiseAnd | BitwiseAndAssign | And | AddAssign
  | Increment | Add | SubtractAssign | Decrement | Subtract | MulAssign | Mul | Power
  | DivideAssign | ModuloAssign | Modulo | Equal | Assign | ColonAssign | NotEqual | Not
  | ShiftRight | ShiftRightAssign | Less | LessEqual | ShiftLeft | ShiftLeftAssign | More | MoreEqual
  | Member | Colon | OpenBracket | CloseBracket | BitwiseNot | Question | Arrow | YulArrow

datatype (plugins only: code) Keyword =
    Contract | Library | Interface | Function | Pragma | Import | Struct | Event
  | Enum | Type | Memory | Storage | Calldata | Public | Private | Internal
  | External | Constant | New | Delete | Pure | View | Payable | Do
  | Continue | Break | Throw | Emit | Return | Returns | Revert | Byte
  | DynamicBytes | Bool

datatype (plugins only: code) Keyword2 =
    Address | String | KwTrue | KwFalse | Else | Anonymous | For | While
  | KwIf | Constructor | Indexed | Mapping | Try | Catch | Receive | Fallback
  | As | Is | Abstract | Virtual | Override | Using | Modifier | Immutable
  | Unchecked | Assembly | KwLet | Leave | Switch | Case | Default | Persistent
  | Temporary | Instance

datatype Token =
    Identifier ustring
  | StringLiteral bool ustring
  | AddressLiteral ustring
  | HexLiteral ustring
  | Number ustring ustring
  | RationalNumber ustring ustring ustring
  | HexNumber ustring
  | Uint nat
  | Int nat
  | Bytes nat
  | Annotation ustring
  | Symbol Symbol
  | Keyword Keyword
  | Keyword2 Keyword2

section \<open>Printing\<close>

primrec symbol_string :: "Symbol \<Rightarrow> string" where
  "symbol_string Symbol.Divide = ''/''"
| "symbol_string Symbol.Semicolon = '';''"
| "symbol_string Symbol.Comma = '',''"
| "symbol_string Symbol.OpenParenthesis = ''(''"
| "symbol_string Symbol.CloseParenthesis = '')''"
| "symbol_string Symbol.OpenCurlyBrace = ''{''"
| "symbol_string Symbol.CloseCurlyBrace = ''}''"
| "symbol_string Symbol.BitwiseOr = ''|''"
| "symbol_string Symbol.BitwiseOrAssign = ''|=''"
| "symbol_string Symbol.Or = ''||''"
| "symbol_string Symbol.BitwiseXor = ''^''"
| "symbol_string Symbol.BitwiseXorAssign = ''^=''"
| "symbol_string Symbol.BitwiseAnd = ''&''"
| "symbol_string Symbol.BitwiseAndAssign = ''&=''"
| "symbol_string Symbol.And = ''&&''"
| "symbol_string Symbol.AddAssign = ''+=''"
| "symbol_string Symbol.Increment = ''++''"
| "symbol_string Symbol.Add = ''+''"
| "symbol_string Symbol.SubtractAssign = ''-=''"
| "symbol_string Symbol.Decrement = ''--''"
| "symbol_string Symbol.Subtract = ''-''"
| "symbol_string Symbol.MulAssign = ''*=''"
| "symbol_string Symbol.Mul = ''*''"
| "symbol_string Symbol.Power = ''**''"
| "symbol_string Symbol.DivideAssign = ''/=''"
| "symbol_string Symbol.ModuloAssign = ''%=''"
| "symbol_string Symbol.Modulo = ''%''"
| "symbol_string Symbol.Equal = ''==''"
| "symbol_string Symbol.Assign = ''=''"
| "symbol_string Symbol.ColonAssign = '':=''"
| "symbol_string Symbol.NotEqual = ''!=''"
| "symbol_string Symbol.Not = ''!''"
| "symbol_string Symbol.ShiftRight = ''>>''"
| "symbol_string Symbol.ShiftRightAssign = ''>>=''"
| "symbol_string Symbol.Less = ''<''"
| "symbol_string Symbol.LessEqual = ''<=''"
| "symbol_string Symbol.ShiftLeft = ''<<''"
| "symbol_string Symbol.ShiftLeftAssign = ''<<=''"
| "symbol_string Symbol.More = ''>''"
| "symbol_string Symbol.MoreEqual = ''>=''"
| "symbol_string Symbol.Member = ''.''"
| "symbol_string Symbol.Colon = '':''"
| "symbol_string Symbol.OpenBracket = ''[''"
| "symbol_string Symbol.CloseBracket = '']''"
| "symbol_string Symbol.BitwiseNot = ''~''"
| "symbol_string Symbol.Question = ''?''"
| "symbol_string Symbol.Arrow = ''=>''"
| "symbol_string Symbol.YulArrow = ''->''"

primrec keyword_string :: "Keyword \<Rightarrow> string" where
  "keyword_string Keyword.Contract = ''contract''"
| "keyword_string Keyword.Library = ''library''"
| "keyword_string Keyword.Interface = ''interface''"
| "keyword_string Keyword.Function = ''function''"
| "keyword_string Keyword.Pragma = ''pragma''"
| "keyword_string Keyword.Import = ''import''"
| "keyword_string Keyword.Struct = ''struct''"
| "keyword_string Keyword.Event = ''event''"
| "keyword_string Keyword.Enum = ''enum''"
| "keyword_string Keyword.Type = ''type''"
| "keyword_string Keyword.Memory = ''memory''"
| "keyword_string Keyword.Storage = ''storage''"
| "keyword_string Keyword.Calldata = ''calldata''"
| "keyword_string Keyword.Public = ''public''"
| "keyword_string Keyword.Private = ''private''"
| "keyword_string Keyword.Internal = ''internal''"
| "keyword_string Keyword.External = ''external''"
| "keyword_string Keyword.Constant = ''constant''"
| "keyword_string Keyword.New = ''new''"
| "keyword_string Keyword.Delete = ''delete''"
| "keyword_string Keyword.Pure = ''pure''"
| "keyword_string Keyword.View = ''view''"
| "keyword_string Keyword.Payable = ''payable''"
| "keyword_string Keyword.Do = ''do''"
| "keyword_string Keyword.Continue = ''continue''"
| "keyword_string Keyword.Break = ''break''"
| "keyword_string Keyword.Throw = ''throw''"
| "keyword_string Keyword.Emit = ''emit''"
| "keyword_string Keyword.Return = ''return''"
| "keyword_string Keyword.Returns = ''returns''"
| "keyword_string Keyword.Revert = ''revert''"
| "keyword_string Keyword.Byte = ''byte''"
| "keyword_string Keyword.DynamicBytes = ''bytes''"
| "keyword_string Keyword.Bool = ''bool''"

primrec keyword2_string :: "Keyword2 \<Rightarrow> string" where
  "keyword2_string Keyword2.Address = ''address''"
| "keyword2_string Keyword2.String = ''string''"
| "keyword2_string Keyword2.KwTrue = ''true''"
| "keyword2_string Keyword2.KwFalse = ''false''"
| "keyword2_string Keyword2.Else = ''else''"
| "keyword2_string Keyword2.Anonymous = ''anonymous''"
| "keyword2_string Keyword2.For = ''for''"
| "keyword2_string Keyword2.While = ''while''"
| "keyword2_string Keyword2.KwIf = ''if''"
| "keyword2_string Keyword2.Constructor = ''constructor''"
| "keyword2_string Keyword2.Indexed = ''indexed''"
| "keyword2_string Keyword2.Mapping = ''mapping''"
| "keyword2_string Keyword2.Try = ''try''"
| "keyword2_string Keyword2.Catch = ''catch''"
| "keyword2_string Keyword2.Receive = ''receive''"
| "keyword2_string Keyword2.Fallback = ''fallback''"
| "keyword2_string Keyword2.As = ''as''"
| "keyword2_string Keyword2.Is = ''is''"
| "keyword2_string Keyword2.Abstract = ''abstract''"
| "keyword2_string Keyword2.Virtual = ''virtual''"
| "keyword2_string Keyword2.Override = ''override''"
| "keyword2_string Keyword2.Using = ''using''"
| "keyword2_string Keyword2.Modifier = ''modifier''"
| "keyword2_string Keyword2.Immutable = ''immutable''"
| "keyword2_string Keyword2.Unchecked = ''unchecked''"
| "keyword2_string Keyword2.Assembly = ''assembly''"
| "keyword2_string Keyword2.KwLet = ''let''"
| "keyword2_string Keyword2.Leave = ''leave''"
| "keyword2_string Keyword2.Switch = ''switch''"
| "keyword2_string Keyword2.Case = ''case''"
| "keyword2_string Keyword2.Default = ''default''"
| "keyword2_string Keyword2.Persistent = ''persistent''"
| "keyword2_string Keyword2.Temporary = ''temporary''"
| "keyword2_string Keyword2.Instance = ''instance''"

primrec token_string :: "Token \<Rightarrow> ustring" where
  "token_string (Token.Identifier i) = i"
| "token_string (StringLiteral unicode s) =
     (if unicode then str ''unicode'' else []) @ [0x22] @ s @ [0x22]"
| "token_string (HexLiteral hex) = hex"
| "token_string (AddressLiteral address) = address"
| "token_string (Number integer expo) = (if expo = [] then integer else integer @ str ''e'' @ expo)"
| "token_string (RationalNumber integer fraction expo) =
     (if expo = [] then integer @ str ''.'' @ fraction else integer @ str ''.'' @ fraction @ str ''e'' @ expo)"
| "token_string (HexNumber n) = n"
| "token_string (Token.Uint w) = str (''uint'' @ dec_nat w)"
| "token_string (Token.Int w) = str (''int'' @ dec_nat w)"
| "token_string (Token.Bytes w) = str (''bytes'' @ dec_nat w)"
| "token_string (Annotation name) = str ''@'' @ name"
| "token_string (Symbol s) = str (symbol_string s)"
| "token_string (Keyword k) = str (keyword_string k)"
| "token_string (Keyword2 k) = str (keyword2_string k)"

section \<open>Keywords\<close>

definition KEYWORDS :: "(string \<times> Token) list" where
  "KEYWORDS = [
    (''address'', Keyword2 Keyword2.Address), (''anonymous'', Keyword2 Keyword2.Anonymous), (''bool'', Keyword Keyword.Bool),
    (''break'', Keyword Keyword.Break), (''bytes1'', Token.Bytes 1), (''bytes2'', Token.Bytes 2),
    (''bytes3'', Token.Bytes 3), (''bytes4'', Token.Bytes 4), (''bytes5'', Token.Bytes 5),
    (''bytes6'', Token.Bytes 6), (''bytes7'', Token.Bytes 7), (''bytes8'', Token.Bytes 8),
    (''bytes9'', Token.Bytes 9), (''bytes10'', Token.Bytes 10), (''bytes11'', Token.Bytes 11),
    (''bytes12'', Token.Bytes 12), (''bytes13'', Token.Bytes 13), (''bytes14'', Token.Bytes 14),
    (''bytes15'', Token.Bytes 15), (''bytes16'', Token.Bytes 16), (''bytes17'', Token.Bytes 17),
    (''bytes18'', Token.Bytes 18), (''bytes19'', Token.Bytes 19), (''bytes20'', Token.Bytes 20),
    (''bytes21'', Token.Bytes 21), (''bytes22'', Token.Bytes 22), (''bytes23'', Token.Bytes 23),
    (''bytes24'', Token.Bytes 24), (''bytes25'', Token.Bytes 25), (''bytes26'', Token.Bytes 26),
    (''bytes27'', Token.Bytes 27), (''bytes28'', Token.Bytes 28), (''bytes29'', Token.Bytes 29),
    (''bytes30'', Token.Bytes 30), (''bytes31'', Token.Bytes 31), (''bytes32'', Token.Bytes 32),
    (''bytes'', Keyword Keyword.DynamicBytes), (''byte'', Keyword Keyword.Byte), (''calldata'', Keyword Keyword.Calldata),
    (''case'', Keyword2 Keyword2.Case), (''constant'', Keyword Keyword.Constant), (''constructor'', Keyword2 Keyword2.Constructor),
    (''continue'', Keyword Keyword.Continue), (''contract'', Keyword Keyword.Contract), (''default'', Keyword2 Keyword2.Default),
    (''delete'', Keyword Keyword.Delete), (''do'', Keyword Keyword.Do), (''else'', Keyword2 Keyword2.Else),
    (''emit'', Keyword Keyword.Emit), (''enum'', Keyword Keyword.Enum), (''event'', Keyword Keyword.Event),
    (''external'', Keyword Keyword.External), (''false'', Keyword2 Keyword2.KwFalse), (''for'', Keyword2 Keyword2.For),
    (''function'', Keyword Keyword.Function), (''if'', Keyword2 Keyword2.KwIf), (''import'', Keyword Keyword.Import),
    (''indexed'', Keyword2 Keyword2.Indexed), (''int8'', Token.Int 8), (''int16'', Token.Int 16),
    (''int24'', Token.Int 24), (''int32'', Token.Int 32), (''int40'', Token.Int 40),
    (''int48'', Token.Int 48), (''int56'', Token.Int 56), (''int64'', Token.Int 64),
    (''int72'', Token.Int 72), (''int80'', Token.Int 80), (''int88'', Token.Int 88),
    (''int96'', Token.Int 96), (''int104'', Token.Int 104), (''int112'', Token.Int 112),
    (''int120'', Token.Int 120), (''int128'', Token.Int 128), (''int136'', Token.Int 136),
    (''int144'', Token.Int 144), (''int152'', Token.Int 152), (''int160'', Token.Int 160),
    (''int168'', Token.Int 168), (''int176'', Token.Int 176), (''int184'', Token.Int 184),
    (''int192'', Token.Int 192), (''int200'', Token.Int 200), (''int208'', Token.Int 208),
    (''int216'', Token.Int 216), (''int224'', Token.Int 224), (''int232'', Token.Int 232),
    (''int240'', Token.Int 240), (''int248'', Token.Int 248), (''int256'', Token.Int 256),
    (''interface'', Keyword Keyword.Interface), (''internal'', Keyword Keyword.Internal), (''int'', Token.Int 256),
    (''leave'', Keyword2 Keyword2.Leave), (''library'', Keyword Keyword.Library), (''mapping'', Keyword2 Keyword2.Mapping),
    (''memory'', Keyword Keyword.Memory), (''new'', Keyword Keyword.New), (''payable'', Keyword Keyword.Payable),
    (''pragma'', Keyword Keyword.Pragma), (''private'', Keyword Keyword.Private), (''public'', Keyword Keyword.Public),
    (''pure'', Keyword Keyword.Pure), (''returns'', Keyword Keyword.Returns), (''return'', Keyword Keyword.Return),
    (''revert'', Keyword Keyword.Revert), (''storage'', Keyword Keyword.Storage), (''string'', Keyword2 Keyword2.String),
    (''struct'', Keyword Keyword.Struct), (''switch'', Keyword2 Keyword2.Switch), (''throw'', Keyword Keyword.Throw),
    (''true'', Keyword2 Keyword2.KwTrue), (''type'', Keyword Keyword.Type), (''uint8'', Token.Uint 8),
    (''uint16'', Token.Uint 16), (''uint24'', Token.Uint 24), (''uint32'', Token.Uint 32),
    (''uint40'', Token.Uint 40), (''uint48'', Token.Uint 48), (''uint56'', Token.Uint 56),
    (''uint64'', Token.Uint 64), (''uint72'', Token.Uint 72), (''uint80'', Token.Uint 80),
    (''uint88'', Token.Uint 88), (''uint96'', Token.Uint 96), (''uint104'', Token.Uint 104),
    (''uint112'', Token.Uint 112), (''uint120'', Token.Uint 120), (''uint128'', Token.Uint 128),
    (''uint136'', Token.Uint 136), (''uint144'', Token.Uint 144), (''uint152'', Token.Uint 152),
    (''uint160'', Token.Uint 160), (''uint168'', Token.Uint 168), (''uint176'', Token.Uint 176),
    (''uint184'', Token.Uint 184), (''uint192'', Token.Uint 192), (''uint200'', Token.Uint 200),
    (''uint208'', Token.Uint 208), (''uint216'', Token.Uint 216), (''uint224'', Token.Uint 224),
    (''uint232'', Token.Uint 232), (''uint240'', Token.Uint 240), (''uint248'', Token.Uint 248),
    (''uint256'', Token.Uint 256), (''uint'', Token.Uint 256), (''view'', Keyword Keyword.View),
    (''while'', Keyword2 Keyword2.While), (''try'', Keyword2 Keyword2.Try), (''catch'', Keyword2 Keyword2.Catch),
    (''receive'', Keyword2 Keyword2.Receive), (''fallback'', Keyword2 Keyword2.Fallback), (''as'', Keyword2 Keyword2.As),
    (''is'', Keyword2 Keyword2.Is), (''abstract'', Keyword2 Keyword2.Abstract), (''virtual'', Keyword2 Keyword2.Virtual),
    (''override'', Keyword2 Keyword2.Override), (''using'', Keyword2 Keyword2.Using), (''modifier'', Keyword2 Keyword2.Modifier),
    (''immutable'', Keyword2 Keyword2.Immutable), (''unchecked'', Keyword2 Keyword2.Unchecked), (''assembly'', Keyword2 Keyword2.Assembly),
    (''let'', Keyword2 Keyword2.KwLet), (''persistent'', Keyword2 Keyword2.Persistent), (''temporary'', Keyword2 Keyword2.Temporary),
    (''instance'', Keyword2 Keyword2.Instance)]"

definition find_keyword :: "ustring \<Rightarrow> Token option" where
  "find_keyword w = map_of (map (\<lambda>(k, t). (str k, t)) KEYWORDS) w"

definition is_keyword :: "ustring \<Rightarrow> bool" where
  "is_keyword word \<longleftrightarrow> find_keyword word \<noteq> None"

section \<open>Comments and errors\<close>

datatype Comment = Line Loc ustring | Block Loc ustring | DocLine Loc ustring | DocBlock Loc ustring

primrec comment_value :: "Comment \<Rightarrow> ustring" where
  "comment_value (Line _ s) = s"
| "comment_value (Block _ s) = s"
| "comment_value (DocLine _ s) = s"
| "comment_value (DocBlock _ s) = s"

definition is_doc :: "Comment \<Rightarrow> bool" where
  "is_doc c = (case c of DocLine _ _ \<Rightarrow> True | DocBlock _ _ \<Rightarrow> True | _ \<Rightarrow> False)"

definition is_line :: "Comment \<Rightarrow> bool" where
  "is_line c = (case c of Line _ _ \<Rightarrow> True | DocLine _ _ \<Rightarrow> True | _ \<Rightarrow> False)"

definition is_block :: "Comment \<Rightarrow> bool" where
  "is_block c \<longleftrightarrow> \<not> is_line c"

datatype LexicalError =
    EndOfFileInComment Loc
  | EndOfFileInString Loc
  | EndofFileInHex Loc
  | MissingNumber Loc
  | InvalidCharacterInHexLiteral Loc uchar
  | UnrecognisedToken Loc ustring
  | MissingExponent Loc
  | ExpectedFrom Loc ustring

primrec error_string :: "LexicalError \<Rightarrow> ustring" where
  "error_string (EndOfFileInComment _) = str ''end of file found in comment''"
| "error_string (EndOfFileInString _) = str ''end of file found in string literal''"
| "error_string (EndofFileInHex _) = str ''end of file found in hex literal string''"
| "error_string (MissingNumber _) = str ''missing number''"
| "error_string (InvalidCharacterInHexLiteral _ c) =
     str ''invalid character '' @ [0x27, c, 0x27] @ str '' in hex literal string''"
| "error_string (UnrecognisedToken _ t) = str ''unrecognised token '' @ [0x27] @ t @ [0x27]"
| "error_string (MissingExponent _) = str ''missing exponent''"
| "error_string (ExpectedFrom _ t) = [0x27] @ t @ [0x27] @ str '' found where '' @ [0x27] @ str ''from'' @ [0x27] @ str '' expected''"

section \<open>Facts\<close>

lemma str_append [simp]: "str (a @ b) = str a @ str b"
  by (simp add: str_def)

lemma str_eq_iff [simp]: "str a = str b \<longleftrightarrow> a = b"
  by (simp add: str_def inj_map_eq_map inj_on_def)

lemma find_keyword_str: "find_keyword (str w) = map_of KEYWORDS w"
proof -
  have "map_of (map (\<lambda>(k, t). (str k, t)) ks) (str w) = map_of ks w" for ks :: "(string \<times> Token) list"
    by (induction ks) auto
  then show ?thesis by (simp add: find_keyword_def)
qed

lemma digit_chars:
  "char_of (48 :: nat) = CHR ''0''" "char_of (49 :: nat) = CHR ''1''" "char_of (50 :: nat) = CHR ''2''"
  "char_of (51 :: nat) = CHR ''3''" "char_of (52 :: nat) = CHR ''4''" "char_of (53 :: nat) = CHR ''5''"
  "char_of (54 :: nat) = CHR ''6''" "char_of (55 :: nat) = CHR ''7''" "char_of (56 :: nat) = CHR ''8''"
  "char_of (57 :: nat) = CHR ''9''"
  by code_simp+

text \<open>A keyword prints as itself, except the two names without a width.\<close>

lemma KEYWORDS_print:
  "list_all (\<lambda>(k, t). str k = token_string t \<or> k = ''uint'' \<and> t = Token.Uint 256 \<or> k = ''int'' \<and> t = Token.Int 256) KEYWORDS"
  by (simp add: KEYWORDS_def dec_nat.simps digit_chars)

lemma find_keyword_Some:
  assumes "find_keyword w = Some t"
  shows "w = token_string t \<or> w = str ''uint'' \<and> t = Token.Uint 256 \<or> w = str ''int'' \<and> t = Token.Int 256"
proof -
  obtain k where "(k, t) \<in> set KEYWORDS" "w = str k"
    using map_of_SomeD [OF assms [unfolded find_keyword_def]] by auto
  then show ?thesis using KEYWORDS_print by (auto simp: list_all_iff)
qed

text \<open>No word occurs twice.\<close>

lemma KEYWORDS_distinct: "distinct (map fst KEYWORDS)"
  by (simp add: KEYWORDS_def)

text \<open>The tokens of words.\<close>

definition word_like :: "Token \<Rightarrow> bool" where
  "word_like t = (case t of Token.Uint _ \<Rightarrow> True | Token.Int _ \<Rightarrow> True | Token.Bytes _ \<Rightarrow> True
     | Keyword _ \<Rightarrow> True | Keyword2 _ \<Rightarrow> True | _ \<Rightarrow> False)"

lemma find_keyword_word_like:
  assumes "find_keyword w = Some t"
  shows "word_like t"
proof -
  have "list_all (\<lambda>(k, t). word_like t) KEYWORDS" by (simp add: KEYWORDS_def word_like_def)
  moreover obtain k where "(k, t) \<in> set KEYWORDS"
    using map_of_SomeD [OF assms [unfolded find_keyword_def]] by auto
  ultimately show ?thesis by (auto simp: list_all_iff)
qed

end
