(* ===== verification/Lexer.thy ===== *)
theory Lexer
  imports Tokens
begin

text \<open>
  The lexer (\<open>solang-parser/src/lexer.rs\<close>). The iterator over the characters is the list of
  the remaining characters with their byte offsets. A slice of the input at an offset that is not
  the start of a character panics, and so does an offset below 0; a panic is \<open>None\<close>.

  The tables of the Unicode crate (which characters start and continue an identifier) are the
  parameter \<open>U\<close>.
\<close>

section \<open>Characters and strings\<close>

record unicode =
  is_xid_start :: "uchar \<Rightarrow> bool"
  is_xid_continue :: "uchar \<Rightarrow> bool"

definition utf8_len :: "uchar \<Rightarrow> nat" where
  "utf8_len c = (if c < 0x80 then 1 else if c < 0x800 then 2 else if c < 0x10000 then 3 else 4)"

definition str_len :: "ustring \<Rightarrow> nat" where
  "str_len s = sum_list (map utf8_len s)"

type_synonym chars = "(nat \<times> uchar) list"

fun char_indices :: "nat \<Rightarrow> ustring \<Rightarrow> chars" where
  "char_indices i [] = []"
| "char_indices i (c # cs) = (i, c) # char_indices (i + utf8_len c) cs"

fun split_bytes :: "nat \<Rightarrow> ustring \<Rightarrow> (ustring \<times> ustring) option" where
  "split_bytes n [] = (if n = 0 then Some ([], []) else None)"
| "split_bytes n (c # cs) =
     (if n = 0 then Some ([], c # cs)
      else if n < utf8_len c then None
      else do { (a, b) \<leftarrow> split_bytes (n - utf8_len c) cs; Some (c # a, b) })"

definition slice :: "ustring \<Rightarrow> nat \<Rightarrow> nat \<Rightarrow> ustring option" where
  "slice s a b =
     (if b < a then None
      else do { (_, t) \<leftarrow> split_bytes a s; (u, _) \<leftarrow> split_bytes (b - a) t; Some u })"

definition is_ascii_digit :: "uchar \<Rightarrow> bool" where
  "is_ascii_digit c \<longleftrightarrow> chr CHR ''0'' \<le> c \<and> c \<le> chr CHR ''9''"

definition is_ascii_hexdigit :: "uchar \<Rightarrow> bool" where
  "is_ascii_hexdigit c \<longleftrightarrow> is_ascii_digit c \<or> chr CHR ''A'' \<le> c \<and> c \<le> chr CHR ''F'' \<or>
     chr CHR ''a'' \<le> c \<and> c \<le> chr CHR ''f''"

definition is_whitespace :: "uchar \<Rightarrow> bool" where
  "is_whitespace c \<longleftrightarrow> 0x09 \<le> c \<and> c \<le> 0x0d \<or> c = 0x20 \<or> c = 0x85 \<or> c = 0xa0 \<or> c = 0x1680 \<or>
     0x2000 \<le> c \<and> c \<le> 0x200a \<or> c = 0x2028 \<or> c = 0x2029 \<or> c = 0x202f \<or> c = 0x205f \<or> c = 0x3000"

abbreviation (input) quote :: uchar where "quote \<equiv> 0x22"
abbreviation (input) apostrophe :: uchar where "apostrophe \<equiv> 0x27"
abbreviation (input) backslash :: uchar where "backslash \<equiv> 0x5c"
abbreviation (input) newline :: uchar where "newline \<equiv> 0x0a"
abbreviation (input) carriage_return :: uchar where "carriage_return \<equiv> 0x0d"

section \<open>State\<close>

type_synonym Spanned = "nat \<times> Token \<times> nat"

record Lexer =
  lx_input :: ustring
  lx_chars :: chars
  lx_comments :: "Comment list"
  lx_file_no :: nat
  lx_parse_semver :: bool
  lx_last_tokens :: "Token option \<times> Token option"
  lx_errors :: "LexicalError list"

definition lexer_new :: "ustring \<Rightarrow> nat \<Rightarrow> Comment list \<Rightarrow> LexicalError list \<Rightarrow> Lexer" where
  "lexer_new input file_no comments errors =
     \<lparr>lx_input = input, lx_chars = char_indices 0 input, lx_comments = comments, lx_file_no = file_no,
      lx_parse_semver = False, lx_last_tokens = (None, None), lx_errors = errors\<rparr>"

definition peek :: "chars \<Rightarrow> uchar option" where
  "peek cs = (case cs of [] \<Rightarrow> None | (_, c) # _ \<Rightarrow> Some c)"

definition peek_nth1 :: "chars \<Rightarrow> (nat \<times> uchar) option" where
  "peek_nth1 cs = (case cs of _ # x # _ \<Rightarrow> Some x | _ \<Rightarrow> None)"

abbreviation input_len :: "Lexer \<Rightarrow> nat" where
  "input_len st \<equiv> str_len (lx_input st)"

abbreviation loc_at :: "Lexer \<Rightarrow> nat \<Rightarrow> nat \<Rightarrow> Loc" where
  "loc_at st a b \<equiv> Loc.File (lx_file_no st) a b"

definition push_error :: "LexicalError \<Rightarrow> Lexer \<Rightarrow> Lexer" where
  "push_error e st = st\<lparr>lx_errors := lx_errors st @ [e]\<rparr>"

definition push_comment :: "Comment \<Rightarrow> Lexer \<Rightarrow> Lexer" where
  "push_comment c st = st\<lparr>lx_comments := lx_comments st @ [c]\<rparr>"

section \<open>Loops over the characters\<close>

text \<open>
  \<open>while let Some((i, ch)) = peek()\<close> that moves \<open>end\<close> to the last character that
  the test accepts.
\<close>

fun eat :: "(uchar \<Rightarrow> bool) \<Rightarrow> chars \<Rightarrow> nat \<Rightarrow> nat \<times> chars" where
  "eat P [] e = (e, [])"
| "eat P ((i, c) # cs) e = (if P c then eat P cs i else (e, (i, c) # cs))"

text \<open>The offset of the first character that the test refuses, or the length of the input.\<close>

fun match_end :: "(uchar \<Rightarrow> bool) \<Rightarrow> nat \<Rightarrow> chars \<Rightarrow> nat \<times> chars" where
  "match_end P len [] = (len, [])"
| "match_end P len ((i, c) # cs) = (if P c then match_end P len cs else (i, (i, c) # cs))"

text \<open>
  The loops that take characters with \<open>next\<close> until one ends the loop: its offset and the
  characters after it, or \<open>None\<close> at the end of the input.
\<close>

fun until :: "(uchar \<Rightarrow> bool) \<Rightarrow> chars \<Rightarrow> (nat \<times> chars) option" where
  "until P [] = None"
| "until P ((i, c) # cs) = (if P c then Some (i, cs) else until P cs)"

fun string_loop :: "uchar \<Rightarrow> bool \<Rightarrow> chars \<Rightarrow> (nat \<times> chars) option" where
  "string_loop quote_char last_was_escape [] = None"
| "string_loop quote_char last_was_escape ((i, ch) # cs) =
     (if \<not> last_was_escape then
        if ch = quote_char then Some (i, cs) else string_loop quote_char (ch = backslash) cs
      else string_loop quote_char False cs)"

text \<open>The block comment loop also yields the offset of the character before the last.\<close>

fun block_loop :: "bool \<Rightarrow> nat \<Rightarrow> chars \<Rightarrow> (nat \<times> chars) option" where
  "block_loop seen_star last_i [] = None"
| "block_loop seen_star last_i ((i, ch) # cs) =
     (if seen_star \<and> ch = chr CHR ''/'' then Some (last_i, cs)
      else block_loop (ch = chr CHR ''*'') i cs)"

section \<open>Numbers and strings\<close>

abbreviation digit_or_underscore :: "uchar \<Rightarrow> bool" where
  "digit_or_underscore c \<equiv> is_ascii_digit c \<or> c = chr CHR ''_''"

abbreviation hexdigit_or_underscore :: "uchar \<Rightarrow> bool" where
  "hexdigit_or_underscore c \<equiv> is_ascii_hexdigit c \<or> c = chr CHR ''_''"

type_synonym lex_result = "((LexicalError + Spanned) \<times> Lexer) option"

definition parse_hex_number :: "nat \<Rightarrow> Lexer \<Rightarrow> lex_result" where
  "parse_hex_number start st = (case lx_chars st of
       [] \<Rightarrow> Some (Inl (EndofFileInHex (loc_at st start (input_len st))), st)
     | (i, c) # cs \<Rightarrow>
         if is_ascii_hexdigit c then
           (let (e, cs') = eat hexdigit_or_underscore cs i in do {
              n \<leftarrow> slice (lx_input st) start (e + 1);
              Some (Inr (start, HexNumber n, e + 1), st\<lparr>lx_chars := cs'\<rparr>) })
         else Some (Inl (MissingNumber (loc_at st start (start + 1))), st\<lparr>lx_chars := cs\<rparr>))"

text \<open>
  The part of a number after its digits: a fraction, if a dot and a digit follow and the number did
  not start with the dot, and an exponent. \<open>e\<close> is the offset of the last character so far.
\<close>

definition parse_fraction :: "bool \<Rightarrow> nat \<Rightarrow> nat \<Rightarrow> chars \<Rightarrow> bool \<times> nat \<times> nat \<times> nat \<times> chars" where
  "parse_fraction is_rational rational_start e cs =
     (if peek cs = Some (chr CHR ''.'') then
        case peek_nth1 cs of
          Some (i, c) \<Rightarrow>
            if is_ascii_digit c \<and> \<not> is_rational
            then let (e', cs') = eat digit_or_underscore (tl cs) i in (True, i, e', e', cs')
            else (is_rational, rational_start, e, e, cs)
        | None \<Rightarrow> (is_rational, rational_start, e, e, cs)
      else (is_rational, rational_start, e, e, cs))"

definition parse_exponent :: "nat \<Rightarrow> chars \<Rightarrow> (nat \<times> nat \<times> bool) \<times> chars" where
  "parse_exponent e cs = (case cs of
       (i, c) # cs' \<Rightarrow>
         if c = chr CHR ''e'' \<or> c = chr CHR ''E'' then
           let cs'' = dropWhile (\<lambda>(_, c). c = chr CHR ''-'') cs';
               (e', rest) = eat digit_or_underscore cs'' e
           in ((i + 1, e', i + 1 > e'), rest)
         else ((e + 1, e, False), cs)
     | [] \<Rightarrow> ((e + 1, e, False), cs))"

definition parse_decimal :: "bool \<Rightarrow> nat \<Rightarrow> Lexer \<Rightarrow> lex_result" where
  "parse_decimal dotted start st =
     (let (e, cs) = eat digit_or_underscore (lx_chars st) start in
      if lx_parse_semver st then do {
        integer \<leftarrow> slice (lx_input st) start (e + 1);
        expo \<leftarrow> slice (lx_input st) 0 0;
        Some (Inr (start, Number integer expo, e + 1), st\<lparr>lx_chars := cs\<rparr>) }
      else
        (let end_before_rational = (if dotted then start else e + 1);
             (is_rational, rational_start, rational_end, old_end, cs) =
               parse_fraction dotted (if dotted then start + 1 else e) e cs;
             ((exp_start, e, missing), cs) = parse_exponent old_end cs;
             st' = st\<lparr>lx_chars := cs\<rparr>
         in if missing then Some (Inl (MissingExponent (loc_at st start (input_len st))), st')
            else if is_rational then do {
              integer \<leftarrow> slice (lx_input st) start end_before_rational;
              fraction \<leftarrow> slice (lx_input st) rational_start (rational_end + 1);
              expo \<leftarrow> slice (lx_input st) exp_start (e + 1);
              Some (Inr (start, RationalNumber integer fraction expo, e + 1), st') }
            else do {
              integer \<leftarrow> slice (lx_input st) start (old_end + 1);
              expo \<leftarrow> slice (lx_input st) exp_start (e + 1);
              Some (Inr (start, Number integer expo, e + 1), st') }))"

definition parse_number :: "nat \<Rightarrow> uchar \<Rightarrow> Lexer \<Rightarrow> lex_result" where
  "parse_number start ch st =
     (if ch = chr CHR ''0'' \<and> peek (lx_chars st) = Some (chr CHR ''x'')
      then parse_hex_number start (st\<lparr>lx_chars := tl (lx_chars st)\<rparr>)
      else if ch = chr CHR ''.'' then
        (if start = 0 then None else parse_decimal True (start - 1) st)
      else parse_decimal False start st)"

definition lex_string :: "bool \<Rightarrow> nat \<Rightarrow> nat \<Rightarrow> uchar \<Rightarrow> Lexer \<Rightarrow> lex_result" where
  "lex_string unicode token_start string_start quote_char st =
     (case string_loop quote_char False (lx_chars st) of
        None \<Rightarrow> Some (Inl (EndOfFileInString (loc_at st token_start (input_len st))), st\<lparr>lx_chars := []\<rparr>)
      | Some (e, cs) \<Rightarrow> do {
          s \<leftarrow> slice (lx_input st) string_start e;
          Some (Inr (token_start, StringLiteral unicode s, e + 1), st\<lparr>lx_chars := cs\<rparr>) })"

section \<open>One token\<close>

text \<open>
  What one round of the loop of \<open>next\<close> comes to: it returns, or goes round again.
\<close>

datatype outcome = Return "Spanned option" | Again

type_synonym round = "(outcome \<times> Lexer) option"

definition match_identifier :: "unicode \<Rightarrow> nat \<Rightarrow> Lexer \<Rightarrow> ((ustring \<times> nat) \<times> Lexer) option" where
  "match_identifier U start st =
     (let (e, cs) = match_end (\<lambda>c. is_xid_continue U c \<or> c = chr CHR ''$'') (input_len st) (lx_chars st) in do {
        w \<leftarrow> slice (lx_input st) start e;
        Some ((w, e), st\<lparr>lx_chars := cs\<rparr>) })"

datatype hex_end = HexEnd nat chars | HexBad nat uchar chars | HexEof

fun hex_loop :: "uchar \<Rightarrow> chars \<Rightarrow> hex_end" where
  "hex_loop quote_char [] = HexEof"
| "hex_loop quote_char ((i, ch) # cs) =
     (if ch = quote_char then HexEnd i cs
      else if \<not> hexdigit_or_underscore ch then
        HexBad i ch (case until (\<lambda>c. c = quote_char) cs of Some (_, cs') \<Rightarrow> cs' | None \<Rightarrow> [])
      else hex_loop quote_char cs)"

definition lex_hex :: "nat \<Rightarrow> uchar \<Rightarrow> Lexer \<Rightarrow> round" where
  "lex_hex start quote_char st = (case hex_loop quote_char (lx_chars st) of
       HexEnd i cs \<Rightarrow> do {
         s \<leftarrow> slice (lx_input st) start (i + 1);
         Some (Return (Some (start, HexLiteral s, i + 1)), st\<lparr>lx_chars := cs\<rparr>) }
     | HexBad i ch cs \<Rightarrow>
         Some (Again, push_error (InvalidCharacterInHexLiteral (loc_at st i (i + 1)) ch) (st\<lparr>lx_chars := cs\<rparr>))
     | HexEof \<Rightarrow>
         Some (Return None, push_error (EndOfFileInString (loc_at st start (input_len st))) (st\<lparr>lx_chars := []\<rparr>)))"

definition lex_address :: "nat \<Rightarrow> uchar \<Rightarrow> Lexer \<Rightarrow> round" where
  "lex_address start quote_char st = (case until (\<lambda>c. c = quote_char) (lx_chars st) of
       Some (i, cs) \<Rightarrow> do {
         s \<leftarrow> slice (lx_input st) start (i + 1);
         Some (Return (Some (start, AddressLiteral s, i + 1)), st\<lparr>lx_chars := cs\<rparr>) }
     | None \<Rightarrow>
         Some (Return None, push_error (EndOfFileInString (loc_at st start (input_len st))) (st\<lparr>lx_chars := []\<rparr>)))"

text \<open>A word: a literal with a prefix, a keyword or an identifier.\<close>

definition word_token :: "ustring \<Rightarrow> Token" where
  "word_token w = (case find_keyword w of Some t \<Rightarrow> t | None \<Rightarrow> Token.Identifier w)"

definition quote_next :: "chars \<Rightarrow> uchar option" where
  "quote_next cs = (case peek cs of
       Some c \<Rightarrow> if c = quote \<or> c = apostrophe then Some c else None | None \<Rightarrow> None)"

definition lex_word :: "unicode \<Rightarrow> nat \<Rightarrow> Lexer \<Rightarrow> round" where
  "lex_word U start st = do {
     ((w, e), st) \<leftarrow> match_identifier U start st;
     (let plain = Some (start, word_token w, e);
          quoted = st\<lparr>lx_chars := tl (lx_chars st)\<rparr> in
      case quote_next (lx_chars st) of
        None \<Rightarrow> Some (Return plain, st)
      | Some q \<Rightarrow>
          if w = str ''unicode'' then do {
            (r, st) \<leftarrow> lex_string True start (start + 8) q quoted;
            (case r of
               Inl err \<Rightarrow> Some (Return plain, push_error err st)
             | Inr token \<Rightarrow> Some (Return (Some token), st)) }
          else if w = str ''hex'' then lex_hex start q quoted
          else if w = str ''address'' then lex_address start q quoted
          else Some (Return plain, st)) }"

definition lex_quoted :: "nat \<Rightarrow> uchar \<Rightarrow> Lexer \<Rightarrow> round" where
  "lex_quoted start quote_char st = do {
     (r, st) \<leftarrow> lex_string False start (start + 1) quote_char st;
     (case r of
        Inl err \<Rightarrow> Some (Again, push_error err st)
      | Inr token \<Rightarrow> Some (Return (Some token), st)) }"

text \<open>Line comments: \<open>///\<close> starts a documentation comment, \<open>////\<close> does not.\<close>

definition lex_line_comment :: "nat \<Rightarrow> Lexer \<Rightarrow> round" where
  "lex_line_comment start st =
     (let cs = lx_chars st;
          first = peek cs;
          rest = tl cs;
          doc_comment = (first = Some (chr CHR ''/'') \<and> peek rest \<noteq> Some (chr CHR ''/''));
          new_line = (first = Some newline \<or> first = Some carriage_return);
          (stop, rest) =
            (if new_line then (start + 3, rest)
             else case until (\<lambda>c. c = newline \<or> c = carriage_return) rest of
               None \<Rightarrow> (input_len st, [])
             | Some (offset, rest) \<Rightarrow> (offset, rest));
          loc = loc_at st start stop
      in do {
        s \<leftarrow> slice (lx_input st) start stop;
        Some (Again, push_comment (if doc_comment then DocLine loc s else Line loc s) (st\<lparr>lx_chars := rest\<rparr>)) })"

definition lex_block_comment :: "nat \<Rightarrow> Lexer \<Rightarrow> round" where
  "lex_block_comment start st =
     (let doc_comment_start = (peek (lx_chars st) = Some (chr CHR ''*'')) in
      case block_loop False (start + 3) (lx_chars st) of
        None \<Rightarrow>
          Some (Return None, push_error (EndOfFileInComment (loc_at st start (input_len st))) (st\<lparr>lx_chars := []\<rparr>))
      | Some (stop, rest) \<Rightarrow> do {
          s \<leftarrow> slice (lx_input st) start (stop + 2);
          (let loc = loc_at st start (stop + 2) in
           Some (Again, push_comment (if doc_comment_start \<and> stop > start + 2 then DocBlock loc s else Block loc s)
             (st\<lparr>lx_chars := rest\<rparr>))) })"

definition lex_slash :: "nat \<Rightarrow> Lexer \<Rightarrow> round" where
  "lex_slash start st =
     (let rest = st\<lparr>lx_chars := tl (lx_chars st)\<rparr> in
      if peek (lx_chars st) = Some (chr CHR ''='') then
        Some (Return (Some (start, Symbol DivideAssign, start + 2)), rest)
      else if peek (lx_chars st) = Some (chr CHR ''/'') then lex_line_comment start rest
      else if peek (lx_chars st) = Some (chr CHR ''*'') then lex_block_comment start rest
      else Some (Return (Some (start, Symbol Divide, start + 1)), st))"

definition lex_number :: "nat \<Rightarrow> uchar \<Rightarrow> Lexer \<Rightarrow> round" where
  "lex_number start ch st = do {
     (r, st) \<leftarrow> parse_number start ch st;
     (case r of
        Inl err \<Rightarrow>
          Some (case err of EndofFileInHex _ \<Rightarrow> Return None | _ \<Rightarrow> Again, push_error err st)
      | Inr token \<Rightarrow> Some (Return (Some token), st)) }"

definition lex_annotation :: "unicode \<Rightarrow> nat \<Rightarrow> Lexer \<Rightarrow> round" where
  "lex_annotation U start st = do {
     ((w, e), st) \<leftarrow> match_identifier U start st;
     if str_len w = 1 then Some (Again, push_error (UnrecognisedToken (loc_at st start (start + 1)) w) st)
     else do {
       name \<leftarrow> slice w 1 (str_len w);
       Some (Return (Some (start, Annotation name, e)), st) } }"

definition lex_dot :: "nat \<Rightarrow> Lexer \<Rightarrow> round" where
  "lex_dot i st =
     (let member = Some (Return (Some (i, Symbol Member, i + 1)), st) in
      case peek (lx_chars st) of
        Some a \<Rightarrow>
          if is_ascii_digit a \<and> \<not> lx_parse_semver st then do {
            (r, st) \<leftarrow> parse_number (i + 1) (chr CHR ''.'') st;
            (case r of
               Inl err \<Rightarrow> Some (Return None, push_error err st)
             | Inr token \<Rightarrow> Some (Return (Some token), st)) }
          else member
      | None \<Rightarrow> member)"

text \<open>The operators, with the number of their characters.\<close>

definition symbol_token :: "uchar \<Rightarrow> uchar option \<Rightarrow> uchar option \<Rightarrow> (Symbol \<times> nat) option" where
  "symbol_token ch second third =
     (if ch = chr CHR '','' then Some (Comma, 1)
      else if ch = chr CHR ''('' then Some (OpenParenthesis, 1)
      else if ch = chr CHR '')'' then Some (CloseParenthesis, 1)
      else if ch = chr CHR ''{'' then Some (OpenCurlyBrace, 1)
      else if ch = chr CHR ''}'' then Some (CloseCurlyBrace, 1)
      else if ch = chr CHR ''~'' then Some (BitwiseNot, 1)
      else if ch = chr CHR ''='' then
        (if second = Some (chr CHR ''='') then Some (Equal, 2)
         else if second = Some (chr CHR ''>'') then Some (Arrow, 2) else Some (Assign, 1))
      else if ch = chr CHR ''!'' then
        (if second = Some (chr CHR ''='') then Some (NotEqual, 2) else Some (Symbol.Not, 1))
      else if ch = chr CHR ''|'' then
        (if second = Some (chr CHR ''='') then Some (BitwiseOrAssign, 2)
         else if second = Some (chr CHR ''|'') then Some (Or, 2) else Some (BitwiseOr, 1))
      else if ch = chr CHR ''&'' then
        (if second = Some (chr CHR ''='') then Some (BitwiseAndAssign, 2)
         else if second = Some (chr CHR ''&'') then Some (And, 2) else Some (BitwiseAnd, 1))
      else if ch = chr CHR ''^'' then
        (if second = Some (chr CHR ''='') then Some (BitwiseXorAssign, 2) else Some (BitwiseXor, 1))
      else if ch = chr CHR ''+'' then
        (if second = Some (chr CHR ''='') then Some (AddAssign, 2)
         else if second = Some (chr CHR ''+'') then Some (Increment, 2) else Some (Add, 1))
      else if ch = chr CHR ''-'' then
        (if second = Some (chr CHR ''='') then Some (SubtractAssign, 2)
         else if second = Some (chr CHR ''-'') then Some (Decrement, 2)
         else if second = Some (chr CHR ''>'') then Some (YulArrow, 2) else Some (Subtract, 1))
      else if ch = chr CHR ''*'' then
        (if second = Some (chr CHR ''='') then Some (MulAssign, 2)
         else if second = Some (chr CHR ''*'') then Some (Power, 2) else Some (Mul, 1))
      else if ch = chr CHR ''%'' then
        (if second = Some (chr CHR ''='') then Some (ModuloAssign, 2) else Some (Modulo, 1))
      else if ch = chr CHR ''<'' then
        (if second = Some (chr CHR ''<'') then
           if third = Some (chr CHR ''='') then Some (ShiftLeftAssign, 3) else Some (ShiftLeft, 2)
         else if second = Some (chr CHR ''='') then Some (LessEqual, 2) else Some (Less, 1))
      else if ch = chr CHR ''>'' then
        (if second = Some (chr CHR ''>'') then
           if third = Some (chr CHR ''='') then Some (ShiftRightAssign, 3) else Some (ShiftRight, 2)
         else if second = Some (chr CHR ''='') then Some (MoreEqual, 2) else Some (More, 1))
      else if ch = chr CHR ''['' then Some (OpenBracket, 1)
      else if ch = chr CHR '']'' then Some (CloseBracket, 1)
      else if ch = chr CHR '':'' then
        (if second = Some (chr CHR ''='') then Some (ColonAssign, 2) else Some (Colon, 1))
      else if ch = chr CHR ''?'' then Some (Question, 1)
      else None)"

definition lex_unrecognised :: "nat \<Rightarrow> Lexer \<Rightarrow> round" where
  "lex_unrecognised start st =
     (let (e, rest) = (case until is_whitespace (lx_chars st) of None \<Rightarrow> (input_len st, []) | Some (i, rest) \<Rightarrow> (i, rest))
      in do {
        s \<leftarrow> slice (lx_input st) start e;
        Some (Again, push_error (UnrecognisedToken (loc_at st start e) s) (st\<lparr>lx_chars := rest\<rparr>)) })"

definition lex_round :: "unicode \<Rightarrow> Lexer \<Rightarrow> round" where
  "lex_round U st = (case lx_chars st of
       [] \<Rightarrow> Some (Return None, st)
     | (start, ch) # cs \<Rightarrow>
         (let st = st\<lparr>lx_chars := cs\<rparr> in
          if ch = chr CHR ''_'' \<or> ch = chr CHR ''$'' \<or> is_xid_start U ch then lex_word U start st
          else if ch = quote \<or> ch = apostrophe then lex_quoted start ch st
          else if ch = chr CHR ''/'' then lex_slash start st
          else if is_ascii_digit ch then lex_number start ch st
          else if ch = chr CHR ''@'' then lex_annotation U start st
          else if ch = chr CHR '';'' then
            Some (Return (Some (start, Symbol Semicolon, start + 1)), st\<lparr>lx_parse_semver := False\<rparr>)
          else if ch = chr CHR ''.'' then lex_dot start st
          else (case symbol_token ch (peek cs) (map_option snd (peek_nth1 cs)) of
              Some (s, n) \<Rightarrow> Some (Return (Some (start, Symbol s, start + n)), st\<lparr>lx_chars := drop (n - 1) cs\<rparr>)
            | None \<Rightarrow> if is_whitespace ch then Some (Again, st) else lex_unrecognised start st)))"

section \<open>Progress\<close>

text \<open>Every round takes at least one character, so the loops of the lexer end.\<close>

lemma eat_length: "eat P cs e = (e', cs') \<Longrightarrow> length cs' \<le> length cs"
  by (induction P cs e rule: eat.induct) (auto split: if_splits)

lemma match_end_length: "match_end P n cs = (e, cs') \<Longrightarrow> length cs' \<le> length cs"
  by (induction P n cs rule: match_end.induct) (auto split: if_splits)

lemma until_length: "until P cs = Some (i, cs') \<Longrightarrow> length cs' < length cs"
  by (induction P cs rule: until.induct) (auto split: if_splits)

lemma string_loop_length: "string_loop q b cs = Some (i, cs') \<Longrightarrow> length cs' < length cs"
  by (induction q b cs rule: string_loop.induct) (auto split: if_splits)

lemma block_loop_length: "block_loop b n cs = Some (i, cs') \<Longrightarrow> length cs' < length cs"
  by (induction b n cs rule: block_loop.induct) (auto split: if_splits)

lemma hex_loop_length:
  "hex_loop q cs = HexEnd i cs' \<Longrightarrow> length cs' < length cs"
  "hex_loop q cs = HexBad i c cs' \<Longrightarrow> length cs' < length cs"
  by (induction q cs rule: hex_loop.induct) (auto split: if_splits option.splits dest: until_length)

lemma parse_fraction_length: "parse_fraction r n e cs = (a, b, c, d, cs') \<Longrightarrow> length cs' \<le> length cs"
  by (auto simp: parse_fraction_def split: if_splits option.splits prod.splits dest!: eat_length)

lemma parse_exponent_length: "parse_exponent e cs = (r, cs') \<Longrightarrow> length cs' \<le> length cs"
  by (auto simp: parse_exponent_def Let_def split: list.splits if_splits prod.splits dest!: eat_length
      intro: order_trans [OF _ le_SucI [OF length_dropWhile_le]])

lemmas loop_lengths = eat_length match_end_length until_length string_loop_length block_loop_length hex_loop_length
  parse_fraction_length parse_exponent_length

lemma tl_Cons_length: "tl xs = y # ys \<Longrightarrow> length xs = Suc (Suc (length ys))"
  by (cases xs) auto

lemma parse_number_length: "parse_number i c st = Some (r, st') \<Longrightarrow> length (lx_chars st') \<le> length (lx_chars st)"
  by (auto simp: parse_number_def parse_hex_number_def parse_decimal_def Let_def
      split: if_splits list.splits prod.splits bind_splits dest!: loop_lengths tl_Cons_length)

lemma lex_string_length: "lex_string u a b q st = Some (r, st') \<Longrightarrow> length (lx_chars st') \<le> length (lx_chars st)"
  by (auto simp: lex_string_def split: option.splits prod.splits bind_splits dest!: loop_lengths)

lemma push_fields [simp]:
  "lx_chars (push_error e st) = lx_chars st" "lx_chars (push_comment c st) = lx_chars st"
  "lx_input (push_error e st) = lx_input st" "lx_input (push_comment c st) = lx_input st"
  "lx_errors (push_error e st) = lx_errors st @ [e]" "lx_errors (push_comment c st) = lx_errors st"
  "lx_comments (push_error e st) = lx_comments st" "lx_comments (push_comment c st) = lx_comments st @ [c]"
  "lx_file_no (push_error e st) = lx_file_no st" "lx_file_no (push_comment c st) = lx_file_no st"
  by (simp_all add: push_error_def push_comment_def)

lemma lex_hex_length: "lex_hex i q st = Some (r, st') \<Longrightarrow> length (lx_chars st') \<le> length (lx_chars st)"
  by (auto simp: lex_hex_def split: hex_end.splits bind_splits dest!: loop_lengths)

lemma lex_address_length: "lex_address i q st = Some (r, st') \<Longrightarrow> length (lx_chars st') \<le> length (lx_chars st)"
  by (auto simp: lex_address_def split: option.splits bind_splits dest!: loop_lengths)

lemma match_identifier_length: "match_identifier U i st = Some (r, st') \<Longrightarrow> length (lx_chars st') \<le> length (lx_chars st)"
  by (auto simp: match_identifier_def Let_def split: prod.splits bind_splits dest!: loop_lengths)

lemma lex_word_length: "lex_word U i st = Some (r, st') \<Longrightarrow> length (lx_chars st') \<le> length (lx_chars st)"
  by (auto simp: lex_word_def Let_def split: option.splits prod.splits bind_splits if_splits sum.splits
      dest!: match_identifier_length lex_string_length lex_hex_length lex_address_length)

lemma lex_slash_length: "lex_slash i st = Some (r, st') \<Longrightarrow> length (lx_chars st') \<le> length (lx_chars st)"
  by (auto simp: lex_slash_def lex_line_comment_def lex_block_comment_def Let_def
      split: option.splits prod.splits bind_splits if_splits dest!: loop_lengths)

lemma lex_round_length:
  assumes "lex_round U st = Some (r, st')" "lx_chars st \<noteq> []"
  shows "length (lx_chars st') < length (lx_chars st)"
proof -
  obtain i c cs where st: "lx_chars st = (i, c) # cs" using assms(2) by (cases "lx_chars st") auto
  have "length (lx_chars st') \<le> length cs"
    using assms(1)
    by (auto simp: lex_round_def st Let_def lex_quoted_def lex_number_def lex_annotation_def lex_dot_def lex_unrecognised_def
        split: option.splits prod.splits bind_splits if_splits sum.splits
        dest!: lex_word_length lex_slash_length lex_string_length parse_number_length match_identifier_length loop_lengths)
  then show ?thesis by (simp add: st)
qed

lemma lex_round_empty: "lx_chars st = [] \<Longrightarrow> lex_round U st = Some (Return None, st)"
  by (simp add: lex_round_def)

section \<open>The iterator\<close>

function lexer_next :: "unicode \<Rightarrow> Lexer \<Rightarrow> (Spanned option \<times> Lexer) option" where
  "lexer_next U st = (case lex_round U st of
       None \<Rightarrow> None
     | Some (Return token, st') \<Rightarrow> Some (token, st')
     | Some (Again, st') \<Rightarrow> lexer_next U st')"
  by pat_completeness auto
termination
proof (relation "measure (\<lambda>(U, st). length (lx_chars st))")
  show "((U, st'), (U, st)) \<in> measure (\<lambda>(U, st). length (lx_chars st))"
    if "lex_round U st = Some x" "(out, st') = x" "out = Again" for U st x out st'
    using that lex_round_length [of U st out st'] lex_round_empty [of st U] by (cases "lx_chars st = []") auto
qed simp

declare lexer_next.simps [simp del]

text \<open>The last two tokens were \<open>pragma\<close> and an identifier.\<close>

definition pragma_value :: "Token option \<times> Token option \<Rightarrow> bool" where
  "pragma_value ts \<longleftrightarrow> fst ts = Some (Keyword Pragma) \<and>
     (case snd ts of Some (Token.Identifier _) \<Rightarrow> True | _ \<Rightarrow> False)"

definition iter_next :: "unicode \<Rightarrow> Lexer \<Rightarrow> (Spanned option \<times> Lexer) option" where
  "iter_next U st =
     (let st = (if pragma_value (lx_last_tokens st) then st\<lparr>lx_parse_semver := True\<rparr> else st) in do {
        (token, st) \<leftarrow> lexer_next U st;
        Some (token, st\<lparr>lx_last_tokens := (snd (lx_last_tokens st), map_option (\<lambda>(_, n, _). n) token)\<rparr>) })"

lemma lexer_next_length:
  "lexer_next U st = Some (Some t, st') \<Longrightarrow> length (lx_chars st') < length (lx_chars st)"
proof (induction U st rule: lexer_next.induct)
  case (1 U st)
  obtain out st1 where r: "lex_round U st = Some (out, st1)" using "1.prems" by (cases "lex_round U st") (auto simp: lexer_next.simps)
  have "lx_chars st \<noteq> []" using r "1.prems" lex_round_empty [of st U] by (auto simp: lexer_next.simps)
  from lex_round_length [OF r this] show ?case
    using r "1.prems" "1.IH" [OF r refl] by (cases out) (auto simp: lexer_next.simps [of U st])
qed

text \<open>All tokens, as \<open>collect\<close> gathers them.\<close>

function lexer_collect :: "unicode \<Rightarrow> Lexer \<Rightarrow> (Spanned list \<times> Lexer) option" where
  "lexer_collect U st = (case iter_next U st of
       None \<Rightarrow> None
     | Some (None, st') \<Rightarrow> Some ([], st')
     | Some (Some token, st') \<Rightarrow> map_option (\<lambda>(ts, st). (token # ts, st)) (lexer_collect U st'))"
  by pat_completeness auto
termination
proof (relation "measure (\<lambda>(U, st). length (lx_chars st))")
  show "((U, st'), (U, st)) \<in> measure (\<lambda>(U, st). length (lx_chars st))"
    if "iter_next U st = Some x" "(token, st') = x" "token = Some t" for U st x token st' t
    using that by (auto simp: iter_next_def Let_def split: bind_splits if_splits dest!: lexer_next_length)
qed simp

declare lexer_collect.simps [simp del]

end
