(* ===== verification/LexerSound.thy ===== *)
theory LexerSound
  imports Lexer
begin

text \<open>
  The lexer loses nothing: an abstract description of how an input splits into white space, comments
  and tokens, and the proof that lexing without an error yields such a split, that the lexer never
  panics, and that the spans of the tokens are ordered.
\<close>

section \<open>Offsets and slices\<close>

lemma str_len_simps [simp]: "str_len [] = 0" "str_len (c # s) = utf8_len c + str_len s" "str_len (a @ b) = str_len a + str_len b"
  by (simp_all add: str_len_def)

lemma utf8_len_pos [simp]: "0 < utf8_len c"
  by (simp add: utf8_len_def)

lemma utf8_len_ascii [simp]: "c < 128 \<Longrightarrow> utf8_len c = 1"
  by (simp add: utf8_len_def)

lemma str_len_ascii: "\<forall>c \<in> set s. c < 128 \<Longrightarrow> str_len s = length s"
  by (induction s) auto

lemma str_len_0 [simp]: "str_len s = 0 \<longleftrightarrow> s = []"
  using utf8_len_pos by (cases s) (auto simp: add_eq_0_iff_both_eq_0 simp del: utf8_len_pos)

lemma split_bytes_append: "split_bytes (str_len a) (a @ b) = Some (a, b)"
proof (induction a)
  case Nil
  then show ?case by (cases b) auto
qed simp

lemma slice_append: "slice (a @ m @ b) (str_len a) (str_len a + str_len m) = Some m"
  using split_bytes_append [of m b] by (simp add: slice_def split_bytes_append)

lemma sliceI: "s = a @ m @ b \<Longrightarrow> x = str_len a \<Longrightarrow> y = str_len a + str_len m \<Longrightarrow> slice s x y = Some m"
  using slice_append by simp

lemma char_indices_append: "char_indices n (a @ b) = char_indices n a @ char_indices (n + str_len a) b"
  by (induction a arbitrary: n) (auto simp: add.assoc)

lemma peek_simps [simp]: "peek [] = None" "peek (x # xs) = Some (snd x)"
  by (simp_all add: peek_def split: prod.splits)

lemma peek_char_indices [simp]: "peek (char_indices n s) = (case s of [] \<Rightarrow> None | c # _ \<Rightarrow> Some c)"
  by (cases s) auto

section \<open>The loops\<close>

lemma eat_spec:
  assumes "\<And>c. P c \<Longrightarrow> c < 128"
  shows "eat P (char_indices n s) e =
    (if takeWhile P s = [] then e else n + str_len (takeWhile P s) - 1,
     char_indices (n + str_len (takeWhile P s)) (dropWhile P s))"
proof (induction s arbitrary: n e)
  case (Cons c s)
  show ?case
  proof (cases "P c")
    case True
    then have "utf8_len c = 1" using assms by simp
    then show ?thesis using True Cons [of "n + 1" n] by (auto simp: add.assoc)
  qed simp
qed simp

lemma eat_adjacent:
  assumes "\<And>c. P c \<Longrightarrow> c < 128" "n = e + 1"
  shows "eat P (char_indices n s) e =
    (e + str_len (takeWhile P s), char_indices (e + 1 + str_len (takeWhile P s)) (dropWhile P s))"
  by (simp add: eat_spec [OF assms(1)] assms(2))

lemma match_end_spec:
  assumes "len = n + str_len s"
  shows "match_end P len (char_indices n s) =
    (n + str_len (takeWhile P s), char_indices (n + str_len (takeWhile P s)) (dropWhile P s))"
  using assms by (induction s arbitrary: n) (auto simp: add.assoc)

lemma until_Some:
  assumes "until P (char_indices n s) = Some (i, cs)"
  obtains w c r where "s = w @ c # r" "P c" "\<forall>c \<in> set w. \<not> P c" "i = n + str_len w" "cs = char_indices (n + str_len (w @ [c])) r"
proof -
  have "\<exists>w c r. s = w @ c # r \<and> P c \<and> (\<forall>c \<in> set w. \<not> P c) \<and> i = n + str_len w \<and> cs = char_indices (n + str_len (w @ [c])) r"
    using assms
  proof (induction s arbitrary: n)
    case (Cons c s)
    show ?case
    proof (cases "P c")
      case True
      then show ?thesis using Cons.prems by (intro exI [of _ "[]"] exI [of _ s] conjI) auto
    next
      case False
      then obtain w d r where "s = w @ d # r" "P d" "\<forall>c \<in> set w. \<not> P c" "i = n + utf8_len c + str_len w"
        "cs = char_indices (n + utf8_len c + str_len (w @ [d])) r"
        using Cons.IH [of "n + utf8_len c"] Cons.prems by auto
      then show ?thesis using False by (intro exI [of _ "c # w"] exI [of _ d] exI [of _ r]) (simp add: add.assoc)
    qed
  qed simp
  then show ?thesis using that by blast
qed

lemma until_None: "until P (char_indices n s) = None \<Longrightarrow> \<forall>c \<in> set s. \<not> P c"
  by (induction s arbitrary: n) (auto split: if_splits)

text \<open>The text of a string literal: no quote that is not escaped, and no escape at the end.\<close>

fun string_body :: "uchar \<Rightarrow> bool \<Rightarrow> ustring \<Rightarrow> bool" where
  "string_body q escaped [] = (\<not> escaped)"
| "string_body q escaped (c # s) =
     (if escaped then string_body q False s else c \<noteq> q \<and> string_body q (c = backslash) s)"

lemma string_loop_Some:
  assumes "string_loop q b (char_indices n s) = Some (i, cs)"
  obtains w r where "s = w @ q # r" "string_body q b w" "i = n + str_len w" "cs = char_indices (n + str_len (w @ [q])) r"
proof -
  have "\<exists>w r. s = w @ q # r \<and> string_body q b w \<and> i = n + str_len w \<and> cs = char_indices (n + str_len (w @ [q])) r"
    using assms
  proof (induction s arbitrary: n b)
    case (Cons c s)
    show ?case
    proof (cases "\<not> b \<and> c = q")
      case True
      then show ?thesis using Cons.prems by (intro exI [of _ "[]"] exI [of _ s] conjI) auto
    next
      case False
      define b' where "b' = (if b then False else c = backslash)"
      have "string_loop q b' (char_indices (n + utf8_len c) s) = Some (i, cs)"
        using False Cons.prems by (auto simp: b'_def split: if_splits)
      from Cons.IH [OF this] obtain w r where w: "s = w @ q # r" "string_body q b' w" "i = n + utf8_len c + str_len w"
        "cs = char_indices (n + utf8_len c + str_len (w @ [q])) r" by blast
      then have "string_body q b (c # w)" using False by (auto simp: b'_def split: if_splits)
      then show ?thesis using w by (intro exI [of _ "c # w"] exI [of _ r]) (simp add: add.assoc)
    qed
  qed simp
  then show ?thesis using that by blast
qed

lemma block_loop_Some:
  assumes "block_loop b l (char_indices n s) = Some (i, cs)"
  shows "\<exists>w r. s = w @ chr CHR ''/'' # r \<and> cs = char_indices (n + str_len w + 1) r \<and>
    (w = [] \<and> b \<and> i = l \<or> w \<noteq> [] \<and> i + 1 = n + str_len w)"
  using assms
proof (induction s arbitrary: n b l)
  case (Cons c s)
  show ?case
  proof (cases "b \<and> c = chr CHR ''/''")
    case True
    then show ?thesis using Cons.prems by (intro exI [of _ "[]"] exI [of _ s] conjI) auto
  next
    case False
    then have "block_loop (c = chr CHR ''*'') n (char_indices (n + utf8_len c) s) = Some (i, cs)"
      using Cons.prems by auto
    from Cons.IH [OF this] obtain w r where w: "s = w @ chr CHR ''/'' # r" "cs = char_indices (n + utf8_len c + str_len w + 1) r"
      "w = [] \<and> c = chr CHR ''*'' \<and> i = n \<or> w \<noteq> [] \<and> i + 1 = n + utf8_len c + str_len w" by blast
    then show ?thesis by (intro exI [of _ "c # w"] exI [of _ r]) (auto simp: add.assoc)
  qed
qed simp

lemma hex_loop_HexEnd:
  assumes "hex_loop q (char_indices n s) = HexEnd i cs"
  obtains w r where "s = w @ q # r" "\<forall>c \<in> set w. hexdigit_or_underscore c \<and> c \<noteq> q" "i = n + str_len w"
    "cs = char_indices (n + str_len (w @ [q])) r"
proof -
  have "\<exists>w r. s = w @ q # r \<and> (\<forall>c \<in> set w. hexdigit_or_underscore c \<and> c \<noteq> q) \<and> i = n + str_len w \<and> cs = char_indices (n + str_len (w @ [q])) r"
    using assms
  proof (induction s arbitrary: n)
    case (Cons c s)
    show ?case
    proof (cases "c = q")
      case True
      then show ?thesis using Cons.prems by (intro exI [of _ "[]"] exI [of _ s] conjI) auto
    next
      case False
      then have h: "hexdigit_or_underscore c" "hex_loop q (char_indices (n + utf8_len c) s) = HexEnd i cs"
        using Cons.prems by (auto split: if_splits)
      from Cons.IH [OF this(2)] obtain w r where "s = w @ q # r" "\<forall>c \<in> set w. hexdigit_or_underscore c \<and> c \<noteq> q"
        "i = n + utf8_len c + str_len w" "cs = char_indices (n + utf8_len c + str_len (w @ [q])) r" by blast
      then show ?thesis using False h(1) by (intro exI [of _ "c # w"] exI [of _ r]) (simp add: add.assoc)
    qed
  qed simp
  then show ?thesis using that by blast
qed

lemma hex_loop_HexBad:
  assumes "hex_loop q (char_indices n s) = HexBad i c cs"
  shows "\<exists>w r. s = w @ r \<and> cs = char_indices (n + str_len w) r"
  using assms
proof (induction s arbitrary: n)
  case (Cons d s)
  show ?case
  proof (cases "hexdigit_or_underscore d")
    case True
    then have "hex_loop q (char_indices (n + utf8_len d) s) = HexBad i c cs" using Cons.prems by (auto split: if_splits)
    from Cons.IH [OF this] obtain w r where "s = w @ r" "cs = char_indices (n + utf8_len d + str_len w) r" by blast
    then show ?thesis by (intro exI [of _ "d # w"] exI [of _ r]) (simp add: add.assoc)
  next
    case False
    show ?thesis
    proof (cases "until (\<lambda>c. c = q) (char_indices (n + utf8_len d) s)")
      case None
      then show ?thesis using False Cons.prems by (intro exI [of _ "d # s"] exI [of _ "[]"]) (auto split: if_splits)
    next
      case (Some a)
      then obtain w e r where "s = w @ e # r" "snd a = char_indices (n + utf8_len d + str_len (w @ [e])) r"
        by (cases a) (auto elim!: until_Some)
      then show ?thesis using Some False Cons.prems
        by (intro exI [of _ "d # w @ [e]"] exI [of _ r]) (auto split: if_splits prod.splits simp: add.assoc)
    qed
  qed
qed simp

section \<open>What the pieces of an input are\<close>

text \<open>
  The source text of a token is what the token prints as, except that a string may have either
  quote, an exponent either letter, and the two keywords without a width mean 256 bits.
\<close>

definition quote_chars :: "uchar set" where
  "quote_chars = {quote, apostrophe}"

definition exponent :: "ustring \<Rightarrow> ustring \<Rightarrow> bool" where
  "exponent expo u \<longleftrightarrow> expo = [] \<and> u = [] \<or> expo \<noteq> [] \<and> u \<in> {chr CHR ''e'' # expo, chr CHR ''E'' # expo}"

definition spells :: "Token \<Rightarrow> ustring \<Rightarrow> bool" where
  "spells t u \<longleftrightarrow> (case t of
       StringLiteral unicode s \<Rightarrow> (\<exists>q \<in> quote_chars. string_body q False s \<and>
         u = (if unicode then str ''unicode'' else []) @ q # s @ [q])
     | Number integer expo \<Rightarrow> (\<exists>x. exponent expo x \<and> u = integer @ x)
     | RationalNumber integer fraction expo \<Rightarrow> (\<exists>x. exponent expo x \<and> u = integer @ chr CHR ''.'' # fraction @ x)
     | Token.Uint w \<Rightarrow> u = token_string t \<or> w = 256 \<and> u = str ''uint''
     | Token.Int w \<Rightarrow> u = token_string t \<or> w = 256 \<and> u = str ''int''
     | _ \<Rightarrow> u = token_string t)"

definition comment_of :: "nat \<Rightarrow> nat \<Rightarrow> ustring \<Rightarrow> Comment \<Rightarrow> bool" where
  "comment_of f a u c \<longleftrightarrow> (let loc = Loc.File f a (a + str_len u) in
     c = Line loc u \<and> (\<exists>v. u = str ''//'' @ v)
   \<or> c = DocLine loc u \<and> (\<exists>v. u = str ''///'' @ v \<and> (v = [] \<or> hd v \<noteq> chr CHR ''/''))
   \<or> c = Block loc u \<and> (\<exists>v. u = str ''/*'' @ v @ str ''*/'')
   \<or> c = DocBlock loc u \<and> (\<exists>v. u = str ''/**'' @ v @ str ''*/''))"

text \<open>
  An input that splits into white space, comments (with the line break that ends a line comment)
  and tokens, after \<open>pre\<close>.
\<close>

inductive lexed :: "nat \<Rightarrow> ustring \<Rightarrow> ustring \<Rightarrow> Spanned list \<Rightarrow> Comment list \<Rightarrow> bool" for f where
  lexed_end: "lexed f pre [] [] []"
| lexed_space: "is_whitespace c \<Longrightarrow> lexed f (pre @ [c]) s ts cs \<Longrightarrow> lexed f pre (c # s) ts cs"
| lexed_comment: "comment_of f (str_len pre) u c \<Longrightarrow> nl \<in> {[], [newline], [carriage_return]} \<Longrightarrow>
    lexed f (pre @ u @ nl) s ts cs \<Longrightarrow> lexed f pre (u @ nl @ s) ts (c # cs)"
| lexed_token: "spells t u \<Longrightarrow> lexed f (pre @ u) s ts cs \<Longrightarrow>
    lexed f pre (u @ s) ((str_len pre, t, str_len (pre @ u)) # ts) cs"

section \<open>The lexer at a position\<close>

definition pos :: "Lexer \<Rightarrow> ustring \<Rightarrow> ustring \<Rightarrow> bool" where
  "pos st pre rest \<longleftrightarrow> lx_input st = pre @ rest \<and> lx_chars st = char_indices (str_len pre) rest"

definition same :: "Lexer \<Rightarrow> Lexer \<Rightarrow> bool" where
  "same st st' \<longleftrightarrow> lx_file_no st' = lx_file_no st \<and> lx_comments st' = lx_comments st \<and> lx_errors st' = lx_errors st"

text \<open>The token from the start of \<open>seg\<close>, after \<open>pre\<close>.\<close>

definition token_at :: "ustring \<Rightarrow> ustring \<Rightarrow> Spanned \<Rightarrow> bool" where
  "token_at pre seg tok \<longleftrightarrow> (\<exists>t. spells t seg \<and> tok = (str_len pre, t, str_len pre + str_len seg))"

text \<open>A part of a round that takes \<open>seg\<close> and yields a token or an error.\<close>

definition result_ok :: "Lexer \<Rightarrow> ustring \<Rightarrow> ustring \<Rightarrow> lex_result \<Rightarrow> bool" where
  "result_ok st pre s r \<longleftrightarrow> (\<exists>x st' seg rest. r = Some (x, st') \<and> s = seg @ rest \<and> seg \<noteq> [] \<and> pos st' (pre @ seg) rest \<and>
     same st st' \<and> (case x of Inl _ \<Rightarrow> True | Inr tok \<Rightarrow> token_at pre seg tok))"

text \<open>
  A round takes \<open>seg\<close>. Either it reports an error, and then a token it returns is at least in
  place, or it takes a token, a white space character or a comment.
\<close>

definition good :: "Lexer \<Rightarrow> Lexer \<Rightarrow> ustring \<Rightarrow> ustring \<Rightarrow> outcome \<Rightarrow> bool" where
  "good st st' pre seg out \<longleftrightarrow> lx_errors st' = lx_errors st \<and> (case out of
       Return tok \<Rightarrow> (case tok of None \<Rightarrow> False | Some tok \<Rightarrow> token_at pre seg tok) \<and> lx_comments st' = lx_comments st
     | Again \<Rightarrow> (\<exists>c. seg = [c] \<and> is_whitespace c) \<and> lx_comments st' = lx_comments st \<or>
         (\<exists>u nl c. seg = u @ nl \<and> nl \<in> {[], [newline], [carriage_return]} \<and>
            comment_of (lx_file_no st) (str_len pre) u c \<and> lx_comments st' = lx_comments st @ [c]))"

definition bad :: "Lexer \<Rightarrow> Lexer \<Rightarrow> ustring \<Rightarrow> ustring \<Rightarrow> outcome \<Rightarrow> bool" where
  "bad st st' pre seg out \<longleftrightarrow> (\<exists>e. lx_errors st' = lx_errors st @ [e]) \<and> lx_comments st' = lx_comments st \<and>
     (case out of Return (Some tok) \<Rightarrow> (\<exists>u v. seg = u @ v \<and> u \<noteq> [] \<and> token_at pre u tok) | _ \<Rightarrow> True)"

definition round_ok :: "Lexer \<Rightarrow> ustring \<Rightarrow> ustring \<Rightarrow> round \<Rightarrow> bool" where
  "round_ok st pre s r \<longleftrightarrow> (\<exists>out st' seg rest. r = Some (out, st') \<and> s = seg @ rest \<and> seg \<noteq> [] \<and> pos st' (pre @ seg) rest \<and>
     lx_file_no st' = lx_file_no st \<and> (good st st' pre seg out \<or> bad st st' pre seg out))"

lemma pos_simps:
  "pos st pre rest \<Longrightarrow> lx_input st = pre @ rest" "pos st pre rest \<Longrightarrow> lx_chars st = char_indices (str_len pre) rest"
  by (simp_all add: pos_def)

lemma pos_moved: "pos st (pre @ w) rest \<Longrightarrow> rest = v @ rest' \<Longrightarrow> cs = char_indices (str_len pre + str_len w + str_len v) rest' \<Longrightarrow>
    pos (st\<lparr>lx_chars := cs\<rparr>) (pre @ w @ v) rest'"
  by (simp add: pos_def add.assoc)

lemma same_moved [simp]: "same st (st\<lparr>lx_chars := cs\<rparr>)" "same (st\<lparr>lx_chars := cs\<rparr>) st' = same st st'"
  by (simp_all add: same_def)

lemma result_token:
  assumes "r = Some (Inr (str_len pre, t, str_len pre + str_len seg), st')" "s = seg @ rest" "seg \<noteq> []"
    and "pos st' (pre @ seg) rest" "same st st'" "spells t seg"
  shows "result_ok st pre s r"
  unfolding result_ok_def using assms by (intro exI [of _ "Inr (str_len pre, t, str_len pre + str_len seg)"] exI conjI) (auto simp: token_at_def)

lemma result_error:
  assumes "r = Some (Inl e, st')" "s = seg @ rest" "seg \<noteq> []" "pos st' (pre @ seg) rest" "same st st'"
  shows "result_ok st pre s r"
  unfolding result_ok_def using assms by (intro exI [of _ "Inl e"] exI conjI) auto

lemma round_token:
  assumes "r = Some (Return (Some (str_len pre, t, str_len pre + str_len seg)), st')" "s = seg @ rest" "seg \<noteq> []"
    and "pos st' (pre @ seg) rest" "same st st'" "spells t seg"
  shows "round_ok st pre s r"
proof -
  have "good st st' pre seg (Return (Some (str_len pre, t, str_len pre + str_len seg)))"
    using assms(5,6) by (auto simp: good_def same_def token_at_def)
  then show ?thesis unfolding round_ok_def using assms by (intro exI conjI disjI1) (auto simp: same_def)
qed

lemma round_error:
  assumes "r = Some (out, push_error e st')" "s = seg @ rest" "seg \<noteq> []" "pos st' (pre @ seg) rest" "same st st'"
    and "out = Again \<or> out = Return None \<or> (\<exists>u v t. seg = u @ v \<and> u \<noteq> [] \<and> spells t u \<and> out = Return (Some (str_len pre, t, str_len pre + str_len u)))"
  shows "round_ok st pre s r"
proof -
  have "bad st (push_error e st') pre seg out"
    using assms(5,6) by (auto simp: bad_def same_def token_at_def split: outcome.splits option.splits)
  moreover have "pos (push_error e st') (pre @ seg) rest" using assms(4) by (simp add: pos_def)
  ultimately show ?thesis unfolding round_ok_def using assms by (intro exI conjI disjI2) (auto simp: same_def)
qed

lemma round_comment:
  assumes "r = Some (Again, push_comment c st')" "s = u @ nl @ rest" "u \<noteq> []" "nl \<in> {[], [newline], [carriage_return]}"
    and "pos st' (pre @ u @ nl) rest" "same st st'" "comment_of (lx_file_no st) (str_len pre) u c"
  shows "round_ok st pre s r"
proof -
  have "good st (push_comment c st') pre (u @ nl) Again"
    using assms(4,6,7) by (auto simp: good_def same_def)
  moreover have "pos (push_comment c st') (pre @ u @ nl) rest" using assms(5) by (simp add: pos_def)
  ultimately show ?thesis unfolding round_ok_def using assms by (intro exI conjI disjI1) (auto simp: same_def)
qed

section \<open>Numbers\<close>

lemma digit_ascii: "digit_or_underscore c \<Longrightarrow> c < 128" "hexdigit_or_underscore c \<Longrightarrow> c < 128"
  by (auto simp: is_ascii_digit_def is_ascii_hexdigit_def)

lemma parse_fraction_spec:
  "parse_fraction dotted rs e (char_indices (e + 1) r) = (dotted, rs, e, e, char_indices (e + 1) r) \<or>
   (\<not> dotted \<and> (\<exists>f r'. r = chr CHR ''.'' # f @ r' \<and> f \<noteq> [] \<and>
      parse_fraction dotted rs e (char_indices (e + 1) r) =
        (True, e + 2, e + 1 + str_len f, e + 1 + str_len f, char_indices (e + 2 + str_len f) r')))"
proof (cases "\<exists>c r2. r = chr CHR ''.'' # c # r2 \<and> is_ascii_digit c \<and> \<not> dotted")
  case False
  then show ?thesis
    by (cases r; cases "tl r") (auto simp: parse_fraction_def peek_nth1_def peek_def split: list.splits)
next
  case True
  then obtain c r2 where r: "r = chr CHR ''.'' # c # r2" "is_ascii_digit c" "\<not> dotted" by blast
  have c: "utf8_len c = 1" using digit_ascii(1) [of c] r(2) by simp
  let ?f = "takeWhile digit_or_underscore r2"
  have "eat digit_or_underscore (char_indices (Suc (Suc (Suc e))) r2) (Suc (Suc e)) =
      (Suc (Suc e) + str_len ?f, char_indices (Suc (Suc (Suc e)) + str_len ?f) (dropWhile digit_or_underscore r2))"
    using eat_adjacent [of digit_or_underscore "Suc (Suc (Suc e))" "Suc (Suc e)" r2, OF digit_ascii(1)] by simp
  then have "parse_fraction dotted rs e (char_indices (e + 1) r) =
      (True, e + 2, e + 1 + str_len (c # ?f), e + 1 + str_len (c # ?f), char_indices (e + 2 + str_len (c # ?f)) (dropWhile digit_or_underscore r2))"
    using r c by (simp add: parse_fraction_def peek_nth1_def peek_def add_2_eq_Suc')
  moreover have "r = chr CHR ''.'' # (c # ?f) @ dropWhile digit_or_underscore r2" using r(1) by simp
  ultimately show ?thesis using r(3) by blast
qed

lemma dropWhile_char_indices:
  "dropWhile (\<lambda>(_, c). P c) (char_indices n s) = char_indices (n + str_len (takeWhile P s)) (dropWhile P s)"
  by (induction s arbitrary: n) (auto simp: add.assoc)

lemma parse_exponent_spec:
  "parse_exponent e (char_indices (e + 1) r) = ((e + 1, e, False), char_indices (e + 1) r) \<or>
   (\<exists>x r'. r = x @ r' \<and> x \<noteq> [] \<and> (\<exists>a b. parse_exponent e (char_indices (e + 1) r) = ((a, b, True), char_indices (e + 1 + str_len x) r'))) \<or>
   (\<exists>c x r'. c \<in> {chr CHR ''e'', chr CHR ''E''} \<and> r = c # x @ r' \<and> x \<noteq> [] \<and>
      parse_exponent e (char_indices (e + 1) r) = ((e + 2, e + 1 + str_len x, False), char_indices (e + 2 + str_len x) r'))"
proof (cases "\<exists>c s. c \<in> {chr CHR ''e'', chr CHR ''E''} \<and> r = c # s")
  case False
  then show ?thesis by (cases r) (auto simp: parse_exponent_def)
next
  case True
  then obtain c s where c: "c \<in> {chr CHR ''e'', chr CHR ''E''}" "r = c # s" by blast
  then have c1: "utf8_len c = 1" by auto
  let ?m = "takeWhile (\<lambda>c. c = chr CHR ''-'') s" and ?s = "dropWhile (\<lambda>c. c = chr CHR ''-'') s"
  let ?d = "takeWhile digit_or_underscore ?s" and ?r = "dropWhile digit_or_underscore ?s"
  have eq: "parse_exponent e (char_indices (e + 1) r) =
      ((e + 2, if ?d = [] then e else e + 1 + str_len (?m @ ?d), ?d = []), char_indices (e + 2 + str_len (?m @ ?d)) ?r)"
    using c c1 eat_spec [of digit_or_underscore "e + 2 + str_len ?m" ?s e, OF digit_ascii(1)]
    by (auto simp: parse_exponent_def Let_def dropWhile_char_indices add.assoc)
  show ?thesis
  proof (cases "?d = []")
    case True
    then have "parse_exponent e (char_indices (e + 1) r) = ((e + 2, e, True), char_indices (e + 1 + str_len (c # ?m)) ?r)"
      using eq c1 by simp
    moreover have "s = ?m @ ?r" by (metis True append_Nil takeWhile_dropWhile_id)
    then have "r = (c # ?m) @ ?r" by (simp only: c(2) append_Cons)
    ultimately show ?thesis by blast
  next
    case False
    then have "parse_exponent e (char_indices (e + 1) r) = ((e + 2, e + 1 + str_len (?m @ ?d), False), char_indices (e + 2 + str_len (?m @ ?d)) ?r)"
      using eq by simp
    moreover have "r = c # (?m @ ?d) @ ?r" by (simp add: c(2))
    ultimately show ?thesis using c(1) False by blast
  qed
qed

lemma parse_fraction_slices:
  assumes inp: "inp = pre @ c # v @ r" and c: "c < 128" and d: "dotted \<longrightarrow> c = chr CHR ''.''"
    and e: "e = str_len pre + str_len v"
    and res: "parse_fraction dotted (if dotted then str_len pre + 1 else e) e (char_indices (e + 1) r) = (is_rational, rs, re, oe, cs)"
  shows "\<exists>b r'. v @ r = b @ r' \<and> oe = str_len pre + str_len b \<and> cs = char_indices (oe + 1) r' \<and>
    (if is_rational then \<exists>integer fraction. slice inp (str_len pre) (if dotted then str_len pre else e + 1) = Some integer \<and>
        slice inp rs (re + 1) = Some fraction \<and> c # b = integer @ chr CHR ''.'' # fraction
     else True)"
proof -
  consider (none) "(is_rational, rs, re, oe, cs) = (dotted, (if dotted then str_len pre + 1 else e), e, e, char_indices (e + 1) r)"
    | (frac) f r' where "\<not> dotted" "r = chr CHR ''.'' # f @ r'"
      "(is_rational, rs, re, oe, cs) = (True, e + 2, e + 1 + str_len f, e + 1 + str_len f, char_indices (e + 2 + str_len f) r')"
    using parse_fraction_spec [of dotted "if dotted then str_len pre + 1 else e" e r] res by auto
  then show ?thesis
  proof cases
    case none
    have "slice inp (str_len pre) (str_len pre) = Some []" by (rule sliceI [of _ pre "[]" "c # v @ r"]) (simp_all add: inp)
    moreover have "slice inp (str_len pre + 1) (e + 1) = Some v" if dotted
      using that c d by (intro sliceI [of _ "pre @ [c]" v r]) (simp_all add: inp e)
    ultimately show ?thesis using none d by (intro exI [of _ v] exI [of _ r]) (simp add: e)
  next
    case frac
    have "slice inp (str_len pre) (e + 1) = Some (c # v)"
      using c by (intro sliceI [of _ pre "c # v" r]) (simp_all add: inp e)
    moreover have "slice inp (e + 2) (e + 2 + str_len f) = Some f"
      using c by (intro sliceI [of _ "pre @ c # v @ [chr CHR ''.'']" f r']) (simp_all add: inp e frac(2))
    ultimately show ?thesis using frac
      by (intro exI [of _ "v @ chr CHR ''.'' # f"] exI [of _ r']) (simp add: e add_2_eq_Suc')
  qed
qed

lemma parse_decimal_ok:
  assumes st: "pos st (pre @ [c]) rest" and c: "c < 128" and d: "dotted \<longrightarrow> c = chr CHR ''.'' \<and> \<not> lx_parse_semver st"
  shows "result_ok st pre (c # rest) (parse_decimal dotted (str_len pre) st)"
proof -
  let ?v = "takeWhile digit_or_underscore rest" and ?r = "dropWhile digit_or_underscore rest" and ?n = "str_len pre"
  define e where "e = ?n + str_len ?v"
  have inp: "lx_input st = pre @ c # ?v @ ?r" using st by (simp add: pos_def)
  have eat: "eat digit_or_underscore (lx_chars st) ?n = (e, char_indices (e + 1) ?r)"
    using eat_adjacent [of digit_or_underscore "?n + 1" ?n rest, OF digit_ascii(1)] st c by (simp add: pos_def e_def)
  show ?thesis
  proof (cases "lx_parse_semver st")
    case True
    have i: "slice (lx_input st) ?n (e + 1) = Some (c # ?v)"
      using c by (intro sliceI [of _ pre "c # ?v" ?r]) (simp_all add: inp e_def)
    have z: "slice (lx_input st) 0 0 = Some []" by (rule sliceI [of _ "[]" "[]"]) simp_all
    have len: "e + 1 = ?n + str_len (c # ?v)" using c by (simp add: e_def)
    have run: "parse_decimal dotted ?n st = Some (Inr (?n, Number (c # ?v) [], ?n + str_len (c # ?v)), st\<lparr>lx_chars := char_indices (e + 1) ?r\<rparr>)"
      using True i z len unfolding parse_decimal_def eat by simp
    show ?thesis
      by (rule result_token [OF run]) (use st c in \<open>auto simp: pos_def e_def spells_def exponent_def\<close>)
  next
    case False
    obtain is_rational rs re oe cs where fr:
      "parse_fraction dotted (if dotted then ?n + 1 else e) e (char_indices (e + 1) ?r) = (is_rational, rs, re, oe, cs)"
      by (metis prod_cases5)
    have dot: "dotted \<longrightarrow> c = chr CHR ''.''" using d by simp
    obtain b r' where b: "?v @ ?r = b @ r'" "oe = ?n + str_len b" "cs = char_indices (oe + 1) r'"
      "if is_rational then \<exists>integer fraction. slice (lx_input st) ?n (if dotted then ?n else e + 1) = Some integer \<and>
          slice (lx_input st) rs (re + 1) = Some fraction \<and> c # b = integer @ chr CHR ''.'' # fraction else True"
      using parse_fraction_slices [OF inp c dot e_def fr] by blast
    have rest: "rest = b @ r'" using b(1) by simp
    have inp': "lx_input st = pre @ (c # b) @ r'" using inp b(1) by simp
    have whole: "slice (lx_input st) ?n (oe + 1) = Some (c # b)"
      using c by (intro sliceI [of _ pre "c # b" r']) (simp_all add: inp' b(2))
    have token: "result_ok st pre (c # rest) (parse_decimal dotted ?n st)"
      if x: "parse_exponent oe cs = ((es, e', False), char_indices (e' + 1) r2)" "r' = x @ r2" "exponent expo x"
        "slice (lx_input st) es (e' + 1) = Some expo" "e' = oe + str_len x" for es e' x expo r2
    proof -
      have p: "pos (st\<lparr>lx_chars := char_indices (e' + 1) r2\<rparr>) (pre @ (c # b) @ x) r2"
        using inp' x(2,5) b(2) c by (simp add: pos_def add.assoc)
      have len: "e' + 1 = ?n + str_len ((c # b) @ x)" using x(5) b(2) c by simp
      show ?thesis
      proof (cases is_rational)
        case True
        then obtain integer fraction where i: "slice (lx_input st) ?n (if dotted then ?n else e + 1) = Some integer"
          "slice (lx_input st) rs (re + 1) = Some fraction" "c # b = integer @ chr CHR ''.'' # fraction" using b(4) by auto
        have run: "parse_decimal dotted ?n st =
            Some (Inr (?n, RationalNumber integer fraction expo, ?n + str_len ((c # b) @ x)), st\<lparr>lx_chars := char_indices (e' + 1) r2\<rparr>)"
          using False True i(1,2) x(1,4) len unfolding parse_decimal_def eat by (simp add: fr [simplified] Let_def)
        have "spells (RationalNumber integer fraction expo) ((c # b) @ x)" using x(3) i(3) by (auto simp: spells_def)
        then show ?thesis using p rest x(2) by (intro result_token [OF run, of _ r2]) simp_all
      next
        case no: False
        have run: "parse_decimal dotted ?n st =
            Some (Inr (?n, Number (c # b) expo, ?n + str_len ((c # b) @ x)), st\<lparr>lx_chars := char_indices (e' + 1) r2\<rparr>)"
          using False no whole x(1,4) len unfolding parse_decimal_def eat by (simp add: fr [simplified] Let_def)
        have "spells (Number (c # b) expo) ((c # b) @ x)" using x(3) by (auto simp: spells_def)
        then show ?thesis using p rest x(2) by (intro result_token [OF run, of _ r2]) simp_all
      qed
    qed
    consider (none) "parse_exponent oe cs = ((oe + 1, oe, False), char_indices (oe + 1) r')"
      | (missing) x r2 a b' where "r' = x @ r2" "parse_exponent oe cs = ((a, b', True), char_indices (oe + 1 + str_len x) r2)"
      | (expo) ec x r2 where "ec \<in> {chr CHR ''e'', chr CHR ''E''}" "r' = ec # x @ r2" "x \<noteq> []"
        "parse_exponent oe cs = ((oe + 2, oe + 1 + str_len x, False), char_indices (oe + 2 + str_len x) r2)"
      using parse_exponent_spec [of oe r'] b(3) by auto
    then show ?thesis
    proof cases
      case none
      have "slice (lx_input st) (oe + 1) (oe + 1) = Some []"
        using c by (intro sliceI [of _ "pre @ c # b" "[]" r']) (simp_all add: inp' b(2))
      then show ?thesis using none by (intro token [of "oe + 1" oe r' "[]" "[]"]) (auto simp: exponent_def)
    next
      case missing
      have run: "parse_decimal dotted ?n st =
          Some (Inl (MissingExponent (loc_at st ?n (input_len st))), st\<lparr>lx_chars := char_indices (oe + 1 + str_len x) r2\<rparr>)"
        using False missing(2) unfolding parse_decimal_def eat by (simp add: fr [simplified] Let_def)
      show ?thesis
        by (rule result_error [OF run, of _ "c # b @ x" r2])
          (use rest missing(1) inp' c b(2) in \<open>auto simp: pos_def add.assoc\<close>)
    next
      case expo
      have "slice (lx_input st) (oe + 2) (oe + 2 + str_len x) = Some x"
        using c expo(1) by (intro sliceI [of _ "pre @ c # b @ [ec]" x r2]) (auto simp: inp' b(2) expo(2))
      then show ?thesis using expo by (intro token [of "oe + 2" "oe + 1 + str_len x" r2 "ec # x" x]) (auto simp: exponent_def add_2_eq_Suc')
    qed
  qed
qed

lemma parse_hex_number_ok:
  assumes st: "pos st (pre @ w) rest" "w = str ''0x''"
  shows "result_ok st pre (w @ rest) (parse_hex_number (str_len pre) st)"
proof -
  have w: "str_len w = 2" "w \<noteq> []" by (simp_all add: st(2) str_def)
  show ?thesis
  proof (cases rest)
    case Nil
    then have run: "parse_hex_number (str_len pre) st = Some (Inl (EndofFileInHex (loc_at st (str_len pre) (input_len st))), st)"
      using st by (simp add: parse_hex_number_def pos_def)
    show ?thesis by (rule result_error [OF run]) (use st w Nil in \<open>auto simp: same_def\<close>)
  next
    case (Cons c s)
    have chars: "lx_chars st = (str_len pre + 2, c) # char_indices (str_len pre + 2 + utf8_len c) s" using st w Cons by (simp add: pos_def)
    show ?thesis
    proof (cases "is_ascii_hexdigit c")
      case True
      then have c: "utf8_len c = 1" using digit_ascii(2) [of c] by simp
      let ?v = "takeWhile hexdigit_or_underscore s" and ?r = "dropWhile hexdigit_or_underscore s"
      have e: "eat hexdigit_or_underscore (char_indices (str_len pre + 2 + utf8_len c) s) (str_len pre + 2) =
          (str_len pre + 2 + str_len ?v, char_indices (str_len pre + 2 + 1 + str_len ?v) ?r)"
        using eat_adjacent [of hexdigit_or_underscore "str_len pre + 2 + 1" "str_len pre + 2" s, OF digit_ascii(2)] by (simp add: c)
      have inp: "lx_input st = pre @ (w @ c # ?v) @ ?r" using st Cons by (simp add: pos_def)
      have n: "slice (lx_input st) (str_len pre) (str_len pre + str_len (w @ c # ?v)) = Some (w @ c # ?v)"
        unfolding inp by (rule slice_append)
      have run: "parse_hex_number (str_len pre) st =
          Some (Inr (str_len pre, HexNumber (w @ c # ?v), str_len pre + str_len (w @ c # ?v)),
            st\<lparr>lx_chars := char_indices (str_len pre + 2 + 1 + str_len ?v) ?r\<rparr>)"
        using n True unfolding parse_hex_number_def chars list.case prod.case e by (simp add: w c)
      show ?thesis by (rule result_token [OF run, of _ ?r]) (use inp w c Cons in \<open>auto simp: pos_def spells_def\<close>)
    next
      case False
      then have run: "parse_hex_number (str_len pre) st =
          Some (Inl (MissingNumber (loc_at st (str_len pre) (str_len pre + 1))), st\<lparr>lx_chars := char_indices (str_len pre + 2 + utf8_len c) s\<rparr>)"
        by (simp add: parse_hex_number_def chars)
      show ?thesis by (rule result_error [OF run, of _ "w @ [c]" s]) (use st w Cons in \<open>auto simp: pos_def add.assoc\<close>)
    qed
  qed
qed

lemma pos_tl: "pos st pre (c # rest) \<Longrightarrow> pos (st\<lparr>lx_chars := tl (lx_chars st)\<rparr>) (pre @ [c]) rest"
  by (simp add: pos_def)

lemma pos_peek: "pos st pre rest \<Longrightarrow> peek (lx_chars st) = Some c \<longleftrightarrow> (\<exists>s. rest = c # s)"
  by (cases rest) (auto simp: pos_def)

lemma result_ok_moved: "result_ok (st\<lparr>lx_chars := cs\<rparr>) pre s r = result_ok st pre s r"
  by (simp add: result_ok_def)

lemma parse_number_ok:
  assumes st: "pos st (pre @ [c]) rest" and c: "is_ascii_digit c"
  shows "result_ok st pre (c # rest) (parse_number (str_len pre) c st)"
proof (cases "c = chr CHR ''0'' \<and> peek (lx_chars st) = Some (chr CHR ''x'')")
  case True
  then obtain s where s: "rest = chr CHR ''x'' # s" using pos_peek [OF st] by blast
  let ?st = "st\<lparr>lx_chars := tl (lx_chars st)\<rparr>"
  have "pos ?st (pre @ str ''0x'') s" using pos_tl [OF st [unfolded s]] True by (simp add: str_def)
  from parse_hex_number_ok [OF this refl] show ?thesis using True by (simp add: parse_number_def result_ok_moved s str_def)
next
  case False
  moreover have "c \<noteq> chr CHR ''.''" using c by (auto simp: is_ascii_digit_def)
  ultimately show ?thesis using parse_decimal_ok [OF st, of False] digit_ascii(1) [of c] c by (auto simp: parse_number_def)
qed

lemma parse_dotted_ok:
  assumes st: "pos st (pre @ [chr CHR ''.'']) rest" and "\<not> lx_parse_semver st"
  shows "result_ok st pre (chr CHR ''.'' # rest) (parse_number (str_len pre + 1) (chr CHR ''.'') st)"
  using parse_decimal_ok [OF st, of True] assms(2) by (simp add: parse_number_def)

section \<open>Strings and words\<close>

lemma pos_len: "pos st pre rest \<Longrightarrow> input_len st = str_len pre + str_len rest"
  by (simp add: pos_def)

lemma lex_string_ok:
  assumes st: "pos st (pre @ w @ [q]) rest" and q: "q \<in> quote_chars" and w: "w = (if unicode then str ''unicode'' else [])"
  shows "result_ok st pre (w @ q # rest) (lex_string unicode (str_len pre) (str_len (pre @ w @ [q])) q st)"
proof (cases "string_loop q False (lx_chars st)")
  case None
  then have run: "lex_string unicode (str_len pre) (str_len (pre @ w @ [q])) q st =
      Some (Inl (EndOfFileInString (loc_at st (str_len pre) (input_len st))), st\<lparr>lx_chars := []\<rparr>)"
    by (simp add: lex_string_def)
  show ?thesis by (rule result_error [OF run, of _ "w @ q # rest" "[]"]) (use st in \<open>auto simp: pos_def\<close>)
next
  case (Some a)
  obtain e cs where a: "a = (e, cs)" by (cases a)
  have "string_loop q False (char_indices (str_len (pre @ w @ [q])) rest) = Some (e, cs)" using Some a st by (simp add: pos_def)
  then obtain s r where s: "rest = s @ q # r" "string_body q False s" "e = str_len (pre @ w @ [q]) + str_len s"
    "cs = char_indices (str_len (pre @ w @ [q]) + str_len (s @ [q])) r" by (rule string_loop_Some)
  have q1: "utf8_len q = 1" using q by (auto simp: quote_chars_def)
  have sl: "slice (lx_input st) (str_len (pre @ w @ [q])) e = Some s"
    using st s(1,3) by (intro sliceI [of _ "pre @ w @ [q]" s "q # r"]) (simp_all add: pos_def)
  have len: "e + 1 = str_len pre + str_len (w @ q # s @ [q])" using s(3) q1 by simp
  have run: "lex_string unicode (str_len pre) (str_len (pre @ w @ [q])) q st =
      Some (Inr (str_len pre, StringLiteral unicode s, str_len pre + str_len (w @ q # s @ [q])), st\<lparr>lx_chars := cs\<rparr>)"
    using Some a sl len by (simp add: lex_string_def)
  have "spells (StringLiteral unicode s) (w @ q # s @ [q])" using s(2) q by (auto simp: spells_def w)
  then show ?thesis by (intro result_token [OF run, of _ r]) (use st s in \<open>auto simp: pos_def add.assoc\<close>)
qed

end
