(* ===== verification/LexerLossless.thy ===== *)
theory LexerLossless
  imports LexerSound
begin

text \<open>
  Every round of the lexer takes a piece of the input that it accounts for; from this the theorems
  on the whole token sequence follow.
\<close>

section \<open>Rounds\<close>

lemma round_ok_moved [simp]: "round_ok (st\<lparr>lx_chars := cs\<rparr>) pre s r = round_ok st pre s r"
proof -
  have "good (st\<lparr>lx_chars := cs\<rparr>) st' pre seg out = good st st' pre seg out"
    "bad (st\<lparr>lx_chars := cs\<rparr>) st' pre seg out = bad st st' pre seg out" for st' seg out
    by (cases out; simp add: good_def bad_def)+
  then show ?thesis by (simp add: round_ok_def)
qed

lemma match_identifier_ok:
  assumes "pos st (pre @ w) rest"
  obtains v r where "rest = v @ r"
    "match_identifier U (str_len pre) st = Some ((w @ v, str_len pre + str_len (w @ v)),
       st\<lparr>lx_chars := char_indices (str_len (pre @ w @ v)) r\<rparr>)"
    "pos (st\<lparr>lx_chars := char_indices (str_len (pre @ w @ v)) r\<rparr>) (pre @ w @ v) r"
proof -
  let ?P = "\<lambda>c. is_xid_continue U c \<or> c = chr CHR ''$''"
  let ?v = "takeWhile ?P rest" and ?r = "dropWhile ?P rest"
  have e: "match_end ?P (input_len st) (lx_chars st) = (str_len pre + str_len (w @ ?v), char_indices (str_len (pre @ w @ ?v)) ?r)"
    using match_end_spec [of "input_len st" "str_len (pre @ w)" rest ?P] assms pos_len [OF assms] by (simp add: pos_def add.assoc)
  have inp: "lx_input st = pre @ (w @ ?v) @ ?r" using assms by (simp add: pos_def)
  have "slice (lx_input st) (str_len pre) (str_len pre + str_len (w @ ?v)) = Some (w @ ?v)"
    unfolding inp by (rule slice_append)
  then have "match_identifier U (str_len pre) st = Some ((w @ ?v, str_len pre + str_len (w @ ?v)),
       st\<lparr>lx_chars := char_indices (str_len (pre @ w @ ?v)) ?r\<rparr>)"
    unfolding match_identifier_def e by simp
  then show ?thesis using that [of ?v ?r] inp by (simp add: pos_def)
qed

lemma spells_word: "spells (word_token w) w"
  using find_keyword_Some [of w] find_keyword_word_like [of w]
  by (auto simp: word_token_def spells_def word_like_def split: option.splits Token.splits)

lemma lex_hex_ok:
  assumes st: "pos st (pre @ w @ [q]) rest" and q: "utf8_len q = 1"
  shows "round_ok st pre (w @ q # rest) (lex_hex (str_len pre) q st)"
proof -
  have chars: "lx_chars st = char_indices (str_len (pre @ w @ [q])) rest" using st by (simp add: pos_def)
  show ?thesis
  proof (cases "hex_loop q (lx_chars st)")
    case (HexEnd i cs)
    obtain v r where v: "rest = v @ q # r" "i = str_len (pre @ w @ [q]) + str_len v"
      "cs = char_indices (str_len (pre @ w @ [q]) + str_len (v @ [q])) r"
      using HexEnd unfolding chars by (elim hex_loop_HexEnd) blast
    have "slice (lx_input st) (str_len pre) (i + 1) = Some (w @ q # v @ [q])"
      using st v(1,2) q by (intro sliceI [of _ pre "w @ q # v @ [q]" r]) (simp_all add: pos_def)
    moreover have "i + 1 = str_len pre + str_len (w @ q # v @ [q])" using v(2) q by simp
    ultimately have run: "lex_hex (str_len pre) q st =
        Some (Return (Some (str_len pre, HexLiteral (w @ q # v @ [q]), str_len pre + str_len (w @ q # v @ [q]))), st\<lparr>lx_chars := cs\<rparr>)"
      using HexEnd by (simp add: lex_hex_def)
    show ?thesis by (rule round_token [OF run, of _ r]) (use st v in \<open>auto simp: pos_def add.assoc spells_def\<close>)
  next
    case (HexBad i c cs)
    obtain v r where v: "rest = v @ r" "cs = char_indices (str_len (pre @ w @ [q]) + str_len v) r"
      using hex_loop_HexBad [OF HexBad [unfolded chars]] by blast
    have run: "lex_hex (str_len pre) q st =
        Some (Again, push_error (InvalidCharacterInHexLiteral (loc_at st i (i + 1)) c) (st\<lparr>lx_chars := cs\<rparr>))"
      using HexBad by (simp add: lex_hex_def)
    show ?thesis by (rule round_error [OF run, of _ "w @ q # v" r]) (use st v in \<open>auto simp: pos_def add.assoc\<close>)
  next
    case HexEof
    then have run: "lex_hex (str_len pre) q st =
        Some (Return None, push_error (EndOfFileInString (loc_at st (str_len pre) (input_len st))) (st\<lparr>lx_chars := []\<rparr>))"
      by (simp add: lex_hex_def)
    show ?thesis by (rule round_error [OF run, of _ "w @ q # rest" "[]"]) (use st in \<open>auto simp: pos_def\<close>)
  qed
qed

lemma lex_address_ok:
  assumes st: "pos st (pre @ w @ [q]) rest" and q: "utf8_len q = 1"
  shows "round_ok st pre (w @ q # rest) (lex_address (str_len pre) q st)"
proof (cases "until (\<lambda>c. c = q) (lx_chars st)")
  case None
  then have run: "lex_address (str_len pre) q st =
      Some (Return None, push_error (EndOfFileInString (loc_at st (str_len pre) (input_len st))) (st\<lparr>lx_chars := []\<rparr>))"
    by (simp add: lex_address_def)
  show ?thesis by (rule round_error [OF run, of _ "w @ q # rest" "[]"]) (use st in \<open>auto simp: pos_def\<close>)
next
  case (Some a)
  obtain i cs where a: "a = (i, cs)" by (cases a)
  have "until (\<lambda>c. c = q) (char_indices (str_len (pre @ w @ [q])) rest) = Some (i, cs)" using Some a st by (simp add: pos_def)
  then obtain v r where v: "rest = v @ q # r" "i = str_len (pre @ w @ [q]) + str_len v"
    "cs = char_indices (str_len (pre @ w @ [q]) + str_len (v @ [q])) r"
    by (elim until_Some) blast
  have "slice (lx_input st) (str_len pre) (i + 1) = Some (w @ q # v @ [q])"
    using st v(1,2) q by (intro sliceI [of _ pre "w @ q # v @ [q]" r]) (simp_all add: pos_def)
  moreover have "i + 1 = str_len pre + str_len (w @ q # v @ [q])" using v(2) q by simp
  ultimately have run: "lex_address (str_len pre) q st =
      Some (Return (Some (str_len pre, AddressLiteral (w @ q # v @ [q]), str_len pre + str_len (w @ q # v @ [q]))), st\<lparr>lx_chars := cs\<rparr>)"
    using Some a by (simp add: lex_address_def)
  show ?thesis by (rule round_token [OF run, of _ r]) (use st v in \<open>auto simp: pos_def add.assoc spells_def\<close>)
qed

text \<open>A token or an error that a part of the round yields.\<close>

lemma round_of_result:
  assumes "result_ok st pre s r"
    and "\<And>e. f (Inl e) = (outs e, True)" "\<And>tok. f (Inr tok) = (Return (Some tok), False)" "\<And>e. outs e = Again \<or> outs e = Return None"
    and "\<And>x st'. r = Some (x, st') \<Longrightarrow> r' = Some (fst (f x), case x of Inl e \<Rightarrow> push_error e st' | Inr _ \<Rightarrow> st')"
  shows "round_ok st pre s r'"
proof -
  obtain x st' seg rest where r: "r = Some (x, st')" "s = seg @ rest" "seg \<noteq> []" "pos st' (pre @ seg) rest" "same st st'"
    "case x of Inl _ \<Rightarrow> True | Inr tok \<Rightarrow> token_at pre seg tok"
    using assms(1) unfolding result_ok_def by blast
  show ?thesis
  proof (cases x)
    case (Inl e)
    have run: "r' = Some (outs e, push_error e st')" using assms(2,5) r(1) Inl by simp
    show ?thesis by (rule round_error [OF run r(2-5)]) (use assms(4) [of e] in blast)
  next
    case (Inr tok)
    then obtain t where t: "spells t seg" "tok = (str_len pre, t, str_len pre + str_len seg)" using r(6) by (auto simp: token_at_def)
    have run: "r' = Some (Return (Some (str_len pre, t, str_len pre + str_len seg)), st')" using assms(3,5) r(1) Inr t(2) by simp
    show ?thesis by (rule round_token [OF run r(2-5) t(1)])
  qed
qed

lemma quote_next_Some: "pos st pre rest \<Longrightarrow> quote_next (lx_chars st) = Some q \<Longrightarrow> q \<in> quote_chars \<and> (\<exists>s. rest = q # s)"
  by (cases rest) (auto simp: quote_next_def quote_chars_def pos_def split: if_splits)

lemma quote_chars_len: "q \<in> quote_chars \<Longrightarrow> utf8_len q = 1"
  by (auto simp: quote_chars_def)

lemma lex_word_ok:
  assumes st: "pos st (pre @ [c]) rest"
  shows "round_ok st pre (c # rest) (lex_word U (str_len pre) st)"
proof -
  obtain v r where v: "rest = v @ r"
    "match_identifier U (str_len pre) st = Some (([c] @ v, str_len pre + str_len ([c] @ v)), st\<lparr>lx_chars := char_indices (str_len (pre @ [c] @ v)) r\<rparr>)"
    "pos (st\<lparr>lx_chars := char_indices (str_len (pre @ [c] @ v)) r\<rparr>) (pre @ [c] @ v) r"
    using st by (rule match_identifier_ok)
  define w where "w = c # v"
  define st1 where "st1 = st\<lparr>lx_chars := char_indices (str_len (pre @ w)) r\<rparr>"
  have m: "match_identifier U (str_len pre) st = Some ((w, str_len pre + str_len w), st1)" using v(2) by (simp add: w_def st1_def)
  have p: "pos st1 (pre @ w) r" using v(3) by (simp add: w_def st1_def)
  have w: "c # rest = w @ r" "w \<noteq> []" using v(1) by (simp_all add: w_def)
  have ok1: "round_ok st pre s x = round_ok st1 pre s x" for s x by (simp add: st1_def)
  have plain: "round_ok st1 pre (w @ r) (Some (Return (Some (str_len pre, word_token w, str_len pre + str_len w)), st1))"
    by (rule round_token [OF refl refl w(2) p]) (simp_all add: same_def spells_word)
  show ?thesis
  proof (cases "quote_next (lx_chars st1)")
    case None
    then show ?thesis using plain by (simp add: lex_word_def m w(1) ok1)
  next
    case (Some q)
    then obtain s where q: "q \<in> quote_chars" "r = q # s" using quote_next_Some [OF p] by blast
    let ?q = "st1\<lparr>lx_chars := tl (lx_chars st1)\<rparr>"
    have pq: "pos ?q (pre @ w @ [q]) s" using pos_tl [OF p [unfolded q(2)]] by simp
    note run = lex_word_def m Some
    consider "w = str ''unicode''" | "w = str ''hex''" | "w = str ''address''"
      | "w \<noteq> str ''unicode''" "w \<noteq> str ''hex''" "w \<noteq> str ''address''" by blast
    then show ?thesis
    proof cases
      case 1
      have len: "str_len (pre @ w @ [q]) = str_len pre + 8" using 1 quote_chars_len [OF q(1)] by (simp add: str_def)
      have "result_ok ?q pre (w @ q # s) (lex_string True (str_len pre) (str_len pre + 8) q ?q)"
        using lex_string_ok [OF pq q(1), of True] 1 len by simp
      then obtain x st' seg rest' where x: "lex_string True (str_len pre) (str_len pre + 8) q ?q = Some (x, st')"
        "w @ q # s = seg @ rest'" "seg \<noteq> []" "pos st' (pre @ seg) rest'" "same ?q st'"
        "case x of Inl _ \<Rightarrow> True | Inr tok \<Rightarrow> token_at pre seg tok"
        unfolding result_ok_def by blast
      have sm: "same st1 st'" using x(5) by simp
      show ?thesis
      proof (cases x)
        case (Inr tok)
        then obtain t where t: "spells t seg" "tok = (str_len pre, t, str_len pre + str_len seg)" using x(6) by (auto simp: token_at_def)
        show ?thesis unfolding ok1 w(1) q(2)
          by (rule round_token [OF _ x(2-4) sm t(1)]) (use 1 x(1) Inr t(2) in \<open>simp add: run\<close>)
      next
        case (Inl e)
        have eof: "seg = w @ q # s"
        proof -
          have "lx_chars st' = []" using x(1) Inl by (auto simp: lex_string_def split: option.splits bind_splits)
          then have "rest' = []" using x(4) by (cases rest') (simp_all add: pos_def)
          then show ?thesis using x(2) by simp
        qed
        show ?thesis unfolding ok1 w(1) q(2)
          by (rule round_error [OF _ x(2-4) sm]) (use 1 x(1) Inl eof w(2) spells_word [of w] in \<open>auto simp: run\<close>)
      qed
    next
      case 2
      then show ?thesis using lex_hex_ok [OF pq quote_chars_len [OF q(1)]] by (simp add: run ok1 w(1) q(2))
    next
      case 3
      then show ?thesis using lex_address_ok [OF pq quote_chars_len [OF q(1)]] by (simp add: run ok1 w(1) q(2))
    next
      case 4
      then show ?thesis using plain by (simp add: run ok1 w(1))
    qed
  qed
qed

lemma lex_quoted_ok:
  assumes st: "pos st (pre @ [q]) rest" and q: "q \<in> quote_chars"
  shows "round_ok st pre (q # rest) (lex_quoted (str_len pre) q st)"
proof -
  have r: "result_ok st pre (q # rest) (lex_string False (str_len pre) (str_len pre + 1) q st)"
    using lex_string_ok [of st pre "[]" q rest False] st q quote_chars_len [OF q] by simp
  show ?thesis
    by (rule round_of_result [OF r, of "\<lambda>x. case x of Inl e \<Rightarrow> (Again, True) | Inr t \<Rightarrow> (Return (Some t), False)" "\<lambda>_. Again"])
      (auto simp: lex_quoted_def split: sum.splits)
qed

lemma lex_number_ok:
  assumes st: "pos st (pre @ [c]) rest" and c: "is_ascii_digit c"
  shows "round_ok st pre (c # rest) (lex_number (str_len pre) c st)"
  by (rule round_of_result [OF parse_number_ok [OF st c],
        of "\<lambda>x. case x of Inl e \<Rightarrow> (case e of EndofFileInHex _ \<Rightarrow> Return None | _ \<Rightarrow> Again, True) | Inr t \<Rightarrow> (Return (Some t), False)"
          "\<lambda>e. case e of EndofFileInHex _ \<Rightarrow> Return None | _ \<Rightarrow> Again"])
    (auto simp: lex_number_def split: sum.splits LexicalError.splits)

lemma lex_dot_ok:
  assumes st: "pos st (pre @ [chr CHR ''.'']) rest"
  shows "round_ok st pre (chr CHR ''.'' # rest) (lex_dot (str_len pre) st)"
proof (cases "\<exists>a s. rest = a # s \<and> is_ascii_digit a \<and> \<not> lx_parse_semver st")
  case True
  then have run: "lex_dot (str_len pre) st = do {
      (r, st) \<leftarrow> parse_number (str_len pre + 1) (chr CHR ''.'') st;
      (case r of Inl err \<Rightarrow> Some (Return None, push_error err st) | Inr token \<Rightarrow> Some (Return (Some token), st)) }"
    using st by (auto simp: lex_dot_def pos_def)
  have r: "result_ok st pre (chr CHR ''.'' # rest) (parse_number (str_len pre + 1) (chr CHR ''.'') st)"
    using parse_dotted_ok [OF st] True by blast
  show ?thesis unfolding run
    by (rule round_of_result [OF r, of "\<lambda>x. case x of Inl e \<Rightarrow> (Return None, True) | Inr t \<Rightarrow> (Return (Some t), False)" "\<lambda>_. Return None"])
      (auto split: sum.splits)
next
  case False
  then have run: "lex_dot (str_len pre) st = Some (Return (Some (str_len pre, Symbol Member, str_len pre + str_len [chr CHR ''.''])), st)"
    using st by (cases rest) (auto simp: lex_dot_def pos_def Let_def)
  show ?thesis by (rule round_token [OF run _ _ st]) (auto simp: same_def spells_def str_def)
qed

lemma length_char_indices [simp]: "length (char_indices n s) = length s"
  by (induction s arbitrary: n) auto

text \<open>The character before the end of a block comment is a star.\<close>

lemma block_loop_star:
  assumes "block_loop b l (char_indices n s) = Some (i, cs)" "s = w @ chr CHR ''/'' # r" "cs = char_indices (n + str_len w + 1) r"
    "w \<noteq> []"
  shows "last w = chr CHR ''*''"
  using assms
proof (induction s arbitrary: n b l w)
  case (Cons c s)
  then obtain w' where w: "w = c # w'" "s = w' @ chr CHR ''/'' # r" by (cases w) auto
  show ?case
  proof (cases "b \<and> c = chr CHR ''/''")
    case True
    then have "char_indices (n + utf8_len c) s = char_indices (n + str_len w + 1) r" using Cons.prems(1,3) by simp
    then have "length (char_indices (n + utf8_len c) s) = length (char_indices (n + str_len w + 1) r)" by (rule arg_cong)
    then have "length s = length r" by simp
    then show ?thesis using w(2) by simp
  next
    case False
    then have loop: "block_loop (c = chr CHR ''*'') n (char_indices (n + utf8_len c) s) = Some (i, cs)" using Cons.prems(1) by auto
    show ?thesis
    proof (cases "w' = []")
      case True
      show ?thesis
      proof (rule ccontr)
        assume "last w \<noteq> chr CHR ''*''"
        then have "block_loop (chr CHR ''/'' = chr CHR ''*'') (n + utf8_len c) (char_indices (n + utf8_len c + 1) r) = Some (i, cs)"
          using loop True w by simp
        from block_loop_length [OF this] show False using Cons.prems(3) by (simp add: length_char_indices)
      qed
    next
      case ne: False
      from Cons.IH [OF loop w(2) _ ne] show ?thesis using Cons.prems(3) w(1) ne by (simp add: add.assoc)
    qed
  qed
qed simp

lemma lex_line_comment_ok:
  assumes st: "pos st (pre @ w) rest" and w: "w = str ''//''"
  shows "round_ok st pre (w @ rest) (lex_line_comment (str_len pre) st)"
proof -
  let ?P = "\<lambda>c. c = newline \<or> c = carriage_return"
  have w2: "str_len w = 2" "w \<noteq> []" by (simp_all add: w str_def)
  have inp: "lx_input st = pre @ w @ rest" and chars: "lx_chars st = char_indices (str_len pre + 2) rest"
    using st w2 by (simp_all add: pos_def)
  let ?doc = "peek (lx_chars st) = Some (chr CHR ''/'') \<and> peek (tl (lx_chars st)) \<noteq> Some (chr CHR ''/'')"
  have finish: "round_ok st pre (w @ rest) (lex_line_comment (str_len pre) st)"
    if "rest = v @ nl @ r" "nl \<in> {[], [newline], [carriage_return]}"
      "lex_line_comment (str_len pre) st = (let stop = str_len pre + str_len (w @ v); loc = loc_at st (str_len pre) stop in do {
        s \<leftarrow> slice (lx_input st) (str_len pre) stop;
        Some (Again, push_comment (if ?doc then DocLine loc s else Line loc s)
          (st\<lparr>lx_chars := char_indices (str_len (pre @ w @ v @ nl)) r\<rparr>)) })" "rest = [] \<or> v \<noteq> []" for v nl r
  proof -
    have s: "slice (lx_input st) (str_len pre) (str_len pre + str_len (w @ v)) = Some (w @ v)"
      unfolding inp that(1) using slice_append [of pre "w @ v" "nl @ r"] by simp
    let ?c = "if ?doc then DocLine (loc_at st (str_len pre) (str_len pre + str_len (w @ v))) (w @ v)
      else Line (loc_at st (str_len pre) (str_len pre + str_len (w @ v))) (w @ v)"
    have run: "lex_line_comment (str_len pre) st = Some (Again, push_comment ?c (st\<lparr>lx_chars := char_indices (str_len (pre @ w @ v @ nl)) r\<rparr>))"
      unfolding that(3) Let_def s by simp
    have "\<exists>v'. w @ v = str ''///'' @ v' \<and> (v' = [] \<or> hd v' \<noteq> chr CHR ''/'')" if doc: ?doc
    proof -
      obtain c s where r: "rest = c # s" "c = chr CHR ''/''" using doc chars by (cases rest) auto
      then obtain v' where v': "v = c # v'" using \<open>rest = v @ nl @ r\<close> \<open>rest = [] \<or> v \<noteq> []\<close> by (cases v) auto
      then have "v' = [] \<or> hd v' \<noteq> chr CHR ''/''"
        using doc chars r \<open>rest = v @ nl @ r\<close> by (cases v') auto
      then show ?thesis using v' r(2) by (auto simp: w str_def)
    qed
    then have "comment_of (lx_file_no st) (str_len pre) (w @ v) ?c" unfolding comment_of_def Let_def by (auto simp: w)
    then show ?thesis
      by (intro round_comment [OF run, of _ "w @ v" nl r]) (use that(1,2) w2 inp in \<open>auto simp: pos_def\<close>)
  qed
  show ?thesis
  proof (cases rest)
    case Nil
    then show ?thesis using inp chars w2
      by (intro finish [of "[]" "[]" "[]"]) (auto simp: lex_line_comment_def Let_def)
  next
    case (Cons c s)
    have chars': "lx_chars st = (str_len pre + 2, c) # char_indices (str_len pre + 2 + utf8_len c) s" using chars Cons by simp
    consider (nl) "?P c" | (eof) "\<not> ?P c" "until ?P (char_indices (str_len pre + 2 + utf8_len c) s) = None"
      | (line) i cs where "\<not> ?P c" "until ?P (char_indices (str_len pre + 2 + utf8_len c) s) = Some (i, cs)"
      by (cases "until ?P (char_indices (str_len pre + 2 + utf8_len c) s)") auto
    then show ?thesis
    proof cases
      case nl
      then have "utf8_len c = 1" by auto
      then show ?thesis using nl Cons w2
        by (intro finish [of "[c]" "[]" s]) (auto simp: lex_line_comment_def Let_def chars' numeral_3_eq_3)
    next
      case eof
      then show ?thesis using Cons inp w2
        by (intro finish [of rest "[]" "[]"]) (auto simp: lex_line_comment_def Let_def chars')
    next
      case line
      then obtain v d r where v: "s = v @ d # r" "?P d" "i = str_len pre + 2 + utf8_len c + str_len v"
        "cs = char_indices (str_len pre + 2 + utf8_len c + str_len (v @ [d])) r"
        by (elim until_Some) blast
      then show ?thesis using line Cons w2
        by (intro finish [of "c # v" "[d]" r]) (auto simp: lex_line_comment_def Let_def chars' add.assoc)
    qed
  qed
qed

lemma lex_block_comment_ok:
  assumes st: "pos st (pre @ w) rest" and w: "w = str ''/*''"
  shows "round_ok st pre (w @ rest) (lex_block_comment (str_len pre) st)"
proof -
  have w2: "str_len w = 2" "w \<noteq> []" by (simp_all add: w str_def)
  have inp: "lx_input st = pre @ w @ rest" and chars: "lx_chars st = char_indices (str_len pre + 2) rest"
    using st w2 by (simp_all add: pos_def)
  show ?thesis
  proof (cases "block_loop False (str_len pre + 3) (lx_chars st)")
    case None
    then have run: "lex_block_comment (str_len pre) st =
        Some (Return None, push_error (EndOfFileInComment (loc_at st (str_len pre) (input_len st))) (st\<lparr>lx_chars := []\<rparr>))"
      by (simp add: lex_block_comment_def)
    show ?thesis by (rule round_error [OF run, of _ "w @ rest" "[]"]) (use inp w2 in \<open>auto simp: pos_def\<close>)
  next
    case (Some a)
    obtain i cs where a: "a = (i, cs)" by (cases a)
    obtain v r where v: "rest = v @ chr CHR ''/'' # r" "cs = char_indices (str_len pre + 2 + str_len v + 1) r"
      "v \<noteq> []" "i + 1 = str_len pre + 2 + str_len v"
      using block_loop_Some [of False "str_len pre + 3" "str_len pre + 2" rest i cs] Some a chars by auto
    have star: "last v = chr CHR ''*''"
      using block_loop_star [of False "str_len pre + 3" "str_len pre + 2" rest i cs v r] Some a chars v by simp
    let ?u = "w @ v @ [chr CHR ''/'']"
    have len: "i + 2 = str_len pre + str_len ?u" using v(4) w2 by simp
    have "slice (lx_input st) (str_len pre) (i + 2) = Some ?u"
      unfolding len inp v(1) using slice_append [of pre ?u r] by simp
    let ?doc = "peek (lx_chars st) = Some (chr CHR ''*'') \<and> i > str_len pre + 2"
    let ?loc = "loc_at st (str_len pre) (str_len pre + str_len ?u)"
    let ?c = "if ?doc then DocBlock ?loc ?u else Block ?loc ?u"
    have c: "lex_block_comment (str_len pre) st = Some (Again, push_comment ?c (st\<lparr>lx_chars := cs\<rparr>))"
      using \<open>slice (lx_input st) (str_len pre) (i + 2) = Some ?u\<close> Some a len by (simp add: lex_block_comment_def Let_def)
    have "\<exists>x. ?u = str ''/*'' @ x @ str ''*/''"
      using star v(3) append_butlast_last_id [of v] by (intro exI [of _ "butlast v"]) (simp add: w str_def)
    moreover have "\<exists>x. ?u = str ''/**'' @ x @ str ''*/''" if doc: ?doc
    proof -
      obtain v' where v': "v = chr CHR ''*'' # v'" using doc chars v(1,3) by (cases v) auto
      then have "v' \<noteq> []" using doc v(4) by auto
      then show ?thesis using star v' append_butlast_last_id [of v'] by (intro exI [of _ "butlast v'"]) (simp add: w str_def)
    qed
    ultimately have "comment_of (lx_file_no st) (str_len pre) ?u ?c" unfolding comment_of_def Let_def by auto
    then show ?thesis
      by (intro round_comment [OF c, of _ ?u "[]" r]) (use v inp w2 in \<open>auto simp: pos_def add.assoc\<close>)
  qed
qed

lemma lex_slash_ok:
  assumes st: "pos st (pre @ [chr CHR ''/'']) rest"
  shows "round_ok st pre (chr CHR ''/'' # rest) (lex_slash (str_len pre) st)"
proof -
  let ?st = "st\<lparr>lx_chars := tl (lx_chars st)\<rparr>"
  have p: "pos ?st (pre @ [chr CHR ''/'', c]) s" if "rest = c # s" for c s
    using pos_tl [OF st [unfolded that]] by simp
  consider (assign) s where "rest = chr CHR ''='' # s" | (line) s where "rest = chr CHR ''/'' # s"
    | (block) s where "rest = chr CHR ''*'' # s"
    | (divide) "\<forall>c s. rest = c # s \<longrightarrow> c \<notin> {chr CHR ''='', chr CHR ''/'', chr CHR ''*''}"
    by (cases rest) auto
  then show ?thesis
  proof cases
    case assign
    then have run: "lex_slash (str_len pre) st =
        Some (Return (Some (str_len pre, Symbol DivideAssign, str_len pre + str_len (str ''/=''))), ?st)"
      using st by (simp add: lex_slash_def pos_def str_def)
    show ?thesis by (rule round_token [OF run, of _ s]) (use p assign in \<open>auto simp: str_def spells_def same_def\<close>)
  next
    case line
    then have "lex_slash (str_len pre) st = lex_line_comment (str_len pre) ?st" using st by (simp add: lex_slash_def pos_def)
    moreover have "round_ok ?st pre (str ''//'' @ s) (lex_line_comment (str_len pre) ?st)"
      by (rule lex_line_comment_ok) (use p [OF line] in \<open>simp_all add: str_def\<close>)
    ultimately show ?thesis by (simp add: line str_def)
  next
    case block
    then have "lex_slash (str_len pre) st = lex_block_comment (str_len pre) ?st" using st by (simp add: lex_slash_def pos_def)
    moreover have "round_ok ?st pre (str ''/*'' @ s) (lex_block_comment (str_len pre) ?st)"
      by (rule lex_block_comment_ok) (use p [OF block] in \<open>simp_all add: str_def\<close>)
    ultimately show ?thesis by (simp add: block str_def)
  next
    case divide
    then have run: "lex_slash (str_len pre) st =
        Some (Return (Some (str_len pre, Symbol Divide, str_len pre + str_len (str ''/''))), st)"
      using st by (cases rest) (auto simp: lex_slash_def pos_def str_def)
    show ?thesis by (rule round_token [OF run, of _ rest]) (use st in \<open>auto simp: str_def spells_def same_def\<close>)
  qed
qed

lemma lex_annotation_ok:
  assumes st: "pos st (pre @ [chr CHR ''@'']) rest"
  shows "round_ok st pre (chr CHR ''@'' # rest) (lex_annotation U (str_len pre) st)"
proof -
  let ?a = "chr CHR ''@''"
  obtain v r where v: "rest = v @ r"
    "match_identifier U (str_len pre) st = Some (([?a] @ v, str_len pre + str_len ([?a] @ v)), st\<lparr>lx_chars := char_indices (str_len (pre @ [?a] @ v)) r\<rparr>)"
    "pos (st\<lparr>lx_chars := char_indices (str_len (pre @ [?a] @ v)) r\<rparr>) (pre @ [?a] @ v) r"
    using st by (rule match_identifier_ok)
  let ?st = "st\<lparr>lx_chars := char_indices (str_len (pre @ [?a] @ v)) r\<rparr>"
  show ?thesis
  proof (cases "v = []")
    case True
    then have run: "lex_annotation U (str_len pre) st =
        Some (Again, push_error (UnrecognisedToken (loc_at st (str_len pre) (str_len pre + 1)) [?a]) ?st)"
      unfolding lex_annotation_def v(2) by simp
    show ?thesis by (rule round_error [OF run, of _ "[?a]" rest]) (use True v in auto)
  next
    case False
    then have "str_len ([?a] @ v) \<noteq> 1" by simp
    moreover have "slice ([?a] @ v) 1 (str_len ([?a] @ v)) = Some v" by (rule sliceI [of _ "[?a]" v "[]"]) simp_all
    ultimately have run: "lex_annotation U (str_len pre) st =
        Some (Return (Some (str_len pre, Annotation v, str_len pre + str_len ([?a] @ v))), ?st)"
      unfolding lex_annotation_def v(2) by simp
    show ?thesis by (rule round_token [OF run, of _ r]) (use v in \<open>auto simp: spells_def str_def\<close>)
  qed
qed

lemma symbol_token_text:
  assumes "symbol_token ch second third = Some (s, n)"
  shows "n = length (symbol_string s) \<and>
    (str (symbol_string s) = [ch] \<or> (\<exists>c. second = Some c \<and> str (symbol_string s) = [ch, c]) \<or>
     (\<exists>c d. second = Some c \<and> third = Some d \<and> str (symbol_string s) = [ch, c, d]))"
  using assms by (auto simp: symbol_token_def str_def split: if_splits)

lemma symbol_ascii: "list_all (\<lambda>c. c < 128) (str (symbol_string s))"
  by (cases s) (simp_all add: str_def)

lemma peek_nth1_char_indices:
  "map_option snd (peek_nth1 (char_indices n s)) = (case s of _ # d # _ \<Rightarrow> Some d | _ \<Rightarrow> None)"
  by (auto simp: peek_nth1_def split: list.splits)

lemma lex_symbol_ok:
  assumes st: "pos st (pre @ [ch]) rest" and sym: "symbol_token ch (peek (lx_chars st)) (map_option snd (peek_nth1 (lx_chars st))) = Some (s, n)"
  shows "round_ok st pre (ch # rest) (Some (Return (Some (str_len pre, Symbol s, str_len pre + n)), st\<lparr>lx_chars := drop (n - 1) (lx_chars st)\<rparr>))"
proof -
  let ?u = "str (symbol_string s)"
  have n: "n = length ?u" using symbol_token_text [OF sym] by (simp add: str_def)
  have "symbol_token ch (case rest of [] \<Rightarrow> None | c # _ \<Rightarrow> Some c) (case rest of _ # d # _ \<Rightarrow> Some d | _ \<Rightarrow> None) = Some (s, n)"
    using sym st by (simp add: pos_def peek_nth1_char_indices)
  from symbol_token_text [OF this] have "\<exists>v r. rest = v @ r \<and> ?u = ch # v"
    by (auto simp: Cons_eq_append_conv split: list.splits)
  then obtain v r where v: "rest = v @ r" "?u = ch # v" by blast
  have len: "str_len ?u = n" "str_len v = length v" "utf8_len ch = 1"
    using symbol_ascii [of s] n v(2) str_len_ascii [of ?u] str_len_ascii [of v] by (auto simp: list_all_iff)
  have "drop (n - 1) (lx_chars st) = char_indices (str_len (pre @ ?u)) r"
    using st v n len by (simp add: pos_def char_indices_append)
  then show ?thesis
    by (intro round_token [of _ pre "Symbol s" ?u "st\<lparr>lx_chars := drop (n - 1) (lx_chars st)\<rparr>" _ r])
      (use st v len in \<open>auto simp: spells_def pos_def\<close>)
qed

lemma lex_unrecognised_ok:
  assumes st: "pos st (pre @ [c]) rest"
  shows "round_ok st pre (c # rest) (lex_unrecognised (str_len pre) st)"
proof (cases "until is_whitespace (lx_chars st)")
  case None
  have "slice (lx_input st) (str_len pre) (input_len st) = Some (c # rest)"
    using st by (intro sliceI [of _ pre "c # rest" "[]"]) (simp_all add: pos_def)
  then have run: "lex_unrecognised (str_len pre) st =
      Some (Again, push_error (UnrecognisedToken (loc_at st (str_len pre) (input_len st)) (c # rest)) (st\<lparr>lx_chars := []\<rparr>))"
    using None by (simp add: lex_unrecognised_def)
  show ?thesis by (rule round_error [OF run, of _ "c # rest" "[]"]) (use st in \<open>auto simp: pos_def\<close>)
next
  case (Some a)
  obtain i cs where a: "a = (i, cs)" by (cases a)
  have "until is_whitespace (char_indices (str_len (pre @ [c])) rest) = Some (i, cs)" using Some a st by (simp add: pos_def)
  then obtain v d r where v: "rest = v @ d # r" "i = str_len (pre @ [c]) + str_len v" "cs = char_indices (str_len (pre @ [c]) + str_len (v @ [d])) r"
    by (elim until_Some) blast
  have "slice (lx_input st) (str_len pre) i = Some (c # v)"
    using st v by (intro sliceI [of _ pre "c # v" "d # r"]) (simp_all add: pos_def)
  then have run: "lex_unrecognised (str_len pre) st =
      Some (Again, push_error (UnrecognisedToken (loc_at st (str_len pre) i) (c # v)) (st\<lparr>lx_chars := cs\<rparr>))"
    using Some a by (simp add: lex_unrecognised_def)
  show ?thesis by (rule round_error [OF run, of _ "c # v @ [d]" r]) (use st v in \<open>auto simp: pos_def add.assoc\<close>)
qed

lemma round_ok_semver: "round_ok (st\<lparr>lx_parse_semver := b\<rparr>) pre s r = round_ok st pre s r"
proof -
  have "good (st\<lparr>lx_parse_semver := b\<rparr>) st' pre seg out = good st st' pre seg out"
    "bad (st\<lparr>lx_parse_semver := b\<rparr>) st' pre seg out = bad st st' pre seg out" for st' seg out
    by (cases out; simp add: good_def bad_def)+
  then show ?thesis by (simp add: round_ok_def)
qed

lemma lex_round_ok:
  assumes "pos st pre (ch # rest)"
  shows "round_ok st pre (ch # rest) (lex_round U st)"
proof -
  let ?st = "st\<lparr>lx_chars := char_indices (str_len pre + utf8_len ch) rest\<rparr>"
  have st: "pos ?st (pre @ [ch]) rest" using assms by (simp add: pos_def)
  have chars: "lx_chars st = (str_len pre, ch) # char_indices (str_len pre + utf8_len ch) rest" using assms by (simp add: pos_def)
  have "round_ok ?st pre (ch # rest) (lex_round U st)"
    unfolding lex_round_def chars list.case prod.case Let_def
  proof (split if_split, intro conjI impI, goal_cases)
    case 1
    then show ?case using lex_word_ok [OF st] by simp
  next
    case 2
    have semi: "round_ok ?st pre (chr CHR '';'' # rest)
        (Some (Return (Some (str_len pre, Symbol Semicolon, str_len pre + 1)), ?st\<lparr>lx_parse_semver := False\<rparr>))" if "ch = chr CHR '';''"
      by (rule round_token [of _ pre "Symbol Semicolon" "[chr CHR '';'']" "?st\<lparr>lx_parse_semver := False\<rparr>" _ rest])
        (use st that in \<open>auto simp: pos_def spells_def str_def same_def\<close>)
    have space: "round_ok ?st pre (ch # rest) (Some (Again, ?st))" if "is_whitespace ch"
    proof -
      have "good ?st ?st pre [ch] Again" using that by (simp add: good_def)
      then show ?thesis using st unfolding round_ok_def by (intro exI [of _ Again] exI [of _ ?st] exI [of _ "[ch]"] exI [of _ rest]) simp
    qed
    show ?case
      using lex_quoted_ok [OF st] lex_slash_ok [of ?st pre rest] lex_number_ok [OF st] lex_annotation_ok [of ?st pre rest U]
        lex_dot_ok [of ?st pre rest] st semi space lex_symbol_ok [OF st] lex_unrecognised_ok [OF st]
      by (auto simp: quote_chars_def split: option.splits)
  qed
  then show ?thesis by simp
qed

section \<open>The token sequence\<close>

text \<open>What one call of the iterator comes to.\<close>

definition placed :: "ustring \<Rightarrow> ustring \<Rightarrow> Spanned option \<Rightarrow> bool" where
  "placed pre seg tok = (case tok of None \<Rightarrow> True
     | Some tok \<Rightarrow> (\<exists>w u v. seg = w @ u @ v \<and> u \<noteq> [] \<and> token_at (pre @ w) u tok))"

definition explained :: "nat \<Rightarrow> ustring \<Rightarrow> ustring \<Rightarrow> ustring \<Rightarrow> Spanned option \<Rightarrow> Comment list \<Rightarrow> bool" where
  "explained f pre seg rest tok cs = (case tok of None \<Rightarrow> rest = [] \<and> lexed f pre seg [] cs
     | Some t \<Rightarrow> (\<forall>ts cs'. lexed f (pre @ seg) rest ts cs' \<longrightarrow> lexed f pre (seg @ rest) (t # ts) (cs @ cs')))"

definition call_ok :: "Lexer \<Rightarrow> ustring \<Rightarrow> ustring \<Rightarrow> (Spanned option \<times> Lexer) option \<Rightarrow> bool" where
  "call_ok st pre s r \<longleftrightarrow> (\<exists>tok st' seg rest es. r = Some (tok, st') \<and> s = seg @ rest \<and> pos st' (pre @ seg) rest \<and>
     lx_file_no st' = lx_file_no st \<and> lx_errors st' = lx_errors st @ es \<and> placed pre seg tok \<and>
     (es = [] \<longrightarrow> (\<exists>cs. lx_comments st' = lx_comments st @ cs \<and> explained (lx_file_no st) pre seg rest tok cs)))"

lemma placed_shift: "placed (pre @ seg1) seg2 tok \<Longrightarrow> placed pre (seg1 @ seg2) tok"
proof (cases tok)
  case (Some t)
  assume "placed (pre @ seg1) seg2 tok"
  then obtain w u v where "seg2 = w @ u @ v" "u \<noteq> []" "token_at (pre @ seg1 @ w) u t" by (auto simp: placed_def Some)
  then show ?thesis unfolding placed_def Some option.case by (intro exI [of _ "seg1 @ w"] exI [of _ u] exI [of _ v]) simp
qed (simp add: placed_def)

lemma lexed_good:
  assumes "good st st' pre seg Again" "lexed (lx_file_no st) (pre @ seg) rest ts cs"
  shows "\<exists>cs0. lx_comments st' = lx_comments st @ cs0 \<and> lexed (lx_file_no st) pre (seg @ rest) ts (cs0 @ cs)"
proof -
  consider (space) c where "seg = [c]" "is_whitespace c" "lx_comments st' = lx_comments st"
    | (comment) u nl c where "seg = u @ nl" "nl \<in> {[], [newline], [carriage_return]}" "comment_of (lx_file_no st) (str_len pre) u c"
      "lx_comments st' = lx_comments st @ [c]"
    using assms(1) unfolding good_def outcome.case by blast
  then show ?thesis
  proof cases
    case space
    then show ?thesis using lexed_space [of c "lx_file_no st" pre rest ts cs] assms(2) by (intro exI [of _ "[]"]) simp
  next
    case comment
    then show ?thesis using lexed_comment [OF comment(3,2), of rest ts cs] assms(2) by (intro exI [of _ "[c]"]) simp
  qed
qed

lemma call_ok_again:
  assumes "good st st1 pre seg1 Again \<or> bad st st1 pre seg1 Again" "s = seg1 @ rest1" "lx_file_no st1 = lx_file_no st"
    and "call_ok st1 (pre @ seg1) rest1 r"
  shows "call_ok st pre s r"
proof -
  obtain tok st' seg rest es where r: "r = Some (tok, st')" "rest1 = seg @ rest" "pos st' (pre @ seg1 @ seg) rest"
    "lx_file_no st' = lx_file_no st1" "lx_errors st' = lx_errors st1 @ es" "placed (pre @ seg1) seg tok"
    "es = [] \<longrightarrow> (\<exists>cs. lx_comments st' = lx_comments st1 @ cs \<and> explained (lx_file_no st1) (pre @ seg1) seg rest tok cs)"
    using assms(4) unfolding call_ok_def by auto
  obtain es1 where es1: "lx_errors st1 = lx_errors st @ es1" "es1 = [] \<longrightarrow> good st st1 pre seg1 Again"
    using assms(1)
  proof
    assume g: "good st st1 pre seg1 Again"
    then have "lx_errors st1 = lx_errors st @ []" by (simp add: good_def)
    then show thesis using that g by blast
  next
    assume "bad st st1 pre seg1 Again"
    then obtain e where "lx_errors st1 = lx_errors st @ [e]" by (auto simp: bad_def)
    then show thesis using that by blast
  qed
  have "\<exists>cs. lx_comments st' = lx_comments st @ cs \<and> explained (lx_file_no st) pre (seg1 @ seg) rest tok cs" if none: "es1 @ es = []"
  proof -
    have g: "good st st1 pre seg1 Again" using es1(2) none by simp
    obtain cs where cs: "lx_comments st' = lx_comments st1 @ cs" "explained (lx_file_no st) (pre @ seg1) seg rest tok cs"
      using r(7) none assms(3) by auto
    from g obtain cs0 where cs0: "lx_comments st1 = lx_comments st @ cs0" unfolding good_def outcome.case by auto
    have step: "lexed (lx_file_no st) pre (seg1 @ x) ts (cs0 @ cs')" if "lexed (lx_file_no st) (pre @ seg1) x ts cs'" for x ts cs'
      using lexed_good [OF g that] cs0 by auto
    have "explained (lx_file_no st) pre (seg1 @ seg) rest tok (cs0 @ cs)"
      using cs(2) step by (cases tok) (auto simp: explained_def)
    then show ?thesis using cs(1) cs0 by (intro exI [of _ "cs0 @ cs"]) simp
  qed
  moreover have "placed pre (seg1 @ seg) tok" using r(6) by (rule placed_shift)
  ultimately show ?thesis
    unfolding call_ok_def using r es1(1) assms(2,3)
    by (intro exI [of _ tok] exI [of _ st'] exI [of _ "seg1 @ seg"] exI [of _ rest] exI [of _ "es1 @ es"]) auto
qed

lemma call_ok_return:
  assumes "good st st1 pre seg (Return tok) \<or> bad st st1 pre seg (Return tok)" "s = seg @ rest" "pos st1 (pre @ seg) rest"
    and "lx_file_no st1 = lx_file_no st" "seg \<noteq> []"
  shows "call_ok st pre s (Some (tok, st1))"
  using assms(1)
proof
  assume b: "bad st st1 pre seg (Return tok)"
  then have "placed pre seg tok" by (cases tok) (force simp: bad_def placed_def)+
  then show ?thesis unfolding call_ok_def using b assms(2-4) by (auto simp: bad_def)
next
  assume g: "good st st1 pre seg (Return tok)"
  then obtain t where t: "tok = Some (str_len pre, t, str_len pre + str_len seg)" "spells t seg"
    by (cases tok) (auto simp: good_def token_at_def)
  have "explained (lx_file_no st) pre seg rest tok []"
    using lexed_token [OF t(2), of "lx_file_no st" pre rest] by (auto simp: explained_def t(1))
  moreover have "placed pre seg tok"
    using t assms(5) unfolding placed_def t(1) option.case token_at_def
    by (intro exI [of _ "[]"] exI [of _ seg] conjI) auto
  ultimately show ?thesis unfolding call_ok_def using g assms(2-4)
    by (intro exI [of _ tok] exI [of _ st1] exI [of _ seg] exI [of _ rest] exI [of _ "[]"]) (auto simp: good_def)
qed

lemma lexer_next_ok: "pos st pre s \<Longrightarrow> call_ok st pre s (lexer_next U st)"
proof (induction U st arbitrary: pre s rule: lexer_next.induct)
  case (1 U st)
  show ?case
  proof (cases s)
    case Nil
    then have "lexer_next U st = Some (None, st)" using "1.prems" by (simp add: lexer_next.simps lex_round_empty pos_def)
    then show ?thesis using "1.prems" Nil lexed_end
      by (auto simp: call_ok_def placed_def explained_def intro!: exI [of _ "[]"])
  next
    case (Cons c rest0)
    obtain out st1 seg rest where r: "lex_round U st = Some (out, st1)" "s = seg @ rest" "seg \<noteq> []" "pos st1 (pre @ seg) rest"
      "lx_file_no st1 = lx_file_no st" "good st st1 pre seg out \<or> bad st st1 pre seg out"
      using lex_round_ok [OF "1.prems" [unfolded Cons], of U] unfolding round_ok_def Cons by blast
    show ?thesis
    proof (cases out)
      case (Return tok)
      then show ?thesis using call_ok_return [of st st1 pre seg tok s rest] r by (simp add: lexer_next.simps [of U st])
    next
      case Again
      have "call_ok st1 (pre @ seg) rest (lexer_next U st1)" using "1.IH" [OF r(1) refl Again r(4)] .
      then show ?thesis using call_ok_again [of st st1 pre seg s rest] r Again by (simp add: lexer_next.simps [of U st])
    qed
  qed
qed

lemma iter_next_ok: "pos st pre s \<Longrightarrow> call_ok st pre s (iter_next U st)"
proof -
  assume p: "pos st pre s"
  let ?st = "if pragma_value (lx_last_tokens st) then st\<lparr>lx_parse_semver := True\<rparr> else st"
  have "pos ?st pre s" using p by (simp add: pos_def)
  from lexer_next_ok [OF this, of U] show ?thesis
    unfolding call_ok_def iter_next_def Let_def by (fastforce simp: pos_def split: if_splits)
qed

text \<open>The spans of the tokens after the offset \<open>n\<close>.\<close>

fun spans :: "ustring \<Rightarrow> nat \<Rightarrow> Spanned list \<Rightarrow> bool" where
  "spans input n [] \<longleftrightarrow> True"
| "spans input n ((a, t, b) # ts) \<longleftrightarrow> n \<le> a \<and> a < b \<and>
     (case slice input a b of Some u \<Rightarrow> spells t u | None \<Rightarrow> False) \<and> spans input b ts"

lemma spans_mono: "spans input n ts \<Longrightarrow> m \<le> n \<Longrightarrow> spans input m ts"
  by (cases ts) auto

lemma collect_ok:
  "pos st pre s \<Longrightarrow> \<exists>ts st' es. lexer_collect U st = Some (ts, st') \<and> lx_errors st' = lx_errors st @ es \<and>
     spans (pre @ s) (str_len pre) ts \<and>
     (es = [] \<longrightarrow> (\<exists>cs. lx_comments st' = lx_comments st @ cs \<and> lexed (lx_file_no st) pre s ts cs))"
proof (induction U st arbitrary: pre s rule: lexer_collect.induct)
  case (1 U st)
  obtain tok st1 seg rest es where r: "iter_next U st = Some (tok, st1)" "s = seg @ rest" "pos st1 (pre @ seg) rest"
    "lx_file_no st1 = lx_file_no st" "lx_errors st1 = lx_errors st @ es" "placed pre seg tok"
    "es = [] \<longrightarrow> (\<exists>cs. lx_comments st1 = lx_comments st @ cs \<and> explained (lx_file_no st) pre seg rest tok cs)"
    using iter_next_ok [OF "1.prems", of U] unfolding call_ok_def by blast
  show ?case
  proof (cases tok)
    case None
    then have "lexer_collect U st = Some ([], st1)" using r(1) by (simp add: lexer_collect.simps [of U st])
    then show ?thesis using r None by (auto simp: explained_def)
  next
    case (Some t)
    from "1.IH" [OF r(1) refl Some r(3)] obtain ts st' es' where ts: "lexer_collect U st1 = Some (ts, st')"
      "lx_errors st' = lx_errors st1 @ es'" "spans ((pre @ seg) @ rest) (str_len (pre @ seg)) ts"
      "es' = [] \<longrightarrow> (\<exists>cs. lx_comments st' = lx_comments st1 @ cs \<and> lexed (lx_file_no st1) (pre @ seg) rest ts cs)" by blast
    have run: "lexer_collect U st = Some (t # ts, st')" using r(1) Some ts(1) by (simp add: lexer_collect.simps [of U st])
    obtain w u v tk where p: "seg = w @ u @ v" "u \<noteq> []" "spells tk u" "t = (str_len (pre @ w), tk, str_len (pre @ w) + str_len u)"
      using r(6) Some by (auto simp: placed_def token_at_def)
    have "slice (pre @ s) (str_len (pre @ w)) (str_len (pre @ w) + str_len u) = Some u"
      using slice_append [of "pre @ w" u "v @ rest"] by (simp add: r(2) p(1))
    then have sp: "spans (pre @ s) (str_len pre) (t # ts)"
      using p spans_mono [OF ts(3), of "str_len (pre @ w) + str_len u"] r(2) by (simp add: zero_less_iff_neq_zero)
    have "\<exists>cs. lx_comments st' = lx_comments st @ cs \<and> lexed (lx_file_no st) pre s (t # ts) cs" if "es @ es' = []"
      using that ts(4) r(2,4,7) Some by (auto simp: explained_def)
    then show ?thesis using run sp r(5) ts(2) by (intro exI [of _ "t # ts"] exI [of _ st'] exI [of _ "es @ es'"]) simp
  qed
qed

lemma lexer_new_pos: "pos (lexer_new input f comments errors) [] input"
  by (simp add: pos_def lexer_new_def)

text \<open>
  C18: the lexer is total and its tokens lie in the input. Whatever the input and the tables of
  identifier characters, lexing ends without a panic (every slice of the input starts and ends at a
  character, although the lexer computes with byte offsets); the spans of the tokens are not empty,
  follow each other without overlap, and the text of each span is a spelling of its token.
\<close>

theorem lexer_total:
  "\<exists>ts st. lexer_collect U (lexer_new input f comments errors) = Some (ts, st) \<and> spans input 0 ts"
  using collect_ok [OF lexer_new_pos, of U input f comments errors] by auto

text \<open>
  C4: the lexer loses nothing. When it reports no error, the input is exactly a sequence of white
  space, of the comments it recorded and of spellings of the tokens it returned, in this order and
  with these offsets.
\<close>

theorem lexer_lossless:
  assumes "lexer_collect U (lexer_new input f [] []) = Some (ts, st)" "lx_errors st = []"
  shows "lexed f [] input ts (lx_comments st)"
  using collect_ok [OF lexer_new_pos, of U input f "[]" "[]"] assms by (auto simp: lexer_new_def)

definition ascii_tables :: unicode where
  "ascii_tables = \<lparr>is_xid_start = (\<lambda>c. 65 \<le> c \<and> c \<le> 90 \<or> 97 \<le> c \<and> c \<le> 122),
     is_xid_continue = (\<lambda>c. 65 \<le> c \<and> c \<le> 90 \<or> 97 \<le> c \<and> c \<le> 122 \<or> 48 \<le> c \<and> c \<le> 57 \<or> c = 95)\<rparr>"

text \<open>\<open>2 += 1; // n\<close>\<close>

lemma sample_lexed:
  "map_option (\<lambda>(ts, st). (ts, lx_comments st, lx_errors st))
     (lexer_collect ascii_tables (lexer_new (str ''2 += 1; // n'') 0 [] [])) =
   Some ([(0, Number [50] [], 1), (2, Symbol AddAssign, 4), (5, Number [49] [], 6), (6, Symbol Semicolon, 7)],
     [Line (Loc.File 0 8 12) (str ''// n'')], [])"
  by code_simp

theorem lexer_lossless_witness:
  "lexed 0 [] (str ''2 += 1; // n'')
     [(0, Number [50] [], 1), (2, Symbol AddAssign, 4), (5, Number [49] [], 6), (6, Symbol Semicolon, 7)]
     [Line (Loc.File 0 8 12) (str ''// n'')]"
proof -
  obtain ts st where run: "lexer_collect ascii_tables (lexer_new (str ''2 += 1; // n'') 0 [] []) = Some (ts, st)"
    "ts = [(0, Number [50] [], 1), (2, Symbol AddAssign, 4), (5, Number [49] [], 6), (6, Symbol Semicolon, 7)]"
    "lx_comments st = [Line (Loc.File 0 8 12) (str ''// n'')]" "lx_errors st = []"
    using sample_lexed by auto
  from lexer_lossless [OF run(1,4)] show ?thesis by (simp add: run(2,3))
qed

end
