(* ===== verification/LexerRoundtrip.thy ===== *)
theory LexerRoundtrip
  imports LexerLossless
begin

text \<open>
  Printing tokens and lexing the text gives the tokens back.
\<close>

section \<open>Tokens that can be read back\<close>

definition ascii_letter :: "uchar \<Rightarrow> bool" where
  "ascii_letter c \<longleftrightarrow> chr CHR ''A'' \<le> c \<and> c \<le> chr CHR ''Z'' \<or> chr CHR ''a'' \<le> c \<and> c \<le> chr CHR ''z''"

definition identifier_start :: "unicode \<Rightarrow> uchar \<Rightarrow> bool" where
  "identifier_start U c \<longleftrightarrow> c = chr CHR ''_'' \<or> c = chr CHR ''$'' \<or> is_xid_start U c"

definition identifier_part :: "unicode \<Rightarrow> uchar \<Rightarrow> bool" where
  "identifier_part U c \<longleftrightarrow> is_xid_continue U c \<or> c = chr CHR ''$''"

definition identifier_text :: "unicode \<Rightarrow> ustring \<Rightarrow> bool" where
  "identifier_text U w = (case w of [] \<Rightarrow> False | c # v \<Rightarrow> identifier_start U c \<and> list_all (identifier_part U) v)"

definition digits :: "ustring \<Rightarrow> bool" where
  "digits s = (case s of [] \<Rightarrow> False | c # v \<Rightarrow> is_ascii_digit c \<and> list_all digit_or_underscore v)"

definition exponent_text :: "ustring \<Rightarrow> bool" where
  "exponent_text x \<longleftrightarrow> x = [] \<or>
     (let d = dropWhile (\<lambda>c. c = chr CHR ''-'') x in d \<noteq> [] \<and> list_all digit_or_underscore d)"

definition quoted_with :: "string \<Rightarrow> (uchar \<Rightarrow> bool) \<Rightarrow> ustring \<Rightarrow> bool" where
  "quoted_with prefix P s \<longleftrightarrow> (\<exists>q \<in> quote_chars. \<exists>v. list_all (\<lambda>c. P c \<and> c \<noteq> q) v \<and> s = str prefix @ q # v @ [q])"

definition readable :: "unicode \<Rightarrow> Token \<Rightarrow> bool" where
  "readable U t = (case t of
       Token.Identifier w \<Rightarrow> identifier_text U w \<and> \<not> is_keyword w
     | StringLiteral _ s \<Rightarrow> string_body quote False s
     | AddressLiteral s \<Rightarrow> quoted_with ''address'' (\<lambda>_. True) s
     | HexLiteral s \<Rightarrow> quoted_with ''hex'' hexdigit_or_underscore s
     | Number i x \<Rightarrow> digits i \<and> exponent_text x
     | RationalNumber i f x \<Rightarrow> (i = [] \<or> digits i) \<and> digits f \<and> exponent_text x
     | HexNumber s \<Rightarrow> (\<exists>c v. s = str ''0x'' @ c # v \<and> is_ascii_hexdigit c \<and> list_all hexdigit_or_underscore v)
     | Annotation w \<Rightarrow> w \<noteq> [] \<and> list_all (identifier_part U) w
     | Token.Uint w \<Rightarrow> w mod 8 = 0 \<and> 0 < w \<and> w \<le> 256
     | Token.Int w \<Rightarrow> w mod 8 = 0 \<and> 0 < w \<and> w \<le> 256
     | Token.Bytes w \<Rightarrow> 0 < w \<and> w \<le> 32
     | Keyword k \<Rightarrow> k \<noteq> Pragma
     | _ \<Rightarrow> True)"

definition print_tokens :: "Token list \<Rightarrow> ustring" where
  "print_tokens ts = concat (map (\<lambda>t. token_string t @ [0x20]) ts)"

text \<open>The ASCII part of the tables of the Unicode crate.\<close>

locale unicode_tables =
  fixes U :: unicode
  assumes ascii_start: "\<And>c. c < 128 \<Longrightarrow> is_xid_start U c \<longleftrightarrow> ascii_letter c"
    and ascii_continue: "\<And>c. c < 128 \<Longrightarrow> is_xid_continue U c \<longleftrightarrow> ascii_letter c \<or> is_ascii_digit c \<or> c = chr CHR ''_''"
begin

text \<open>One round that reads exactly the token.\<close>

definition reads :: "Token \<Rightarrow> ustring \<Rightarrow> bool" where
  "reads t w \<longleftrightarrow> (\<forall>st pre rest. pos st pre (w @ 0x20 # rest) \<longrightarrow> \<not> lx_parse_semver st \<longrightarrow>
     (\<exists>st' b. lex_round U st = Some (Return (Some (str_len pre, t, b)), st') \<and> pos st' (pre @ w) (0x20 # rest) \<and>
        same st st' \<and> \<not> lx_parse_semver st' \<and> lx_last_tokens st' = lx_last_tokens st))"

lemma space_part: "\<not> identifier_part U 0x20" "\<not> digit_or_underscore 0x20" "\<not> hexdigit_or_underscore 0x20"
  using ascii_continue [of "0x20"]
  by (simp_all add: identifier_part_def ascii_letter_def is_ascii_digit_def is_ascii_hexdigit_def)

lemma takeWhile_space:
  assumes "list_all P v" "\<not> P 0x20"
  shows "takeWhile P (v @ 0x20 # rest) = v" "dropWhile P (v @ 0x20 # rest) = 0x20 # rest"
  using assms by (induction v) auto

end

interpretation ascii: unicode_tables ascii_tables
  by unfold_locales (auto simp: ascii_tables_def ascii_letter_def is_ascii_digit_def)

section \<open>Words\<close>

context unicode_tables
begin

lemma readsI:
  assumes "\<And>st pre rest. pos st pre (w @ 0x20 # rest) \<Longrightarrow> \<not> lx_parse_semver st \<Longrightarrow>
    lex_round U st = Some (Return (Some (str_len pre, t, str_len (pre @ w))), st\<lparr>lx_chars := char_indices (str_len (pre @ w)) (0x20 # rest)\<rparr>)"
  shows "reads t w"
  unfolding reads_def
proof (intro allI impI)
  fix st pre rest
  assume p: "pos st pre (w @ 0x20 # rest)" "\<not> lx_parse_semver st"
  show "\<exists>st' b. lex_round U st = Some (Return (Some (str_len pre, t, b)), st') \<and> pos st' (pre @ w) (0x20 # rest) \<and>
        same st st' \<and> \<not> lx_parse_semver st' \<and> lx_last_tokens st' = lx_last_tokens st"
    using assms [OF p] p
    by (intro exI [of _ "st\<lparr>lx_chars := char_indices (str_len (pre @ w)) (0x20 # rest)\<rparr>"] exI [of _ "str_len (pre @ w)"])
      (simp add: pos_def)
qed

lemma match_identifier_space:
  assumes "pos st (pre @ [c]) (v @ 0x20 # rest)" "list_all (identifier_part U) v"
  shows "match_identifier U (str_len pre) st =
    Some ((c # v, str_len (pre @ c # v)), st\<lparr>lx_chars := char_indices (str_len (pre @ c # v)) (0x20 # rest)\<rparr>)"
proof -
  have P: "(\<lambda>c. is_xid_continue U c \<or> c = chr CHR ''$'') = identifier_part U" by (simp add: identifier_part_def fun_eq_iff)
  have e: "match_end (identifier_part U) (input_len st) (lx_chars st) = (str_len (pre @ c # v), char_indices (str_len (pre @ c # v)) (0x20 # rest))"
    using match_end_spec [of "input_len st" "str_len (pre @ [c])" "v @ 0x20 # rest" "identifier_part U"] assms(1) pos_len [OF assms(1)]
      takeWhile_space [OF assms(2) space_part(1), of rest] by (simp add: pos_def add.assoc)
  have "slice (lx_input st) (str_len pre) (str_len (pre @ c # v)) = Some (c # v)"
    using assms(1) by (intro sliceI [of _ pre "c # v" "0x20 # rest"]) (simp_all add: pos_def)
  then show ?thesis unfolding match_identifier_def P e by simp
qed

text \<open>The state after the first character.\<close>

lemma pos_first:
  assumes "pos st pre (c # rest)"
  shows "pos (st\<lparr>lx_chars := char_indices (str_len pre + utf8_len c) rest\<rparr>) (pre @ [c]) rest"
    "lx_chars st = (str_len pre, c) # char_indices (str_len pre + utf8_len c) rest"
  using assms by (simp_all add: pos_def)

lemma reads_word:
  assumes "identifier_text U w"
  shows "reads (word_token w) w"
proof (rule readsI)
  fix st pre rest
  assume p: "pos st pre (w @ 0x20 # rest)"
  obtain c v where w: "w = c # v" "identifier_start U c" "list_all (identifier_part U) v"
    using assms by (auto simp: identifier_text_def split: list.splits)
  note f = pos_first [OF p [unfolded w(1), simplified]]
  have "lex_round U st = lex_word U (str_len pre) (st\<lparr>lx_chars := char_indices (str_len pre + utf8_len c) (v @ 0x20 # rest)\<rparr>)"
    using w(2) by (simp add: lex_round_def f(2) identifier_start_def)
  also have "\<dots> = Some (Return (Some (str_len pre, word_token w, str_len (pre @ w))), st\<lparr>lx_chars := char_indices (str_len (pre @ w)) (0x20 # rest)\<rparr>)"
    by (simp add: lex_word_def match_identifier_space [OF f(1) w(3)] quote_next_def w(1))
  finally show "lex_round U st = Some (Return (Some (str_len pre, word_token w, str_len (pre @ w))), st\<lparr>lx_chars := char_indices (str_len (pre @ w)) (0x20 # rest)\<rparr>)" .
qed

lemma reads_annotation:
  assumes "w \<noteq> []" "list_all (identifier_part U) w"
  shows "reads (Annotation w) (chr CHR ''@'' # w)"
proof (rule readsI)
  fix st pre rest
  let ?a = "chr CHR ''@''"
  assume p: "pos st pre ((?a # w) @ 0x20 # rest)"
  note f = pos_first [OF p [simplified]]
  have a: "\<not> is_xid_start U ?a" using ascii_start [of ?a] by (simp add: ascii_letter_def)
  have "slice (?a # w) 1 (str_len (?a # w)) = Some w" by (rule sliceI [of _ "[?a]" w "[]"]) simp_all
  moreover have "str_len (?a # w) \<noteq> 1" using assms(1) by simp
  moreover have "lex_round U st = lex_annotation U (str_len pre) (st\<lparr>lx_chars := char_indices (str_len pre + utf8_len ?a) (w @ 0x20 # rest)\<rparr>)"
    using a by (simp add: lex_round_def f(2) is_ascii_digit_def)
  ultimately show "lex_round U st = Some (Return (Some (str_len pre, Annotation w, str_len (pre @ ?a # w))),
      st\<lparr>lx_chars := char_indices (str_len (pre @ ?a # w)) (0x20 # rest)\<rparr>)"
    using match_identifier_space [OF f(1) assms(2)] by (simp add: lex_annotation_def)
qed

text \<open>Operators and punctuation.\<close>

lemma reads_symbol: "reads (Symbol s) (token_string (Symbol s))"
  unfolding reads_def
proof (intro allI impI)
  fix st pre rest
  assume p: "pos st pre (token_string (Symbol s) @ 0x20 # rest)" "\<not> lx_parse_semver st"
  have nl: "\<not> is_xid_start U c" if "c < 128" "\<not> ascii_letter c" for c using that ascii_start by blast
  show "\<exists>st' b. lex_round U st = Some (Return (Some (str_len pre, Symbol s, b)), st') \<and> pos st' (pre @ token_string (Symbol s)) (0x20 # rest) \<and>
        same st st' \<and> \<not> lx_parse_semver st' \<and> lx_last_tokens st' = lx_last_tokens st"
    using p
    by (cases s) (simp_all add: pos_def str_def lex_round_def nl ascii_letter_def is_ascii_digit_def lex_slash_def lex_dot_def
        symbol_token_def peek_nth1_def same_def is_whitespace_def)
qed

end

section \<open>Numbers\<close>

text \<open>The text after the digits of a number starts with no digit.\<close>

definition stops :: "(uchar \<Rightarrow> bool) \<Rightarrow> ustring \<Rightarrow> bool" where
  "stops P s = (case s of [] \<Rightarrow> True | c # _ \<Rightarrow> \<not> P c)"

lemma takeWhile_stops:
  assumes "list_all P v" "stops P s"
  shows "takeWhile P (v @ s) = v" "dropWhile P (v @ s) = s"
  using assms by (induction v) (auto simp: stops_def split: list.splits)

lemma eat_exact:
  assumes "list_all digit_or_underscore v" "stops digit_or_underscore s" "n = e + 1"
  shows "eat digit_or_underscore (char_indices n (v @ s)) e = (e + str_len v, char_indices (e + 1 + str_len v) s)"
  using eat_adjacent [of digit_or_underscore n e "v @ s", OF digit_ascii(1) assms(3)] unfolding takeWhile_stops [OF assms(1,2)] .

lemma digits_Cons: "digits s \<longleftrightarrow> (\<exists>c v. s = c # v \<and> is_ascii_digit c \<and> list_all digit_or_underscore v)"
  by (auto simp: digits_def split: list.splits)

lemma parse_fraction_exact:
  assumes "digits f" "stops digit_or_underscore s"
  shows "parse_fraction False rs e (char_indices (e + 1) (chr CHR ''.'' # f @ s)) =
    (True, e + 2, e + 1 + str_len f, e + 1 + str_len f, char_indices (e + 2 + str_len f) s)"
proof -
  obtain c v where f: "f = c # v" "is_ascii_digit c" "list_all digit_or_underscore v" using assms(1) digits_Cons by blast
  have c: "utf8_len c = 1" using digit_ascii(1) [of c] f(2) by simp
  have "eat digit_or_underscore (char_indices (Suc (Suc (Suc e))) (v @ s)) (Suc (Suc e)) =
      (Suc (Suc e) + str_len v, char_indices (Suc (Suc (Suc e)) + str_len v) s)"
    using eat_exact [OF f(3) assms(2), of "Suc (Suc (Suc e))" "Suc (Suc e)"] by simp
  then show ?thesis using f(1,2) c by (simp add: parse_fraction_def peek_nth1_def add_2_eq_Suc')
qed

lemma parse_fraction_none:
  assumes "dotted \<or> stops (\<lambda>c. c = chr CHR ''.'') s"
  shows "parse_fraction dotted rs e (char_indices (e + 1) s) = (dotted, rs, e, e, char_indices (e + 1) s)"
  using assms by (cases s) (auto simp: parse_fraction_def stops_def split: option.splits)

lemma takeWhile_append_part:
  "dropWhile P x \<noteq> [] \<Longrightarrow> takeWhile P (x @ s) = takeWhile P x \<and> dropWhile P (x @ s) = dropWhile P x @ s"
  by (induction x) auto

text \<open>The printed exponent.\<close>

definition exponent_print :: "ustring \<Rightarrow> ustring" where
  "exponent_print x = (if x = [] then [] else chr CHR ''e'' # x)"

lemma parse_exponent_exact:
  assumes "exponent_text x" "stops digit_or_underscore s" "stops (\<lambda>c. c \<in> {chr CHR ''e'', chr CHR ''E'', chr CHR ''-''}) s"
  shows "parse_exponent e (char_indices (e + 1) (exponent_print x @ s)) =
    ((e + str_len (exponent_print x) + 1 - str_len x, e + str_len (exponent_print x), False), char_indices (e + 1 + str_len (exponent_print x)) s)"
proof (cases "x = []")
  case True
  then show ?thesis using assms(3) by (cases s) (auto simp: parse_exponent_def exponent_print_def stops_def)
next
  case False
  let ?m = "takeWhile (\<lambda>c. c = chr CHR ''-'') x" and ?d = "dropWhile (\<lambda>c. c = chr CHR ''-'') x"
  have d: "?d \<noteq> []" "list_all digit_or_underscore ?d" using assms(1) False by (simp_all add: exponent_text_def Let_def)
  have m: "takeWhile (\<lambda>c. c = chr CHR ''-'') (x @ s) = ?m" "dropWhile (\<lambda>c. c = chr CHR ''-'') (x @ s) = ?d @ s"
    using takeWhile_append_part [OF d(1)] by blast+
  have len: "str_len x = str_len ?m + str_len ?d" by (metis str_len_simps(3) takeWhile_dropWhile_id)
  have "eat digit_or_underscore (char_indices (e + 2 + str_len ?m) (?d @ s)) e =
      (e + 1 + str_len x, char_indices (e + 2 + str_len x) s)"
    using eat_spec [of digit_or_underscore "e + 2 + str_len ?m" "?d @ s" e, OF digit_ascii(1)] d(1)
    unfolding takeWhile_stops [OF d(2) assms(2)] by (simp add: len add.assoc)
  then have "parse_exponent e (char_indices (e + 1) (chr CHR ''e'' # x @ s)) =
      ((e + 2, e + 1 + str_len x, False), char_indices (e + 2 + str_len x) s)"
    using dropWhile_char_indices [of "\<lambda>c. c = chr CHR ''-''" "e + 2" "x @ s"] False unfolding m
    by (simp add: parse_exponent_def Let_def)
  then show ?thesis using False by (simp add: exponent_print_def)
qed

lemma stops_simps [simp]: "stops P (c # s) = (\<not> P c)" "stops P []"
  by (simp_all add: stops_def)

lemma number_stops:
  "stops digit_or_underscore (0x20 # rest)" "stops (\<lambda>c. c \<in> {chr CHR ''e'', chr CHR ''E'', chr CHR ''-''}) (0x20 # rest)"
  "stops digit_or_underscore (exponent_print x @ 0x20 # rest)" "stops (\<lambda>c. c = chr CHR ''.'') (exponent_print x @ 0x20 # rest)"
  "stops digit_or_underscore (chr CHR ''.'' # s)"
  by (auto simp: exponent_print_def is_ascii_digit_def)

lemma exponent_slice:
  assumes "lx_input st = pre @ u @ exponent_print x @ r" "e + 1 = str_len (pre @ u)"
  shows "slice (lx_input st) (e + str_len (exponent_print x) + 1 - str_len x) (e + str_len (exponent_print x) + 1) = Some x"
proof (cases "x = []")
  case True
  show ?thesis using assms unfolding True by (intro sliceI [of _ "pre @ u" "[]" r]) (simp_all add: exponent_print_def)
next
  case False
  then show ?thesis using assms by (intro sliceI [of _ "pre @ u @ [chr CHR ''e'']" x r]) (simp_all add: exponent_print_def)
qed

lemma parse_decimal_integer:
  assumes p: "pos st (pre @ [c]) (v @ exponent_print x @ 0x20 # rest)" "\<not> lx_parse_semver st" "is_ascii_digit c"
    and v: "list_all digit_or_underscore v" and x: "exponent_text x"
  shows "parse_decimal False (str_len pre) st =
    Some (Inr (str_len pre, Number (c # v) x, str_len (pre @ c # v @ exponent_print x)),
      st\<lparr>lx_chars := char_indices (str_len (pre @ c # v @ exponent_print x)) (0x20 # rest)\<rparr>)"
proof -
  have c: "utf8_len c = 1" using p(3) digit_ascii(1) [of c] by simp
  define e where "e = str_len pre + str_len v"
  have eat: "eat digit_or_underscore (lx_chars st) (str_len pre) = (e, char_indices (e + 1) (exponent_print x @ 0x20 # rest))"
    using eat_exact [OF v number_stops(3), of "str_len pre + 1" "str_len pre" x rest] p(1) c by (simp add: pos_def e_def)
  have e1: "e + 1 = str_len (pre @ c # v)" using c by (simp add: e_def)
  have "slice (lx_input st) (str_len pre) (e + 1) = Some (c # v)"
    using p(1) c by (intro sliceI [of _ pre "c # v" "exponent_print x @ 0x20 # rest"]) (simp_all add: pos_def e_def)
  moreover have "slice (lx_input st) (e + str_len (exponent_print x) + 1 - str_len x) (e + str_len (exponent_print x) + 1) = Some x"
    by (rule exponent_slice [where pre = pre and u = "c # v" and r = "0x20 # rest"]) (use p(1) e1 in \<open>simp_all add: pos_def\<close>)
  ultimately show ?thesis
    unfolding parse_decimal_def eat prod.case Let_def parse_fraction_none [OF disjI2 [OF number_stops(4)]]
      parse_exponent_exact [OF x number_stops(1,2)]
    using p(2) e1 by (simp add: c e_def add.assoc)
qed

lemma parse_decimal_rational:
  assumes p: "pos st (pre @ [c]) (v @ chr CHR ''.'' # f @ exponent_print x @ 0x20 # rest)" "\<not> lx_parse_semver st" "is_ascii_digit c"
    and v: "list_all digit_or_underscore v" and f: "digits f" and x: "exponent_text x"
  shows "parse_decimal False (str_len pre) st =
    Some (Inr (str_len pre, RationalNumber (c # v) f x, str_len (pre @ c # v @ chr CHR ''.'' # f @ exponent_print x)),
      st\<lparr>lx_chars := char_indices (str_len (pre @ c # v @ chr CHR ''.'' # f @ exponent_print x)) (0x20 # rest)\<rparr>)"
proof -
  have c: "utf8_len c = 1" using p(3) digit_ascii(1) [of c] by simp
  define e where "e = str_len pre + str_len v"
  let ?s = "f @ exponent_print x @ 0x20 # rest" and ?o = "e + 1 + str_len f"
  have eat: "eat digit_or_underscore (lx_chars st) (str_len pre) = (e, char_indices (e + 1) (chr CHR ''.'' # ?s))"
    using eat_exact [OF v number_stops(5), of "str_len pre + 1" "str_len pre" ?s] p(1) c by (simp add: pos_def e_def)
  have expo: "parse_exponent ?o (char_indices (e + 2 + str_len f) (exponent_print x @ 0x20 # rest)) =
      ((?o + str_len (exponent_print x) + 1 - str_len x, ?o + str_len (exponent_print x), False),
       char_indices (?o + 1 + str_len (exponent_print x)) (0x20 # rest))"
    using parse_exponent_exact [OF x number_stops(1,2), of ?o rest] by (simp add: add_2_eq_Suc')
  have "slice (lx_input st) (str_len pre) (e + 1) = Some (c # v)"
    using p(1) c by (intro sliceI [of _ pre "c # v" "chr CHR ''.'' # ?s"]) (simp_all add: pos_def e_def)
  moreover have "slice (lx_input st) (e + 2) (?o + 1) = Some f"
    using p(1) c by (intro sliceI [of _ "pre @ c # v @ [chr CHR ''.'']" f "exponent_print x @ 0x20 # rest"]) (simp_all add: pos_def e_def)
  moreover have "slice (lx_input st) (?o + str_len (exponent_print x) + 1 - str_len x) (?o + str_len (exponent_print x) + 1) = Some x"
    by (rule exponent_slice [where pre = pre and u = "c # v @ chr CHR ''.'' # f" and r = "0x20 # rest"])
      (use p(1) c in \<open>simp_all add: pos_def e_def\<close>)
  ultimately show ?thesis
    unfolding parse_decimal_def eat prod.case Let_def if_False parse_fraction_exact [OF f number_stops(3)] expo
    using p(2) by (simp add: c e_def add.assoc)
qed

lemma parse_decimal_dotted:
  assumes p: "pos st (pre @ [chr CHR ''.'']) (f @ exponent_print x @ 0x20 # rest)" "\<not> lx_parse_semver st"
    and f: "digits f" and x: "exponent_text x"
  shows "parse_decimal True (str_len pre) st =
    Some (Inr (str_len pre, RationalNumber [] f x, str_len (pre @ chr CHR ''.'' # f @ exponent_print x)),
      st\<lparr>lx_chars := char_indices (str_len (pre @ chr CHR ''.'' # f @ exponent_print x)) (0x20 # rest)\<rparr>)"
proof -
  define e where "e = str_len pre + str_len f"
  let ?s = "exponent_print x @ 0x20 # rest"
  have "list_all digit_or_underscore f" using f digits_Cons by auto
  from eat_exact [OF this number_stops(3), of "str_len pre + 1" "str_len pre" x rest]
  have eat: "eat digit_or_underscore (lx_chars st) (str_len pre) = (e, char_indices (e + 1) ?s)"
    using p(1) by (simp add: pos_def e_def)
  have "slice (lx_input st) (str_len pre) (str_len pre) = Some []"
    using p(1) by (intro sliceI [of _ pre "[]" "chr CHR ''.'' # f @ ?s"]) (simp_all add: pos_def)
  moreover have "slice (lx_input st) (str_len pre + 1) (e + 1) = Some f"
    using p(1) by (intro sliceI [of _ "pre @ [chr CHR ''.'']" f ?s]) (simp_all add: pos_def e_def)
  moreover have "slice (lx_input st) (e + str_len (exponent_print x) + 1 - str_len x) (e + str_len (exponent_print x) + 1) = Some x"
    by (rule exponent_slice [where pre = pre and u = "chr CHR ''.'' # f" and r = "0x20 # rest"])
      (use p(1) in \<open>simp_all add: pos_def e_def\<close>)
  ultimately show ?thesis
    unfolding parse_decimal_def eat prod.case Let_def if_True parse_fraction_none [OF disjI1 [OF TrueI]] parse_exponent_exact [OF x number_stops(1,2)]
    using p(2) by (simp add: e_def add.assoc)
qed

lemma number_print:
  "token_string (Number i x) = i @ exponent_print x"
  "token_string (RationalNumber i f x) = i @ chr CHR ''.'' # f @ exponent_print x"
  by (simp_all add: exponent_print_def str_def)

text \<open>Literals in quotes.\<close>

lemma string_loop_exact:
  "string_body q b s \<Longrightarrow> string_loop q b (char_indices n (s @ q # r)) = Some (n + str_len s, char_indices (n + str_len s + utf8_len q) r)"
  by (induction q b s arbitrary: n rule: string_body.induct) (auto simp: add.assoc)

lemma until_exact:
  "\<forall>c \<in> set s. \<not> P c \<Longrightarrow> P q \<Longrightarrow> until P (char_indices n (s @ q # r)) = Some (n + str_len s, char_indices (n + str_len s + utf8_len q) r)"
  by (induction s arbitrary: n) (auto simp: add.assoc)

lemma hex_loop_exact:
  "list_all (\<lambda>c. hexdigit_or_underscore c \<and> c \<noteq> q) s \<Longrightarrow>
    hex_loop q (char_indices n (s @ q # r)) = HexEnd (n + str_len s) (char_indices (n + str_len s + utf8_len q) r)"
  by (induction s arbitrary: n) (auto simp: add.assoc)

lemma lex_string_exact:
  assumes p: "pos st (pre @ w) (s @ q # r)" "string_body q False s" "q \<in> quote_chars"
  shows "lex_string u a (str_len (pre @ w)) q st =
    Some (Inr (a, StringLiteral u s, str_len (pre @ w @ s @ [q])), st\<lparr>lx_chars := char_indices (str_len (pre @ w @ s @ [q])) r\<rparr>)"
proof -
  have q: "utf8_len q = 1" using p(3) by (rule quote_chars_len)
  have "slice (lx_input st) (str_len (pre @ w)) (str_len (pre @ w) + str_len s) = Some s"
    using p(1) by (intro sliceI [of _ "pre @ w" s "q # r"]) (simp_all add: pos_def)
  then show ?thesis using p(1) string_loop_exact [OF p(2), of "str_len (pre @ w)" r] q
    by (simp add: lex_string_def pos_def add.assoc)
qed

context unicode_tables
begin

lemma digit_not_start: "is_ascii_digit c \<Longrightarrow> \<not> is_xid_start U c \<and> c \<noteq> chr CHR ''_'' \<and> c \<noteq> chr CHR ''$''"
  using ascii_start [of c] by (auto simp: is_ascii_digit_def ascii_letter_def)

lemma round_number:
  assumes "pos st pre (c # s)" "is_ascii_digit c"
  shows "lex_round U st = lex_number (str_len pre) c (st\<lparr>lx_chars := char_indices (str_len pre + utf8_len c) s\<rparr>)"
proof -
  have "c \<noteq> quote" "c \<noteq> apostrophe" "c \<noteq> chr CHR ''/''" using assms(2) by (auto simp: is_ascii_digit_def)
  then show ?thesis using digit_not_start [OF assms(2)] assms by (simp add: lex_round_def pos_def)
qed

lemma reads_number:
  assumes "digits i" "exponent_text x"
  shows "reads (Number i x) (token_string (Number i x))"
  unfolding number_print
proof (rule readsI)
  fix st pre rest
  assume p: "pos st pre ((i @ exponent_print x) @ 0x20 # rest)" "\<not> lx_parse_semver st"
  obtain c v where i: "i = c # v" "is_ascii_digit c" "list_all digit_or_underscore v" using assms(1) digits_Cons by blast
  let ?st = "st\<lparr>lx_chars := char_indices (str_len pre + utf8_len c) (v @ exponent_print x @ 0x20 # rest)\<rparr>"
  have ps: "pos st pre (c # v @ exponent_print x @ 0x20 # rest)" using p(1) i(1) by simp
  have "peek (lx_chars ?st) \<noteq> Some (chr CHR ''x'')" "c \<noteq> chr CHR ''.''"
    using i(2,3) by (cases v; cases x; auto simp: exponent_print_def is_ascii_digit_def)+
  then have "parse_number (str_len pre) c ?st = parse_decimal False (str_len pre) ?st" by (auto simp: parse_number_def)
  then show "lex_round U st = Some (Return (Some (str_len pre, Number i x, str_len (pre @ i @ exponent_print x))),
      st\<lparr>lx_chars := char_indices (str_len (pre @ i @ exponent_print x)) (0x20 # rest)\<rparr>)"
    using parse_decimal_integer [OF pos_first(1) [OF ps] _ i(2,3) assms(2)] p(2)
    unfolding round_number [OF ps i(2)] lex_number_def by (simp add: i(1))
qed

lemma reads_rational:
  assumes "digits i" "digits f" "exponent_text x"
  shows "reads (RationalNumber i f x) (token_string (RationalNumber i f x))"
  unfolding number_print
proof (rule readsI)
  fix st pre rest
  let ?d = "chr CHR ''.''"
  assume p: "pos st pre ((i @ ?d # f @ exponent_print x) @ 0x20 # rest)" "\<not> lx_parse_semver st"
  obtain c v where i: "i = c # v" "is_ascii_digit c" "list_all digit_or_underscore v" using assms(1) digits_Cons by blast
  let ?st = "st\<lparr>lx_chars := char_indices (str_len pre + utf8_len c) (v @ ?d # f @ exponent_print x @ 0x20 # rest)\<rparr>"
  have ps: "pos st pre (c # v @ ?d # f @ exponent_print x @ 0x20 # rest)" using p(1) i(1) by simp
  have "peek (lx_chars ?st) \<noteq> Some (chr CHR ''x'')" "c \<noteq> ?d"
    using i(2,3) by (cases v; auto simp: is_ascii_digit_def)+
  then have "parse_number (str_len pre) c ?st = parse_decimal False (str_len pre) ?st" by (auto simp: parse_number_def)
  then show "lex_round U st = Some (Return (Some (str_len pre, RationalNumber i f x, str_len (pre @ i @ ?d # f @ exponent_print x))),
      st\<lparr>lx_chars := char_indices (str_len (pre @ i @ ?d # f @ exponent_print x)) (0x20 # rest)\<rparr>)"
    using parse_decimal_rational [OF pos_first(1) [OF ps] _ i(2,3) assms(2,3)] p(2)
    unfolding round_number [OF ps i(2)] lex_number_def by (simp add: i(1))
qed

lemma reads_dotted:
  assumes "digits f" "exponent_text x"
  shows "reads (RationalNumber [] f x) (token_string (RationalNumber [] f x))"
  unfolding number_print
proof (rule readsI)
  fix st pre rest
  let ?d = "chr CHR ''.''"
  assume p: "pos st pre (([] @ ?d # f @ exponent_print x) @ 0x20 # rest)" "\<not> lx_parse_semver st"
  have ps: "pos st pre (?d # f @ exponent_print x @ 0x20 # rest)" using p(1) by simp
  let ?st = "st\<lparr>lx_chars := char_indices (str_len pre + utf8_len ?d) (f @ exponent_print x @ 0x20 # rest)\<rparr>"
  have d: "\<not> is_xid_start U ?d" using ascii_start [of ?d] by (simp add: ascii_letter_def)
  obtain c v where f: "f = c # v" "is_ascii_digit c" using assms(1) digits_Cons by blast
  have "lex_round U st = lex_dot (str_len pre) ?st" using d ps by (simp add: lex_round_def pos_def is_ascii_digit_def)
  also have "\<dots> = Some (Return (Some (str_len pre, RationalNumber [] f x, str_len (pre @ ?d # f @ exponent_print x))),
      st\<lparr>lx_chars := char_indices (str_len (pre @ ?d # f @ exponent_print x)) (0x20 # rest)\<rparr>)"
    using parse_decimal_dotted [OF pos_first(1) [OF ps] _ assms] p(2) f by (simp add: lex_dot_def parse_number_def)
  finally show "lex_round U st = Some (Return (Some (str_len pre, RationalNumber [] f x, str_len (pre @ [] @ ?d # f @ exponent_print x))),
      st\<lparr>lx_chars := char_indices (str_len (pre @ [] @ ?d # f @ exponent_print x)) (0x20 # rest)\<rparr>)" by simp
qed

lemma reads_hex_number:
  assumes "is_ascii_hexdigit c" "list_all hexdigit_or_underscore v"
  shows "reads (HexNumber (str ''0x'' @ c # v)) (str ''0x'' @ c # v)"
proof (rule readsI)
  fix st pre rest
  let ?w = "str ''0x'' @ c # v" and ?z = "chr CHR ''0''" and ?x = "chr CHR ''x''"
  assume p: "pos st pre (?w @ 0x20 # rest)"
  have ps: "pos st pre (?z # ?x # c # v @ 0x20 # rest)" using p by (simp add: str_def)
  have c: "utf8_len c = 1" using digit_ascii(2) [of c] assms(1) by simp
  have "eat hexdigit_or_underscore (char_indices (str_len pre + 2 + 1) (v @ 0x20 # rest)) (str_len pre + 2) =
      (str_len pre + 2 + str_len v, char_indices (str_len pre + 2 + 1 + str_len v) (0x20 # rest))"
    using eat_adjacent [of hexdigit_or_underscore "str_len pre + 2 + 1" "str_len pre + 2" "v @ 0x20 # rest", OF digit_ascii(2) refl]
    unfolding takeWhile_space [OF assms(2) space_part(3)] .
  moreover have "slice (lx_input st) (str_len pre) (str_len (pre @ ?w)) = Some ?w"
    using p by (intro sliceI [of _ pre ?w "0x20 # rest"]) (simp_all add: pos_def)
  ultimately have "parse_hex_number (str_len pre) (st\<lparr>lx_chars := (str_len pre + 2, c) # char_indices (str_len pre + 2 + 1) (v @ 0x20 # rest)\<rparr>) =
      Some (Inr (str_len pre, HexNumber ?w, str_len (pre @ ?w)), st\<lparr>lx_chars := char_indices (str_len (pre @ ?w)) (0x20 # rest)\<rparr>)"
    using assms(1) c by (simp add: parse_hex_number_def str_def)
  then show "lex_round U st = Some (Return (Some (str_len pre, HexNumber ?w, str_len (pre @ ?w))),
      st\<lparr>lx_chars := char_indices (str_len (pre @ ?w)) (0x20 # rest)\<rparr>)"
    using round_number [OF ps] c by (simp add: lex_number_def parse_number_def is_ascii_digit_def str_def)
qed

end

section \<open>Quoted literals and keywords\<close>

text \<open>The words of the keyword table are made of ASCII letters and digits.\<close>

definition ascii_word :: "ustring \<Rightarrow> bool" where
  "ascii_word w = (case w of [] \<Rightarrow> False | c # v \<Rightarrow> ascii_letter c \<and> list_all (\<lambda>c. ascii_letter c \<or> is_ascii_digit c) v)"

lemma KEYWORDS_ascii: "list_all (\<lambda>(k, t). ascii_word (str k)) KEYWORDS"
  by (simp add: KEYWORDS_def ascii_word_def str_def ascii_letter_def is_ascii_digit_def)

text \<open>Every token of a word is in the table.\<close>

definition keywords_of :: "(Token \<Rightarrow> 'a option) \<Rightarrow> 'a list" where
  "keywords_of f = List.map_filter (f \<circ> snd) KEYWORDS"

lemma keywords_of_mem:
  assumes "x \<in> set (keywords_of f)" "\<And>t'. f t' = Some x \<Longrightarrow> t' = t"
  shows "\<exists>k. (k, t) \<in> set KEYWORDS"
proof -
  have "\<exists>p \<in> set KEYWORDS. f (snd p) = Some x" using assms(1) by (force simp: keywords_of_def map_filter_def)
  then show ?thesis using assms(2) by (metis prod.collapse)
qed

lemma keyword_listed: "k \<in> set (keywords_of (\<lambda>t. case t of Keyword k \<Rightarrow> Some k | _ \<Rightarrow> None))"
proof -
  have "keywords_of (\<lambda>t. case t of Keyword k \<Rightarrow> Some k | _ \<Rightarrow> None) = [Keyword.Bool, Keyword.Break, Keyword.DynamicBytes, Keyword.Byte, Keyword.Calldata, Keyword.Constant, Keyword.Continue, Keyword.Contract, Keyword.Delete, Keyword.Do, Keyword.Emit, Keyword.Enum, Keyword.Event, Keyword.External, Keyword.Function, Keyword.Import, Keyword.Interface, Keyword.Internal, Keyword.Library, Keyword.Memory, Keyword.New, Keyword.Payable, Keyword.Pragma, Keyword.Private, Keyword.Public, Keyword.Pure, Keyword.Returns, Keyword.Return, Keyword.Revert, Keyword.Storage, Keyword.Struct, Keyword.Throw, Keyword.Type, Keyword.View]"
    by (simp add: keywords_of_def KEYWORDS_def map_filter_simps)
  then show ?thesis by (cases k) simp_all
qed

lemma keyword2_listed: "k \<in> set (keywords_of (\<lambda>t. case t of Keyword2 k \<Rightarrow> Some k | _ \<Rightarrow> None))"
proof -
  have "keywords_of (\<lambda>t. case t of Keyword2 k \<Rightarrow> Some k | _ \<Rightarrow> None) = [Keyword2.Address, Keyword2.Anonymous, Keyword2.Case, Keyword2.Constructor, Keyword2.Default, Keyword2.Else, Keyword2.KwFalse, Keyword2.For, Keyword2.KwIf, Keyword2.Indexed, Keyword2.Leave, Keyword2.Mapping, Keyword2.String, Keyword2.Switch, Keyword2.KwTrue, Keyword2.While, Keyword2.Try, Keyword2.Catch, Keyword2.Receive, Keyword2.Fallback, Keyword2.As, Keyword2.Is, Keyword2.Abstract, Keyword2.Virtual, Keyword2.Override, Keyword2.Using, Keyword2.Modifier, Keyword2.Immutable, Keyword2.Unchecked, Keyword2.Assembly, Keyword2.KwLet, Keyword2.Persistent, Keyword2.Temporary, Keyword2.Instance]"
    by (simp add: keywords_of_def KEYWORDS_def map_filter_simps)
  then show ?thesis by (cases k) simp_all
qed

lemma width_cases: "n mod 8 = 0 \<Longrightarrow> 0 < n \<Longrightarrow> n \<le> 256 \<Longrightarrow> n \<in> set (map ((*) 8) [1 ..< 33])" for n :: nat
  by (auto elim!: dvdE simp: mod_eq_0_iff_dvd)

lemma uint_listed: "n mod 8 = 0 \<Longrightarrow> 0 < n \<Longrightarrow> n \<le> 256 \<Longrightarrow> n \<in> set (keywords_of (\<lambda>t. case t of Token.Uint n \<Rightarrow> Some n | _ \<Rightarrow> None))"
proof -
  assume "n mod 8 = 0" "0 < n" "n \<le> 256"
  then have "n \<in> set (map ((*) 8) [1 ..< 33])" by (rule width_cases)
  moreover have "keywords_of (\<lambda>t. case t of Token.Uint n \<Rightarrow> Some n | _ \<Rightarrow> None) = map ((*) 8) [1 ..< 33] @ [256]"
    by (simp add: keywords_of_def KEYWORDS_def map_filter_simps upt_rec)
  ultimately show ?thesis by simp
qed

lemma int_listed: "n mod 8 = 0 \<Longrightarrow> 0 < n \<Longrightarrow> n \<le> 256 \<Longrightarrow> n \<in> set (keywords_of (\<lambda>t. case t of Token.Int n \<Rightarrow> Some n | _ \<Rightarrow> None))"
proof -
  assume "n mod 8 = 0" "0 < n" "n \<le> 256"
  then have "n \<in> set (map ((*) 8) [1 ..< 33])" by (rule width_cases)
  moreover have "keywords_of (\<lambda>t. case t of Token.Int n \<Rightarrow> Some n | _ \<Rightarrow> None) = map ((*) 8) [1 ..< 33] @ [256]"
    by (simp add: keywords_of_def KEYWORDS_def map_filter_simps upt_rec)
  ultimately show ?thesis by simp
qed

lemma bytes_listed: "0 < n \<Longrightarrow> n \<le> 32 \<Longrightarrow> n \<in> set (keywords_of (\<lambda>t. case t of Token.Bytes n \<Rightarrow> Some n | _ \<Rightarrow> None))"
proof -
  assume "0 < n" "n \<le> 32"
  moreover have "keywords_of (\<lambda>t. case t of Token.Bytes n \<Rightarrow> Some n | _ \<Rightarrow> None) = [1 ..< 33]"
    by (simp add: keywords_of_def KEYWORDS_def map_filter_simps upt_rec)
  ultimately show ?thesis by simp
qed

lemma wide_listed: "(''uint256'', Token.Uint 256) \<in> set KEYWORDS" "(''int256'', Token.Int 256) \<in> set KEYWORDS"
  by (simp_all add: KEYWORDS_def)

lemma word_like_listed:
  assumes "readable U t" "word_like t"
  shows "\<exists>k. (k, t) \<in> set KEYWORDS"
proof (cases t)
  case (Uint n)
  show ?thesis by (rule keywords_of_mem [OF uint_listed [of n]]) (use assms(1) Uint in \<open>auto simp: readable_def split: Token.splits\<close>)
next
  case (Int n)
  show ?thesis by (rule keywords_of_mem [OF int_listed [of n]]) (use assms(1) Int in \<open>auto simp: readable_def split: Token.splits\<close>)
next
  case (Bytes n)
  show ?thesis by (rule keywords_of_mem [OF bytes_listed [of n]]) (use assms(1) Bytes in \<open>auto simp: readable_def split: Token.splits\<close>)
next
  case (Keyword k)
  show ?thesis by (rule keywords_of_mem [OF keyword_listed [of k]]) (use assms(1) Keyword in \<open>auto simp: readable_def split: Token.splits\<close>)
next
  case (Keyword2 k)
  show ?thesis by (rule keywords_of_mem [OF keyword2_listed [of k]]) (use assms(1) Keyword2 in \<open>auto simp: readable_def split: Token.splits\<close>)
qed (use assms(2) in \<open>simp_all add: word_like_def\<close>)

text \<open>A token of the table is printed as a word that is found again.\<close>

lemma word_like_found:
  assumes "readable U t" "word_like t"
  shows "find_keyword (token_string t) = Some t" "ascii_word (token_string t)"
proof -
  obtain k where k: "(k, t) \<in> set KEYWORDS" using word_like_listed [OF assms] by blast
  then consider "str k = token_string t" | "k = ''uint''" "t = Token.Uint 256" | "k = ''int''" "t = Token.Int 256"
    using KEYWORDS_print by (auto simp: list_all_iff)
  then obtain k' where k': "(k', t) \<in> set KEYWORDS" "str k' = token_string t"
  proof cases
    case 1
    then show ?thesis using k that by blast
  next
    case 2
    then show ?thesis using that [of "''uint256''"] wide_listed by (simp add: dec_nat.simps digit_chars)
  next
    case 3
    then show ?thesis using that [of "''int256''"] wide_listed by (simp add: dec_nat.simps digit_chars)
  qed
  show "find_keyword (token_string t) = Some t"
    using k' KEYWORDS_distinct by (simp add: find_keyword_str flip: k'(2))
  show "ascii_word (token_string t)" using k' KEYWORDS_ascii by (auto simp: list_all_iff)
qed

text \<open>No version is being read, and none is about to be.\<close>

definition clean :: "Lexer \<Rightarrow> bool" where
  "clean st \<longleftrightarrow> \<not> lx_parse_semver st \<and> fst (lx_last_tokens st) \<noteq> Some (Keyword Pragma) \<and> snd (lx_last_tokens st) \<noteq> Some (Keyword Pragma)"

context unicode_tables
begin

lemma ascii_word_identifier: "ascii_word w \<Longrightarrow> identifier_text U w"
proof -
  assume "ascii_word w"
  then obtain c v where w: "w = c # v" "ascii_letter c" "list_all (\<lambda>c. ascii_letter c \<or> is_ascii_digit c) v"
    by (auto simp: ascii_word_def split: list.splits)
  have small: "ascii_letter c \<or> is_ascii_digit c \<Longrightarrow> c < 128" for c by (auto simp: ascii_letter_def is_ascii_digit_def)
  show ?thesis using w small ascii_start ascii_continue
    by (auto simp: identifier_text_def identifier_start_def identifier_part_def list_all_iff)
qed

lemma reads_table_word:
  assumes "readable U t" "word_like t"
  shows "reads t (token_string t)"
  using reads_word [OF ascii_word_identifier [OF word_like_found(2) [OF assms]]] word_like_found(1) [OF assms]
  by (simp add: word_token_def)

text \<open>A prefix and a quote: the prefix is read as a word.\<close>

lemma match_identifier_quote:
  assumes "pos st (pre @ [c]) (v @ q # rest)" "list_all (identifier_part U) v" "q \<in> quote_chars"
  shows "match_identifier U (str_len pre) st =
    Some ((c # v, str_len (pre @ c # v)), st\<lparr>lx_chars := char_indices (str_len (pre @ c # v)) (q # rest)\<rparr>)"
proof -
  have P: "(\<lambda>c. is_xid_continue U c \<or> c = chr CHR ''$'') = identifier_part U" by (simp add: identifier_part_def fun_eq_iff)
  have "\<not> identifier_part U q"
    using assms(3) ascii_continue [of q] by (auto simp: quote_chars_def identifier_part_def ascii_letter_def is_ascii_digit_def)
  then have "stops (identifier_part U) (q # rest)" by simp
  note tw = takeWhile_stops [OF assms(2) this]
  have e: "match_end (identifier_part U) (input_len st) (lx_chars st) = (str_len (pre @ c # v), char_indices (str_len (pre @ c # v)) (q # rest))"
    using match_end_spec [of "input_len st" "str_len (pre @ [c])" "v @ q # rest" "identifier_part U"] assms(1) pos_len [OF assms(1)]
    by (simp add: tw pos_def add.assoc)
  have "slice (lx_input st) (str_len pre) (str_len (pre @ c # v)) = Some (c # v)"
    using assms(1) by (intro sliceI [of _ pre "c # v" "q # rest"]) (simp_all add: pos_def)
  then show ?thesis unfolding match_identifier_def P e by simp
qed

lemma round_prefixed:
  assumes p: "pos st pre (w @ q # rest)" and w: "ascii_word w" and q: "q \<in> quote_chars"
  defines "st' \<equiv> st\<lparr>lx_chars := char_indices (str_len (pre @ w @ [q])) rest\<rparr>"
  shows "lex_round U st =
     (if w = str ''unicode'' then do {
        (r, st) \<leftarrow> lex_string True (str_len pre) (str_len pre + 8) q st';
        (case r of
           Inl err \<Rightarrow> Some (Return (Some (str_len pre, word_token w, str_len (pre @ w))), push_error err st)
         | Inr token \<Rightarrow> Some (Return (Some token), st)) }
      else if w = str ''hex'' then lex_hex (str_len pre) q st'
      else if w = str ''address'' then lex_address (str_len pre) q st'
      else Some (Return (Some (str_len pre, word_token w, str_len (pre @ w))), st\<lparr>lx_chars := char_indices (str_len (pre @ w)) (q # rest)\<rparr>))"
proof -
  obtain c v where cv: "w = c # v" "identifier_start U c" "list_all (identifier_part U) v"
    using ascii_word_identifier [OF w] by (auto simp: identifier_text_def split: list.splits)
  note f = pos_first [OF p [unfolded cv(1), simplified]]
  let ?st = "st\<lparr>lx_chars := char_indices (str_len pre + utf8_len c) (v @ q # rest)\<rparr>"
    and ?next = "st\<lparr>lx_chars := char_indices (str_len (pre @ w)) (q # rest)\<rparr>"
  have qn: "quote_next (lx_chars ?next) = Some q" using q by (auto simp: quote_next_def quote_chars_def)
  have st': "?next\<lparr>lx_chars := tl (lx_chars ?next)\<rparr> = st'" by (simp add: st'_def add.assoc)
  have "lex_round U st = lex_word U (str_len pre) ?st" using cv(2) by (simp add: lex_round_def f(2) identifier_start_def)
  moreover have "match_identifier U (str_len pre) ?st = Some ((w, str_len (pre @ w)), ?next)"
    using match_identifier_quote [OF f(1) cv(3) q] by (simp add: cv(1))
  ultimately show ?thesis unfolding lex_word_def by (simp only: bind.bind_lunit prod.case Let_def qn st' option.case)
qed

lemma prefix_words [simp]:
  "ascii_word (str ''unicode'')" "ascii_word (str ''hex'')" "ascii_word (str ''address'')"
  "str ''hex'' \<noteq> str ''unicode''" "str ''address'' \<noteq> str ''unicode''" "str ''address'' \<noteq> str ''hex''"
  by (simp_all add: ascii_word_def str_def ascii_letter_def)

lemma reads_hex:
  assumes "list_all (\<lambda>c. hexdigit_or_underscore c \<and> c \<noteq> q) v" "q \<in> quote_chars"
  shows "reads (HexLiteral (str ''hex'' @ q # v @ [q])) (str ''hex'' @ q # v @ [q])"
proof (rule readsI)
  fix st pre rest
  let ?w = "str ''hex'' @ q # v @ [q]"
  assume p: "pos st pre (?w @ 0x20 # rest)"
  have "slice (lx_input st) (str_len pre) (str_len (pre @ ?w)) = Some ?w"
    using p by (intro sliceI [of _ pre ?w "0x20 # rest"]) (simp_all add: pos_def)
  then show "lex_round U st = Some (Return (Some (str_len pre, HexLiteral ?w, str_len (pre @ ?w))),
      st\<lparr>lx_chars := char_indices (str_len (pre @ ?w)) (0x20 # rest)\<rparr>)"
    using round_prefixed [of st pre "str ''hex''" q "v @ q # 0x20 # rest"] p assms(2) quote_chars_len [OF assms(2)]
      hex_loop_exact [OF assms(1), of "str_len (pre @ str ''hex'' @ [q])" "0x20 # rest"]
    by (simp add: lex_hex_def add.assoc)
qed

lemma reads_address:
  assumes "list_all (\<lambda>c. c \<noteq> q) v" "q \<in> quote_chars"
  shows "reads (AddressLiteral (str ''address'' @ q # v @ [q])) (str ''address'' @ q # v @ [q])"
proof (rule readsI)
  fix st pre rest
  let ?w = "str ''address'' @ q # v @ [q]"
  assume p: "pos st pre (?w @ 0x20 # rest)"
  have "slice (lx_input st) (str_len pre) (str_len (pre @ ?w)) = Some ?w"
    using p by (intro sliceI [of _ pre ?w "0x20 # rest"]) (simp_all add: pos_def)
  then show "lex_round U st = Some (Return (Some (str_len pre, AddressLiteral ?w, str_len (pre @ ?w))),
      st\<lparr>lx_chars := char_indices (str_len (pre @ ?w)) (0x20 # rest)\<rparr>)"
    using round_prefixed [of st pre "str ''address''" q "v @ q # 0x20 # rest"] p assms(2) quote_chars_len [OF assms(2)]
      until_exact [of v "\<lambda>c. c = q" q "str_len (pre @ str ''address'' @ [q])" "0x20 # rest"] assms(1)
    by (simp add: lex_address_def add.assoc list_all_iff)
qed

lemma reads_string:
  assumes "string_body quote False s"
  shows "reads (StringLiteral u s) (token_string (StringLiteral u s))"
proof (rule readsI)
  fix st pre rest
  let ?w = "token_string (StringLiteral u s)"
  assume p: "pos st pre (?w @ 0x20 # rest)"
  have q: "quote \<in> quote_chars" "utf8_len quote = 1" by (simp_all add: quote_chars_def)
  show "lex_round U st = Some (Return (Some (str_len pre, StringLiteral u s, str_len (pre @ ?w))),
      st\<lparr>lx_chars := char_indices (str_len (pre @ ?w)) (0x20 # rest)\<rparr>)"
  proof (cases u)
    case True
    let ?p = "str ''unicode''"
    have pp: "pos st pre (?p @ quote # s @ quote # 0x20 # rest)" using p True by simp
    let ?st = "st\<lparr>lx_chars := char_indices (str_len (pre @ ?p @ [quote])) (s @ quote # 0x20 # rest)\<rparr>"
    have "pos ?st (pre @ ?p @ [quote]) (s @ quote # 0x20 # rest)" using pp by (simp add: pos_def)
    from lex_string_exact [OF this assms q(1), of True "str_len pre"]
    have "lex_string True (str_len pre) (str_len pre + 8) quote ?st =
        Some (Inr (str_len pre, StringLiteral u s, str_len (pre @ ?w)), st\<lparr>lx_chars := char_indices (str_len (pre @ ?w)) (0x20 # rest)\<rparr>)"
      using True by (simp add: str_def add.assoc eval_nat_numeral)
    then show ?thesis unfolding round_prefixed [OF pp prefix_words(1) q(1)] by simp
  next
    case False
    have pp: "pos st pre (quote # s @ quote # 0x20 # rest)" using p False by simp
    note f = pos_first [OF pp]
    have "\<not> is_xid_start U quote" using ascii_start [of quote] by (simp add: ascii_letter_def)
    then have "lex_round U st = lex_quoted (str_len pre) quote (st\<lparr>lx_chars := char_indices (str_len pre + utf8_len quote) (s @ quote # 0x20 # rest)\<rparr>)"
      using f(2) by (simp add: lex_round_def)
    then show ?thesis using lex_string_exact [OF f(1) assms q(1), of False "str_len pre"] False
      by (simp add: lex_quoted_def add.assoc)
  qed
qed

theorem reads_readable:
  assumes "readable U t"
  shows "reads t (token_string t)"
proof (cases "word_like t")
  case True
  then show ?thesis using reads_table_word [OF assms] by blast
next
  case False
  show ?thesis
  proof (cases t)
    case (Identifier w)
    then show ?thesis using assms reads_word [of w]
      by (simp add: readable_def word_token_def is_keyword_def split: option.splits)
  next
    case (AddressLiteral s)
    then show ?thesis using assms reads_address by (auto simp: readable_def quoted_with_def)
  next
    case (HexLiteral s)
    then show ?thesis using assms reads_hex by (auto simp: readable_def quoted_with_def)
  next
    case (RationalNumber i f x)
    then show ?thesis using assms reads_rational [of i f x] reads_dotted [of f x] by (auto simp only: readable_def Token.case)
  next
    case (Annotation w)
    then show ?thesis using assms reads_annotation [of w] by (simp add: readable_def str_def)
  qed (use assms False reads_string reads_number reads_hex_number reads_symbol in
      \<open>auto simp: readable_def word_like_def\<close>)
qed

text \<open>A space, then a token; and only spaces.\<close>

lemma round_space:
  assumes "pos st pre (0x20 # s)"
  shows "lex_round U st = Some (Again, st\<lparr>lx_chars := char_indices (str_len (pre @ [0x20])) s\<rparr>)"
  using assms ascii_start [of "0x20"]
  by (simp add: lex_round_def pos_def ascii_letter_def is_ascii_digit_def symbol_token_def is_whitespace_def)

lemma iter_next_clean: "clean st \<Longrightarrow> iter_next U st = do {
    (token, st) \<leftarrow> lexer_next U st;
    Some (token, st\<lparr>lx_last_tokens := (snd (lx_last_tokens st), map_option (\<lambda>(_, n, _). n) token)\<rparr>) }"
  by (simp add: clean_def iter_next_def pragma_value_def)

lemma next_token:
  assumes "pos st pre (w @ token_string t @ 0x20 # rest)" "w \<in> {[], [0x20]}" "clean st" "readable U t"
  shows "\<exists>st' a b pre'. iter_next U st = Some (Some (a, t, b), st') \<and> pos st' pre' (0x20 # rest) \<and> same st st' \<and> clean st'"
proof -
  define st1 where "st1 = st\<lparr>lx_chars := char_indices (str_len (pre @ w)) (token_string t @ 0x20 # rest)\<rparr>"
  have p1: "pos st1 (pre @ w) (token_string t @ 0x20 # rest)" using assms(1) by (simp add: st1_def pos_def)
  have "st1 = st" if "w = []" using assms(1) that by (simp add: st1_def pos_def)
  then have "lexer_next U st = lexer_next U st1"
    using assms(1,2) round_space [of st pre "token_string t @ 0x20 # rest"] by (auto simp: lexer_next.simps [of U st] st1_def)
  moreover obtain st2 b where r: "lex_round U st1 = Some (Return (Some (str_len (pre @ w), t, b)), st2)"
    "pos st2 ((pre @ w) @ token_string t) (0x20 # rest)" "same st1 st2" "\<not> lx_parse_semver st2" "lx_last_tokens st2 = lx_last_tokens st1"
    using reads_readable [OF assms(4), unfolded reads_def, rule_format, OF p1] assms(3) by (auto simp: st1_def clean_def)
  moreover have "t \<noteq> Keyword Pragma" using assms(4) by (auto simp: readable_def)
  ultimately show ?thesis using assms(3)
    by (simp add: iter_next_clean lexer_next.simps [of U st1])
      (auto simp: clean_def same_def pos_def st1_def)
qed

lemma next_end:
  assumes "pos st pre w" "w \<in> {[], [0x20]}" "clean st"
  shows "\<exists>st'. iter_next U st = Some (None, st') \<and> same st st'"
proof -
  have "lexer_next U st = Some (None, st\<lparr>lx_chars := []\<rparr>)"
    using assms(1,2) round_space [of st pre "[]"] lex_round_empty [of st U] lex_round_empty [of "st\<lparr>lx_chars := []\<rparr>" U]
    by (auto simp: lexer_next.simps [of U st] lexer_next.simps [of U "st\<lparr>lx_chars := []\<rparr>"] pos_def)
  then show ?thesis using assms(3) by (simp add: iter_next_clean same_def)
qed

theorem collect_printed:
  assumes "pos st pre (w @ print_tokens toks)" "w \<in> {[], [0x20]}" "clean st" "list_all (readable U) toks"
  shows "\<exists>ts st'. lexer_collect U st = Some (ts, st') \<and> map (\<lambda>(_, t, _). t) ts = toks \<and> same st st'"
  using assms
proof (induction toks arbitrary: st pre w)
  case Nil
  then show ?case using next_end [of st pre w] by (auto simp: print_tokens_def lexer_collect.simps [of U st])
next
  case (Cons t toks)
  have p: "pos st pre (w @ token_string t @ 0x20 # print_tokens toks)" using Cons.prems(1) by (simp add: print_tokens_def)
  obtain st1 a b pre' where r: "iter_next U st = Some (Some (a, t, b), st1)" "pos st1 pre' (0x20 # print_tokens toks)"
    "same st st1" "clean st1" using next_token [OF p Cons.prems(2,3)] Cons.prems(4) by auto
  have "pos st1 pre' ([0x20] @ print_tokens toks)" using r(2) by simp
  from Cons.IH [OF this _ r(4)] Cons.prems(4) obtain ts st' where
    "lexer_collect U st1 = Some (ts, st')" "map (\<lambda>(_, t, _). t) ts = toks" "same st1 st'" by auto
  then show ?case using r(1,3) by (simp add: lexer_collect.simps [of U st] same_def)
qed

end

text \<open>
  C5: printing and lexing are inverse. The printed form of tokens that can be read back, each
  followed by a space, is lexed to the same tokens, with no error and no comment, for every pair of
  identifier tables that agrees with ASCII on the first 128 characters.
\<close>

theorem lexer_roundtrip:
  assumes "unicode_tables U" "list_all (readable U) toks"
  shows "\<exists>ts st. lexer_collect U (lexer_new (print_tokens toks) f [] []) = Some (ts, st) \<and>
    map (\<lambda>(_, t, _). t) ts = toks \<and> lx_errors st = [] \<and> lx_comments st = []"
proof -
  let ?st = "lexer_new (print_tokens toks) f [] []"
  have "clean ?st" "pos ?st [] ([] @ print_tokens toks)" using lexer_new_pos by (simp_all add: clean_def lexer_new_def)
  from unicode_tables.collect_printed [OF assms(1) this(2) _ this(1) assms(2)]
  obtain ts st where "lexer_collect U ?st = Some (ts, st)" "map (\<lambda>(_, t, _). t) ts = toks" "same ?st st" by auto
  then show ?thesis by (simp add: same_def lexer_new_def)
qed

theorem lexer_roundtrip_witness:
  "\<exists>ts st. lexer_collect ascii_tables
      (lexer_new (print_tokens [Keyword Contract, Symbol OpenCurlyBrace, Token.Uint 64, Number [49] [], HexLiteral (str ''hex\"a_0\"'')]) 0 [] []) = Some (ts, st) \<and>
    map (\<lambda>(_, t, _). t) ts = [Keyword Contract, Symbol OpenCurlyBrace, Token.Uint 64, Number [49] [], HexLiteral (str ''hex\"a_0\"'')] \<and>
    lx_errors st = [] \<and> lx_comments st = []"
proof (rule lexer_roundtrip)
  show "unicode_tables ascii_tables" by (rule ascii.unicode_tables_axioms)
  have "quoted_with ''hex'' hexdigit_or_underscore (str ''hex\"a_0\"'')"
    unfolding quoted_with_def
    by (intro bexI [of _ quote] exI [of _ "str ''a_0''"]) (simp_all add: str_def is_ascii_hexdigit_def is_ascii_digit_def quote_chars_def)
  then show "list_all (readable ascii_tables)
      [Keyword Contract, Symbol OpenCurlyBrace, Token.Uint 64, Number [49] [], HexLiteral (str ''hex\"a_0\"'')]"
    by (simp add: readable_def digits_def exponent_text_def is_ascii_digit_def)
qed

end
