(* ===== verification/Unescape.thy ===== *)
theory Unescape
  imports LexerLossless
begin

text \<open>
  The escapes of string literals (\<open>src/sema/expression/strings.rs\<close>): the text of a literal, as the
  lexer returns it, is turned into bytes. A byte is a number below 256. The lexer promises that a
  backslash is followed by another character; where the code relies on that, \<open>None\<close> is the panic.
\<close>

section \<open>The code\<close>

text \<open>\<open>char::encode_utf8\<close>, \<open>char::from_u32\<close> and \<open>char::to_digit\<close> of the standard library.\<close>

definition encode_utf8 :: "uchar \<Rightarrow> nat list" where
  "encode_utf8 c =
     (if c < 0x80 then [c]
      else if c < 0x800 then [0xC0 + c div 64, 0x80 + c mod 64]
      else if c < 0x10000 then [0xE0 + c div 4096, 0x80 + c div 64 mod 64, 0x80 + c mod 64]
      else [0xF0 + c div 262144, 0x80 + c div 4096 mod 64, 0x80 + c div 64 mod 64, 0x80 + c mod 64])"

definition from_u32 :: "nat \<Rightarrow> uchar option" where
  "from_u32 n = (if n < 0xD800 \<or> 0xE000 \<le> n \<and> n \<le> 0x10FFFF then Some n else None)"

definition to_digit :: "uchar \<Rightarrow> nat option" where
  "to_digit c = (if 0x30 \<le> c \<and> c \<le> 0x39 then Some (c - 0x30)
     else if 0x61 \<le> c \<and> c \<le> 0x66 then Some (c - 0x61 + 10)
     else if 0x41 \<le> c \<and> c \<le> 0x46 then Some (c - 0x41 + 10) else None)"

text \<open>The digits of an escape: their value, or the offset where they break off (\<open>None\<close> for the end of the literal).\<close>

fun get_digits :: "nat \<Rightarrow> nat \<Rightarrow> chars \<Rightarrow> (nat option + nat) \<times> chars" where
  "get_digits 0 n cs = (Inr n, cs)"
| "get_digits (Suc len) n [] = (Inl None, [])"
| "get_digits (Suc len) n ((i, ch) # cs) = (case to_digit ch of
       Some v \<Rightarrow> get_digits len (n * 16 + v) cs
     | None \<Rightarrow> (case cs of (j, _) # cs \<Rightarrow> (Inl (Some j), cs) | [] \<Rightarrow> (Inl None, [])))"

definition simple_escape :: "uchar \<Rightarrow> nat list option" where
  "simple_escape ch =
     (if ch = newline then Some []
      else if ch = backslash then Some [backslash]
      else if ch = apostrophe then Some [apostrophe]
      else if ch = quote then Some [quote]
      else if ch = chr CHR ''b'' then Some [0x08]
      else if ch = chr CHR ''f'' then Some [0x0c]
      else if ch = chr CHR ''n'' then Some [0x0a]
      else if ch = chr CHR ''r'' then Some [0x0d]
      else if ch = chr CHR ''t'' then Some [0x09]
      else if ch = chr CHR ''v'' then Some [0x0b]
      else None)"

type_synonym unescaped = "bool \<times> nat list \<times> (Loc \<times> ustring) list"

definition escape_end :: "nat \<Rightarrow> nat option \<Rightarrow> nat" where
  "escape_end len offset = (case offset of Some j \<Rightarrow> min len j | None \<Rightarrow> len)"

definition invalid :: "Loc \<Rightarrow> ustring \<Rightarrow> unescaped \<Rightarrow> unescaped" where
  "invalid loc msg = (\<lambda>(_, s, diagnostics). (False, s, diagnostics @ [(loc, msg)]))"

definition append_bytes :: "nat list \<Rightarrow> unescaped \<Rightarrow> unescaped" where
  "append_bytes bs = (\<lambda>(valid, s, diagnostics). (valid, s @ bs, diagnostics))"

text \<open>An escape that starts with the character \<open>ch\<close> at the offset \<open>i\<close>, and what is left.\<close>

definition unescape_one :: "nat \<Rightarrow> nat \<Rightarrow> nat \<Rightarrow> nat \<Rightarrow> uchar \<Rightarrow> chars \<Rightarrow> unescaped \<Rightarrow> unescaped \<times> chars" where
  "unescape_one len start file_no i ch cs st = (case simple_escape ch of
       Some bs \<Rightarrow> (append_bytes bs st, cs)
     | None \<Rightarrow>
         if ch = chr CHR ''x'' then (case get_digits 2 0 cs of
             (Inr n, cs) \<Rightarrow> (append_bytes [n mod 256] st, cs)
           | (Inl offset, cs) \<Rightarrow> (invalid (Loc.File file_no (start + i) (start + escape_end len offset))
               (str [CHR 0x5C] @ str ''x escape should be followed by two hex digits'') st, cs))
         else if ch = chr CHR ''u'' then (case get_digits 4 0 cs of
             (Inr codepoint, cs) \<Rightarrow> (case from_u32 codepoint of
                 Some c \<Rightarrow> (append_bytes (encode_utf8 c) st, cs)
               | None \<Rightarrow> (invalid (Loc.File file_no (start + i) (start + i + 6)) (str ''Found an invalid unicode character'') st, cs))
           | (Inl offset, cs) \<Rightarrow> (invalid (Loc.File file_no (start + i) (start + escape_end len offset))
               (str [CHR 0x5C] @ str ''u escape should be followed by four hex digits'') st, cs))
         else (invalid (Loc.File file_no (start + i) (start + i + utf8_len ch))
           (str ''unknown escape character '' @ [apostrophe, ch, apostrophe]) st, cs))"

lemma get_digits_length: "length (snd (get_digits k n cs)) \<le> length cs"
  by (induction k n cs rule: get_digits.induct) (auto split: option.split list.split intro: le_SucI)

lemma unescape_one_length: "unescape_one len start file_no i ch cs st = (st', cs') \<Longrightarrow> length cs' \<le> length cs"
  using get_digits_length [of 2 0 cs] get_digits_length [of 4 0 cs]
  by (auto simp: unescape_one_def split: option.splits if_splits prod.splits sum.splits)

function unescape_loop :: "nat \<Rightarrow> nat \<Rightarrow> nat \<Rightarrow> chars \<Rightarrow> unescaped \<Rightarrow> unescaped option" where
  "unescape_loop len start file_no [] st = Some st"
| "unescape_loop len start file_no ((i, ch) # cs) st =
     (if ch \<noteq> backslash then unescape_loop len start file_no cs (append_bytes (encode_utf8 ch) st)
      else (case cs of
          [] \<Rightarrow> None
        | (i, ch) # cs \<Rightarrow> (let (st, cs) = unescape_one len start file_no i ch cs st in unescape_loop len start file_no cs st)))"
  by pat_completeness auto
termination
  by (relation "measure (\<lambda>(len, start, file_no, cs, st). length cs)")
    (auto dest!: unescape_one_length [OF sym] simp: less_Suc_eq_le)

definition unescape :: "ustring \<Rightarrow> nat \<Rightarrow> nat \<Rightarrow> (Loc \<times> ustring) list \<Rightarrow> unescaped option" where
  "unescape literal start file_no diags =
     unescape_loop (str_len literal) start file_no (char_indices 0 literal) (True, [], diags)"


section \<open>The literals that are valid\<close>

text \<open>The reference: a literal is a sequence of characters and escapes, each of which stands for bytes.\<close>

datatype escape_part = Plain uchar | Simple uchar | HexByte ustring | CodePoint ustring

definition digits_value :: "nat \<Rightarrow> ustring \<Rightarrow> nat" where
  "digits_value n ds = foldl (\<lambda>n d. n * 16 + the (to_digit d)) n ds"

primrec part_ok :: "escape_part \<Rightarrow> bool" where
  "part_ok (Plain c) \<longleftrightarrow> c \<noteq> backslash"
| "part_ok (Simple c) \<longleftrightarrow> simple_escape c \<noteq> None"
| "part_ok (HexByte ds) \<longleftrightarrow> length ds = 2 \<and> (\<forall>d \<in> set ds. to_digit d \<noteq> None)"
| "part_ok (CodePoint ds) \<longleftrightarrow> length ds = 4 \<and> (\<forall>d \<in> set ds. to_digit d \<noteq> None) \<and> from_u32 (digits_value 0 ds) \<noteq> None"

primrec part_text :: "escape_part \<Rightarrow> ustring" where
  "part_text (Plain c) = [c]"
| "part_text (Simple c) = [backslash, c]"
| "part_text (HexByte ds) = [backslash, chr CHR ''x''] @ ds"
| "part_text (CodePoint ds) = [backslash, chr CHR ''u''] @ ds"

primrec part_bytes :: "escape_part \<Rightarrow> nat list" where
  "part_bytes (Plain c) = encode_utf8 c"
| "part_bytes (Simple c) = the (simple_escape c)"
| "part_bytes (HexByte ds) = [digits_value 0 ds]"
| "part_bytes (CodePoint ds) = encode_utf8 (digits_value 0 ds)"

lemma to_digit_less: "to_digit d = Some v \<Longrightarrow> v < 16"
  by (auto simp: to_digit_def split: if_splits)

lemma digits_value_simps [simp]: "digits_value n [] = n" "digits_value n (d # ds) = digits_value (n * 16 + the (to_digit d)) ds"
  by (simp_all add: digits_value_def)

lemma get_digits_iff:
  "(\<exists>cs. get_digits k n (char_indices m s) = (Inr v, cs)) \<longleftrightarrow>
   k \<le> length s \<and> (\<forall>d \<in> set (take k s). to_digit d \<noteq> None) \<and> v = digits_value n (take k s)"
proof (induction k arbitrary: n m s)
  case (Suc k)
  show ?case
  proof (cases s)
    case (Cons c t)
    then show ?thesis using Suc.IH [of "n * 16 + the (to_digit c)" "m + utf8_len c" t]
      by (cases "to_digit c") (auto split: list.splits)
  qed simp
qed auto

lemma get_digits_rest:
  "get_digits k n (char_indices m s) = (Inr v, cs) \<Longrightarrow> cs = char_indices (m + str_len (take k s)) (drop k s)"
proof (induction k arbitrary: n m s)
  case (Suc k)
  show ?case
  proof (cases s)
    case (Cons c t)
    then show ?thesis using Suc.IH [of _ "m + utf8_len c" t] Suc.prems
      by (cases "to_digit c") (auto simp: add.assoc split: list.splits)
  qed (use Suc.prems in simp)
qed simp

lemma get_digits_ok:
  assumes "\<forall>d \<in> set ds. to_digit d \<noteq> None"
  shows "get_digits (length ds) n (char_indices m (ds @ s)) = (Inr (digits_value n ds), char_indices (m + str_len ds) s)"
proof -
  obtain cs where cs: "get_digits (length ds) n (char_indices m (ds @ s)) = (Inr (digits_value n ds), cs)"
    using get_digits_iff [of "length ds" n m "ds @ s" "digits_value n ds"] assms by auto
  from get_digits_rest [OF cs] show ?thesis using cs by simp
qed

lemma byte_value: "length ds = 2 \<Longrightarrow> \<forall>d \<in> set ds. to_digit d \<noteq> None \<Longrightarrow> digits_value 0 ds mod 256 = digits_value 0 ds"
proof -
  assume "length ds = 2" "\<forall>d \<in> set ds. to_digit d \<noteq> None"
  then obtain a b v w where "ds = [a, b]" "to_digit a = Some v" "to_digit b = Some w" by (auto simp: numeral_2_eq_2 length_Suc_conv)
  then show ?thesis using to_digit_less [of a v] to_digit_less [of b w] by simp
qed

lemma append_bytes_append [simp]: "append_bytes b (append_bytes a st) = append_bytes (a @ b) st"
  by (simp add: append_bytes_def case_prod_unfold)

lemma simple_escape_letters [simp]: "simple_escape 0x78 = None" "simple_escape 0x75 = None"
  by (simp_all add: simple_escape_def)

lemma unescape_part:
  assumes "part_ok p"
  shows "unescape_loop len start f (char_indices n (part_text p @ s)) st =
    unescape_loop len start f (char_indices (n + str_len (part_text p)) s) (append_bytes (part_bytes p) st)"
proof (cases p)
  case (Simple c)
  then show ?thesis using assms by (auto simp: unescape_one_def add.assoc)
next
  case (HexByte ds)
  then show ?thesis using assms get_digits_ok [of ds 0 "n + 2" s] byte_value [of ds]
    by (simp add: unescape_one_def utf8_len_def)
next
  case (CodePoint ds)
  then show ?thesis using assms get_digits_ok [of ds 0 "n + 2" s]
    by (auto simp: unescape_one_def utf8_len_def add.assoc from_u32_def split: if_splits)
qed (use assms in simp)

lemma unescape_parts:
  "list_all part_ok ps \<Longrightarrow>
   unescape_loop len start f (char_indices n (concat (map part_text ps))) st = Some (append_bytes (concat (map part_bytes ps)) st)"
proof (induction ps arbitrary: n st)
  case Nil
  then show ?case by (simp add: append_bytes_def)
next
  case (Cons p ps)
  then show ?case using unescape_part [of p len start f n "concat (map part_text ps)" st] by simp
qed

text \<open>A literal that has been found invalid stays so.\<close>

lemma unescape_one_invalid: "\<not> fst st \<Longrightarrow> \<not> fst (fst (unescape_one len start f i ch cs st))"
  by (auto simp: unescape_one_def append_bytes_def invalid_def case_prod_unfold split: option.splits sum.splits)

lemma unescape_loop_invalid: "\<not> fst st \<Longrightarrow> unescape_loop len start f cs st = Some st' \<Longrightarrow> \<not> fst st'"
proof (induction len start f cs st rule: unescape_loop.induct)
  case (2 len start f i ch cs st)
  show ?case
  proof (cases "ch = backslash")
    case False
    then show ?thesis using 2 by (simp add: append_bytes_def case_prod_unfold)
  next
    case True
    then obtain j c rest where cs: "cs = (j, c) # rest" using "2.prems"(2) by (cases cs) auto
    obtain st1 rest1 where one: "unescape_one len start f j c rest st = (st1, rest1)" by fastforce
    have "\<not> fst st1" using unescape_one_invalid [OF "2.prems"(1), of len start f j c rest] one by simp
    then show ?thesis using "2.IH"(2) [of "(j, c)" rest j c _ st1 rest1] "2.prems"(2) True cs one by simp
  qed
qed simp

text \<open>One escape that is read without an error is one of the reference.\<close>

lemma unescape_one_valid:
  assumes "unescape_one len start f i ch (char_indices n s) st = (st', cs)" "fst st'"
  shows "\<exists>p s'. part_ok p \<and> part_text p @ s' = backslash # ch # s \<and> st' = append_bytes (part_bytes p) st \<and> (\<exists>m. cs = char_indices m s')"
proof (cases "simple_escape ch")
  case (Some bs)
  then show ?thesis using assms(1) by (intro exI [of _ "Simple ch"] exI [of _ s]) (auto simp: unescape_one_def)
next
  case None
  have no: "\<not> fst (invalid loc msg st)" for loc msg by (simp add: invalid_def case_prod_unfold)
  consider (x) "ch = chr CHR ''x''" | (u) "ch = chr CHR ''u''" using None assms no by (auto simp: unescape_one_def split: if_splits)
  then show ?thesis
  proof cases
    case x
    obtain v where g: "get_digits 2 0 (char_indices n s) = (Inr v, cs)" and st': "st' = append_bytes [v mod 256] st"
      using None assms no x by (auto simp: unescape_one_def split: prod.splits sum.splits)
    have d: "2 \<le> length s" "\<forall>d \<in> set (take 2 s). to_digit d \<noteq> None" "v = digits_value 0 (take 2 s)"
      using get_digits_iff [of 2 0 n s v] g by auto
    show ?thesis using d byte_value [of "take 2 s"] st' get_digits_rest [OF g] x
      by (intro exI [of _ "HexByte (take 2 s)"] exI [of _ "drop 2 s"]) auto
  next
    case u
    obtain v where g: "get_digits 4 0 (char_indices n s) = (Inr v, cs)" and v: "from_u32 v = Some v" "st' = append_bytes (encode_utf8 v) st"
      using None assms no u by (auto simp: unescape_one_def from_u32_def split: prod.splits sum.splits if_splits)
    have d: "4 \<le> length s" "\<forall>d \<in> set (take 4 s). to_digit d \<noteq> None" "v = digits_value 0 (take 4 s)"
      using get_digits_iff [of 4 0 n s v] g by auto
    show ?thesis using d v get_digits_rest [OF g] u
      by (intro exI [of _ "CodePoint (take 4 s)"] exI [of _ "drop 4 s"]) auto
  qed
qed

lemma part_text_nonempty: "length (part_text p) > 0"
  by (cases p) simp_all

lemma unescape_loop_valid:
  assumes "unescape_loop len start f (char_indices n s) st = Some st'" "fst st'"
  shows "\<exists>ps. list_all part_ok ps \<and> s = concat (map part_text ps) \<and> st' = append_bytes (concat (map part_bytes ps)) st"
  using assms(1)
proof (induction "length s" arbitrary: s n st rule: less_induct)
  case less
  have step: ?case if p: "part_ok p" "s = part_text p @ s'" "unescape_loop len start f (char_indices m s') (append_bytes (part_bytes p) st) = Some st'" for p s' m
  proof -
    obtain ps where "list_all part_ok ps" "s' = concat (map part_text ps)"
      "st' = append_bytes (concat (map part_bytes ps)) (append_bytes (part_bytes p) st)"
      using less.hyps [OF _ p(3)] p(2) part_text_nonempty [of p] by auto
    then show ?thesis using p by (intro exI [of _ "p # ps"]) simp
  qed
  show ?case
  proof (cases s)
    case Nil
    then show ?thesis using less.prems by (intro exI [of _ "[]"]) (simp add: append_bytes_def)
  next
    case (Cons c t)
    show ?thesis
    proof (cases "c = backslash")
      case False
      then show ?thesis using less.prems Cons by (intro step [of "Plain c" t]) auto
    next
      case True
      then obtain d u where t: "t = d # u" using less.prems Cons by (cases t) auto
      let ?m = "n + utf8_len c"
      obtain st1 cs where one: "unescape_one len start f ?m d (char_indices (?m + utf8_len d) u) st = (st1, cs)" by fastforce
      then have run: "unescape_loop len start f cs st1 = Some st'" using less.prems Cons True t by simp
      then have "fst st1" using unescape_loop_invalid assms(2) by blast
      then obtain p s' m where "part_ok p" "part_text p @ s' = backslash # d # u" "st1 = append_bytes (part_bytes p) st" "cs = char_indices m s'"
        using unescape_one_valid [OF one] by blast
      then show ?thesis using step [of p s' m] run Cons True t by simp
    qed
  qed
qed

text \<open>
  C8: which literals are valid and what they stand for. A literal is accepted, and then no diagnostic is
  added, exactly if it is a sequence of characters other than a backslash, of the escapes of one letter
  or of a line break, of \<open>x\<close> with two and of \<open>u\<close> with four hexadecimal digits of a
  character; its bytes are those of the characters in UTF-8 and of the escapes.
\<close>

theorem unescape_valid_iff:
  "unescape literal start f diags = Some (True, bs, diags') \<longleftrightarrow>
   diags' = diags \<and> (\<exists>ps. list_all part_ok ps \<and> literal = concat (map part_text ps) \<and> bs = concat (map part_bytes ps))"
proof
  assume "unescape literal start f diags = Some (True, bs, diags')"
  from unescape_loop_valid [OF this [unfolded unescape_def]]
  show "diags' = diags \<and> (\<exists>ps. list_all part_ok ps \<and> literal = concat (map part_text ps) \<and> bs = concat (map part_bytes ps))"
    by (auto simp: append_bytes_def)
next
  assume "diags' = diags \<and> (\<exists>ps. list_all part_ok ps \<and> literal = concat (map part_text ps) \<and> bs = concat (map part_bytes ps))"
  then obtain ps where "diags' = diags" "list_all part_ok ps" "literal = concat (map part_text ps)" "bs = concat (map part_bytes ps)" by blast
  then show "unescape literal start f diags = Some (True, bs, diags')"
    using unescape_parts [of ps "str_len literal" start f 0 "(True, [], diags)"] by (simp add: unescape_def append_bytes_def)
qed


end
