(* ===== verification/StringFormat.thy ===== *)
theory StringFormat
  imports Types Lexer
begin

text \<open>
  Format strings (\<open>src/sema/format.rs\<close>): the literals of \<open>"...".format(...)\<close> are read
  character by character and split into text and places for the arguments.

  The arguments come resolved: an argument is its location, its type and the resolved expression, of
  which the code looks at nothing else. The text of a literal is kept as a string; the code stores its
  bytes. An error is the diagnostic that is pushed.
\<close>

section \<open>Data\<close>

text \<open>A string literal of the parse tree is its location and its text.\<close>

type_synonym string_literal = "Loc \<times> ustring"
type_synonym 'e format_argument = "Loc \<times> Type \<times> 'e"

datatype 'e format_piece = LiteralPiece Loc ustring | ArgumentPiece "'e format_argument"

datatype format_error =
    UnmatchedClose Loc
  | MissingArgument Loc
  | NotAnInteger Loc
  | NotPrintable Loc
  | TooManyArguments Loc
  | UnexpectedChar Loc uchar
  | MissingSpecifier Loc
  | ExpectedClose Loc uchar
  | MissingClose Loc

primrec format_error_message :: "format_error \<Rightarrow> Loc \<times> ustring" where
  "format_error_message (UnmatchedClose loc) = (loc, str ''unmatched '' @ [0x27] @ str ''}'' @ [0x27])"
| "format_error_message (MissingArgument loc) = (loc, str ''missing argument to format'')"
| "format_error_message (NotAnInteger loc) = (loc, str ''argument must be signed or unsigned integer type'')"
| "format_error_message (NotPrintable loc) =
     (loc, str ''argument must be a bool, enum, address, contract, string, or bytes, int, uint'')"
| "format_error_message (TooManyArguments loc) = (loc, str ''too many argument for format string'')"
| "format_error_message (UnexpectedChar loc ch) = (loc, str ''unexpected format char '' @ [0x27, ch, 0x27])"
| "format_error_message (MissingSpecifier loc) = (loc, str ''missing format specifier'')"
| "format_error_message (ExpectedClose loc ch) =
     (loc, str ''unexpected format char '' @ [0x27, ch, 0x27] @ str '', expected closing '' @ [0x27] @ str ''}'' @ [0x27])"
| "format_error_message (MissingClose loc) = (loc, str ''missing closing '' @ [0x27] @ str ''}'' @ [0x27])"

section \<open>The characters of the literals\<close>

definition loc_offset :: "Loc \<Rightarrow> nat \<Rightarrow> Loc" where
  "loc_offset loc i = (case loc of Loc.File file_no start stop \<Rightarrow> Loc.File file_no (start + i) stop | _ \<Rightarrow> loc)"

definition literal_chars :: "string_literal \<Rightarrow> (Loc \<times> uchar) list" where
  "literal_chars sl = map (\<lambda>(i, ch). (loc_offset (fst sl) i, ch)) (char_indices 0 (snd sl))"

text \<open>
  What the iterator yields before its first \<open>None\<close>: behind the last character of a literal it
  looks at one more literal only. The loops stop at the first \<open>None\<close>.
\<close>

fun more_literals :: "string_literal list \<Rightarrow> (Loc \<times> uchar) list" where
  "more_literals [] = []"
| "more_literals (sl # literals) = (if snd sl = [] then [] else literal_chars sl @ more_literals literals)"

definition format_iterator :: "string_literal list \<Rightarrow> (Loc \<times> uchar) list option" where
  "format_iterator literals = (case literals of
       [] \<Rightarrow> None
     | sl # literals \<Rightarrow> Some (literal_chars sl @ more_literals literals))"

section \<open>The format string\<close>

definition expect_close :: "Loc \<Rightarrow> FormatArg \<Rightarrow> (Loc \<times> uchar) list \<Rightarrow> format_error + FormatArg \<times> (Loc \<times> uchar) list" where
  "expect_close last_loc arg cs = (case cs of
       [] \<Rightarrow> Inl (MissingClose last_loc)
     | (loc, ch) # cs \<Rightarrow> if ch = chr CHR ''}'' then Inr (arg, cs) else Inl (ExpectedClose loc ch))"

definition parse_format_specifier :: "Loc \<Rightarrow> (Loc \<times> uchar) list \<Rightarrow> format_error + FormatArg \<times> (Loc \<times> uchar) list" where
  "parse_format_specifier loc cs = (case cs of
       [] \<Rightarrow> Inl (MissingClose loc)
     | (l, ch) # cs \<Rightarrow>
         if ch = chr CHR ''}'' then Inr (FormatArg.Default, cs)
         else if ch = chr CHR '':'' then (case cs of
             [] \<Rightarrow> Inl (MissingSpecifier loc)
           | (l, ch) # cs \<Rightarrow>
               if ch = chr CHR ''x'' then expect_close l FormatArg.Hex cs
               else if ch = chr CHR ''b'' then expect_close l FormatArg.Binary cs
               else if ch = chr CHR ''}'' then Inr (FormatArg.Default, cs)
               else Inl (UnexpectedChar l ch))
         else Inl (UnexpectedChar l ch))"

definition is_integer_arg :: "Type \<Rightarrow> bool" where
  "is_integer_arg ty = (case ty of Type.Uint _ \<Rightarrow> True | Type.Int _ \<Rightarrow> True | Type.Address _ \<Rightarrow> True | _ \<Rightarrow> False)"

definition is_printable_arg :: "Type \<Rightarrow> bool" where
  "is_printable_arg ty = (case ty of
       Type.Uint _ \<Rightarrow> True | Type.Int _ \<Rightarrow> True | Type.Bytes _ \<Rightarrow> True | Type.Enum _ \<Rightarrow> True | Type.Address _ \<Rightarrow> True
     | Type.Contract _ \<Rightarrow> True | Type.String \<Rightarrow> True | Type.DynamicBytes \<Rightarrow> True | Type.Bool \<Rightarrow> True | _ \<Rightarrow> False)"

definition check_format_arg :: "FormatArg \<Rightarrow> 'e format_argument \<Rightarrow> format_error option" where
  "check_format_arg specifier arg = (case arg of (loc, ty, _) \<Rightarrow>
     if specifier = FormatArg.Binary \<or> specifier = FormatArg.Hex then
       (if is_integer_arg (deref_any ty) then None else Some (NotAnInteger loc))
     else if is_printable_arg (deref_any ty) then None else Some (NotPrintable loc))"

definition push_literal :: "Loc \<Rightarrow> ustring \<Rightarrow> (FormatArg \<times> 'e format_piece) list \<Rightarrow> (FormatArg \<times> 'e format_piece) list" where
  "push_literal loc literal format_args =
     (if literal = [] then format_args else format_args @ [(FormatArg.StringLiteral, LiteralPiece loc literal)])"

text \<open>One place for an argument, from behind its opening brace.\<close>

definition format_hole ::
  "Loc \<Rightarrow> (Loc \<times> uchar) list \<Rightarrow> 'e format_argument list \<Rightarrow>
   format_error + (FormatArg \<times> 'e format_argument \<times> (Loc \<times> uchar) list \<times> 'e format_argument list)" where
  "format_hole loc cs args = (case parse_format_specifier loc cs of
       Inl e \<Rightarrow> Inl e
     | Inr (specifier, cs) \<Rightarrow> (case args of
           [] \<Rightarrow> Inl (MissingArgument loc)
         | arg # args \<Rightarrow> (case check_format_arg specifier arg of
               Some e \<Rightarrow> Inl e
             | None \<Rightarrow> Inr (specifier, arg, cs, args))))"

lemma expect_close_length: "expect_close loc arg cs = Inr (a, cs') \<Longrightarrow> length cs' < length cs"
  by (auto simp: expect_close_def split: list.splits if_splits)

lemma parse_format_specifier_length: "parse_format_specifier loc cs = Inr (a, cs') \<Longrightarrow> length cs' < length cs"
  by (auto simp: parse_format_specifier_def split: list.splits if_splits dest!: expect_close_length)

lemma format_hole_length: "format_hole loc cs args = Inr (a, arg, cs', args') \<Longrightarrow> length cs' < length cs"
  by (auto simp: format_hole_def split: sum.splits list.splits option.splits dest: parse_format_specifier_length)

function format_loop ::
  "(Loc \<times> uchar) list \<Rightarrow> 'e format_argument list \<Rightarrow> ustring \<Rightarrow> (FormatArg \<times> 'e format_piece) list \<Rightarrow>
   format_error + ('e format_argument list \<times> ustring \<times> (FormatArg \<times> 'e format_piece) list)" where
  "format_loop [] args literal format_args = Inr (args, literal, format_args)"
| "format_loop ((loc, ch) # cs) args literal format_args =
     (if ch = chr CHR ''}'' then (case cs of
          (_, ch2) # cs2 \<Rightarrow>
            if ch2 = chr CHR ''}'' then format_loop cs2 args (literal @ [ch]) format_args else Inl (UnmatchedClose loc)
        | [] \<Rightarrow> Inl (UnmatchedClose loc))
      else if ch = chr CHR ''{'' then
        (if cs \<noteq> [] \<and> snd (hd cs) = chr CHR ''{'' then format_loop (tl cs) args literal format_args
         else (case format_hole loc cs args of
             Inl e \<Rightarrow> Inl e
           | Inr (specifier, arg, cs, args) \<Rightarrow>
               format_loop cs args [] (push_literal loc literal format_args @ [(specifier, ArgumentPiece arg)])))
      else format_loop cs args (literal @ [ch]) format_args)"
  by pat_completeness auto
termination
  by (relation "measure (\<lambda>(cs, _). length cs)") (auto dest!: format_hole_length)

text \<open>The pieces of the resolved format string. The outer option is the panic when there is no literal.\<close>

definition string_format ::
  "Loc \<Rightarrow> string_literal list \<Rightarrow> 'e format_argument list \<Rightarrow> (format_error + (FormatArg \<times> 'e format_piece) list) option" where
  "string_format loc literals args = do {
     cs \<leftarrow> format_iterator literals;
     Some (case format_loop cs args [] [] of
         Inl e \<Rightarrow> Inl e
       | Inr (args, literal, format_args) \<Rightarrow>
           if args \<noteq> [] then Inl (TooManyArguments loc) else Inr (push_literal loc literal format_args)) }"

section \<open>Reading printed formats\<close>

text \<open>
  A format as a list of texts and places, and its printed form. A closing brace of a text is doubled;
  texts with an opening brace are left out, as the code has no way to write one.
\<close>

datatype part = PartText ustring | PartHole FormatArg

definition escape :: "ustring \<Rightarrow> ustring" where
  "escape s = concat (map (\<lambda>c. if c = chr CHR ''}'' then [c, c] else [c]) s)"

primrec print_part :: "part \<Rightarrow> ustring" where
  "print_part (PartText s) = escape s"
| "print_part (PartHole f) = (case f of
     FormatArg.Hex \<Rightarrow> str ''{:x}'' | FormatArg.Binary \<Rightarrow> str ''{:b}'' | _ \<Rightarrow> str ''{}'')"

fun normal_parts :: "part list \<Rightarrow> bool" where
  "normal_parts [] \<longleftrightarrow> True"
| "normal_parts (PartText s # ps) \<longleftrightarrow> s \<noteq> [] \<and> chr CHR ''{'' \<notin> set s \<and>
     (case ps of PartText _ # _ \<Rightarrow> False | _ \<Rightarrow> True) \<and> normal_parts ps"
| "normal_parts (PartHole f # ps) \<longleftrightarrow> f \<noteq> FormatArg.StringLiteral \<and> normal_parts ps"

text \<open>The pieces that the parts and the arguments stand for.\<close>

fun fill :: "part list \<Rightarrow> 'e format_argument list \<Rightarrow> (FormatArg \<times> (ustring + 'e format_argument)) list option" where
  "fill [] args = (if args = [] then Some [] else None)"
| "fill (PartText s # ps) args = map_option ((#) (FormatArg.StringLiteral, Inl s)) (fill ps args)"
| "fill (PartHole f # ps) (arg # args) =
     (if check_format_arg f arg = None then map_option ((#) (f, Inr arg)) (fill ps args) else None)"
| "fill (PartHole f # ps) [] = None"

primrec piece_content :: "'e format_piece \<Rightarrow> ustring + 'e format_argument" where
  "piece_content (LiteralPiece loc s) = Inl s"
| "piece_content (ArgumentPiece arg) = Inr arg"

abbreviation contents :: "(FormatArg \<times> 'e format_piece) list \<Rightarrow> (FormatArg \<times> (ustring + 'e format_argument)) list" where
  "contents xs \<equiv> map (apsnd piece_content) xs"

lemma escape_simps [simp]: "escape [] = []" "escape (c # s) = (if c = chr CHR ''}'' then [c, c] else [c]) @ escape s"
  by (simp_all add: escape_def)

lemma format_loop_text:
  assumes "map snd cs = escape s @ map snd cs'" "chr CHR ''{'' \<notin> set s"
  shows "\<exists>cs''. map snd cs'' = map snd cs' \<and> format_loop cs args literal fmt = format_loop cs'' args (literal @ s) fmt"
  using assms
proof (induction s arbitrary: cs literal)
  case (Cons c s)
  show ?case
  proof (cases "c = chr CHR ''}''")
    case True
    then obtain l1 l2 rest where "cs = (l1, c) # (l2, c) # rest" "map snd rest = escape s @ map snd cs'"
      using Cons.prems(1) by (auto simp: Cons_eq_map_conv map_eq_Cons_conv)
    then show ?thesis using Cons.IH [of rest "literal @ [c]"] Cons.prems(2) True by simp
  next
    case False
    then obtain l rest where "cs = (l, c) # rest" "map snd rest = escape s @ map snd cs'"
      using Cons.prems(1) by (auto simp: map_eq_Cons_conv)
    then show ?thesis using Cons.IH [of rest "literal @ [c]"] Cons.prems(2) False by simp
  qed
qed auto

lemma format_loop_hole:
  assumes "map snd cs = print_part (PartHole f) @ map snd cs'" "f \<noteq> FormatArg.StringLiteral"
  shows "\<exists>loc cs''. map snd cs'' = map snd cs' \<and> format_loop cs args literal fmt =
    (case args of [] \<Rightarrow> Inl (MissingArgument loc)
     | arg # args \<Rightarrow> (case check_format_arg f arg of Some e \<Rightarrow> Inl e
         | None \<Rightarrow> format_loop cs'' args [] (push_literal loc literal fmt @ [(f, ArgumentPiece arg)])))"
proof -
  have "\<exists>loc rest cs''. cs = (loc, chr CHR ''{'') # rest \<and> rest \<noteq> [] \<and> snd (hd rest) \<noteq> chr CHR ''{'' \<and> map snd cs'' = map snd cs' \<and>
      parse_format_specifier loc rest = Inr (f, cs'')"
    using assms by (cases f) (auto simp: str_def map_eq_Cons_conv parse_format_specifier_def expect_close_def)
  then obtain loc rest cs'' where c: "cs = (loc, chr CHR ''{'') # rest" "rest \<noteq> []" "snd (hd rest) \<noteq> chr CHR ''{''"
    "map snd cs'' = map snd cs'" "parse_format_specifier loc rest = Inr (f, cs'')" by blast
  have "format_loop cs args literal fmt = (case format_hole loc rest args of Inl e \<Rightarrow> Inl e
      | Inr (specifier, arg, cs, args) \<Rightarrow> format_loop cs args [] (push_literal loc literal fmt @ [(specifier, ArgumentPiece arg)]))"
    using c by simp
  also have "\<dots> = (case args of [] \<Rightarrow> Inl (MissingArgument loc)
     | arg # args \<Rightarrow> (case check_format_arg f arg of Some e \<Rightarrow> Inl e
         | None \<Rightarrow> format_loop cs'' args [] (push_literal loc literal fmt @ [(f, ArgumentPiece arg)])))"
    using c(5) by (auto simp: format_hole_def split: list.split option.split)
  finally show ?thesis using c(4) by blast
qed

lemma contents_push: "contents (push_literal loc s fmt) = contents fmt @ (if s = [] then [] else [(FormatArg.StringLiteral, Inl s)])"
  by (simp add: push_literal_def)


definition text_piece :: "ustring \<Rightarrow> (FormatArg \<times> (ustring + 'e format_argument)) list" where
  "text_piece s = (if s = [] then [] else [(FormatArg.StringLiteral, Inl s)])"

text \<open>The loop reads the parts and fills in the arguments, or it meets an error or leaves arguments.\<close>

definition loop_ok ::
  "(FormatArg \<times> (ustring + 'e format_argument)) list option \<Rightarrow> ustring \<Rightarrow> (FormatArg \<times> 'e format_piece) list \<Rightarrow>
   format_error + ('e format_argument list \<times> ustring \<times> (FormatArg \<times> 'e format_piece) list) \<Rightarrow> bool" where
  "loop_ok filled literal fmt r = (case filled of
       Some out \<Rightarrow> \<exists>literal' fmt'. r = Inr ([], literal', fmt') \<and>
         contents fmt' @ text_piece literal' = contents fmt @ text_piece literal @ out
     | None \<Rightarrow> (\<forall>literal' fmt'. r \<noteq> Inr ([], literal', fmt')))"

lemma format_loop_parts:
  assumes "normal_parts ps" "map snd cs = concat (map print_part ps)"
    and "literal \<noteq> [] \<longrightarrow> (case ps of PartText _ # _ \<Rightarrow> False | _ \<Rightarrow> True)"
  shows "loop_ok (fill ps args) literal fmt (format_loop cs args literal fmt)"
  using assms
proof (induction ps args arbitrary: cs literal fmt rule: fill.induct)
  case (1 args)
  then show ?case by (simp add: loop_ok_def text_piece_def)
next
  case (2 s ps args)
  define cs' where "cs' = map (Pair Loc.Codegen) (concat (map print_part ps))"
  have cs': "map snd cs' = concat (map print_part ps)" by (simp add: cs'_def comp_def)
  have s: "literal = []" "s \<noteq> []" "chr CHR ''{'' \<notin> set s" "normal_parts ps" "case ps of PartText _ # _ \<Rightarrow> False | _ \<Rightarrow> True"
    using "2.prems"(1,3) by auto
  obtain cs'' where "map snd cs'' = concat (map print_part ps)" "format_loop cs args literal fmt = format_loop cs'' args s fmt"
    using format_loop_text [of cs s cs' args literal fmt] "2.prems"(2) cs' s(1,3) by auto
  then show ?case using "2.IH" [of cs'' s fmt] s
    by (cases "fill ps args") (auto simp: loop_ok_def text_piece_def)
next
  case (3 f ps arg args)
  define cs' where "cs' = map (Pair Loc.Codegen) (concat (map print_part ps))"
  have cs': "map snd cs' = concat (map print_part ps)" by (simp add: cs'_def comp_def)
  obtain loc cs'' where l: "map snd cs'' = concat (map print_part ps)"
    "format_loop cs (arg # args) literal fmt = (case check_format_arg f arg of Some e \<Rightarrow> Inl e
         | None \<Rightarrow> format_loop cs'' args [] (push_literal loc literal fmt @ [(f, ArgumentPiece arg)]))"
    using format_loop_hole [of cs f cs' "arg # args" literal fmt] "3.prems"(1,2) cs' by auto
  show ?case
  proof (cases "check_format_arg f arg")
    case (Some e)
    then show ?thesis using l(2) by (simp add: loop_ok_def)
  next
    case None
    have "loop_ok (fill ps args) [] (push_literal loc literal fmt @ [(f, ArgumentPiece arg)])
        (format_loop cs'' args [] (push_literal loc literal fmt @ [(f, ArgumentPiece arg)]))"
      using "3.IH" [OF None, of cs''] "3.prems"(1) l(1) by simp
    then show ?thesis using None l(2) by (cases "fill ps args") (auto simp: loop_ok_def contents_push text_piece_def)
  qed
next
  case (4 f ps)
  define cs' where "cs' = map (Pair Loc.Codegen) (concat (map print_part ps))"
  have cs': "map snd cs' = concat (map print_part ps)" by (simp add: cs'_def comp_def)
  obtain loc where "format_loop cs [] literal fmt = Inl (MissingArgument loc)"
    using format_loop_hole [of cs f cs' "[]" literal fmt] "4.prems"(1,2) cs' by auto
  then show ?case by (simp add: loop_ok_def)
qed

lemma map_snd_literal_chars [simp]: "map snd (literal_chars sl) = snd sl"
proof -
  have "map snd (char_indices n s) = s" for n s by (induction s arbitrary: n) auto
  then show ?thesis by (simp add: literal_chars_def comp_def case_prod_unfold)
qed

lemma map_snd_more_literals: "\<forall>sl \<in> set literals. snd sl \<noteq> [] \<Longrightarrow> map snd (more_literals literals) = concat (map snd literals)"
  by (induction literals) auto

text \<open>
  C10: a format string means what it says. When literals spell texts and places for arguments, with the
  closing braces of the texts doubled, and none but the first literal is empty, the result has exactly
  these texts and, in order, the arguments at their places with their format; it is an error if the
  number of arguments is not that of the places or an argument has a type that its place does not take.
\<close>

theorem string_format_exact:
  assumes "normal_parts ps" "concat (map snd (sl # literals)) = concat (map print_part ps)" "\<forall>sl \<in> set literals. snd sl \<noteq> []"
  shows "case fill ps args of
      Some out \<Rightarrow> \<exists>fmt. string_format loc (sl # literals) args = Some (Inr fmt) \<and> map (apsnd piece_content) fmt = out
    | None \<Rightarrow> \<exists>e. string_format loc (sl # literals) args = Some (Inl e)"
proof -
  let ?cs = "literal_chars sl @ more_literals literals"
  have "map snd ?cs = concat (map print_part ps)" using assms(2) map_snd_more_literals [OF assms(3)] by simp
  then have ok: "loop_ok (fill ps args) [] [] (format_loop ?cs args [] [])" by (rule format_loop_parts [OF assms(1)]) simp
  show ?thesis
  proof (cases "fill ps args")
    case None
    then show ?thesis using ok
      by (auto simp: loop_ok_def string_format_def format_iterator_def split: sum.split)
  next
    case (Some out)
    then obtain literal fmt where "format_loop ?cs args [] [] = Inr ([], literal, fmt)" "contents fmt @ text_piece literal = out"
      using ok by (auto simp: loop_ok_def text_piece_def)
    then show ?thesis using Some by (simp add: string_format_def format_iterator_def contents_push text_piece_def)
  qed
qed

theorem string_format_exact_witness:
  "\<exists>fmt. string_format Loc.Codegen [(Loc.Codegen, str ''a}}''), (Loc.Codegen, str ''{:x}b'')] [(Loc.Codegen, Type.Uint 8, ())] = Some (Inr fmt) \<and>
     map (apsnd piece_content) fmt = [(FormatArg.StringLiteral, Inl (str ''a}'')),
       (FormatArg.Hex, Inr (Loc.Codegen, Type.Uint 8, ())), (FormatArg.StringLiteral, Inl (str ''b''))]"
  using string_format_exact [where ps = "[PartText (str ''a}''), PartHole FormatArg.Hex, PartText (str ''b'')]"
      and sl = "(Loc.Codegen, str ''a}}'')" and literals = "[(Loc.Codegen, str ''{:x}b'')]"
      and args = "[(Loc.Codegen, Type.Uint 8, ())]" and loc = Loc.Codegen]
  by (simp add: str_def check_format_arg_def is_integer_arg_def deref_any_def)

text \<open>
  Two format strings lose text. The escape \<open>{{\<close> stands for nothing, and the literals from an
  empty one on, other than the first, are not read.
\<close>

theorem format_text_lost:
  "string_format loc [(Loc.Codegen, str ''a{{b}}'')] ([] :: unit format_argument list) =
     Some (Inr [(FormatArg.StringLiteral, LiteralPiece loc (str ''ab}''))]) \<and>
   string_format loc [(Loc.Codegen, str ''a''), (Loc.Codegen, []), (Loc.Codegen, str ''b'')] ([] :: unit format_argument list) =
     Some (Inr [(FormatArg.StringLiteral, LiteralPiece loc (str ''a''))])"
  by (simp add: string_format_def format_iterator_def literal_chars_def str_def push_literal_def)

end
