(* ===== verification/Strings.thy ===== *)
theory Strings
  imports LexerSound
begin

text \<open>
  The string functions of the standard library that the parser and the formatter use: trimming,
  splitting into lines, searching and slicing, with byte offsets.
\<close>

section \<open>Functions\<close>

definition trim_start :: "ustring \<Rightarrow> ustring" where
  "trim_start s = dropWhile is_whitespace s"

definition trim_end :: "ustring \<Rightarrow> ustring" where
  "trim_end s = rev (dropWhile is_whitespace (rev s))"

definition trim :: "ustring \<Rightarrow> ustring" where
  "trim s = trim_end (trim_start s)"

definition strip_cr :: "ustring \<Rightarrow> ustring" where
  "strip_cr s = (if s \<noteq> [] \<and> last s = carriage_return then butlast s else s)"

text \<open>\<open>lines\<close>: a line ends with a line feed, alone or after a carriage return; the last may have none.\<close>

fun str_lines_from :: "ustring \<Rightarrow> ustring \<Rightarrow> ustring list" where
  "str_lines_from line [] = (if line = [] then [] else [line])"
| "str_lines_from line (c # s) =
     (if c = newline then strip_cr line # str_lines_from [] s else str_lines_from (line @ [c]) s)"

definition str_lines :: "ustring \<Rightarrow> ustring list" where
  "str_lines s = str_lines_from [] s"

text \<open>\<open>find\<close>: the offset of the first character that satisfies a test.\<close>

definition find_char :: "(uchar \<Rightarrow> bool) \<Rightarrow> ustring \<Rightarrow> nat option" where
  "find_char P s = map_option fst (find (\<lambda>(_, c). P c) (char_indices 0 s))"

definition slice_from :: "ustring \<Rightarrow> nat \<Rightarrow> ustring option" where
  "slice_from s a = slice s a (str_len s)"

section \<open>Finding and slicing\<close>

lemma find_char_Some:
  assumes "find_char P s = Some i"
  obtains a c b where "s = a @ c # b" "i = str_len a" "P c" "\<forall>x \<in> set a. \<not> P x"
proof -
  have "\<exists>a c b. s = a @ c # b \<and> i = n + str_len a \<and> P c \<and> (\<forall>x \<in> set a. \<not> P x)"
    if "map_option fst (find (\<lambda>(_, c). P c) (char_indices n s)) = Some i" for n
    using that
  proof (induction s arbitrary: n)
    case (Cons x s)
    show ?case
    proof (cases "P x")
      case True
      then show ?thesis using Cons.prems by (intro exI [of _ "[]"]) simp
    next
      case False
      then obtain a c b where "s = a @ c # b" "i = n + utf8_len x + str_len a" "P c" "\<forall>x \<in> set a. \<not> P x"
        using Cons.IH [of "n + utf8_len x"] Cons.prems by auto
      then show ?thesis using False by (intro exI [of _ "x # a"]) auto
    qed
  qed simp
  then show ?thesis using assms that by (fastforce simp: find_char_def)
qed

lemma find_char_None: "find_char P s = None \<Longrightarrow> x \<in> set s \<Longrightarrow> \<not> P x"
proof -
  have "map_option fst (find (\<lambda>(_, c). P c) (char_indices n s)) = None \<Longrightarrow> x \<in> set s \<Longrightarrow> \<not> P x" for n
    by (induction s arbitrary: n) (auto split: if_splits)
  then show "find_char P s = None \<Longrightarrow> x \<in> set s \<Longrightarrow> \<not> P x" by (auto simp: find_char_def)
qed

lemma slice_from_append: "slice_from (a @ b) (str_len a) = Some b"
  using slice_append [of a b "[]"] by (simp add: slice_from_def)

lemma slice_fromI: "s = a @ b \<Longrightarrow> n = str_len a \<Longrightarrow> slice_from s n = Some b"
  using slice_from_append by simp

text \<open>An offset inside a character.\<close>

lemma split_bytes_inside: "0 < k \<Longrightarrow> k < utf8_len c \<Longrightarrow> split_bytes (str_len a + k) (a @ c # b) = None"
  by (induction a) auto

lemma slice_from_inside: "0 < k \<Longrightarrow> k < utf8_len c \<Longrightarrow> slice_from (a @ c # b) (str_len a + k) = None"
  by (simp add: slice_from_def slice_def split_bytes_inside)

text \<open>The loop over the name of a tag stops at the offset of its last character.\<close>

lemma eat_last:
  "eat P (char_indices n s) e = (if takeWhile P s = [] then e else n + str_len (butlast (takeWhile P s)),
     char_indices (n + str_len (takeWhile P s)) (dropWhile P s))"
  by (induction s arbitrary: n e) (auto simp: add.assoc)

lemma find_char_skip:
  assumes "\<forall>x \<in> set a. \<not> P x" "P c"
  shows "find_char P (a @ c # b) = Some (str_len a)"
proof -
  have "map_option fst (find (\<lambda>(_, c). P c) (char_indices n (a @ c # b))) = Some (n + str_len a)" for n
    using assms(1)
  proof (induction a arbitrary: n)
    case (Cons x a)
    then show ?case using Cons.IH [of "n + utf8_len x"] by (simp add: add.assoc)
  qed (use assms(2) in simp)
  from this [of 0] show ?thesis by (simp add: find_char_def)
qed

section \<open>Trimming\<close>

lemma trim_end_Cons: "\<not> is_whitespace c \<Longrightarrow> trim_end (c # s) = c # trim_end s"
  by (auto simp: trim_end_def dropWhile_append)

lemma trim_end_suffix: "\<exists>w. s = trim_end s @ w \<and> list_all is_whitespace w"
proof (intro exI conjI)
  have "rev (takeWhile is_whitespace (rev s) @ dropWhile is_whitespace (rev s)) =
      rev (dropWhile is_whitespace (rev s)) @ rev (takeWhile is_whitespace (rev s))" by (rule rev_append)
  then show "s = trim_end s @ rev (takeWhile is_whitespace (rev s))" by (simp add: trim_end_def)
  show "list_all is_whitespace (rev (takeWhile is_whitespace (rev s)))"
    by (auto simp: list_all_iff dest: set_takeWhileD)
qed

lemma trim_end_last: "trim_end s = [] \<or> \<not> is_whitespace (last (trim_end s))"
  using hd_dropWhile [of is_whitespace "rev s"] by (auto simp: trim_end_def last_rev)

lemma trim_end_same: "s = [] \<or> \<not> is_whitespace (last s) \<Longrightarrow> trim_end s = s"
  by (cases s rule: rev_cases) (auto simp: trim_end_def)

end
