(* ===== verification/DocComment.thy ===== *)
theory DocComment
  imports Strings LexerLossless
begin

text \<open>
  Documentation comments (\<open>solang-parser/src/doccomment.rs\<close>): the comments of the lexer are
  stripped of their markers and split into tags with values. Offsets are byte offsets; a slice at an
  offset that is not the start of a character panics (\<open>None\<close>).
\<close>

section \<open>Locations\<close>

definition loc_start :: "Loc \<Rightarrow> nat option" where
  "loc_start loc = (case loc of Loc.File _ a _ \<Rightarrow> Some a | _ \<Rightarrow> None)"

definition loc_end :: "Loc \<Rightarrow> nat option" where
  "loc_end loc = (case loc of Loc.File _ _ b \<Rightarrow> Some b | _ \<Rightarrow> None)"

section \<open>Tags\<close>

record DocCommentTag =
  dc_tag :: ustring
  dc_tag_offset :: nat
  dc_value :: ustring
  dc_value_offset :: nat

datatype DocComment = DocTag DocCommentTag | DocTags "DocCommentTag list"

definition doc_comments :: "DocComment \<Rightarrow> DocCommentTag list" where
  "doc_comments d = (case d of DocTag t \<Rightarrow> [t] | DocTags ts \<Rightarrow> ts)"

datatype CommentType = LineType | BlockType

fun block_lines :: "nat \<Rightarrow> ustring list \<Rightarrow> (nat \<times> ustring) list option" where
  "block_lines start [] = Some []"
| "block_lines start (s # ss) = do {
     rest \<leftarrow> block_lines (start + str_len s + 1) ss;
     (case find_char (\<lambda>c. \<not> is_whitespace c \<and> c \<noteq> chr CHR ''*'') s of
        Some i \<Rightarrow> do { t \<leftarrow> slice_from s i; Some ((start + i, trim_end t) # rest) }
      | None \<Rightarrow> Some rest) }"

definition filter_comment :: "nat \<Rightarrow> nat \<Rightarrow> Comment \<Rightarrow> (CommentType \<times> (nat \<times> ustring) list) option option" where
  "filter_comment start stop comment = (case comment of
       Block _ _ \<Rightarrow> Some None
     | Line _ _ \<Rightarrow> Some None
     | DocLine loc text \<Rightarrow> do {
         a \<leftarrow> loc_start loc;
         b \<leftarrow> loc_end loc;
         (if a \<ge> stop \<or> b < start then Some None
          else (let leading = (case find_char (\<lambda>c. c \<noteq> chr CHR ''/'' \<and> \<not> is_whitespace c) text of Some i \<Rightarrow> i | None \<Rightarrow> 3) in do {
            t \<leftarrow> slice_from text leading;
            Some (Some (LineType, [(a + leading, trim_end t)])) })) }
     | DocBlock loc text \<Rightarrow> do {
         a \<leftarrow> loc_start loc;
         b \<leftarrow> loc_end loc;
         (if a \<ge> stop \<or> b < start then Some None
          else if str_len text < 2 then None
          else do {
            inner \<leftarrow> slice text 3 (str_len text - 2);
            ls \<leftarrow> block_lines (a + 3) (str_lines inner);
            Some (Some (BlockType, ls)) }) })"

text \<open>A line with a tag: \<open>@\<close>, the name up to white space, and the value.\<close>

definition parse_tag :: "nat \<Rightarrow> ustring \<Rightarrow> DocCommentTag option" where
  "parse_tag start_offset line =
     (let (tag_end, _) = eat (\<lambda>c. \<not> is_whitespace c) (tl (char_indices 0 line)) 0 in do {
        after \<leftarrow> slice_from line (tag_end + 1);
        name \<leftarrow> slice line 1 (tag_end + 1);
        (let leading = length (takeWhile is_whitespace after) in
         Some \<lparr>dc_tag = name, dc_tag_offset = start_offset + 1, dc_value = trim after,
           dc_value_offset = start_offset + tag_end + leading + 1\<rparr>) })"

definition append_value :: "ustring \<Rightarrow> DocCommentTag \<Rightarrow> DocCommentTag" where
  "append_value line t = t\<lparr>dc_value := dc_value t @ [newline] @ line\<rparr>"

definition update_last :: "('a \<Rightarrow> 'a) \<Rightarrow> 'a list \<Rightarrow> 'a list" where
  "update_last f xs = (if xs = [] then [] else butlast xs @ [f (last xs)])"

text \<open>A line without a tag goes to the last tag before it, of this comment or of an earlier one.\<close>

definition continue_tag :: "ustring \<Rightarrow> DocCommentTag list \<times> DocComment list \<Rightarrow> DocCommentTag list \<times> DocComment list" where
  "continue_tag line = (\<lambda>(single_tags, tags).
     if single_tags \<noteq> [] then (update_last (append_value line) single_tags, tags)
     else (single_tags, update_last (\<lambda>d. case d of
         DocTag t \<Rightarrow> DocTag (append_value line t)
       | DocTags ts \<Rightarrow> DocTags (update_last (append_value line) ts)) tags))"

definition parse_line ::
  "nat \<times> ustring \<Rightarrow> DocCommentTag list \<times> DocComment list \<Rightarrow> (DocCommentTag list \<times> DocComment list) option" where
  "parse_line = (\<lambda>(start_offset, line) (single_tags, tags).
     if line \<noteq> [] \<and> hd line = chr CHR ''@'' then do {
       t \<leftarrow> parse_tag start_offset line;
       Some (single_tags @ [t], tags) }
     else if single_tags \<noteq> [] \<or> tags \<noteq> [] then
       (let l = trim line in Some (if l \<noteq> [] then continue_tag l (single_tags, tags) else (single_tags, tags)))
     else
       (let leading = length (takeWhile is_whitespace line);
            offset = start_offset + start_offset + leading in
        Some (single_tags @ [\<lparr>dc_tag = str ''notice'', dc_tag_offset = offset, dc_value = trim line, dc_value_offset = offset\<rparr>], tags)))"

fun parse_lines ::
  "(nat \<times> ustring) list \<Rightarrow> DocCommentTag list \<times> DocComment list \<Rightarrow> (DocCommentTag list \<times> DocComment list) option" where
  "parse_lines [] st = Some st"
| "parse_lines (l # ls) st = do { st \<leftarrow> parse_line l st; parse_lines ls st }"

definition finish_comment :: "CommentType \<Rightarrow> DocCommentTag list \<times> DocComment list \<Rightarrow> DocComment list" where
  "finish_comment ty = (\<lambda>(single_tags, tags). case ty of
       LineType \<Rightarrow> if single_tags \<noteq> [] then tags @ [DocTag (hd single_tags)] else tags
     | BlockType \<Rightarrow> tags @ [DocTags single_tags])"

fun parse_comments :: "nat \<Rightarrow> nat \<Rightarrow> Comment list \<Rightarrow> DocComment list \<Rightarrow> DocComment list option" where
  "parse_comments start stop [] tags = Some tags"
| "parse_comments start stop (c # cs) tags = do {
     f \<leftarrow> filter_comment start stop c;
     (case f of
        None \<Rightarrow> parse_comments start stop cs tags
      | Some (ty, comment_lines) \<Rightarrow> do {
          st \<leftarrow> parse_lines comment_lines ([], tags);
          parse_comments start stop cs (finish_comment ty st) }) }"

definition parse_doccomments :: "Comment list \<Rightarrow> nat \<Rightarrow> nat \<Rightarrow> DocComment list option" where
  "parse_doccomments comments start stop = parse_comments start stop comments []"

section \<open>When a comment can be parsed\<close>

definition tag_name :: "ustring \<Rightarrow> ustring" where
  "tag_name v = takeWhile (\<lambda>c. \<not> is_whitespace c) v"

definition bad_tag :: "ustring \<Rightarrow> bool" where
  "bad_tag line \<longleftrightarrow> (case line of [] \<Rightarrow> False
     | c # v \<Rightarrow> c = chr CHR ''@'' \<and> tag_name v \<noteq> [] \<and> 128 \<le> last (tag_name v))"

definition tag_value :: "ustring \<Rightarrow> ustring" where
  "tag_value v = dropWhile (\<lambda>c. \<not> is_whitespace c) v"

lemma parse_tag_Some:
  assumes "\<not> bad_tag (chr CHR ''@'' # v)"
  shows "parse_tag start (chr CHR ''@'' # v) = Some \<lparr>dc_tag = tag_name v, dc_tag_offset = start + 1, dc_value = trim (tag_value v),
    dc_value_offset = start + str_len (tag_name v) + length (takeWhile is_whitespace (tag_value v)) + 1\<rparr>"
proof -
  let ?a = "chr CHR ''@''" and ?t = "tag_name v"
  define e where "e = (if ?t = [] then 0 else 1 + str_len (butlast ?t))"
  have "str_len ?t = str_len (butlast ?t) + utf8_len (last ?t)" if "?t \<noteq> []"
    using that by (metis append_butlast_last_id str_len_simps add.right_neutral)
  then have e: "e + 1 = str_len (?a # ?t)" using assms by (auto simp: e_def bad_tag_def)
  have v: "?a # v = (?a # ?t) @ tag_value v" by (simp add: tag_name_def tag_value_def)
  have "slice_from (?a # v) (e + 1) = Some (tag_value v)" using slice_fromI [OF v e] .
  moreover have "slice (?a # v) 1 (e + 1) = Some ?t"
    by (rule sliceI [of _ "[?a]" ?t "tag_value v"]) (use e in \<open>simp_all add: tag_name_def tag_value_def\<close>)
  moreover have "fst (eat (\<lambda>c. \<not> is_whitespace c) (tl (char_indices 0 (?a # v))) 0) = e"
    by (simp add: eat_last e_def tag_name_def)
  ultimately show ?thesis using e by (simp add: parse_tag_def case_prod_unfold Let_def)
qed

lemma parse_tag_None:
  assumes "bad_tag (chr CHR ''@'' # v)"
  shows "parse_tag start (chr CHR ''@'' # v) = None"
proof -
  let ?a = "chr CHR ''@''" and ?t = "tag_name v"
  have t: "?t \<noteq> []" "128 \<le> last ?t" using assms by (simp_all add: bad_tag_def)
  have v: "?a # v = (?a # butlast ?t) @ last ?t # tag_value v"
  proof -
    have "v = ?t @ tag_value v" by (simp add: tag_name_def tag_value_def)
    also have "?t = butlast ?t @ [last ?t]" using t(1) by simp
    finally show ?thesis by simp
  qed
  have "1 < utf8_len (last ?t)" using t(2) by (simp add: utf8_len_def)
  from slice_from_inside [OF _ this, of "?a # butlast ?t" "tag_value v"]
  have "slice_from (?a # v) (str_len (?a # butlast ?t) + 1) = None" unfolding v by simp
  moreover have "fst (eat (\<lambda>c. \<not> is_whitespace c) (tl (char_indices 0 (?a # v))) 0) = str_len (?a # butlast ?t)"
    using t(1) by (simp add: eat_last tag_name_def)
  ultimately show ?thesis by (simp add: parse_tag_def case_prod_unfold Let_def)
qed

lemma parse_line_None: "parse_line (n, line) st = None \<longleftrightarrow> bad_tag line"
proof (cases "line \<noteq> [] \<and> hd line = chr CHR ''@''")
  case True
  then obtain v where "line = chr CHR ''@'' # v" by (cases line) auto
  then show ?thesis using parse_tag_Some [of v n] parse_tag_None [of v n]
    by (cases "bad_tag line") (auto simp: parse_line_def split: prod.splits)
next
  case False
  then show ?thesis by (auto simp: parse_line_def bad_tag_def Let_def split: prod.splits list.splits)
qed

lemma parse_lines_None: "parse_lines ls st = None \<longleftrightarrow> (\<exists>(n, line) \<in> set ls. bad_tag line)"
proof (induction ls arbitrary: st)
  case (Cons l ls)
  obtain n line where l: "l = (n, line)" by fastforce
  show ?case
  proof (cases "parse_line l st")
    case None
    then show ?thesis using parse_line_None [of n line st] l by auto
  next
    case (Some st')
    then have "\<not> bad_tag line" using parse_line_None [of n line st] l by auto
    then show ?thesis using Some Cons [of st'] l by simp
  qed
qed simp

lemma parse_comments_None:
  assumes "\<forall>c \<in> set cs. filter_comment start stop c \<noteq> None"
  shows "parse_comments start stop cs tags = None \<longleftrightarrow>
    (\<exists>c \<in> set cs. \<exists>ty ls. filter_comment start stop c = Some (Some (ty, ls)) \<and> (\<exists>(n, line) \<in> set ls. bad_tag line))"
  using assms
proof (induction cs arbitrary: tags)
  case (Cons c cs)
  then obtain f where f: "filter_comment start stop c = Some f" by auto
  show ?case
  proof (cases f)
    case None
    then show ?thesis using f Cons by simp
  next
    case (Some p)
    obtain ty ls where p: "p = (ty, ls)" by fastforce
    show ?thesis
    proof (cases "parse_lines ls ([], tags)")
      case None
      then show ?thesis using f Some p parse_lines_None [of ls "([], tags)"] by auto
    next
      case (Some st)
      then have "\<not> (\<exists>(n, line) \<in> set ls. bad_tag line)" using parse_lines_None [of ls "([], tags)"] by simp
      then show ?thesis using f \<open>f = Some p\<close> p Some Cons by auto
    qed
  qed
qed simp

lemma block_lines_total: "\<exists>ls. block_lines n ss = Some ls"
proof (induction ss arbitrary: n)
  case (Cons s ss)
  obtain ls where ls: "block_lines (n + str_len s + 1) ss = Some ls" using Cons by blast
  show ?case
  proof (cases "find_char (\<lambda>c. \<not> is_whitespace c \<and> c \<noteq> chr CHR ''*'') s")
    case (Some i)
    then obtain a c b where "s = a @ c # b" "i = str_len a" by (elim find_char_Some)
    then show ?thesis using ls Some slice_from_append [of a "c # b"] by simp
  qed (use ls in simp)
qed simp

lemma filter_comment_lexed:
  assumes "comment_of f a u c"
  shows "filter_comment start stop c \<noteq> None"
proof -
  let ?loc = "Loc.File f a (a + str_len u)"
  consider "c \<in> {Line ?loc u, Block ?loc u}" | (line) v where "c = DocLine ?loc u" "u = str ''///'' @ v"
    | (block) v where "c = DocBlock ?loc u" "u = str ''/**'' @ v @ str ''*/''"
    using assms by (auto simp: comment_of_def Let_def)
  then show ?thesis
  proof cases
    case line
    let ?P = "\<lambda>c. c \<noteq> chr CHR ''/'' \<and> \<not> is_whitespace c"
    have "slice_from u 3 = Some v" by (rule slice_fromI [OF line(2)]) (simp add: str_def)
    moreover have "slice_from u i \<noteq> None" if "find_char ?P u = Some i" for i
      using that by (elim find_char_Some) (auto simp: slice_from_append)
    ultimately show ?thesis using line(1)
      by (auto simp: filter_comment_def loc_start_def loc_end_def Let_def split: option.splits bind_splits)
  next
    case block
    have len: "str_len u = 3 + str_len v + 2" by (simp add: block(2) str_def)
    have "slice u 3 (str_len u - 2) = Some v" by (rule sliceI [of _ "str ''/**''" v "str ''*/''"]) (simp_all add: block(2) str_def)
    then show ?thesis using block(1) len block_lines_total [of "a + 3" "str_lines v"]
      by (auto simp: filter_comment_def loc_start_def loc_end_def)
  qed (auto simp: filter_comment_def)
qed

lemma lexed_comments: "lexed f pre s ts cs \<Longrightarrow> c \<in> set cs \<Longrightarrow> \<exists>a u. comment_of f a u c"
  by (induction rule: lexed.induct) auto

text \<open>
  C36: when documentation comments can be parsed. For the comments that the lexer records in a text
  without lexical errors, parsing panics exactly when a line of a documentation comment in the range
  starts with a tag whose name ends with a character outside ASCII; every other slice it takes starts
  and ends at a character.
\<close>

theorem doccomments_panic_iff:
  assumes "lexer_collect U (lexer_new input f [] []) = Some (ts, st)" "lx_errors st = []"
  shows "parse_doccomments (lx_comments st) start stop = None \<longleftrightarrow>
    (\<exists>c \<in> set (lx_comments st). \<exists>ty ls. filter_comment start stop c = Some (Some (ty, ls)) \<and> (\<exists>(n, line) \<in> set ls. bad_tag line))"
proof -
  have "lexed f [] input ts (lx_comments st)"
    using collect_ok [OF lexer_new_pos, of U input f "[]" "[]"] assms by (auto simp: lexer_new_def)
  then have "\<forall>c \<in> set (lx_comments st). filter_comment start stop c \<noteq> None"
    using lexed_comments filter_comment_lexed by metis
  then show ?thesis unfolding parse_doccomments_def by (rule parse_comments_None)
qed

text \<open>A comment with the tag e with an accent, whose name takes two bytes.\<close>

definition accent_comment :: ustring where
  "accent_comment = str ''/// @'' @ [0xe9]"

lemma accent_lexed:
  "map_option (\<lambda>(ts, st). (ts, lx_comments st, lx_errors st)) (lexer_collect ascii_tables (lexer_new accent_comment 0 [] [])) =
   Some ([], [DocLine (Loc.File 0 0 7) accent_comment], [])"
  by code_simp

lemmas doc_simps = filter_comment_def loc_start_def loc_end_def str_def find_char_def slice_from_def slice_def
  is_whitespace_def trim_end_def trim_start_def trim_def

theorem doccomments_panic_iff_witness:
  "\<exists>ts st. lexer_collect ascii_tables (lexer_new accent_comment 0 [] []) = Some (ts, st) \<and> lx_errors st = [] \<and>
    parse_doccomments (lx_comments st) 0 7 = None"
proof -
  obtain ts st where run: "lexer_collect ascii_tables (lexer_new accent_comment 0 [] []) = Some (ts, st)"
    "lx_comments st = [DocLine (Loc.File 0 0 7) accent_comment]" "lx_errors st = []" using accent_lexed by auto
  have "filter_comment 0 7 (DocLine (Loc.File 0 0 7) accent_comment) = Some (Some (LineType, [(4, [64, 0xe9])]))"
    by (simp add: doc_simps accent_comment_def utf8_len_def)
  moreover have "bad_tag [64, 0xe9]" by (simp add: bad_tag_def tag_name_def is_whitespace_def)
  ultimately show ?thesis using doccomments_panic_iff [OF run(1,3), of 0 7] run by auto
qed

section \<open>Offsets\<close>

lemma at_not_space [simp]: "\<not> is_whitespace 64" "\<not> is_whitespace 47"
  by (simp_all add: is_whitespace_def)

text \<open>The value of a trimmed line follows the white space after the name.\<close>

lemma trim_tag_value:
  assumes "v = [] \<or> \<not> is_whitespace (last v)"
  shows "tag_value v = takeWhile is_whitespace (tag_value v) @ trim (tag_value v)"
proof -
  let ?r = "dropWhile is_whitespace (tag_value v)"
  have "?r = [] \<or> last ?r = last v"
  proof (cases "?r = []")
    case False
    have "v = tag_name v @ takeWhile is_whitespace (tag_value v) @ ?r" by (simp add: tag_name_def tag_value_def)
    then have "last v = last (tag_name v @ takeWhile is_whitespace (tag_value v) @ ?r)" by (rule arg_cong)
    also have "\<dots> = last ?r" using False by (simp only: last_append append_is_Nil_conv simp_thms if_False)
    finally show ?thesis by simp
  qed simp
  moreover have "?r = [] \<or> v \<noteq> []" by (auto simp: tag_value_def)
  ultimately have "trim_end ?r = ?r" using assms by (intro trim_end_same) auto
  then show ?thesis by (simp add: trim_def trim_start_def)
qed

text \<open>
  C11: the offsets of a tag point at its text. For a line comment at some place of the source that has
  a tag, the offset of the tag is where its name is in the source, and the offset of the value is where
  the value is, when the white space of the comment is ASCII.
\<close>

theorem doc_tag_offsets:
  assumes "u = str ''///'' @ w @ chr CHR ''@'' # v" "list_all (\<lambda>c. c = chr CHR ''/'' \<or> is_whitespace c) w"
    and "input = pre @ u @ rest" "start \<le> str_len pre + str_len u" "str_len pre < stop"
    and "\<not> bad_tag (chr CHR ''@'' # trim_end v)" "\<forall>c \<in> set v. is_whitespace c \<longrightarrow> c < 128"
  shows "\<exists>t. parse_doccomments [DocLine (Loc.File f (str_len pre) (str_len pre + str_len u)) u] start stop = Some [DocTag t] \<and>
    dc_tag t = tag_name (trim_end v) \<and> dc_value t = trim (tag_value (trim_end v)) \<and>
    slice input (dc_tag_offset t) (dc_tag_offset t + str_len (dc_tag t)) = Some (dc_tag t) \<and>
    slice input (dc_value_offset t) (dc_value_offset t + str_len (dc_value t)) = Some (dc_value t)"
proof -
  let ?a = "chr CHR ''@''" and ?lead = "str ''///'' @ w" and ?v = "trim_end v"
  let ?P = "\<lambda>c. c \<noteq> chr CHR ''/'' \<and> \<not> is_whitespace c"
  have u: "u = ?lead @ ?a # v" using assms(1) by simp
  have "find_char ?P u = Some (str_len ?lead)"
    unfolding u by (rule find_char_skip) (use assms(2) in \<open>auto simp: str_def list_all_iff\<close>)
  moreover have "slice_from u (str_len ?lead) = Some (?a # v)" unfolding u by (rule slice_from_append)
  ultimately have filter: "filter_comment start stop (DocLine (Loc.File f (str_len pre) (str_len pre + str_len u)) u) =
      Some (Some (LineType, [(str_len pre + str_len ?lead, ?a # ?v)]))"
    using assms(4,5) trim_end_Cons [of ?a v] by (simp add: filter_comment_def loc_start_def loc_end_def)
  let ?ws = "takeWhile is_whitespace (tag_value ?v)" and ?start = "str_len pre + str_len ?lead"
  define t where "t = \<lparr>dc_tag = tag_name ?v, dc_tag_offset = ?start + 1, dc_value = trim (tag_value ?v),
    dc_value_offset = ?start + str_len (tag_name ?v) + length ?ws + 1\<rparr>"
  have "parse_tag ?start (?a # ?v) = Some t" unfolding t_def by (rule parse_tag_Some [OF assms(6)])
  then have parse: "parse_doccomments [DocLine (Loc.File f (str_len pre) (str_len pre + str_len u)) u] start stop = Some [DocTag t]"
    using filter by (simp add: parse_doccomments_def parse_line_def finish_comment_def)
  obtain z where z: "v = ?v @ z" using trim_end_suffix by blast
  have val: "tag_value ?v = ?ws @ trim (tag_value ?v)" by (rule trim_tag_value [OF trim_end_last])
  have "?v = tag_name ?v @ tag_value ?v" by (simp add: tag_name_def tag_value_def)
  then have inp: "input = pre @ ?lead @ ?a # tag_name ?v @ ?ws @ trim (tag_value ?v) @ z @ rest"
    using z val assms(3) u by (metis append.assoc append_Cons)
  have "set ?ws \<subseteq> set v" using z set_takeWhileD set_dropWhileD by (metis (no_types, lifting) Un_iff set_append subsetI tag_value_def)
  then have "str_len ?ws = length ?ws" using assms(7) by (intro str_len_ascii) (auto dest: set_takeWhileD)
  then have "slice input (dc_value_offset t) (dc_value_offset t + str_len (dc_value t)) = Some (dc_value t)"
    by (intro sliceI [of _ "pre @ ?lead @ ?a # tag_name ?v @ ?ws" _ "z @ rest"]) (simp_all add: t_def inp)
  moreover have "slice input (dc_tag_offset t) (dc_tag_offset t + str_len (dc_tag t)) = Some (dc_tag t)"
    by (intro sliceI [of _ "pre @ ?lead @ [?a]" _ "?ws @ trim (tag_value ?v) @ z @ rest"]) (simp_all add: t_def inp)
  ultimately show ?thesis using parse by (intro exI [of _ t]) (simp add: t_def)
qed

theorem doc_tag_offsets_witness:
  "\<exists>t. parse_doccomments [DocLine (Loc.File 0 (str_len (str ''; '')) (str_len (str ''; '') + str_len (str ''/// @dev hi ''))) (str ''/// @dev hi '')] 0 20 =
      Some [DocTag t] \<and> dc_tag t = str ''dev'' \<and> dc_value t = str ''hi'' \<and>
    slice (str ''; /// @dev hi '') (dc_tag_offset t) (dc_tag_offset t + str_len (dc_tag t)) = Some (dc_tag t) \<and>
    slice (str ''; /// @dev hi '') (dc_value_offset t) (dc_value_offset t + str_len (dc_value t)) = Some (dc_value t)"
proof -
  have v: "trim_end (str ''dev hi '') = str ''dev hi''" by (simp add: trim_end_def str_def is_whitespace_def)
  have t: "tag_name (str ''dev hi'') = str ''dev''" "trim (tag_value (str ''dev hi'')) = str ''hi''"
    by (simp_all add: tag_name_def tag_value_def trim_def trim_start_def trim_end_def str_def is_whitespace_def)
  have "\<not> bad_tag (chr CHR ''@'' # trim_end (str ''dev hi ''))"
    unfolding v bad_tag_def list.case t by (simp add: str_def)
  from doc_tag_offsets [of "str ''/// @dev hi ''" "str '' ''" "str ''dev hi ''" "str ''; /// @dev hi ''" "str ''; ''" "[]" 0 20 0, OF _ _ _ _ _ this]
  show ?thesis unfolding v t by (simp add: str_def is_whitespace_def)
qed

text \<open>
  The offset of a comment without a tag is wrong. A documentation comment whose text has no tag is
  a notice; its offset is the offset of the text added to itself. In \<open>; /// hi\<close> the text is at
  offset 6 and the notice gets the offset 12, behind the end of the source.
\<close>

theorem notice_offset_doubled:
  "parse_doccomments [DocLine (Loc.File 0 2 8) (str ''/// hi'')] 0 8 =
     Some [DocTag \<lparr>dc_tag = str ''notice'', dc_tag_offset = 12, dc_value = str ''hi'', dc_value_offset = 12\<rparr>] \<and>
   slice (str ''; /// hi'') 6 8 = Some (str ''hi'') \<and> slice (str ''; /// hi'') 12 14 = None"
  by (simp add: doc_simps parse_doccomments_def parse_line_def finish_comment_def)

end
