(* ===== verification/FmtText.thy ===== *)
theory FmtText
  imports Strings
begin

text \<open>
  The text machinery of the source formatter (\<open>fmt/src\<close>): the scanners that follow quoted
  strings (\<open>string.rs\<close>) and comments (\<open>comments.rs\<close>), and the buffer that indents
  what is written to it (\<open>buffer.rs\<close>), over a \<open>String\<close>.

  An iterator is the list of the items it yields. A slice at an offset inside a character panics
  (\<open>None\<close>); a write that the buffer refuses returns an error.
\<close>

section \<open>Quoted strings\<close>

datatype QuoteState = QNone | Opening uchar | QString uchar | Escaping uchar | Escaped uchar | Closing uchar

definition quote_step :: "QuoteState \<Rightarrow> uchar \<Rightarrow> QuoteState" where
  "quote_step st ch = (let inside = (\<lambda>q. if ch = q then Closing q else if ch = backslash then Escaping q else QString q);
       outside = (if ch = apostrophe \<or> ch = quote then Opening ch else QNone) in
     case st of
       QNone \<Rightarrow> outside
     | Closing _ \<Rightarrow> outside
     | QString q \<Rightarrow> inside q
     | Opening q \<Rightarrow> inside q
     | Escaped q \<Rightarrow> inside q
     | Escaping q \<Rightarrow> Escaped q)"

fun quote_states :: "QuoteState \<Rightarrow> chars \<Rightarrow> (QuoteState \<times> nat \<times> uchar) list" where
  "quote_states st [] = []"
| "quote_states st ((i, c) # cs) = (let st = quote_step st c in (st, i, c) # quote_states st cs)"

definition quote_state_char_indices :: "ustring \<Rightarrow> (QuoteState \<times> nat \<times> uchar) list" where
  "quote_state_char_indices s = quote_states QNone (char_indices 0 s)"

definition is_closing :: "QuoteState \<Rightarrow> bool" where
  "is_closing st = (case st of Closing _ \<Rightarrow> True | _ \<Rightarrow> False)"

fun closing_index :: "(QuoteState \<times> nat \<times> uchar) list \<Rightarrow> (nat \<times> (QuoteState \<times> nat \<times> uchar) list) option" where
  "closing_index [] = None"
| "closing_index ((st, i, c) # xs) = (if is_closing st then Some (i, xs) else closing_index xs)"

text \<open>The next quoted range, and the items after it.\<close>

fun next_range :: "(QuoteState \<times> nat \<times> uchar) list \<Rightarrow>
    ((uchar \<times> nat \<times> nat) \<times> (QuoteState \<times> nat \<times> uchar) list) option" where
  "next_range [] = None"
| "next_range ((st, i, c) # xs) = (case st of
       QNone \<Rightarrow> next_range xs
     | Closing q \<Rightarrow> Some ((q, i, i), xs)
     | Opening q \<Rightarrow> map_option (\<lambda>(j, xs). ((q, i, j), xs)) (closing_index xs)
     | Escaping q \<Rightarrow> map_option (\<lambda>(j, xs). ((q, i, j), xs)) (closing_index xs)
     | Escaped q \<Rightarrow> map_option (\<lambda>(j, xs). ((q, i, j), xs)) (closing_index xs)
     | QString q \<Rightarrow> map_option (\<lambda>(j, xs). ((q, i, j), xs)) (closing_index xs))"

definition is_quoted :: "ustring \<Rightarrow> bool" where
  "is_quoted s = (case quote_state_char_indices s of
       (Opening _, _, _) # xs \<Rightarrow> (case closing_index xs of Some (_, rest) \<Rightarrow> rest = [] | None \<Rightarrow> False)
     | _ \<Rightarrow> False)"

section \<open>Comments\<close>

datatype CommentState = CNone | LineStart1 | LineStart2 | CLine | BlockStart1 | BlockStart2 | CBlock | BlockEnd1 | BlockEnd2

definition comment_step :: "CommentState \<Rightarrow> uchar \<Rightarrow> uchar option \<Rightarrow> CommentState" where
  "comment_step st ch next = (case st of
       CNone \<Rightarrow>
         if ch = chr CHR ''/'' then
           (if next = Some (chr CHR ''/'') then LineStart1 else if next = Some (chr CHR ''*'') then BlockStart1 else CNone)
         else CNone
     | LineStart1 \<Rightarrow> LineStart2
     | LineStart2 \<Rightarrow> CLine
     | CLine \<Rightarrow> if ch = newline then CNone else CLine
     | BlockStart1 \<Rightarrow> BlockStart2
     | BlockStart2 \<Rightarrow> CBlock
     | CBlock \<Rightarrow> if ch = chr CHR ''*'' \<and> next = Some (chr CHR ''/'') then BlockEnd1 else CBlock
     | BlockEnd1 \<Rightarrow> BlockEnd2
     | BlockEnd2 \<Rightarrow> CNone)"

fun comment_states :: "CommentState \<Rightarrow> chars \<Rightarrow> (CommentState \<times> nat \<times> uchar) list" where
  "comment_states st [] = []"
| "comment_states st ((i, c) # cs) = (let st = comment_step st c (peek cs) in (st, i, c) # comment_states st cs)"

definition comment_state_char_indices :: "ustring \<Rightarrow> (CommentState \<times> nat \<times> uchar) list" where
  "comment_state_char_indices s = comment_states CNone (char_indices 0 s)"

definition non_comment_chars :: "ustring \<Rightarrow> ustring" where
  "non_comment_chars s = map (\<lambda>(_, _, c). c) (filter (\<lambda>(st, _, _). st = CNone) (comment_state_char_indices s))"

definition trim_comments :: "ustring \<Rightarrow> ustring" where
  "trim_comments s = non_comment_chars s"

section \<open>The buffer\<close>

datatype WriteState = LineStart CommentState | WriteTokens CommentState | WriteString uchar

definition comment_state_of :: "WriteState \<Rightarrow> CommentState" where
  "comment_state_of st = (case st of LineStart c \<Rightarrow> c | WriteTokens c \<Rightarrow> c | WriteString _ \<Rightarrow> CNone)"

text \<open>An indent group is its flag \<open>skip_line\<close>.\<close>

record FormatBuffer =
  fb_w :: ustring
  fb_indents :: "bool list"
  fb_base_indent_len :: nat
  fb_tab_width :: nat
  fb_last_char :: "uchar option"
  fb_current_line_len :: nat
  fb_restrict_to_single_line :: bool
  fb_state :: WriteState

definition new_buffer :: "ustring \<Rightarrow> nat \<Rightarrow> FormatBuffer" where
  "new_buffer w tab_width = \<lparr>fb_w = w, fb_indents = [], fb_base_indent_len = 0, fb_tab_width = tab_width,
     fb_last_char = None, fb_current_line_len = 0, fb_restrict_to_single_line = False, fb_state = LineStart CNone\<rparr>"

definition level :: "FormatBuffer \<Rightarrow> nat" where
  "level b = length (filter HOL.Not (fb_indents b))"

definition current_indent_len :: "FormatBuffer \<Rightarrow> nat" where
  "current_indent_len b = level b * fb_tab_width b"

definition total_indent_len :: "FormatBuffer \<Rightarrow> nat" where
  "total_indent_len b = current_indent_len b + fb_base_indent_len b"

definition create_temp_buf :: "FormatBuffer \<Rightarrow> FormatBuffer" where
  "create_temp_buf b = (new_buffer [] (fb_tab_width b))\<lparr>
     fb_base_indent_len := total_indent_len b, fb_current_line_len := fb_current_line_len b,
     fb_last_char := fb_last_char b, fb_restrict_to_single_line := fb_restrict_to_single_line b,
     fb_state := (case fb_state b of WriteString ch \<Rightarrow> WriteString ch | st \<Rightarrow> LineStart (comment_state_of st))\<rparr>"

definition indent :: "nat \<Rightarrow> FormatBuffer \<Rightarrow> FormatBuffer" where
  "indent delta b = b\<lparr>fb_indents := fb_indents b @ replicate delta False\<rparr>"

definition dedent :: "nat \<Rightarrow> FormatBuffer \<Rightarrow> FormatBuffer option" where
  "dedent delta b = (if delta > length (fb_indents b) then None
     else Some (b\<lparr>fb_indents := take (length (fb_indents b) - delta) (fb_indents b)\<rparr>))"

definition last_indent_group_skipped :: "FormatBuffer \<Rightarrow> bool" where
  "last_indent_group_skipped b \<longleftrightarrow> fb_indents b \<noteq> [] \<and> last (fb_indents b)"

definition set_last_indent_group_skipped :: "bool \<Rightarrow> FormatBuffer \<Rightarrow> FormatBuffer" where
  "set_last_indent_group_skipped skip_line b =
     (if fb_indents b = [] then b else b\<lparr>fb_indents := butlast (fb_indents b) @ [skip_line]\<rparr>)"

definition restrict_to_single_line :: "bool \<Rightarrow> FormatBuffer \<Rightarrow> FormatBuffer" where
  "restrict_to_single_line restricted b = b\<lparr>fb_restrict_to_single_line := restricted\<rparr>"

definition is_beginning_of_line :: "FormatBuffer \<Rightarrow> bool" where
  "is_beginning_of_line b = (case fb_state b of LineStart _ \<Rightarrow> True | _ \<Rightarrow> False)"

definition start_group :: "FormatBuffer \<Rightarrow> FormatBuffer" where
  "start_group b = b\<lparr>fb_indents := fb_indents b @ [True]\<rparr>"

definition end_group :: "FormatBuffer \<Rightarrow> FormatBuffer" where
  "end_group b = b\<lparr>fb_indents := butlast (fb_indents b)\<rparr>"

definition handle_newline :: "CommentState \<Rightarrow> FormatBuffer \<Rightarrow> FormatBuffer" where
  "handle_newline comment_state b =
     (set_last_indent_group_skipped False (b\<lparr>fb_current_line_len := 0\<rparr>))\<lparr>fb_last_char := Some newline,
        fb_state := LineStart (if comment_state = CLine then CNone else comment_state)\<rparr>"

definition emit :: "ustring \<Rightarrow> FormatBuffer \<Rightarrow> FormatBuffer" where
  "emit s b = b\<lparr>fb_w := fb_w b @ s\<rparr>"

definition last_of :: "ustring \<Rightarrow> uchar option" where
  "last_of s = (if s = [] then None else Some (last s))"

text \<open>Text on the current line.\<close>

definition write_on_line :: "ustring \<Rightarrow> FormatBuffer \<Rightarrow> FormatBuffer" where
  "write_on_line s b = (emit s b)\<lparr>fb_current_line_len := fb_current_line_len b + str_len s, fb_last_char := last_of s\<rparr>"

text \<open>The next line break or quote outside of a comment.\<close>

datatype token_end = AllTokens CommentState | NewlineAt nat CommentState | QuoteAt nat uchar | Refused

fun scan_tokens :: "bool \<Rightarrow> CommentState \<Rightarrow> chars \<Rightarrow> token_end" where
  "scan_tokens restricted st [] = AllTokens st"
| "scan_tokens restricted st ((i, ch) # cs) =
     (let st = comment_step st ch (peek cs) in
      if ch = newline then (if restricted then Refused else NewlineAt i st)
      else if st = CNone \<and> (ch = apostrophe \<or> ch = quote) then QuoteAt i ch
      else scan_tokens restricted st cs)"

text \<open>The part of a text after its last line break.\<close>

definition after_newline :: "ustring \<Rightarrow> ustring option" where
  "after_newline s = (if newline \<in> set s then Some (rev (takeWhile (\<lambda>c. c \<noteq> newline) (rev s))) else None)"

text \<open>What one turn of the loop of \<open>write_str\<close> leaves: it ends with a result, or goes on.\<close>

datatype turn = Done bool FormatBuffer | Continue ustring ustring FormatBuffer

definition write_line_start :: "ustring \<Rightarrow> CommentState \<Rightarrow> ustring \<Rightarrow> FormatBuffer \<Rightarrow> turn" where
  "write_line_start spaces comment_state s b =
     (let head = takeWhile (\<lambda>c. c = newline) s; tail = dropWhile (\<lambda>c. c = newline) s in
      if tail = [] then
        Done True (if s \<noteq> [] then handle_newline comment_state (emit s b) else b)
      else
        (let b = (emit (head @ spaces) b)\<lparr>fb_current_line_len := 0, fb_last_char := Some 0x20\<rparr>;
             skipped = (head \<noteq> [] \<and> last_indent_group_skipped b);
             spaces' = (if skipped then replicate (current_indent_len b + fb_tab_width b) 0x20 else spaces);
             b = (if skipped then set_last_indent_group_skipped False b else b);
             comment_state' = (if head \<noteq> [] \<and> comment_state = CLine then CNone else comment_state)
         in Continue spaces' tail (b\<lparr>fb_state := WriteTokens comment_state'\<rparr>)))"

definition write_tokens :: "ustring \<Rightarrow> CommentState \<Rightarrow> ustring \<Rightarrow> FormatBuffer \<Rightarrow> turn option" where
  "write_tokens spaces comment_state s b =
     (if s = [] then Some (Done True b)
      else (case scan_tokens (fb_restrict_to_single_line b) comment_state (char_indices 0 s) of
         Refused \<Rightarrow> Some (Done False b)
       | AllTokens st \<Rightarrow> Some (Done True ((write_on_line s b)\<lparr>fb_state := WriteTokens st\<rparr>))
       | NewlineAt len st \<Rightarrow> do {
           (head, tail) \<leftarrow> split_bytes (len + 1) s;
           Some (Continue spaces tail (handle_newline st (emit head b))) }
       | QuoteAt len ch \<Rightarrow> do {
           (head, tail) \<leftarrow> split_bytes (len + 1) s;
           Some (Continue spaces tail ((write_on_line head b)\<lparr>fb_state := WriteString ch\<rparr>)) }))"

definition write_string :: "ustring \<Rightarrow> uchar \<Rightarrow> ustring \<Rightarrow> FormatBuffer \<Rightarrow> turn option" where
  "write_string spaces q s b =
     (case next_range (quote_states (QString q) (char_indices 0 s)) of
        None \<Rightarrow> Some (Done True (write_on_line s b))
      | Some ((_, _, len), _) \<Rightarrow> do {
          (head, tail) \<leftarrow> split_bytes (len + 1) s;
          (let b = emit head b;
               b = (case after_newline head of
                   Some last_line \<Rightarrow> (set_last_indent_group_skipped False b)\<lparr>fb_current_line_len := str_len last_line\<rparr>
                 | None \<Rightarrow> b\<lparr>fb_current_line_len := fb_current_line_len b + str_len head\<rparr>)
           in Some (Continue spaces tail (b\<lparr>fb_last_char := Some q, fb_state := WriteTokens CNone\<rparr>))) })"

definition write_turn :: "ustring \<Rightarrow> ustring \<Rightarrow> FormatBuffer \<Rightarrow> turn option" where
  "write_turn spaces s b = (case fb_state b of
       LineStart comment_state \<Rightarrow> Some (write_line_start spaces comment_state s b)
     | WriteTokens comment_state \<Rightarrow> write_tokens spaces comment_state s b
     | WriteString q \<Rightarrow> write_string spaces q s b)"

text \<open>Every turn but the first on a line takes a character.\<close>

lemma fb_state_simps [simp]: "fb_state (emit s b) = fb_state b" "fb_state (set_last_indent_group_skipped k b) = fb_state b"
  by (simp_all add: emit_def set_last_indent_group_skipped_def)

lemma split_bytes_length: "split_bytes n s = Some (a, b) \<Longrightarrow> s = a @ b \<and> (0 < n \<longrightarrow> length b < length s)"
proof (induction n s arbitrary: a b rule: split_bytes.induct)
  case (2 n c cs)
  show ?case
  proof (cases "n = 0")
    case False
    then obtain a' where "split_bytes (n - utf8_len c) cs = Some (a', b)" "a = c # a'" "utf8_len c \<le> n"
      using "2.prems" by (auto simp: Option.bind_eq_Some_conv split: if_splits)
    then show ?thesis using "2.IH" [of a' b] False by auto
  qed (use "2.prems" in auto)
qed (auto split: if_splits)

lemma write_line_start_Continue:
  assumes "dropWhile (\<lambda>c. c = newline) s \<noteq> []"
  shows "\<exists>spaces' b' cs. write_line_start spaces c s b = Continue spaces' (dropWhile (\<lambda>c. c = newline) s) b' \<and> fb_state b' = WriteTokens cs"
  unfolding write_line_start_def Let_def if_not_P [OF assms] turn.inject
  by (intro exI conjI, rule refl, rule refl, rule refl) simp

lemma write_turn_measure:
  assumes "write_turn spaces s b = Some (Continue spaces' s' b')"
  shows "2 * length s' + (if is_beginning_of_line b' then 1 else 0) < 2 * length s + (if is_beginning_of_line b then 1 else 0)"
proof (cases "fb_state b")
  case (LineStart c)
  then have c: "write_line_start spaces c s b = Continue spaces' s' b'" using assms by (simp add: write_turn_def)
  have ne: "dropWhile (\<lambda>c. c = newline) s \<noteq> []" using c by (auto simp: write_line_start_def simp del: dropWhile_eq_Nil_conv)
  have "s' = dropWhile (\<lambda>c. c = newline) s" "\<not> is_beginning_of_line b'"
    using write_line_start_Continue [OF ne, of spaces c b] c by (auto simp: is_beginning_of_line_def)
  then show ?thesis using LineStart length_dropWhile_le [of "\<lambda>c. c = newline" s] by (simp add: is_beginning_of_line_def)
next
  case (WriteTokens c)
  then have "write_tokens spaces c s b = Some (Continue spaces' s' b')" using assms by (simp add: write_turn_def)
  then obtain n a where "split_bytes (n + 1) s = Some (a, s')"
    by (auto simp: write_tokens_def Option.bind_eq_Some_conv split: if_splits token_end.splits)
  from conjunct2 [OF split_bytes_length [OF this]] have "length s' < length s" by simp
  then show ?thesis by simp
next
  case (WriteString q)
  then have "write_string spaces q s b = Some (Continue spaces' s' b')" using assms by (simp add: write_turn_def)
  then obtain n a where "split_bytes (n + 1) s = Some (a, s')"
    by (auto simp: write_string_def Let_def Option.bind_eq_Some_conv split: option.splits)
  from conjunct2 [OF split_bytes_length [OF this]] have "length s' < length s" by simp
  then show ?thesis by simp
qed

function write_loop :: "ustring \<Rightarrow> ustring \<Rightarrow> FormatBuffer \<Rightarrow> (bool \<times> FormatBuffer) option" where
  "write_loop spaces s b = (case write_turn spaces s b of
       None \<Rightarrow> None
     | Some (Done ok b) \<Rightarrow> Some (ok, b)
     | Some (Continue spaces s b) \<Rightarrow> write_loop spaces s b)"
  by pat_completeness auto
termination
proof (relation "measure (\<lambda>(spaces, s, b). 2 * length s + (if is_beginning_of_line b then 1 else 0))")
  show "((spaces', s', b'), (spaces, s, b)) \<in> measure (\<lambda>(spaces, s, b). 2 * length s + (if is_beginning_of_line b then 1 else 0))"
    if "write_turn spaces s b = Some x" "x = Continue spaces' s' b'" for spaces s b x spaces' s' b'
    using write_turn_measure that by auto
qed simp

declare write_loop.simps [simp del]

definition write_str :: "ustring \<Rightarrow> FormatBuffer \<Rightarrow> (bool \<times> FormatBuffer) option" where
  "write_str s b = (if s = [] then Some (True, b) else write_loop (replicate (current_indent_len b) 0x20) s b)"

text \<open>
  Raw text: the white space at the start of a line that the base indentation covers is dropped. The
  slice after it starts one byte behind the last white space character.
\<close>

definition raw_line_start :: "nat \<Rightarrow> CommentState \<Rightarrow> ustring \<Rightarrow> CommentState \<times> nat" where
  "raw_line_start base st line =
     (let dropped = takeWhile (\<lambda>(_, _, ch). is_whitespace ch) (take base (comment_states st (char_indices 0 line))) in
      if dropped = [] then (st, 0) else (let (st, i, _) = last dropped in (st, i + 1)))"

fun write_raw_lines :: "bool \<Rightarrow> CommentState \<Rightarrow> ustring list \<Rightarrow> FormatBuffer \<Rightarrow> (bool \<times> FormatBuffer) option" where
  "write_raw_lines ends_newline st [] b = Some (True, b)"
| "write_raw_lines ends_newline st (line # rest) b =
     (let (st, line_start) = raw_line_start (fb_base_indent_len b) st line in do {
        trimmed \<leftarrow> slice_from line line_start;
        (let b = (if trimmed \<noteq> [] then (write_on_line trimmed b)\<lparr>fb_state := WriteTokens st\<rparr> else b) in
         if rest \<noteq> [] \<or> ends_newline then
           if fb_restrict_to_single_line b then Some (False, b)
           else write_raw_lines ends_newline st rest (handle_newline st (emit [newline] b))
         else write_raw_lines ends_newline st rest b) })"

definition write_raw :: "ustring \<Rightarrow> FormatBuffer \<Rightarrow> (bool \<times> FormatBuffer) option" where
  "write_raw s b = write_raw_lines (s \<noteq> [] \<and> last s = newline) (comment_state_of (fb_state b)) (str_lines s) b"

section \<open>The scanner of comments\<close>

text \<open>A text made of code without slashes, of line comments with the line break after them, and of block comments.\<close>

datatype piece = Code ustring | LineComment ustring | BlockComment ustring

primrec piece_text :: "piece \<Rightarrow> ustring" where
  "piece_text (Code s) = s"
| "piece_text (LineComment s) = str ''//'' @ s @ [newline]"
| "piece_text (BlockComment s) = str ''/*'' @ s @ str ''*/''"

primrec piece_code :: "piece \<Rightarrow> ustring" where
  "piece_code (Code s) = s"
| "piece_code (LineComment s) = [newline]"
| "piece_code (BlockComment s) = []"

fun closes :: "ustring \<Rightarrow> bool" where
  "closes (c # d # s) \<longleftrightarrow> c = chr CHR ''*'' \<and> d = chr CHR ''/'' \<or> closes (d # s)"
| "closes _ \<longleftrightarrow> False"

text \<open>
  The comments the scanner follows: they are not empty, and something other than a slash comes after
  a block comment.
\<close>

fun followed :: "piece list \<Rightarrow> bool" where
  "followed [] \<longleftrightarrow> True"
| "followed (Code s # ps) \<longleftrightarrow> chr CHR ''/'' \<notin> set s \<and> followed ps"
| "followed (LineComment s # ps) \<longleftrightarrow> s \<noteq> [] \<and> newline \<notin> set s \<and> followed ps"
| "followed (BlockComment s # ps) \<longleftrightarrow> s \<noteq> [] \<and> \<not> closes (tl s) \<and>
     (case concat (map piece_text ps) of [] \<Rightarrow> True | c # _ \<Rightarrow> c \<noteq> chr CHR ''/'') \<and> followed ps"

definition kept :: "(CommentState \<times> nat \<times> uchar) list \<Rightarrow> ustring" where
  "kept xs = map (\<lambda>(_, _, c). c) (filter (\<lambda>(st, _, _). st = CNone) xs)"

lemma kept_simps [simp]: "kept [] = []" "kept ((st, i, c) # xs) = (if st = CNone then c # kept xs else kept xs)"
  by (simp_all add: kept_def)

definition scan :: "CommentState \<Rightarrow> nat \<Rightarrow> ustring \<Rightarrow> ustring" where
  "scan st n s = kept (comment_states st (char_indices n s))"

lemma scan_simps [simp]:
  "scan st n [] = []"
  "scan st n (c # s) = (let st' = comment_step st c (case s of [] \<Rightarrow> None | c # _ \<Rightarrow> Some c) in
     (if st' = CNone then [c] else []) @ scan st' (n + utf8_len c) s)"
  by (simp_all add: scan_def Let_def)

lemma scan_code: "chr CHR ''/'' \<notin> set s \<Longrightarrow> scan CNone n (s @ t) = s @ scan CNone (n + str_len s) t"
  by (induction s arbitrary: n) (auto simp: comment_step_def add.assoc)

lemma scan_line: "newline \<notin> set s \<Longrightarrow> scan CLine n (s @ newline # t) = newline # scan CNone (n + str_len s + 1) t"
  by (induction s arbitrary: n) (auto simp: comment_step_def add.assoc)

lemma scan_block: "\<not> closes s \<Longrightarrow> scan CBlock n (s @ str ''*/'' @ t) = scan BlockEnd2 (n + str_len s + 2) t"
proof (induction s arbitrary: n)
  case Nil
  show ?case by (simp add: str_def comment_step_def)
next
  case (Cons c s)
  have "\<not> closes s" using Cons.prems by (cases s) auto
  moreover have "\<not> (c = chr CHR ''*'' \<and> (case s @ str ''*/'' @ t of [] \<Rightarrow> None | c # _ \<Rightarrow> Some c) = Some (chr CHR ''/''))"
    using Cons.prems by (cases s) (auto simp: str_def)
  ultimately show ?case using Cons.IH [of "n + utf8_len c"] by (auto simp: comment_step_def add.assoc)
qed

lemma scan_after_block: "(case t of [] \<Rightarrow> True | c # _ \<Rightarrow> c \<noteq> chr CHR ''/'') \<Longrightarrow> scan BlockEnd2 n t = scan CNone n t"
  by (cases t) (auto simp: comment_step_def)

lemma scan_pieces: "followed ps \<Longrightarrow> scan CNone n (concat (map piece_text ps)) = concat (map piece_code ps)"
proof (induction ps arbitrary: n rule: followed.induct)
  case (2 s ps)
  then show ?case by (simp add: scan_code)
next
  case (3 s ps)
  then obtain c v where s: "s = c # v" by (cases s) auto
  then show ?case using 3 by (simp add: str_def comment_step_def scan_line)
next
  case (4 s ps)
  then obtain c v where s: "s = c # v" by (cases s) auto
  have "scan CBlock m (v @ str ''*/'' @ concat (map piece_text ps)) = concat (map piece_code ps)" for m
    using 4 s scan_block [of v m "concat (map piece_text ps)"] scan_after_block [of "concat (map piece_text ps)"] by simp
  then show ?case using s by (simp add: str_def comment_step_def)
qed simp

text \<open>
  C37: the scanner of the formatter drops exactly the comments of a text, if no comment is empty and no
  block comment is followed by a slash.
\<close>

theorem trim_comments_exact:
  assumes "followed ps"
  shows "trim_comments (concat (map piece_text ps)) = concat (map piece_code ps)"
  using scan_pieces [OF assms, of 0]
  by (simp add: trim_comments_def non_comment_chars_def comment_state_char_indices_def scan_def kept_def)

theorem trim_comments_exact_witness:
  "trim_comments (str ''a/*b*/c//d'' @ [newline] @ str ''e'') = str ''ac'' @ [newline] @ str ''e''"
  using trim_comments_exact [of "[Code (str ''a''), BlockComment (str ''b''), Code (str ''c''), LineComment (str ''d''), Code (str ''e'')]"]
  by (simp add: str_def)

text \<open>
  The scanner loses code after empty comments. After \<open>/**/\<close> it stays in the comment, and
  after an empty line comment it takes the next line for the comment; a comment right behind a block
  comment is taken for code.
\<close>

theorem empty_comment_swallows_code:
  "trim_comments (str ''a/**/b'') = str ''a'' \<and>
   trim_comments (str ''a//'' @ [newline] @ str ''b'' @ [newline] @ str ''c'') = str ''a'' @ [newline] @ str ''c'' \<and>
   trim_comments (str ''/*a*//*b*/c'') = str ''/*b*/c''"
  by (simp add: trim_comments_def non_comment_chars_def comment_state_char_indices_def comment_step_def str_def)

section \<open>What the buffer writes\<close>

text \<open>
  The reference: the text is copied character by character, and the indentation goes in front of the
  first character of every line that is not inside a string.
\<close>

definition after_line :: "CommentState \<Rightarrow> CommentState" where
  "after_line c = (if c = CLine then CNone else c)"

definition token_step :: "CommentState \<Rightarrow> uchar \<Rightarrow> uchar option \<Rightarrow> WriteState" where
  "token_step c ch next = (let c' = comment_step c ch next in
     if ch = newline then LineStart (after_line c')
     else if c' = CNone \<and> (ch = apostrophe \<or> ch = quote) then WriteString ch else WriteTokens c')"

definition reindent_step :: "ustring \<Rightarrow> WriteState \<times> QuoteState \<Rightarrow> uchar \<Rightarrow> uchar option \<Rightarrow> ustring \<times> WriteState \<times> QuoteState" where
  "reindent_step spaces = (\<lambda>(st, qs) ch next. case st of
       LineStart c \<Rightarrow>
         if ch = newline then ([ch], LineStart (after_line c), qs)
         else (spaces @ [ch], token_step c ch next, QString ch)
     | WriteTokens c \<Rightarrow> ([ch], token_step c ch next, QString ch)
     | WriteString q \<Rightarrow> (let qs' = quote_step qs ch in
         if is_closing qs' then ([ch], WriteTokens CNone, qs') else ([ch], WriteString q, qs')))"

fun reindent :: "ustring \<Rightarrow> WriteState \<times> QuoteState \<Rightarrow> ustring \<Rightarrow> ustring \<times> WriteState" where
  "reindent spaces st [] = ([], fst st)"
| "reindent spaces st (ch # s) =
     (let (out, st') = reindent_step spaces st ch (case s of [] \<Rightarrow> None | c # _ \<Rightarrow> Some c) in
      apfst ((@) out) (reindent spaces st' s))"

definition quote_start :: "WriteState \<Rightarrow> QuoteState" where
  "quote_start st = (case st of WriteString q \<Rightarrow> QString q | _ \<Rightarrow> QNone)"

definition reindented :: "ustring \<Rightarrow> WriteState \<Rightarrow> ustring \<Rightarrow> ustring \<times> WriteState" where
  "reindented spaces st s = reindent spaces (st, quote_start st) s"

lemma apfst_append [simp]: "apfst ((@) a) (apfst ((@) b) x) = apfst ((@) (a @ b)) x" "apfst ((@) []) x = x"
  by (simp_all add: apfst_def map_prod_def case_prod_unfold)

text \<open>The quote state only matters inside a string.\<close>

lemma reindent_quote: "(\<forall>q. st \<noteq> WriteString q) \<Longrightarrow> reindent spaces (st, qs) s = reindent spaces (st, qs') s"
proof (induction s arbitrary: st qs qs')
  case (Cons ch s)
  show ?case
  proof (cases st)
    case (LineStart c)
    then show ?thesis using Cons.IH [of "LineStart (after_line c)" qs qs'] by (simp add: reindent_step_def)
  qed (use Cons.prems in \<open>simp_all add: reindent_step_def\<close>)
qed simp

lemma reindented_QNone: "(\<forall>q. st \<noteq> WriteString q) \<Longrightarrow> reindent spaces (st, qs) s = reindented spaces st s"
  unfolding reindented_def by (rule reindent_quote)

lemma reindented_after_token:
  "reindent spaces (token_step c ch next, QString ch) s = reindented spaces (token_step c ch next) s"
  using reindented_QNone [of "token_step c ch next"]
  by (cases "token_step c ch next") (auto simp: reindented_def quote_start_def token_step_def Let_def split: if_splits)

lemma reindented_LineStart:
  "reindented spaces (LineStart c) s =
     (let head = takeWhile (\<lambda>c. c = newline) s; tail = dropWhile (\<lambda>c. c = newline) s; c' = (if head \<noteq> [] then after_line c else c) in
      if tail = [] then (s, LineStart c') else apfst ((@) (head @ spaces)) (reindented spaces (WriteTokens c') tail))"
proof (induction s arbitrary: c)
  case (Cons ch s)
  show ?case
  proof (cases "ch = newline")
    case True
    have "reindented spaces (LineStart c) (ch # s) = apfst ((@) [ch]) (reindented spaces (LineStart (after_line c)) s)"
      using True reindent_quote [of "LineStart (after_line c)" spaces "quote_start (LineStart c)" s "quote_start (LineStart (after_line c))"]
      by (simp add: reindented_def reindent_step_def)
    also have "\<dots> = (let head = takeWhile (\<lambda>c. c = newline) (ch # s); tail = dropWhile (\<lambda>c. c = newline) (ch # s) in
        if tail = [] then (ch # s, LineStart (after_line c)) else apfst ((@) (head @ spaces)) (reindented spaces (WriteTokens (after_line c)) tail))"
      unfolding Cons using True by (auto simp: Let_def after_line_def)
    finally show ?thesis using True by (simp add: Let_def)
  next
    case False
    then show ?thesis by (simp add: reindented_def reindent_step_def Let_def)
  qed
qed (simp add: reindented_def)

lemma reindented_WriteTokens:
  "reindented spaces (WriteTokens c) (ch # s) =
     apfst ((@) [ch]) (reindented spaces (token_step c ch (case s of [] \<Rightarrow> None | c # _ \<Rightarrow> Some c)) s)"
  using reindented_after_token [of spaces c ch] by (simp add: reindented_def [of spaces "WriteTokens c"] reindent_step_def)

definition ends_ok :: "ustring \<Rightarrow> ustring \<times> WriteState \<Rightarrow> nat \<Rightarrow> ustring \<Rightarrow> token_end \<Rightarrow> bool" where
  "ends_ok spaces r n s e = (case e of
      Refused \<Rightarrow> False
    | AllTokens c \<Rightarrow> r = (s, WriteTokens c)
    | NewlineAt i c \<Rightarrow> \<exists>a t. s = a @ newline # t \<and> i = n + str_len a \<and>
        r = apfst ((@) (a @ [newline])) (reindented spaces (LineStart (after_line c)) t)
    | QuoteAt i q \<Rightarrow> \<exists>a t. s = a @ q # t \<and> i = n + str_len a \<and> utf8_len q = 1 \<and>
        r = apfst ((@) (a @ [q])) (reindented spaces (WriteString q) t))"

lemma ends_ok_Cons:
  assumes "ends_ok spaces r (n + utf8_len ch) s e"
  shows "ends_ok spaces (apfst ((@) [ch]) r) n (ch # s) e"
proof (cases e)
  case (NewlineAt i c)
  then obtain a t where "s = a @ newline # t" "i = n + utf8_len ch + str_len a"
    "r = apfst ((@) (a @ [newline])) (reindented spaces (LineStart (after_line c)) t)" using assms by (auto simp: ends_ok_def)
  then show ?thesis unfolding ends_ok_def NewlineAt token_end.case by (intro exI [of _ "ch # a"] exI [of _ t]) simp
next
  case (QuoteAt i q)
  then obtain a t where "s = a @ q # t" "i = n + utf8_len ch + str_len a" "utf8_len q = 1"
    "r = apfst ((@) (a @ [q])) (reindented spaces (WriteString q) t)" using assms by (auto simp: ends_ok_def)
  then show ?thesis unfolding ends_ok_def QuoteAt token_end.case by (intro exI [of _ "ch # a"] exI [of _ t]) simp
qed (use assms in \<open>simp_all add: ends_ok_def\<close>)

lemma scan_tokens_reindented:
  "ends_ok spaces (reindented spaces (WriteTokens c) s) n s (scan_tokens False c (char_indices n s))"
proof (induction s arbitrary: c n)
  case Nil
  show ?case by (simp add: reindented_def ends_ok_def)
next
  case (Cons ch s)
  let ?c = "comment_step c ch (case s of [] \<Rightarrow> None | c # _ \<Rightarrow> Some c)"
  note r = reindented_WriteTokens [of spaces c ch s]
  consider (nl) "ch = newline" | (q) "ch \<noteq> newline" "?c = CNone" "ch = apostrophe \<or> ch = quote"
    | (go) "ch \<noteq> newline" "?c = CNone \<longrightarrow> \<not> (ch = apostrophe \<or> ch = quote)" by blast
  then show ?case
  proof cases
    case nl
    then show ?thesis using r by (auto simp: Let_def token_step_def ends_ok_def intro!: exI [of _ "[]"])
  next
    case q
    then have "utf8_len ch = 1" by auto
    then show ?thesis using q r by (auto simp: Let_def token_step_def ends_ok_def intro!: exI [of _ "[]"])
  next
    case go
    have "scan_tokens False c (char_indices n (ch # s)) = scan_tokens False ?c (char_indices (n + utf8_len ch) s)"
      using go by (auto simp: Let_def)
    moreover have "reindented spaces (WriteTokens c) (ch # s) = apfst ((@) [ch]) (reindented spaces (WriteTokens ?c) s)"
      using r go by (auto simp: token_step_def Let_def)
    ultimately show ?thesis using ends_ok_Cons [OF Cons.IH [of ?c "n + utf8_len ch"]] by (simp only:)
  qed
qed

text \<open>A string up to its closing quote.\<close>

definition quoting :: "QuoteState \<Rightarrow> bool" where
  "quoting qs = (case qs of QString _ \<Rightarrow> True | Escaping _ \<Rightarrow> True | Escaped _ \<Rightarrow> True | _ \<Rightarrow> False)"

definition quote_of :: "QuoteState \<Rightarrow> uchar" where
  "quote_of qs = (case qs of QString q \<Rightarrow> q | Escaping q \<Rightarrow> q | Escaped q \<Rightarrow> q | Opening q \<Rightarrow> q | Closing q \<Rightarrow> q | QNone \<Rightarrow> 0)"

lemma quote_step_quoting:
  assumes "quoting qs"
  shows "quote_of (quote_step qs ch) = quote_of qs" "is_closing (quote_step qs ch) \<or> quoting (quote_step qs ch)"
    "is_closing (quote_step qs ch) \<Longrightarrow> ch = quote_of qs"
  using assms by (cases qs; simp add: quoting_def quote_step_def quote_of_def is_closing_def Let_def split: if_splits)+

lemma closing_reindent:
  assumes "quoting qs"
  shows "case closing_index (quote_states qs (char_indices n s)) of
      None \<Rightarrow> reindent spaces (WriteString q, qs) s = (s, WriteString q)
    | Some (i, _) \<Rightarrow> \<exists>a t. s = a @ quote_of qs # t \<and> i = n + str_len a \<and>
        reindent spaces (WriteString q, qs) s = apfst ((@) (a @ [quote_of qs])) (reindented spaces (WriteTokens CNone) t)"
  using assms
proof (induction s arbitrary: n qs)
  case (Cons ch s)
  let ?qs = "quote_step qs ch"
  note step = quote_step_quoting [OF Cons.prems, of ch]
  show ?case
  proof (cases "is_closing ?qs")
    case True
    then show ?thesis using step(3) reindented_QNone [of "WriteTokens CNone" spaces ?qs s]
      by (auto simp: reindent_step_def Let_def intro!: exI [of _ "[]"])
  next
    case False
    then have q: "quoting ?qs" using step(2) by blast
    have r: "reindent spaces (WriteString q, qs) (ch # s) = apfst ((@) [ch]) (reindent spaces (WriteString q, ?qs) s)"
      using False by (simp add: reindent_step_def Let_def)
    have c: "closing_index (quote_states qs (char_indices n (ch # s))) = closing_index (quote_states ?qs (char_indices (n + utf8_len ch) s))"
      using False by (simp add: Let_def)
    show ?thesis
    proof (cases "closing_index (quote_states ?qs (char_indices (n + utf8_len ch) s))")
      case None
      then show ?thesis using Cons.IH [OF q, of "n + utf8_len ch"] unfolding r c by simp
    next
      case (Some p)
      obtain i xs where p: "p = (i, xs)" by fastforce
      obtain a t where "s = a @ quote_of qs # t" "i = n + utf8_len ch + str_len a"
        "reindent spaces (WriteString q, ?qs) s = apfst ((@) (a @ [quote_of qs])) (reindented spaces (WriteTokens CNone) t)"
        using Cons.IH [OF q, of "n + utf8_len ch"] Some p step(1) by auto
      then show ?thesis unfolding r c Some p option.case prod.case by (intro exI [of _ "ch # a"] exI [of _ t]) simp
    qed
  qed
qed simp

lemma next_range_closing:
  "quoting qs \<Longrightarrow> map_option (\<lambda>((_, _, i), _). i) (next_range (quote_states qs cs)) = map_option fst (closing_index (quote_states qs cs))"
proof (cases cs)
  case (Cons x cs')
  assume "quoting qs"
  obtain i c where x: "x = (i, c)" by fastforce
  from quote_step_quoting(2) [OF \<open>quoting qs\<close>, of c] show ?thesis
    by (cases "quote_step qs c") (auto simp: Cons x Let_def is_closing_def quoting_def option.map_comp comp_def case_prod_unfold)
qed simp

section \<open>The loop\<close>

text \<open>A buffer that is not restricted and whose last indent group is not skipped.\<close>

definition plain :: "FormatBuffer \<Rightarrow> bool" where
  "plain b \<longleftrightarrow> \<not> fb_restrict_to_single_line b \<and> \<not> last_indent_group_skipped b"

text \<open>What a turn leaves: more text written, and nothing else that the rest depends on.\<close>

definition wrote :: "ustring \<Rightarrow> WriteState \<Rightarrow> FormatBuffer \<Rightarrow> FormatBuffer \<Rightarrow> bool" where
  "wrote out st b b' \<longleftrightarrow> fb_w b' = fb_w b @ out \<and> fb_state b' = st \<and> fb_indents b' = fb_indents b \<and>
     fb_restrict_to_single_line b' = fb_restrict_to_single_line b \<and> fb_tab_width b' = fb_tab_width b"

lemma wrote_plain: "wrote out st b b' \<Longrightarrow> plain b \<Longrightarrow> plain b'"
  by (simp add: wrote_def plain_def last_indent_group_skipped_def)

lemma wrote_trans: "wrote out st b b' \<Longrightarrow> wrote out' st' b' b'' \<Longrightarrow> wrote (out @ out') st' b b''"
  by (simp add: wrote_def)

lemma set_last_plain: "plain b \<Longrightarrow> fb_indents (set_last_indent_group_skipped False b) = fb_indents b"
  by (cases "fb_indents b" rule: rev_cases) (auto simp: plain_def set_last_indent_group_skipped_def last_indent_group_skipped_def)

lemma emit_fields [simp]:
  "fb_w (emit s b) = fb_w b @ s" "fb_indents (emit s b) = fb_indents b"
  "fb_restrict_to_single_line (emit s b) = fb_restrict_to_single_line b" "fb_tab_width (emit s b) = fb_tab_width b"
  by (simp_all add: emit_def)

lemma set_last_fields [simp]:
  "fb_w (set_last_indent_group_skipped k b) = fb_w b" "fb_tab_width (set_last_indent_group_skipped k b) = fb_tab_width b"
  "fb_restrict_to_single_line (set_last_indent_group_skipped k b) = fb_restrict_to_single_line b"
  by (simp_all add: set_last_indent_group_skipped_def)

lemma plain_update [simp]:
  "plain (emit s b) = plain b" "plain (b\<lparr>fb_current_line_len := n\<rparr>) = plain b"
  by (simp_all add: plain_def last_indent_group_skipped_def)

lemma wrote_newline: "plain b \<Longrightarrow> wrote s (LineStart (after_line c)) b (handle_newline c (emit s b))"
  by (simp add: wrote_def handle_newline_def set_last_plain after_line_def)

lemma wrote_on_line: "wrote s st b ((write_on_line s b)\<lparr>fb_state := st\<rparr>)"
  by (simp add: wrote_def write_on_line_def)

text \<open>One turn follows the reference.\<close>

definition turn_ok :: "ustring \<Rightarrow> ustring \<Rightarrow> FormatBuffer \<Rightarrow> turn option \<Rightarrow> bool" where
  "turn_ok spaces s b r = (case r of
      None \<Rightarrow> False
    | Some (Done ok b') \<Rightarrow> ok \<and> wrote (fst (reindented spaces (fb_state b) s)) (snd (reindented spaces (fb_state b) s)) b b'
    | Some (Continue spaces' s' b') \<Rightarrow> spaces' = spaces \<and> (\<exists>out st. wrote out st b b' \<and>
        reindented spaces (fb_state b) s = apfst ((@) out) (reindented spaces st s')))"

lemma turn_ok_Continue:
  assumes "r = Some (Continue spaces s' b')" "wrote out st b b'"
    "reindented spaces (fb_state b) s = apfst ((@) out) (reindented spaces st s')"
  shows "turn_ok spaces s b r"
  using assms by (auto simp: turn_ok_def)

lemma turn_line_start:
  assumes "plain b" "fb_state b = LineStart c"
  shows "turn_ok spaces s b (write_turn spaces s b)"
proof (cases "dropWhile (\<lambda>c. c = newline) s = []")
  case True
  then have "takeWhile (\<lambda>c. c = newline) s = s" by (simp add: takeWhile_eq_all_conv)
  then have "reindented spaces (LineStart c) s = (s, LineStart (if s \<noteq> [] then after_line c else c))"
    using True reindented_LineStart [of spaces c s] by (simp only: Let_def) simp
  moreover have "write_turn spaces s b = Some (Done True (if s \<noteq> [] then handle_newline c (emit s b) else b))"
    using True assms(2) by (simp add: write_turn_def write_line_start_def Let_def del: dropWhile_eq_Nil_conv)
  ultimately show ?thesis using wrote_newline [OF assms(1)] assms(2) by (auto simp: turn_ok_def wrote_def)
next
  case False
  let ?head = "takeWhile (\<lambda>c. c = newline) s" and ?tail = "dropWhile (\<lambda>c. c = newline) s"
  let ?c = "if ?head \<noteq> [] then after_line c else c"
  have r: "reindented spaces (LineStart c) s = apfst ((@) (?head @ spaces)) (reindented spaces (WriteTokens ?c) ?tail)"
    using False reindented_LineStart [of spaces c s] by (simp add: Let_def del: dropWhile_eq_Nil_conv)
  define b' where "b' = (emit (?head @ spaces) b)\<lparr>fb_current_line_len := 0, fb_last_char := Some 0x20\<rparr>"
  have "\<not> last_indent_group_skipped b'" using assms(1) by (simp add: b'_def plain_def last_indent_group_skipped_def)
  moreover have "?c = (if ?head \<noteq> [] \<and> c = CLine then CNone else c)" by (simp add: after_line_def)
  ultimately have "write_turn spaces s b = Some (Continue spaces ?tail (b'\<lparr>fb_state := WriteTokens ?c\<rparr>))"
    unfolding write_turn_def assms(2) WriteState.case write_line_start_def Let_def if_not_P [OF False] b'_def [symmetric] by simp
  moreover have "wrote (?head @ spaces) (WriteTokens ?c) b (b'\<lparr>fb_state := WriteTokens ?c\<rparr>)" by (simp add: wrote_def b'_def)
  ultimately show ?thesis using r turn_ok_Continue unfolding assms(2) [symmetric] by blast
qed

lemma split_bytes_at: "utf8_len q = 1 \<Longrightarrow> split_bytes (str_len a + 1) (a @ q # t) = Some (a @ [q], t)"
  using split_bytes_append [of "a @ [q]" t] by simp

lemma turn_tokens:
  assumes "plain b" "fb_state b = WriteTokens c"
  shows "turn_ok spaces s b (write_turn spaces s b)"
proof (cases "s = []")
  case True
  then show ?thesis using assms(2) by (simp add: turn_ok_def write_turn_def write_tokens_def reindented_def wrote_def)
next
  case False
  have restr: "\<not> fb_restrict_to_single_line b" using assms(1) by (simp add: plain_def)
  have ok: "ends_ok spaces (reindented spaces (WriteTokens c) s) 0 s (scan_tokens False c (char_indices 0 s))"
    by (rule scan_tokens_reindented)
  show ?thesis
  proof (cases "scan_tokens False c (char_indices 0 s)")
    case (AllTokens c')
    then have "reindented spaces (WriteTokens c) s = (s, WriteTokens c')" using ok by (simp add: ends_ok_def)
    then show ?thesis using AllTokens False restr assms(2) wrote_on_line
      by (simp add: turn_ok_def write_turn_def write_tokens_def)
  next
    case (NewlineAt i c')
    then obtain a t where a: "s = a @ newline # t" "i = str_len a"
      "reindented spaces (WriteTokens c) s = apfst ((@) (a @ [newline])) (reindented spaces (LineStart (after_line c')) t)"
      using ok by (auto simp: ends_ok_def)
    have "write_turn spaces s b = Some (Continue spaces t (handle_newline c' (emit (a @ [newline]) b)))"
      using NewlineAt False restr assms(2) a(2) split_bytes_at [of newline a t] by (simp add: write_turn_def write_tokens_def a(1))
    then show ?thesis using wrote_newline [OF assms(1), of "a @ [newline]" c'] a(3) turn_ok_Continue unfolding assms(2) [symmetric] by blast
  next
    case (QuoteAt i q)
    then obtain a t where a: "s = a @ q # t" "i = str_len a" "utf8_len q = 1"
      "reindented spaces (WriteTokens c) s = apfst ((@) (a @ [q])) (reindented spaces (WriteString q) t)"
      using ok by (auto simp: ends_ok_def)
    have "write_turn spaces s b = Some (Continue spaces t ((write_on_line (a @ [q]) b)\<lparr>fb_state := WriteString q\<rparr>))"
      using QuoteAt False restr assms(2) a(2) split_bytes_at [OF a(3), of a t] by (simp add: write_turn_def write_tokens_def a(1))
    then show ?thesis using wrote_on_line [of "a @ [q]" "WriteString q" b] a(4) turn_ok_Continue unfolding assms(2) [symmetric] by blast
  qed (use ok in \<open>simp add: ends_ok_def\<close>)
qed

lemma turn_string:
  assumes "plain b" "fb_state b = WriteString q" "utf8_len q = 1"
  shows "turn_ok spaces s b (write_turn spaces s b)"
proof -
  let ?qs = "quote_states (QString q) (char_indices 0 s)"
  have q: "quoting (QString q)" "quote_of (QString q) = q" by (simp_all add: quoting_def quote_of_def)
  have r: "reindented spaces (WriteString q) s = reindent spaces (WriteString q, QString q) s"
    by (simp add: reindented_def quote_start_def)
  note closing = closing_reindent [OF q(1), where n = 0 and s = s and spaces = spaces and q = q] and range = next_range_closing [OF q(1), of "char_indices 0 s"]
  show ?thesis
  proof (cases "next_range ?qs")
    case None
    then have "reindented spaces (WriteString q) s = (s, WriteString q)" using closing range r by (auto split: option.splits)
    then show ?thesis using None assms(2) by (simp add: turn_ok_def write_turn_def write_string_def wrote_def write_on_line_def)
  next
    case (Some p)
    obtain k j i xs where p: "p = ((k, j, i), xs)" by (cases p) auto
    then obtain ys where "closing_index ?qs = Some (i, ys)" using Some range by (cases "closing_index ?qs") auto
    then obtain a t where a: "s = a @ q # t" "i = str_len a"
      "reindented spaces (WriteString q) s = apfst ((@) (a @ [q])) (reindented spaces (WriteTokens CNone) t)"
      using closing unfolding r q(2) by auto
    have "\<exists>b'. write_turn spaces s b = Some (Continue spaces t b') \<and> wrote (a @ [q]) (WriteTokens CNone) b b'"
      using Some p a(2) assms split_bytes_at [OF assms(3), of a t] set_last_plain [of "emit (a @ [q]) b"]
      by (simp add: write_turn_def write_string_def Let_def a(1) wrote_def split: option.splits)
    then show ?thesis using a(3) turn_ok_Continue unfolding assms(2) [symmetric] by blast
  qed
qed

text \<open>The quote of an open string is a quote character; the turns keep this.\<close>

definition quoted_ok :: "WriteState \<Rightarrow> bool" where
  "quoted_ok st = (case st of WriteString q \<Rightarrow> q = apostrophe \<or> q = quote | _ \<Rightarrow> True)"

lemma quoted_ok_turn:
  assumes "write_turn spaces s b = Some (Continue spaces' s' b')"
  shows "quoted_ok (fb_state b')"
proof (cases "fb_state b")
  case (LineStart c)
  then have c: "write_line_start spaces c s b = Continue spaces' s' b'" using assms by (simp add: write_turn_def)
  have ne: "dropWhile (\<lambda>c. c = newline) s \<noteq> []" using c by (auto simp: write_line_start_def simp del: dropWhile_eq_Nil_conv)
  show ?thesis using write_line_start_Continue [OF ne, of spaces c b] c by (auto simp: quoted_ok_def)
next
  case (WriteTokens c)
  have quote: "q = apostrophe \<or> q = quote" if "scan_tokens r c' cs = QuoteAt i q" for r c' cs i q
    using that by (induction r c' cs rule: scan_tokens.induct) (auto simp: Let_def split: if_splits)
  show ?thesis using assms WriteTokens quote
    by (auto simp: write_turn_def write_tokens_def quoted_ok_def handle_newline_def Option.bind_eq_Some_conv split: if_splits token_end.splits)
next
  case (WriteString q)
  then show ?thesis using assms
    by (auto simp: write_turn_def write_string_def quoted_ok_def Let_def Option.bind_eq_Some_conv split: option.splits)
qed

lemma write_turn_ok: "plain b \<Longrightarrow> quoted_ok (fb_state b) \<Longrightarrow> turn_ok spaces s b (write_turn spaces s b)"
proof (cases "fb_state b")
  case (WriteString q)
  assume "plain b" "quoted_ok (fb_state b)"
  then show ?thesis using turn_string [of b q] WriteString by (auto simp: quoted_ok_def)
qed (simp_all add: turn_line_start turn_tokens)

lemma write_loop_reindents:
  assumes "plain b" "quoted_ok (fb_state b)"
  shows "\<exists>b'. write_loop spaces s b = Some (True, b') \<and>
    wrote (fst (reindented spaces (fb_state b) s)) (snd (reindented spaces (fb_state b) s)) b b'"
  using assms
proof (induction spaces s b rule: write_loop.induct)
  case (1 spaces s b)
  note ok = write_turn_ok [OF "1.prems", of spaces s]
  show ?case
  proof (cases "write_turn spaces s b")
    case None
    then show ?thesis using ok by (simp add: turn_ok_def)
  next
    case (Some t)
    show ?thesis
    proof (cases t)
      case (Done r b')
      then show ?thesis using ok Some by (simp add: turn_ok_def write_loop.simps [of spaces s b])
    next
      case (Continue spaces' s' b')
      then obtain out st where step: "spaces' = spaces" "wrote out st b b'"
        "reindented spaces (fb_state b) s = apfst ((@) out) (reindented spaces st s')"
        using ok Some by (auto simp: turn_ok_def)
      have "plain b'" "quoted_ok (fb_state b')" "fb_state b' = st"
        using wrote_plain [OF step(2) "1.prems"(1)] quoted_ok_turn Some Continue step(2) by (auto simp: wrote_def)
      then show ?thesis using "1.IH" [OF Some Continue] wrote_trans [OF step(2)] Some Continue step(1,3)
        by (fastforce simp: write_loop.simps [of spaces s b] apfst_def map_prod_def case_prod_unfold)
    qed
  qed
qed



text \<open>With no indentation the text is unchanged, whatever the state it starts in.\<close>

lemma reindent_step_flat: "fst (reindent_step [] st ch next) = [ch]"
  by (cases "fst st") (auto simp: reindent_step_def case_prod_unfold Let_def)

lemma reindent_flat: "fst (reindent [] st s) = s"
  by (induction s arbitrary: st) (auto simp: case_prod_unfold Let_def reindent_step_flat)

text \<open>A buffer without indentation appends the text as it is.\<close>

lemma write_str_preserves:
  assumes "\<not> fb_restrict_to_single_line b" "fb_indents b = []" "quoted_ok (fb_state b)"
  shows "map_option (\<lambda>(ok, b'). (ok, fb_w b')) (write_str s b) = Some (True, fb_w b @ s)"
proof (cases "s = []")
  case True
  then show ?thesis by (simp add: write_str_def)
next
  case False
  have "plain b" "current_indent_len b = 0" using assms by (simp_all add: plain_def last_indent_group_skipped_def current_indent_len_def level_def)
  then show ?thesis using write_loop_reindents [of b "[]" s] assms(3) False
    by (auto simp: write_str_def wrote_def reindented_def reindent_flat)
qed

text \<open>
  What is written to a temporary buffer and then from there to the buffer it was made of comes out
  as if it had been written to that buffer directly; the first write never fails.
\<close>

theorem temp_buffer_transparent:
  assumes "\<not> fb_restrict_to_single_line b" "quoted_ok (fb_state b)"
  shows "\<exists>t. write_str s (create_temp_buf b) = Some (True, t) \<and> fb_w t = s \<and> write_str (fb_w t) b = write_str s b"
proof -
  have "quoted_ok (fb_state (create_temp_buf b))"
    using assms(2) by (cases "fb_state b") (simp_all add: create_temp_buf_def quoted_ok_def)
  moreover have "fb_w (create_temp_buf b) = []" "fb_indents (create_temp_buf b) = []"
    "fb_restrict_to_single_line (create_temp_buf b) = fb_restrict_to_single_line b"
    by (simp_all add: create_temp_buf_def new_buffer_def)
  ultimately show ?thesis using write_str_preserves [of "create_temp_buf b" s] assms(1) by auto
qed

theorem temp_buffer_transparent_witness:
  "\<exists>t. write_str (str ''a'' @ [newline] @ str ''b'') (create_temp_buf (indent 1 (new_buffer (str ''x'') 4))) = Some (True, t) \<and>
     fb_w t = str ''a'' @ [newline] @ str ''b'' \<and>
     write_str (fb_w t) (indent 1 (new_buffer (str ''x'') 4)) = write_str (str ''a'' @ [newline] @ str ''b'') (indent 1 (new_buffer (str ''x'') 4))"
  using temp_buffer_transparent [of "indent 1 (new_buffer (str ''x'') 4)" "str ''a'' @ [newline] @ str ''b''"]
  by (simp add: new_buffer_def indent_def quoted_ok_def)

end
