(* ===== verification/Spec2Isabelle.thy ===== *)
theory Spec2Isabelle
  imports StorageLayout Undefined ReachingTerm ConstfoldErrors StrengthErrors VectorSlice DeadStorage LexerRoundtrip Unescape StringFormat DocComment FmtText
begin

text \<open>
  A verification library for Solang, the Solidity compiler under \<open>src/\<close>: its lexer and
  documentation comments, its middle end (the part between the resolved program and the emission of
  LLVM code) and the text layer of its source formatter.

  The compiler reads a source file with the lexer (\<open>solang-parser/src/lexer.rs\<close>) and a
  generated parser, resolves names and types into a namespace (\<open>src/sema\<close>), lays out structs
  and contract storage, generates one control flow graph per function (\<open>src/codegen\<close>), checks
  and optimises every graph, and emits code. The library models these parts:

  \<^item> Shared vocabulary. Prelude: panics as \<open>None\<close>, vectors, ordered maps (the locale
    \<open>ordered_map\<close> is interpreted on association lists with
    \<open>swap_remove\<close>), decimal printing. Bigint: the locale of the crates outside the repository
    (the byte conversions of \<open>num_bigint\<close>, the hash functions), a parameter \<open>C\<close> of
    everything that calls them, interpreted on a concrete instance.
  \<^item> Ast (\<open>sema/ast.rs\<close>, \<open>codegen/mod.rs\<close>, \<open>diagnostics.rs\<close>): types,
    declarations, namespace, diagnostics, the expressions of a graph. Types and TypeNames
    (\<open>sema/types.rs\<close>): queries on types and their names; the signature name of an
    interface type determines the type. Sizes: sizes and alignments, Soroban width rounding.
  \<^item> StorageLayout (\<open>struct_offsets\<close>, \<open>contract_bases\<close>, \<open>layout\<close>): variables
    and struct fields get disjoint, aligned ranges, and the layout has exactly the variables of the
    contract and its bases.
  \<^item> Symtable (\<open>sema/symtable.rs\<close> and the scopes of \<open>sema/expression/mod.rs\<close>):
    declarations, lookups, scopes.
  \<^item> StringFormat (\<open>sema/format.rs\<close>): format strings, over resolved arguments; a printed format
    is read back and its arguments are checked against their places.
  \<^item> Exprs and Cfg (\<open>codegen/mod.rs\<close>, \<open>cfg.rs\<close>, \<open>vartable.rs\<close>): traversal,
    casts, instructions, blocks, the table of local variables. Semantics: the meaning of integer and
    boolean expressions, the specification the optimisations are measured against.
  \<^item> Reaching, ReachingSound, ReachingTerm (\<open>reaching_definitions.rs\<close>): the analysis,
    its soundness along every path and its termination for every order of the worklist.
  \<^item> Undefined (\<open>undefined_variable.rs\<close>): the check reports exactly the visited reads
    that an undefined definition reaches.
  \<^item> Constfold, ConstfoldFrame, ConstfoldSound, ConstfoldVars, ConstfoldPass, ConstfoldGraph,
    ConstfoldErrors (\<open>constant_folding.rs\<close>): folding keeps the value and type of expressions,
    the pass keeps the executions of a graph, and what it reports.
  \<^item> StrengthValue, StrengthReduce, StrengthSound, StrengthOps, StrengthErrors
    (\<open>strength_reduce\<close>): the known bits analysis is sound on unsigned operations and the cheaper
    operations have the same value; the cases in which the pass goes wrong are theorems too.
  \<^item> VectorSlice (\<open>vector_to_slice.rs\<close>): an allocation that is written through on some path
    never becomes a read-only slice, and only the types of constant allocations change.
  \<^item> DeadStorage (\<open>dead_storage.rs\<close>): the analysis of storage loads and stores and the
    elimination; what the pass may change, that a store which a return or a call can see is kept, and a
    loop whose store it removes.
  \<^item> Tokens, Lexer, LexerSound, LexerLossless, LexerRoundtrip (\<open>lexer.rs\<close>): the lexer
    ends and never panics on any input, loses nothing, and reads printed tokens back.
  \<^item> Unescape (\<open>sema/expression/strings.rs\<close>): the escapes of string literals, the literals that are
    valid and their bytes, and a literal of the lexer that stops the compiler.
  \<^item> Strings: the operations of the standard library on strings and byte offsets that the next two
    theories use. DocComment (\<open>doccomment.rs\<close>): documentation comments are split into tags; which
    comments of the lexer make it panic, and where the offsets of the tags point.
  \<^item> FmtText (\<open>fmt/src/string.rs\<close>, \<open>comments.rs\<close>, \<open>buffer.rs\<close>): the
    scanners for strings and comments and the indenting buffer of the formatter; what the buffer writes
    is the text with the indentation at the lines that start outside of a string.

  State is passed explicitly: a function that changes the namespace, a graph or the lexer returns
  the new one. A panic, a failed assertion and an index out of range are \<open>None\<close>; an error
  that the compiler reports is a diagnostic in the namespace or an entry in the list of lexical
  errors.

  Parameters. The iteration order of hash sets and hash maps is a parameter (\<open>pick\<close>,
  \<open>ins\<close>, \<open>order\<close>) and the theorems hold for every order. The tables of identifier
  characters are the parameter \<open>U\<close>, constrained by the locale \<open>unicode_tables\<close> to
  ASCII on the first 128 characters where a theorem needs it.

  Fuel and termination. Functions on types that follow struct fields
  (names ending in \<open>_fuel\<close>) take fuel, as a struct may contain itself; so does the comparison of storage slots, which follows
  definitions that may be circular; the worklist iteration is
  a \<open>partial_function\<close> whose termination is a theorem; the lexer and the loop of the
  formatting buffer are total, as every round takes a character or leaves the start of a line.

  Not modelled: the parser (generated from a grammar by a tool outside the repository), the rest of
  semantic analysis, code generation from the resolved tree, the emission of LLVM code, the
  linkers, the visitor of the formatter and its comment metadata, the command line and the language
  server; the printing of graphs and of diagnostics. They need trees, libraries and files that the
  model does not have. The next parts to model are the remaining pass (common subexpression
  elimination) and the evaluation of constant expressions.
\<close>

end
